(* ===== verification/Prelude.thy ===== *)
theory Prelude
  imports Main "HOL-Library.Word" "HOL-Library.Code_Target_Nat" "HOL-Library.Char_ord" "HOL-Library.List_Lexorder" "HOL-Library.Sublist"
begin

text \<open>
  What every component of the development shares: the result type with the combinators of Rust's
  \<open>Result\<close> and \<open>Option\<close>, decimal printing of integers, the ASCII classes of bytes, and the string
  operations of the standard library that the components use. A Rust \<open>String\<close> is its UTF-8 byte
  sequence, an Isabelle \<^typ>\<open>string\<close> is a list of 8-bit characters, so \<open>length\<close> is \<open>str::len\<close> and the
  order on strings (bytewise lexicographic, from \<open>List_Lexorder\<close> and \<open>Char_ord\<close>) is \<open>Ord for str\<close>.
  The collections \<open>result_simps\<close> and \<open>ascii_simps\<close> hold the equations that unfold the combinators
  and the character classes.
\<close>

named_theorems result_simps "equations of the Result combinators"
named_theorems ascii_simps "definitions of the ASCII character classes"

type_synonym u8 = "8 word"
type_synonym u16 = "16 word"
type_synonym u32 = "32 word"
type_synonym u64 = "64 word"
type_synonym u128 = "128 word"

subsection \<open>Results\<close>

text \<open>\<open>Result<T, E>\<close> is \<open>'e + 'a\<close> with \<open>Inl\<close> for \<open>Err\<close>; \<open>and_then\<close> is what the operator \<open>?\<close> does.\<close>

fun and_then :: "'e + 'a \<Rightarrow> ('a \<Rightarrow> 'e + 'b) \<Rightarrow> 'e + 'b" where
  "and_then (Inl e) f = Inl e"
| "and_then (Inr x) f = f x"

fun map_err :: "('e \<Rightarrow> 'f) \<Rightarrow> 'e + 'a \<Rightarrow> 'f + 'a" where
  "map_err f (Inl e) = Inl (f e)"
| "map_err f (Inr x) = Inr x"

fun ok_or :: "'e \<Rightarrow> 'a option \<Rightarrow> 'e + 'a" where
  "ok_or e None = Inl e"
| "ok_or e (Some x) = Inr x"

fun is_ok :: "'e + 'a \<Rightarrow> bool" where
  "is_ok (Inl e) = False"
| "is_ok (Inr x) = True"

text \<open>\<open>iter.map(f).collect::<Result<Vec<_>, _>>()\<close>: the first error, or every value in order.\<close>

fun collect_map :: "('a \<Rightarrow> 'e + 'b) \<Rightarrow> 'a list \<Rightarrow> 'e + 'b list" where
  "collect_map f [] = Inr []"
| "collect_map f (x # xs) = and_then (f x) (\<lambda>y. and_then (collect_map f xs) (\<lambda>ys. Inr (y # ys)))"

text \<open>A \<open>for\<close> loop whose body may return an error, threading a state.\<close>

fun try_fold :: "('s \<Rightarrow> 'a \<Rightarrow> 'e + 's) \<Rightarrow> 's \<Rightarrow> 'a list \<Rightarrow> 'e + 's" where
  "try_fold f s [] = Inr s"
| "try_fold f s (x # xs) = and_then (f s x) (\<lambda>s'. try_fold f s' xs)"

lemma and_then_Inr [result_simps]: "and_then r f = Inr y \<longleftrightarrow> (\<exists>x. r = Inr x \<and> f x = Inr y)"
  by (cases r) auto

lemma and_then_Inl [result_simps]:
  "and_then r f = Inl e \<longleftrightarrow> r = Inl e \<or> (\<exists>x. r = Inr x \<and> f x = Inl e)"
  by (cases r) auto

lemma map_err_Inr [result_simps]: "map_err f r = Inr y \<longleftrightarrow> r = Inr y"
  by (cases r) auto

lemma map_err_Inl [result_simps]: "map_err f r = Inl e \<longleftrightarrow> (\<exists>x. r = Inl x \<and> e = f x)"
  by (cases r) auto

lemma ok_or_Inr [result_simps]: "ok_or e x = Inr y \<longleftrightarrow> x = Some y"
  by (cases x) auto

lemma ok_or_Inl [result_simps]: "ok_or e x = Inl e' \<longleftrightarrow> x = None \<and> e' = e"
  by (cases x) auto

lemma is_ok_iff [result_simps]: "is_ok r \<longleftrightarrow> (\<exists>x. r = Inr x)"
  by (cases r) auto

lemma collect_map_Inr [result_simps]:
  "collect_map f xs = Inr ys \<longleftrightarrow> list_all2 (\<lambda>x y. f x = Inr y) xs ys"
  by (induction xs arbitrary: ys) (auto simp: result_simps list_all2_Cons1)

lemma collect_map_ok: "(\<And>x. x \<in> set xs \<Longrightarrow> f x = Inr (g x)) \<Longrightarrow> collect_map f xs = Inr (map g xs)"
  by (induction xs) auto

lemma collect_map_Inl:
  "collect_map f xs = Inl e \<longleftrightarrow>
   (\<exists>us x vs. xs = us @ x # vs \<and> f x = Inl e \<and> (\<forall>u \<in> set us. is_ok (f u)))"
proof (induction xs)
  case Nil
  then show ?case by simp
next
  case (Cons x xs)
  show ?case
  proof (cases "f x")
    case (Inl e')
    show ?thesis
    proof
      assume "collect_map f (x # xs) = Inl e"
      with Inl have "x # xs = [] @ x # xs \<and> f x = Inl e \<and> (\<forall>u \<in> set []. is_ok (f u))" by simp
      then show "\<exists>us z vs. x # xs = us @ z # vs \<and> f z = Inl e \<and> (\<forall>u \<in> set us. is_ok (f u))"
        by blast
    next
      assume "\<exists>us z vs. x # xs = us @ z # vs \<and> f z = Inl e \<and> (\<forall>u \<in> set us. is_ok (f u))"
      with Inl show "collect_map f (x # xs) = Inl e"
        by (auto simp: Cons_eq_append_conv)
    qed
  next
    case (Inr y)
    have "collect_map f (x # xs) = Inl e \<longleftrightarrow> collect_map f xs = Inl e"
      using Inr by (cases "collect_map f xs") auto
    also have "\<dots> \<longleftrightarrow> (\<exists>us z vs. x # xs = us @ z # vs \<and> f z = Inl e \<and> (\<forall>u \<in> set us. is_ok (f u)))"
      (is "_ \<longleftrightarrow> ?R")
    proof
      assume "collect_map f xs = Inl e"
      then obtain us z vs where "xs = us @ z # vs" "f z = Inl e" "\<forall>u \<in> set us. is_ok (f u)"
        unfolding Cons.IH by blast
      then have "x # xs = (x # us) @ z # vs \<and> f z = Inl e \<and> (\<forall>u \<in> set (x # us). is_ok (f u))"
        using Inr by simp
      then show ?R by blast
    next
      assume ?R
      then obtain us z vs where h: "x # xs = us @ z # vs" "f z = Inl e" "\<forall>u \<in> set us. is_ok (f u)"
        by blast
      then obtain us' where "us = x # us'" using Inr by (cases us) auto
      with h show "collect_map f xs = Inl e" unfolding Cons.IH by auto
    qed
    finally show ?thesis .
  qed
qed

lemma try_fold_append [simp]:
  "try_fold f s (xs @ ys) = and_then (try_fold f s xs) (\<lambda>s'. try_fold f s' ys)"
proof (induction xs arbitrary: s)
  case Nil
  then show ?case by simp
next
  case (Cons x xs)
  then show ?case by (cases "f s x") auto
qed

text \<open>An invariant of every step of a fallible loop holds of its result.\<close>

lemma try_fold_inv:
  assumes "try_fold f s xs = Inr s'" and "P s"
    and "\<And>s x s'. P s \<Longrightarrow> x \<in> set xs \<Longrightarrow> f s x = Inr s' \<Longrightarrow> P s'"
  shows "P s'"
  using assms
proof (induction xs arbitrary: s)
  case Nil
  then show ?case by simp
next
  case (Cons x xs)
  from Cons.prems(1) obtain t where t: "f s x = Inr t" "try_fold f t xs = Inr s'"
    by (auto simp: result_simps)
  show ?case
  proof (rule Cons.IH [OF t(2)])
    show "P t" using Cons.prems(2,3) t(1) by auto
    show "\<And>s y s'. P s \<Longrightarrow> y \<in> set xs \<Longrightarrow> f s y = Inr s' \<Longrightarrow> P s'"
      using Cons.prems(3) by auto
  qed
qed

subsection \<open>The first match\<close>

lemma find_append: "List.find P (xs @ ys) = (case List.find P xs of None \<Rightarrow> List.find P ys | Some x \<Rightarrow> Some x)"
  by (induction xs) auto

lemma find_member: "List.find P xs = Some x \<Longrightarrow> x \<in> set xs \<and> P x"
  by (auto simp: find_Some_iff)

lemma find_unique:
  "distinct (map k xs) \<Longrightarrow> List.find (\<lambda>x. k x = a) xs = Some x \<longleftrightarrow> x \<in> set xs \<and> k x = a"
  by (induction xs) auto

end
