(* ===== verification/Rust_Str.thy ===== *)
theory Rust_Str
  imports Prelude
begin

text \<open>
  The string operations of the Rust standard library that the program uses, on UTF-8 byte strings:
  ASCII classes and case folding, decimal and hexadecimal printing and parsing of integers,
  \<open>split\<close>, \<open>split_once\<close>, \<open>strip_prefix\<close>, \<open>join\<close>, \<open>contains\<close>, \<open>trim\<close> (Unicode white space) and the
  character count. Every lemma here is about the standard library, so the theory maps to no code of
  the repository; the components import it.
\<close>

subsection \<open>Bytes and ASCII classes\<close>

definition byte :: "char \<Rightarrow> nat" where
  "byte c = of_char c"

lemma byte_less: "byte c < 256"
  by (simp add: byte_def)

lemma byte_inject [simp]: "byte a = byte b \<longleftrightarrow> a = b"
  by (simp add: byte_def)

lemma char_of_byte [simp]: "char_of (byte c) = c"
  by (simp add: byte_def)

lemma byte_char_of [simp]: "n < 256 \<Longrightarrow> byte (char_of n) = n"
  by (simp add: byte_def)

definition is_digit :: "char \<Rightarrow> bool" where
  [ascii_simps]: "is_digit c \<longleftrightarrow> 48 \<le> byte c \<and> byte c \<le> 57"
definition is_lower :: "char \<Rightarrow> bool" where
  [ascii_simps]: "is_lower c \<longleftrightarrow> 97 \<le> byte c \<and> byte c \<le> 122"
definition is_upper :: "char \<Rightarrow> bool" where
  [ascii_simps]: "is_upper c \<longleftrightarrow> 65 \<le> byte c \<and> byte c \<le> 90"
definition is_alpha :: "char \<Rightarrow> bool" where
  [ascii_simps]: "is_alpha c \<longleftrightarrow> is_lower c \<or> is_upper c"
definition is_alnum :: "char \<Rightarrow> bool" where
  [ascii_simps]: "is_alnum c \<longleftrightarrow> is_alpha c \<or> is_digit c"
definition is_hexdigit :: "char \<Rightarrow> bool" where
  [ascii_simps]: "is_hexdigit c \<longleftrightarrow>
     is_digit c \<or> 97 \<le> byte c \<and> byte c \<le> 102 \<or> 65 \<le> byte c \<and> byte c \<le> 70"

definition lower :: "char \<Rightarrow> char" where
  "lower c = (if is_upper c then char_of (byte c + 32) else c)"

definition eq_ignore_case :: "string \<Rightarrow> string \<Rightarrow> bool" where
  "eq_ignore_case s t \<longleftrightarrow> map lower s = map lower t"

lemma eq_ignore_case_refl [simp]: "eq_ignore_case s s"
  by (simp add: eq_ignore_case_def)

lemma eq_ignore_case_sym: "eq_ignore_case s t \<longleftrightarrow> eq_ignore_case t s"
  by (auto simp: eq_ignore_case_def)

lemma eq_ignore_case_trans: "eq_ignore_case s t \<Longrightarrow> eq_ignore_case t u \<Longrightarrow> eq_ignore_case s u"
  by (simp add: eq_ignore_case_def)

subsection \<open>Decimal integers\<close>

definition digit :: "nat \<Rightarrow> char" where
  "digit d = char_of (48 + d)"

fun nat_str :: "nat \<Rightarrow> string" where
  "nat_str n = (if n < 10 then [digit n] else nat_str (n div 10) @ [digit (n mod 10)])"

declare nat_str.simps [simp del]

definition int_str :: "int \<Rightarrow> string" where
  "int_str i = (if i < 0 then CHR ''-'' # nat_str (nat (- i)) else nat_str (nat i))"

definition digits_val :: "string \<Rightarrow> nat" where
  "digits_val s = foldl (\<lambda>a c. 10 * a + (byte c - 48)) 0 s"

lemma byte_digit: "d < 10 \<Longrightarrow> byte (digit d) = 48 + d"
  by (simp add: digit_def)

lemma digits_val_snoc: "digits_val (s @ [c]) = 10 * digits_val s + (byte c - 48)"
  by (simp add: digits_val_def)

lemma digits_val_nat_str [simp]: "digits_val (nat_str n) = n"
proof (induction n rule: nat_str.induct)
  case (1 n)
  show ?case
  proof (cases "n < 10")
    case True
    then show ?thesis
      by (subst nat_str.simps) (simp add: digits_val_def byte_digit)
  next
    case False
    then have "digits_val (nat_str n) = 10 * (n div 10) + n mod 10"
      using "1" by (subst nat_str.simps) (simp add: digits_val_snoc byte_digit)
    then show ?thesis by simp
  qed
qed

lemma nat_str_inject [simp]: "nat_str m = nat_str n \<longleftrightarrow> m = n"
  by (metis digits_val_nat_str)

lemma nat_str_not_Nil [simp]: "nat_str n \<noteq> []"
  by (subst nat_str.simps) simp

lemma nat_str_digits: "c \<in> set (nat_str n) \<Longrightarrow> is_digit c"
proof (induction n rule: nat_str.induct)
  case (1 n)
  then show ?case
    by (cases "n < 10") (subst (asm) (2) nat_str.simps, auto simp: is_digit_def byte_digit)+
qed

lemma nat_str_no_minus: "CHR ''-'' \<notin> set (nat_str n)"
  using nat_str_digits [of "CHR ''-''" n] by (auto simp: is_digit_def byte_def)

lemma int_str_inject [simp]: "int_str i = int_str j \<longleftrightarrow> i = j"
proof -
  have no: "CHR ''-'' # s \<noteq> nat_str n" for s n
    using nat_str_no_minus [of n] by (metis list.set_intros(1))
  show ?thesis
    by (auto simp: int_str_def no no [symmetric])
qed

text \<open>Parsing decimal digits into an unsigned integer of \<open>w\<close> bits, as \<open>parse::<uN>\<close> does; the callers
  in the program have checked or trimmed their input as their code says. A leading \<open>+\<close> is accepted.\<close>

definition all_digits :: "string \<Rightarrow> bool" where
  "all_digits s \<longleftrightarrow> s \<noteq> [] \<and> list_all is_digit s"

definition parse_uint :: "nat \<Rightarrow> string \<Rightarrow> nat option" where
  "parse_uint w s =
     (let t = (case s of c # cs \<Rightarrow> if c = CHR ''+'' then cs else s | [] \<Rightarrow> s)
      in if all_digits t \<and> digits_val t < 2 ^ w then Some (digits_val t) else None)"

lemma all_digits_nat_str [simp]: "all_digits (nat_str n)"
  by (auto simp: all_digits_def list_all_iff dest: nat_str_digits)

lemma parse_uint_nat_str: "n < 2 ^ w \<Longrightarrow> parse_uint w (nat_str n) = Some n"
proof -
  assume n: "n < 2 ^ w"
  have "\<not> is_digit (CHR ''+'')"
    by (simp add: is_digit_def byte_def)
  then have "hd (nat_str n) \<noteq> CHR ''+''"
    using nat_str_digits [of "hd (nat_str n)" n] hd_in_set [OF nat_str_not_Nil] by metis
  then have "(case nat_str n of c # cs \<Rightarrow> if c = CHR ''+'' then cs else nat_str n | [] \<Rightarrow> nat_str n) = nat_str n"
    by (simp split: list.splits) (metis list.sel(1))
  then show ?thesis using n by (simp add: parse_uint_def)
qed

subsection \<open>Searching and splitting\<close>

fun strip_prefix :: "string \<Rightarrow> string \<Rightarrow> string option" where
  "strip_prefix [] s = Some s"
| "strip_prefix (p # ps) [] = None"
| "strip_prefix (p # ps) (c # cs) = (if p = c then strip_prefix ps cs else None)"

lemma strip_prefix_Some [simp]: "strip_prefix p s = Some t \<longleftrightarrow> s = p @ t"
  by (induction p s rule: strip_prefix.induct) auto

definition starts_with :: "string \<Rightarrow> string \<Rightarrow> bool" where
  "starts_with p s \<longleftrightarrow> strip_prefix p s \<noteq> None"

lemma starts_with_iff: "starts_with p s \<longleftrightarrow> (\<exists>t. s = p @ t)"
  by (auto simp: starts_with_def)

text \<open>\<open>split_once\<close> at a separator string: the text before and after its first occurrence.\<close>

fun split_once :: "string \<Rightarrow> string \<Rightarrow> (string \<times> string) option" where
  "split_once p [] = (if p = [] then Some ([], []) else None)"
| "split_once p (c # cs) =
     (case strip_prefix p (c # cs) of
        Some t \<Rightarrow> Some ([], t)
      | None \<Rightarrow> (case split_once p cs of None \<Rightarrow> None | Some (a, b) \<Rightarrow> Some (c # a, b)))"

lemma split_once_Some: "split_once p s = Some (a, b) \<Longrightarrow> s = a @ p @ b"
  by (induction p s arbitrary: a b rule: split_once.induct) (auto split: option.splits if_splits)

text \<open>\<open>str::split(char)\<close>: always at least one part.\<close>

fun split_on :: "char \<Rightarrow> string \<Rightarrow> string list" where
  "split_on sep [] = [[]]"
| "split_on sep (c # cs) =
     (if c = sep then [] # split_on sep cs
      else (case split_on sep cs of [] \<Rightarrow> [[c]] | p # ps \<Rightarrow> (c # p) # ps))"

lemma split_on_not_Nil [simp]: "split_on sep s \<noteq> []"
  by (cases s) (auto split: list.splits)

fun join :: "string \<Rightarrow> string list \<Rightarrow> string" where
  "join sep [] = []"
| "join sep [x] = x"
| "join sep (x # y # xs) = x @ sep @ join sep (y # xs)"

lemma split_on_free: "sep \<notin> set s \<Longrightarrow> split_on sep s = [s]"
  by (induction s) auto

lemma split_on_append: "sep \<notin> set s \<Longrightarrow> split_on sep (s @ sep # t) = s # split_on sep t"
  by (induction s) auto

lemma split_on_join: "xs \<noteq> [] \<Longrightarrow> (\<And>x. x \<in> set xs \<Longrightarrow> sep \<notin> set x) \<Longrightarrow> split_on sep (join [sep] xs) = xs"
  by (induction "[sep]" xs rule: join.induct) (auto simp: split_on_free split_on_append)

lemma split_on_parts: "p \<in> set (split_on sep s) \<Longrightarrow> sep \<notin> set p"
  by (induction sep s arbitrary: p rule: split_on.induct) (auto split: if_splits list.splits)

lemma join_split_on: "join [sep] (split_on sep s) = s"
proof (induction sep s rule: split_on.induct)
  case (1 sep)
  then show ?case by simp
next
  case (2 sep c cs)
  show ?case
  proof (cases "c = sep")
    case True
    with 2 show ?thesis by (cases "split_on sep cs") auto
  next
    case False
    with 2 show ?thesis
    proof (cases "split_on sep cs")
      case (Cons p ps)
      with 2 False show ?thesis by (cases ps) auto
    qed simp
  qed
qed

text \<open>\<open>HashSet::insert\<close> in a loop: the first element that was seen before.\<close>

fun first_repeat :: "'a list \<Rightarrow> 'a list \<Rightarrow> 'a option" where
  "first_repeat seen [] = None"
| "first_repeat seen (x # xs) = (if x \<in> set seen then Some x else first_repeat (x # seen) xs)"

lemma first_repeat_None: "first_repeat seen xs = None \<longleftrightarrow> distinct xs \<and> set xs \<inter> set seen = {}"
  by (induction seen xs rule: first_repeat.induct) auto

subsection \<open>White space and characters\<close>

text \<open>The UTF-8 encodings of the characters with the Unicode property \<open>White_Space\<close>.\<close>

definition ws_seqs :: "string list" where
  "ws_seqs = map (map (char_of :: nat \<Rightarrow> char))
     ([[9], [10], [11], [12], [13], [32], [194, 133], [194, 160], [225, 154, 128]]
      @ map (\<lambda>k. [226, 128, 128 + k]) [0..<11]
      @ [[226, 128, 168], [226, 128, 169], [226, 128, 175], [226, 129, 159], [227, 128, 128]])"

function trim_by :: "string list \<Rightarrow> string \<Rightarrow> string" where
  "trim_by ws s =
     (case List.find (\<lambda>w. w \<noteq> [] \<and> prefix w s) ws of
        None \<Rightarrow> s
      | Some w \<Rightarrow> trim_by ws (drop (length w) s))"
  by pat_completeness auto
termination
proof (relation "measure (\<lambda>(ws, s). length s)")
  fix ws :: "string list" and s w
  assume "List.find (\<lambda>w. w \<noteq> [] \<and> prefix w s) ws = Some w"
  then have "w \<noteq> []" "prefix w s"
    by (auto simp: find_Some_iff)
  then show "((ws, drop (length w) s), ws, s) \<in> measure (\<lambda>(ws, s). length s)"
    by (auto simp: prefix_def)
qed simp

declare trim_by.simps [simp del]

definition trim :: "string \<Rightarrow> string" where
  "trim s = rev (trim_by (map rev ws_seqs) (rev (trim_by ws_seqs s)))"

lemma trim_by_suffix: "suffix (trim_by ws s) s"
proof (induction ws s rule: trim_by.induct)
  case (1 ws s)
  show ?case
  proof (cases "List.find (\<lambda>w. w \<noteq> [] \<and> prefix w s) ws")
    case None
    then show ?thesis by (subst trim_by.simps) simp
  next
    case (Some w)
    then have "suffix (trim_by ws (drop (length w) s)) s"
      using "1" by (metis suffix_drop suffix_order.trans)
    with Some show ?thesis by (subst trim_by.simps) simp
  qed
qed

lemma trim_by_idem: "trim_by ws (trim_by ws s) = trim_by ws s"
proof (induction ws s rule: trim_by.induct)
  case (1 ws s)
  show ?case
  proof (cases "List.find (\<lambda>w. w \<noteq> [] \<and> prefix w s) ws")
    case None
    then have "trim_by ws s = s" by (subst trim_by.simps) simp
    then show ?thesis by simp
  next
    case (Some w)
    then have "trim_by ws s = trim_by ws (drop (length w) s)" by (subst trim_by.simps) simp
    with Some "1" show ?thesis by simp
  qed
qed

text \<open>Text that starts and ends with a printable ASCII character is trimmed already.\<close>

lemma ws_seqs_ends:
  "list_all (\<lambda>w. w \<noteq> [] \<and> \<not> (33 \<le> byte (hd w) \<and> byte (hd w) \<le> 126) \<and>
     \<not> (33 \<le> byte (last w) \<and> byte (last w) \<le> 126)) ws_seqs"
  by code_simp

lemma trim_by_none:
  assumes "\<forall>w \<in> set ws. w \<noteq> [] \<longrightarrow> hd w \<noteq> hd s" and "s \<noteq> []"
  shows "trim_by ws s = s"
proof -
  have "\<not> (w \<noteq> [] \<and> prefix w s)" if "w \<in> set ws" for w
    using assms that by (cases w; cases s) auto
  then have "List.find (\<lambda>w. w \<noteq> [] \<and> prefix w s) ws = None" by (auto simp: find_None_iff)
  then show ?thesis by (subst trim_by.simps) simp
qed

lemma trim_ascii:
  assumes "s \<noteq> []" "33 \<le> byte (hd s)" "byte (hd s) \<le> 126" "33 \<le> byte (last s)" "byte (last s) \<le> 126"
  shows "trim s = s"
proof -
  have ws: "w \<noteq> [] \<and> \<not> (33 \<le> byte (hd w) \<and> byte (hd w) \<le> 126) \<and> \<not> (33 \<le> byte (last w) \<and> byte (last w) \<le> 126)"
    if "w \<in> set ws_seqs" for w
    using ws_seqs_ends that by (auto simp: list_all_iff)
  have "trim_by ws_seqs s = s"
    by (rule trim_by_none) (use ws assms in metis, rule assms(1))
  moreover have "trim_by (map rev ws_seqs) (rev s) = rev s"
  proof (rule trim_by_none)
    show "\<forall>w \<in> set (map rev ws_seqs). w \<noteq> [] \<longrightarrow> hd w \<noteq> hd (rev s)"
    proof (intro ballI impI)
      fix w assume "w \<in> set (map rev ws_seqs)" "w \<noteq> []"
      then obtain v where v: "v \<in> set ws_seqs" "w = rev v" by auto
      with ws [OF v(1)] assms show "hd w \<noteq> hd (rev s)" by (auto simp: hd_rev)
    qed
  qed (simp add: assms(1))
  ultimately show ?thesis by (simp add: trim_def)
qed

text \<open>\<open>chars().count()\<close>: the bytes that do not continue a character.\<close>

definition is_continuation :: "char \<Rightarrow> bool" where
  "is_continuation c \<longleftrightarrow> 128 \<le> byte c \<and> byte c < 192"

definition char_count :: "string \<Rightarrow> nat" where
  "char_count s = length (filter (\<lambda>c. \<not> is_continuation c) s)"

lemma char_count_le: "char_count s \<le> length s"
  by (simp add: char_count_def)

definition nul :: char where
  "nul = char_of (0 :: nat)"

subsection \<open>Hexadecimal\<close>

definition hex_val :: "char \<Rightarrow> nat" where
  "hex_val c = (if is_digit c then byte c - 48 else if is_lower c then byte c - 87 else byte c - 55)"

definition hex_digit :: "nat \<Rightarrow> char" where
  "hex_digit n = (if n < 10 then char_of (48 + n) else char_of (87 + n))"

fun hex_str :: "nat \<Rightarrow> string" where
  "hex_str n = (if n < 16 then [hex_digit n] else hex_str (n div 16) @ [hex_digit (n mod 16)])"

declare hex_str.simps [simp del]

lemma hex_val_digit: "n < 16 \<Longrightarrow> hex_val (hex_digit n) = n"
  by (auto simp: hex_val_def hex_digit_def ascii_simps)

lemma hex_digit_is_hexdigit: "n < 16 \<Longrightarrow> is_hexdigit (hex_digit n)"
  by (auto simp: hex_digit_def ascii_simps)

lemma hex_digit_val: "is_hexdigit c \<Longrightarrow> hex_digit (hex_val c) = lower c"
proof -
  assume c: "is_hexdigit c"
  have "byte (hex_digit (hex_val c)) = byte (lower c)"
    using c byte_less [of c] by (auto simp: hex_val_def hex_digit_def lower_def ascii_simps)
  then show ?thesis by simp
qed

lemma hex_val_less: "is_hexdigit c \<Longrightarrow> hex_val c < 16"
  by (auto simp: hex_val_def ascii_simps)

lemma hex_val_lower: "is_hexdigit c \<Longrightarrow> hex_val (lower c) = hex_val c"
  using byte_less [of c] by (auto simp: hex_val_def lower_def ascii_simps)

lemma is_hexdigit_lower: "is_hexdigit c \<Longrightarrow> is_hexdigit (lower c)"
  using byte_less [of c] by (auto simp: lower_def ascii_simps)

subsection \<open>Replacing and quoting\<close>

text \<open>\<open>str::replace\<close> for a pattern that is not empty: leftmost matches that do not overlap.\<close>

function replace_all :: "string \<Rightarrow> string \<Rightarrow> string \<Rightarrow> string" where
  "replace_all p r s =
     (case s of
        [] \<Rightarrow> []
      | c # cs \<Rightarrow>
          (case strip_prefix p s of
             Some t \<Rightarrow> if p = [] then s else r @ replace_all p r t
           | None \<Rightarrow> c # replace_all p r cs))"
  by pat_completeness auto
termination
  by (relation "measure (\<lambda>(p, r, s). length s)") auto

declare replace_all.simps [simp del]

lemma replace_all_Nil [simp]: "replace_all p r [] = []"
  by (subst replace_all.simps) simp

lemma replace_all_char: "replace_all [c] [d] s = map (\<lambda>x. if x = c then d else x) s"
proof (induction s)
  case (Cons x s)
  then show ?case by (subst replace_all.simps) (auto split: option.splits)
qed simp

text \<open>The quoting of \<open>{:?}\<close> for ASCII text; bytes above are taken to be printable.\<close>

definition debug_char :: "char \<Rightarrow> string" where
  "debug_char c =
     (let b = byte c; bs = char_of (92 :: nat) in
      if b = 0 then [bs, CHR ''0''] else if b = 9 then [bs, CHR ''t''] else if b = 10 then [bs, CHR ''n'']
      else if b = 13 then [bs, CHR ''r''] else if b = 34 \<or> b = 92 then [bs, c]
      else if b < 32 \<or> b = 127 then [bs, CHR ''u'', CHR ''{''] @ hex_str b @ [CHR ''}'']
      else [c])"

definition debug_str :: "string \<Rightarrow> string" where
  "debug_str s = [char_of (34 :: nat)] @ concat (map debug_char s) @ [char_of (34 :: nat)]"

end
