(* ===== verification/App_Error.thy ===== *)
theory App_Error
  imports Rust_Str
begin

text \<open>
  \<open>crates/model/src/error.rs\<close>: the error type every fallible operation returns, its display, the HTTP
  status and body a client sees for it, and the conversion of a database error. A database error of
  the driver \<open>sqlx\<close> is a value of \<open>sqlx_error\<close> with the constructors the code distinguishes; the text
  a driver error displays is carried by the constructor.
\<close>

datatype app_error =
    NotFound string
  | InvalidArgument string
  | AlreadyExists string
  | FailedPrecondition string
  | Internal string
  | Database string

type_synonym 'a result = "app_error + 'a"

fun app_error_display :: "app_error \<Rightarrow> string" where
  "app_error_display (NotFound m) = ''not found: '' @ m"
| "app_error_display (InvalidArgument m) = ''invalid argument: '' @ m"
| "app_error_display (AlreadyExists m) = ''already exists: '' @ m"
| "app_error_display (FailedPrecondition m) = ''failed precondition: '' @ m"
| "app_error_display (Internal m) = ''internal: '' @ m"
| "app_error_display (Database m) = ''database: '' @ m"

subsection \<open>HTTP responses\<close>

fun as_status_code :: "app_error \<Rightarrow> nat" where
  "as_status_code (NotFound _) = 404"
| "as_status_code (InvalidArgument _) = 400"
| "as_status_code (AlreadyExists _) = 400"
| "as_status_code (FailedPrecondition _) = 412"
| "as_status_code (Internal _) = 500"
| "as_status_code (Database _) = 500"

definition internal_message :: string where
  "internal_message = ''An internal server error occurred''"

text \<open>The status and the value of the \<open>error\<close> key of the JSON body.\<close>

fun into_response :: "app_error \<Rightarrow> nat \<times> string" where
  "into_response (NotFound m) = (404, m)"
| "into_response (InvalidArgument m) = (400, m)"
| "into_response (FailedPrecondition m) = (412, m)"
| "into_response (Internal m) = (500, internal_message)"
| "into_response (AlreadyExists m) = (400, m)"
| "into_response (Database m) = (500, internal_message)"

lemma into_response_status: "fst (into_response e) = as_status_code e"
  by (cases e) auto

subsection \<open>Database errors\<close>

datatype db_error_kind = UniqueViolation | ForeignKeyViolation | NotNullViolation | CheckViolation | OtherKind

datatype sqlx_error =
    RowNotFound
  | ColumnNotFound string
  | ColumnIndexOutOfBounds nat nat
  | PoolTimedOut
  | PoolClosed
  | DatabaseError db_error_kind string
  | IoError string
  | TlsError string
  | ProtocolError string
  | SqlxInvalidArgument string
  | TypeNotFound string
  | ColumnDecode string string
  | EncodeError string
  | DecodeError string
  | ConfigurationError string
  | MigrateError string
  | WorkerCrashed
  | BeginFailed
  | InvalidSavePointStatement
  | AnyDriverError string
  | OtherSqlxError

fun from_sqlx :: "sqlx_error \<Rightarrow> app_error" where
  "from_sqlx RowNotFound = NotFound ''record not found''"
| "from_sqlx (ColumnNotFound name) = Internal (''column not found: '' @ name)"
| "from_sqlx (ColumnIndexOutOfBounds index len) =
     Internal (''column index out of bounds: '' @ nat_str index @ '' (len: '' @ nat_str len @ '')'')"
| "from_sqlx PoolTimedOut = Database ''database pool timed out - server under heavy load''"
| "from_sqlx PoolClosed = Internal ''database pool was closed''"
| "from_sqlx (DatabaseError kind m) =
     (case kind of
        UniqueViolation \<Rightarrow> AlreadyExists m
      | ForeignKeyViolation \<Rightarrow> FailedPrecondition (''foreign key violation: '' @ m)
      | NotNullViolation \<Rightarrow> InvalidArgument m
      | CheckViolation \<Rightarrow> InvalidArgument m
      | OtherKind \<Rightarrow> Database m)"
| "from_sqlx (IoError e) = Database (''IO error: '' @ e)"
| "from_sqlx (TlsError e) = Internal (''TLS error: '' @ e)"
| "from_sqlx (ProtocolError e) = Internal (''protocol error: '' @ e)"
| "from_sqlx (SqlxInvalidArgument e) = InvalidArgument e"
| "from_sqlx (TypeNotFound type_name) = Internal (''type not found: '' @ type_name)"
| "from_sqlx (ColumnDecode index source) =
     Internal (''decode error at index '' @ index @ '': '' @ source)"
| "from_sqlx (EncodeError e) = Internal (''encode error: '' @ e)"
| "from_sqlx (DecodeError e) = Internal (''decode error: '' @ e)"
| "from_sqlx (ConfigurationError e) = Internal (''config error: '' @ e)"
| "from_sqlx (MigrateError e) = Internal (''migration error: '' @ e)"
| "from_sqlx WorkerCrashed = Internal ''internal worker crashed''"
| "from_sqlx BeginFailed = Database ''failed to start transaction''"
| "from_sqlx InvalidSavePointStatement = Internal ''invalid savepoint''"
| "from_sqlx (AnyDriverError e) = Internal (''driver error: '' @ e)"
| "from_sqlx OtherSqlxError = Internal ''an unexpected database error occurred''"

text \<open>The three constraint failures the repositories rely on, with SQLite's messages.\<close>

abbreviation row_not_found :: app_error where
  "row_not_found \<equiv> from_sqlx RowNotFound"

abbreviation unique_violation :: "string \<Rightarrow> app_error" where
  "unique_violation columns \<equiv>
     from_sqlx (DatabaseError UniqueViolation (''UNIQUE constraint failed: '' @ columns))"

abbreviation foreign_key_violation :: app_error where
  "foreign_key_violation \<equiv>
     from_sqlx (DatabaseError ForeignKeyViolation ''FOREIGN KEY constraint failed'')"

lemma from_sqlx_status:
  "as_status_code (from_sqlx e) < 500 \<longleftrightarrow>
   e = RowNotFound \<or> (\<exists>m. e = SqlxInvalidArgument m) \<or> (\<exists>k m. e = DatabaseError k m \<and> k \<noteq> OtherKind)"
  by (cases e) (auto split: db_error_kind.splits)

end
