(* ===== verification/Model_Types.thy ===== *)
theory Model_Types
  imports App_Error
begin

text \<open>
  The types of \<open>crates/model\<close> that several components share: image status and kind
  (\<open>image.rs\<close>), the states of a task (\<open>task.rs\<close>), what an agent is told to do (\<open>types.rs\<close>), and the
  partitions of hosts and images (\<open>host.rs\<close>, \<open>image.rs\<close>). Ids and other \<open>i64\<close> values that are only
  compared or printed are \<^typ>\<open>int\<close>; a \<open>DateTime<Utc>\<close> is an \<^typ>\<open>int\<close>.
\<close>

type_synonym time = int

subsection \<open>Task states\<close>

datatype task_state = Pending | Running | Done | Failed | Cancelled | Partial

fun task_state_str :: "task_state \<Rightarrow> string" where
  "task_state_str Pending = ''pending''"
| "task_state_str Running = ''running''"
| "task_state_str Done = ''done''"
| "task_state_str Failed = ''failed''"
| "task_state_str Cancelled = ''cancelled''"
| "task_state_str Partial = ''partial''"

text \<open>The states are finitely many, so that quantifiers over them evaluate.\<close>

instantiation task_state :: enum
begin

definition enum_task_state :: "task_state list" where
  "enum_task_state = [Pending, Running, Done, Failed, Cancelled, Partial]"

definition enum_all_task_state :: "(task_state \<Rightarrow> bool) \<Rightarrow> bool" where
  "enum_all_task_state P \<longleftrightarrow> P Pending \<and> P Running \<and> P Done \<and> P Failed \<and> P Cancelled \<and> P Partial"

definition enum_ex_task_state :: "(task_state \<Rightarrow> bool) \<Rightarrow> bool" where
  "enum_ex_task_state P \<longleftrightarrow> P Pending \<or> P Running \<or> P Done \<or> P Failed \<or> P Cancelled \<or> P Partial"

instance
proof
  show univ: "(UNIV :: task_state set) = set enum_class.enum"
    unfolding enum_task_state_def by (auto intro: task_state.exhaust)
  show "distinct (enum_class.enum :: task_state list)"
    by (simp add: enum_task_state_def)
  fix P :: "task_state \<Rightarrow> bool"
  show "enum_class.enum_all P \<longleftrightarrow> Ball UNIV P"
    unfolding enum_all_task_state_def univ by (simp add: enum_task_state_def)
  show "enum_class.enum_ex P \<longleftrightarrow> Bex UNIV P"
    unfolding enum_ex_task_state_def univ by (simp add: enum_task_state_def)
qed

end

lemma task_state_str_inject [simp]: "task_state_str a = task_state_str b \<longleftrightarrow> a = b"
  by (cases a; cases b) simp_all

definition active :: "task_state \<Rightarrow> bool" where
  "active s \<longleftrightarrow> s = Pending \<or> s = Running"

lemma active_simps [simp]:
  "active Pending" "active Running" "\<not> active Done" "\<not> active Failed" "\<not> active Cancelled" "\<not> active Partial"
  by (simp_all add: active_def)

subsection \<open>Images\<close>

datatype image_status = Empty | Capturing | Importing | Ready | Faulted

datatype image_kind = Disk | Partition

fun image_status_str :: "image_status \<Rightarrow> string" where
  "image_status_str Empty = ''empty''"
| "image_status_str Capturing = ''capturing''"
| "image_status_str Importing = ''importing''"
| "image_status_str Ready = ''ready''"
| "image_status_str Faulted = ''faulted''"

fun image_kind_str :: "image_kind \<Rightarrow> string" where
  "image_kind_str Disk = ''disk''"
| "image_kind_str Partition = ''partition''"

lemma image_status_str_inject [simp]: "image_status_str a = image_status_str b \<longleftrightarrow> a = b"
  by (cases a; cases b) simp_all

lemma image_kind_str_inject [simp]: "image_kind_str a = image_kind_str b \<longleftrightarrow> a = b"
  by (cases a; cases b) simp_all

definition FSTYPES :: "string list" where
  "FSTYPES = [''ext2'', ''ext3'', ''ext4'', ''vfat'', ''btrfs'', ''swap'']"

fun fstypes :: "image_kind \<Rightarrow> string list" where
  "fstypes Disk = FSTYPES"
| "fstypes Partition = take 5 FSTYPES"

lemma fstypes_swap: "f \<in> set (fstypes Partition) \<longleftrightarrow> f \<in> set (fstypes Disk) \<and> f \<noteq> ''swap''"
  by (auto simp: FSTYPES_def)

record image_partition =
  ip_id :: int
  partition_number :: int
  ip_fstype :: string
  ip_size_bytes :: u64
  ip_fs_uuid :: "string option"
  ip_fs_label :: "string option"

record image_layout =
  il_sector_size :: u32
  il_partitions :: "image_partition list"

subsection \<open>Hosts\<close>

record host_partition =
  hp_number :: int
  partuuid :: string
  partlabel :: "string option"
  hp_label :: "string option"
  hp_uuid :: "string option"
  hp_fstype :: "string option"
  hp_size_bytes :: u64

record host_connection_event =
  ev_id :: int
  ev_connected :: bool

datatype connection_change = Connected "int list" | Changed host_connection_event

subsection \<open>What an agent is told to do\<close>

datatype task_type =
    Capture | CapturePartition | Deploy | DeployPartition | Multicast | MulticastPartition | Reboot

datatype work =
    CaptureWork int
  | CapturePartitionWork int string
  | DeployWork int
  | MulticastWork int
  | DeployPartitionWork int string
  | MulticastPartitionWork int string
  | RebootWork

fun work_task_type :: "work \<Rightarrow> task_type" where
  "work_task_type (CaptureWork _) = Capture"
| "work_task_type (CapturePartitionWork _ _) = CapturePartition"
| "work_task_type (DeployWork _) = Deploy"
| "work_task_type (MulticastWork _) = Multicast"
| "work_task_type (DeployPartitionWork _ _) = DeployPartition"
| "work_task_type (MulticastPartitionWork _ _) = MulticastPartition"
| "work_task_type RebootWork = Reboot"

fun work_image_id :: "work \<Rightarrow> int option" where
  "work_image_id (CaptureWork i) = Some i"
| "work_image_id (CapturePartitionWork i _) = Some i"
| "work_image_id (DeployWork i) = Some i"
| "work_image_id (MulticastWork i) = Some i"
| "work_image_id (DeployPartitionWork i _) = Some i"
| "work_image_id (MulticastPartitionWork i _) = Some i"
| "work_image_id RebootWork = None"

fun work_partuuid :: "work \<Rightarrow> string option" where
  "work_partuuid (CapturePartitionWork _ p) = Some p"
| "work_partuuid (DeployPartitionWork _ p) = Some p"
| "work_partuuid (MulticastPartitionWork _ p) = Some p"
| "work_partuuid _ = None"

record agent_task =
  at_id :: int
  at_work :: work

subsection \<open>Script inputs\<close>

datatype input_kind = Text | Number | Choice | Secret

fun input_kind_str :: "input_kind \<Rightarrow> string" where
  "input_kind_str Text = ''text''"
| "input_kind_str Number = ''number''"
| "input_kind_str Choice = ''choice''"
| "input_kind_str Secret = ''secret''"

record script_input =
  in_name :: string
  in_label :: string
  in_description :: "string option"
  in_kind :: input_kind
  in_required :: bool
  in_default :: "string option"
  in_per_machine :: bool
  in_choices :: "string list"

end
