(* ===== verification/Task_Domain.thy ===== *)
theory Task_Domain
  imports Model_Types
begin

text \<open>
  \<open>crates/core/src/domain/task.rs\<close>: the task types and their predicates, the task with its host rows,
  the roll-up of the host states into the state of the task (\<open>aggregate_state\<close>), and the work a task
  means for one host. The roll-up exists twice in the program, in Rust and in the SQL view
  \<open>tasks_with_hosts\<close> that the task list filters on; \<open>view_state\<close> is the view's \<open>CASE\<close>, and the two
  are shown equal on every host list.
\<close>

subsection \<open>Task types\<close>

fun task_type_str :: "task_type \<Rightarrow> string" where
  "task_type_str Capture = ''capture''"
| "task_type_str CapturePartition = ''capture_partition''"
| "task_type_str Deploy = ''deploy''"
| "task_type_str DeployPartition = ''deploy_partition''"
| "task_type_str Multicast = ''multicast''"
| "task_type_str MulticastPartition = ''multicast_partition''"
| "task_type_str Reboot = ''reboot''"

text \<open>The derived \<open>FromStr\<close> comes from the crate \<open>derive_more\<close>: it is the parameter \<open>from_str\<close>.\<close>

definition task_type_from_string :: "(string \<Rightarrow> task_type option) \<Rightarrow> string \<Rightarrow> task_type result" where
  "task_type_from_string from_str value = ok_or (Internal ''conversion error'') (from_str value)"

lemma task_type_str_inject [simp]: "task_type_str a = task_type_str b \<longleftrightarrow> a = b"
  by (cases a; cases b) simp_all

fun capture_type :: "image_kind \<Rightarrow> task_type" where
  "capture_type Disk = Capture"
| "capture_type Partition = CapturePartition"

fun deploy_type :: "image_kind \<Rightarrow> task_type" where
  "deploy_type Disk = Deploy"
| "deploy_type Partition = DeployPartition"

fun multicast_type :: "image_kind \<Rightarrow> task_type" where
  "multicast_type Disk = Multicast"
| "multicast_type Partition = MulticastPartition"

fun captures :: "task_type \<Rightarrow> bool" where
  "captures t \<longleftrightarrow> t = Capture \<or> t = CapturePartition"

fun multicasts :: "task_type \<Rightarrow> bool" where
  "multicasts t \<longleftrightarrow> t = Multicast \<or> t = MulticastPartition"

fun restores :: "task_type \<Rightarrow> bool" where
  "restores t \<longleftrightarrow> t = Deploy \<or> t = DeployPartition \<or> t = Multicast \<or> t = MulticastPartition"

fun targets_partition :: "task_type \<Rightarrow> bool" where
  "targets_partition t \<longleftrightarrow> t = CapturePartition \<or> t = DeployPartition \<or> t = MulticastPartition"

lemma task_type_kinds: "captures t \<or> restores t \<or> t = Reboot" "\<not> (captures t \<and> restores t)"
  by (cases t; simp)+

subsection \<open>Tasks and their hosts\<close>

record task_host =
  th_host_id :: int
  th_host_name :: string
  th_mac :: string
  th_state :: task_state
  th_error :: "string option"
  th_started_at :: "time option"
  th_finished_at :: "time option"
  th_partuuid :: "string option"

record task =
  t_id :: int
  t_type :: task_type
  t_hosts :: "task_host list"
  t_image_id :: "int option"
  t_image_name :: "string option"
  t_image_deleted :: bool
  t_created_at :: time

definition roll_up :: "task_state list \<Rightarrow> task_state" where
  "roll_up states =
     (if states = [] then Cancelled
      else if (\<exists>s \<in> set states. s = Pending \<or> s = Running) then
        (if \<exists>s \<in> set states. s \<noteq> Pending then Running else Pending)
      else if \<forall>s \<in> set states. s = Done then Done
      else if \<forall>s \<in> set states. s = Cancelled then Cancelled
      else if \<not> (\<exists>s \<in> set states. s = Done) then Failed
      else Partial)"

definition aggregate_state :: "task \<Rightarrow> task_state" where
  "aggregate_state t = roll_up (map th_state (t_hosts t))"

text \<open>The \<open>CASE\<close> expression of the view, one branch per \<open>WHEN\<close>, over the states of the rows of
  \<open>task_hosts\<close> that belong to the task.\<close>

definition view_state :: "task_state list \<Rightarrow> task_state" where
  "view_state rows =
     (if \<not> (\<exists>s \<in> set rows. True) then Cancelled
      else if \<exists>s \<in> set rows. s \<in> {Pending, Running} then
        (if \<exists>s \<in> set rows. s \<noteq> Pending then Running else Pending)
      else if \<not> (\<exists>s \<in> set rows. s \<noteq> Done) then Done
      else if \<not> (\<exists>s \<in> set rows. s \<noteq> Cancelled) then Cancelled
      else if \<not> (\<exists>s \<in> set rows. s = Done) then Failed
      else Partial)"

definition hosts_in :: "task_state \<Rightarrow> task \<Rightarrow> int list" where
  "hosts_in state t = map th_host_id (filter (\<lambda>h. th_state h = state) (t_hosts t))"

definition is_dispatchable_to :: "task \<Rightarrow> int \<Rightarrow> bool" where
  "is_dispatchable_to t host_id \<longleftrightarrow>
     \<not> multicasts (t_type t) \<or> list_ex (\<lambda>id. id = host_id) (hosts_in Running t)"

definition task_partuuid :: "task \<Rightarrow> int \<Rightarrow> string option" where
  "task_partuuid t host_id =
     Option.bind (List.find (\<lambda>h. th_host_id h = host_id) (t_hosts t)) th_partuuid"

definition work_image :: "task \<Rightarrow> int result" where
  "work_image t = ok_or (FailedPrecondition (''task '' @ int_str (t_id t) @ '' has no image'')) (t_image_id t)"

definition work_partition :: "task \<Rightarrow> int \<Rightarrow> string result" where
  "work_partition t host_id =
     ok_or (FailedPrecondition (''task '' @ int_str (t_id t) @ '' has no partition for host '' @ int_str host_id))
       (task_partuuid t host_id)"

definition task_work :: "task \<Rightarrow> int \<Rightarrow> work result" where
  "task_work t host_id =
     (let image_work = (\<lambda>w. and_then (work_image t) (\<lambda>i. Inr (w i)));
          partition_work = (\<lambda>w. and_then (work_image t)
             (\<lambda>i. and_then (work_partition t host_id) (\<lambda>p. Inr (w i p))))
      in case t_type t of
           Capture \<Rightarrow> image_work CaptureWork
         | CapturePartition \<Rightarrow> partition_work CapturePartitionWork
         | Deploy \<Rightarrow> image_work DeployWork
         | DeployPartition \<Rightarrow> partition_work DeployPartitionWork
         | Multicast \<Rightarrow> image_work MulticastWork
         | MulticastPartition \<Rightarrow> partition_work MulticastPartitionWork
         | Reboot \<Rightarrow> Inr RebootWork)"

subsection \<open>The roll-up\<close>

lemma roll_up_perm: "set xs = set ys \<Longrightarrow> roll_up xs = roll_up ys"
  by (cases xs; cases ys) (auto simp: roll_up_def)

lemma roll_up_singleton: "s \<noteq> Partial \<Longrightarrow> roll_up [s] = s"
  by (cases s) (simp_all add: roll_up_def)

lemma roll_up_active: "active (roll_up xs) \<longleftrightarrow> (\<exists>s \<in> set xs. active s)"
  by (auto simp: roll_up_def active_def)

lemma roll_up_pending: "roll_up xs = Pending \<longleftrightarrow> xs \<noteq> [] \<and> set xs \<subseteq> {Pending}"
  by (cases xs) (auto simp: roll_up_def)

lemma roll_up_done: "roll_up xs = Done \<longleftrightarrow> xs \<noteq> [] \<and> set xs \<subseteq> {Done}"
  by (cases xs) (auto simp: roll_up_def)

lemma roll_up_partial:
  "roll_up xs = Partial \<longleftrightarrow> \<not> (\<exists>s \<in> set xs. active s) \<and> Done \<in> set xs \<and> \<not> set xs \<subseteq> {Done}"
  by (cases xs) (auto simp: roll_up_def active_def)

lemma roll_up_eq_view: "roll_up xs = view_state xs"
  unfolding roll_up_def view_state_def by (cases xs) auto

text \<open>C6: the state the task list filters on (the \<open>CASE\<close> of the SQL view) and the state the rest of
  the program derives in Rust are the same on every list of host rows.\<close>

theorem aggregate_state_eq_view: "aggregate_state t = view_state (map th_state (t_hosts t))"
  by (simp add: aggregate_state_def roll_up_eq_view)

subsection \<open>Work\<close>

lemma task_work_type:
  "task_work t h = Inr w \<Longrightarrow> work_task_type w = t_type t"
  by (auto simp: task_work_def result_simps Let_def split: task_type.splits)

text \<open>When a task yields work for a host, the work has the task's type and image, and it names a
  partition exactly for the partition types, which is the one stored for that host; it is refused,
  as a failed precondition, exactly when the image or that partition is missing.\<close>

theorem task_work_correct:
  "(task_work t h = Inr w \<longleftrightarrow>
     work_task_type w = t_type t \<and>
     work_image_id w = (if t_type t = Reboot then None else t_image_id t) \<and>
     (t_type t = Reboot \<or> t_image_id t \<noteq> None) \<and>
     work_partuuid w = (if targets_partition (t_type t) then task_partuuid t h else None) \<and>
     (targets_partition (t_type t) = (work_partuuid w \<noteq> None))) \<and>
   (\<forall>e. task_work t h = Inl e \<longrightarrow> (\<exists>m. e = FailedPrecondition m))"
  by (cases "t_type t"; cases w; cases "t_image_id t"; cases "task_partuuid t h")
     (auto simp: task_work_def work_image_def work_partition_def)

theorem task_work_correct_witness:
  "task_work \<lparr>t_id = 4, t_type = Deploy, t_hosts = [], t_image_id = Some 7, t_image_name = None,
     t_image_deleted = False, t_created_at = 0\<rparr> 1 = Inr (DeployWork 7)"
  by (subst task_work_correct [THEN conjunct1]) simp

end
