(* ===== verification/BTree_Map.thy ===== *)
theory BTree_Map
  imports Prelude
begin

text \<open>
  Rust's \<open>BTreeMap\<close> as a strictly sorted association list, and the interface its clients rely on: the
  locale \<open>ordered_map\<close>. The clients' loops (collecting pairs into a map, inserting with a check for a
  key that is already there) are proved once inside the locale and reach the components through the
  interpretation \<open>bt\<close> on \<open>bt_lookup\<close>, \<open>bt_insert\<close> and \<open>bt_keys\<close>. Iteration order is key order.
\<close>

subsection \<open>The interface\<close>

locale ordered_map =
  fixes empty :: 'm
    and lookup :: "'m \<Rightarrow> 'k::linorder \<Rightarrow> 'v option"
    and insert :: "'k \<Rightarrow> 'v \<Rightarrow> 'm \<Rightarrow> 'm"
    and keys :: "'m \<Rightarrow> 'k list"
    and inv :: "'m \<Rightarrow> bool"
  assumes lookup_empty [simp]: "lookup empty k = None"
    and inv_empty [simp]: "inv empty"
    and lookup_insert: "inv m \<Longrightarrow> lookup (insert k v m) = (lookup m)(k \<mapsto> v)"
    and inv_insert: "inv m \<Longrightarrow> inv (insert k v m)"
    and keys_dom: "inv m \<Longrightarrow> set (keys m) = dom (lookup m)"
    and keys_sorted: "inv m \<Longrightarrow> sorted_wrt (<) (keys m)"
begin

lemma keys_distinct: "inv m \<Longrightarrow> distinct (keys m)"
  using keys_sorted [of m] by (simp add: strict_sorted_iff)

lemma keys_unique:
  assumes "inv m" and "inv m'" and "dom (lookup m) = dom (lookup m')"
  shows "keys m = keys m'"
  using assms keys_sorted [of m] keys_sorted [of m'] keys_dom [of m] keys_dom [of m']
  by (simp add: strict_sorted_equal)

lemma fold_insert_inv: "inv m \<Longrightarrow> inv (fold (\<lambda>(k, v). insert k v) kvs m)"
  by (induction kvs arbitrary: m) (auto simp: inv_insert)

lemma fold_insert_lookup:
  "inv m \<Longrightarrow> lookup (fold (\<lambda>(k, v). insert k v) kvs m) = lookup m ++ map_of (rev kvs)"
proof (induction kvs arbitrary: m)
  case Nil
  then show ?case by simp
next
  case (Cons kv kvs)
  obtain k v where kv: "kv = (k, v)" by (cases kv)
  have "lookup (fold (\<lambda>(k, v). insert k v) kvs (insert k v m)) = lookup (insert k v m) ++ map_of (rev kvs)"
    by (rule Cons.IH) (simp add: inv_insert Cons.prems)
  also have "\<dots> = lookup m ++ map_of (rev (kv # kvs))"
    using Cons.prems by (simp add: kv lookup_insert map_add_assoc [symmetric])
  finally show ?case by (simp add: kv)
qed

text \<open>The loop \<open>if map.insert(k, v).is_some() { return Err(..) }\<close> succeeds exactly on fresh, distinct keys.\<close>

lemma insert_fresh_all:
  "inv m \<Longrightarrow>
   try_fold (\<lambda>m (k, v). if lookup m k = None then Inr (insert k v m) else Inl (err k)) m kvs = Inr m' \<longleftrightarrow>
   distinct (map fst kvs) \<and> set (map fst kvs) \<inter> dom (lookup m) = {} \<and>
   m' = fold (\<lambda>(k, v). insert k v) kvs m"
proof (induction kvs arbitrary: m)
  case Nil
  then show ?case by auto
next
  case (Cons kv kvs)
  obtain k v where kv: "kv = (k, v)" by (cases kv)
  have "dom (lookup (insert k v m)) = Set.insert k (dom (lookup m))"
    using Cons.prems by (simp add: lookup_insert)
  with Cons.IH [OF inv_insert [OF Cons.prems, of k v]] show ?case
    by (cases "lookup m k") (auto simp: kv)
qed

end

subsection \<open>Sorted association lists\<close>

type_synonym ('k, 'v) btree_map = "('k \<times> 'v) list"

definition bt_lookup :: "('k, 'v) btree_map \<Rightarrow> 'k \<Rightarrow> 'v option" where
  "bt_lookup m k = map_of m k"

fun bt_insert :: "'k::linorder \<Rightarrow> 'v \<Rightarrow> ('k, 'v) btree_map \<Rightarrow> ('k, 'v) btree_map" where
  "bt_insert k v [] = [(k, v)]"
| "bt_insert k v ((a, b) # m) =
     (if k < a then (k, v) # (a, b) # m
      else if k = a then (k, v) # m
      else (a, b) # bt_insert k v m)"

fun bt_remove :: "'k::linorder \<Rightarrow> ('k, 'v) btree_map \<Rightarrow> ('k, 'v) btree_map" where
  "bt_remove k [] = []"
| "bt_remove k ((a, b) # m) = (if k = a then m else (a, b) # bt_remove k m)"

definition bt_keys :: "('k, 'v) btree_map \<Rightarrow> 'k list" where
  "bt_keys m = map fst m"

definition bt_inv :: "('k::linorder, 'v) btree_map \<Rightarrow> bool" where
  "bt_inv m \<longleftrightarrow> sorted_wrt (<) (map fst m)"

definition bt_of_list :: "('k::linorder \<times> 'v) list \<Rightarrow> ('k, 'v) btree_map" where
  "bt_of_list kvs = fold (\<lambda>(k, v). bt_insert k v) kvs []"

lemma set_bt_insert: "set (map fst (bt_insert k v m)) = insert k (set (map fst m))"
  by (induction k v m rule: bt_insert.induct) auto

lemma bt_insert_sorted: "sorted_wrt (<) (map fst m) \<Longrightarrow> sorted_wrt (<) (map fst (bt_insert k v m))"
proof (induction k v m rule: bt_insert.induct)
  case (1 k v)
  then show ?case by simp
next
  case (2 k v a b m)
  from "2.prems" have m: "sorted_wrt (<) (map fst m)" and a: "\<forall>x \<in> set (map fst m). a < x" by auto
  consider "k < a" | "k = a" | "a < k" by fastforce
  then show ?case
  proof cases
    case 1
    with a have "\<forall>x \<in> set (map fst m). k < x" by (meson less_trans)
    with 1 m a show ?thesis by simp
  next
    case 2
    with m a show ?thesis by simp
  next
    case 3
    then have "sorted_wrt (<) (map fst (bt_insert k v m))"
      using "2.IH" m by auto
    moreover have "\<forall>x \<in> set (map fst (bt_insert k v m)). a < x"
      unfolding set_bt_insert using a 3 by simp
    ultimately show ?thesis using 3 by auto
  qed
qed

lemma bt_insert_lookup:
  "sorted_wrt (<) (map fst m) \<Longrightarrow> map_of (bt_insert k v m) = (map_of m)(k \<mapsto> v)"
  by (induction k v m rule: bt_insert.induct) (auto simp: fun_eq_iff)

lemma bt_remove_lookup:
  "sorted_wrt (<) (map fst m) \<Longrightarrow> map_of (bt_remove k m) = (map_of m)(k := None)"
proof (induction k m rule: bt_remove.induct)
  case (1 k)
  then show ?case by auto
next
  case (2 k a b m)
  have "k = a \<Longrightarrow> map_of m k = None"
    using "2.prems" by (auto simp: map_of_eq_None_iff)
  with 2 show ?case by (auto simp: fun_eq_iff)
qed

lemma set_bt_remove_subset: "set (bt_remove k m) \<subseteq> set m"
  by (induction k m rule: bt_remove.induct) auto

lemma bt_remove_inv: "bt_inv m \<Longrightarrow> bt_inv (bt_remove k m)"
proof (induction k m rule: bt_remove.induct)
  case (1 k)
  then show ?case by simp
next
  case (2 k a b m)
  then show ?case
    using set_bt_remove_subset [of k m] by (auto simp: bt_inv_def)
qed

interpretation bt: ordered_map "[]" bt_lookup bt_insert bt_keys bt_inv
proof
  fix k :: "'a::linorder" show "bt_lookup ([] :: ('a, 'b) btree_map) k = None"
    by (simp add: bt_lookup_def)
next
  show "bt_inv ([] :: ('a::linorder, 'b) btree_map)" by (simp add: bt_inv_def)
next
  fix m :: "('a::linorder, 'b) btree_map" and k v
  assume "bt_inv m"
  then show "bt_lookup (bt_insert k v m) = (bt_lookup m)(k \<mapsto> v)"
    by (simp add: bt_lookup_def bt_insert_lookup bt_inv_def fun_eq_iff)
next
  fix m :: "('a::linorder, 'b) btree_map" and k v
  assume "bt_inv m"
  then show "bt_inv (bt_insert k v m)" by (simp add: bt_inv_def bt_insert_sorted)
next
  fix m :: "('a::linorder, 'b) btree_map"
  show "set (bt_keys m) = dom (bt_lookup m)"
    by (simp add: bt_keys_def dom_map_of_conv_image_fst bt_lookup_def [abs_def])
next
  fix m :: "('a::linorder, 'b) btree_map"
  assume "bt_inv m"
  then show "sorted_wrt (<) (bt_keys m)" by (simp add: bt_inv_def bt_keys_def)
qed

lemma bt_of_list_inv [simp]: "bt_inv (bt_of_list kvs)"
  unfolding bt_of_list_def by (rule bt.fold_insert_inv) simp

lemma bt_of_list_lookup: "bt_lookup (bt_of_list kvs) = map_of (rev kvs)"
  unfolding bt_of_list_def using bt.fold_insert_lookup [of "[]" kvs]
  by (simp add: bt_lookup_def [abs_def])

lemma bt_insert_last:
  "bt_inv m \<Longrightarrow> (\<And>a. a \<in> set (map fst m) \<Longrightarrow> a < k) \<Longrightarrow> bt_insert k v m = m @ [(k, v)]"
  by (induction k v m rule: bt_insert.induct) (force simp: bt_inv_def)+

lemma bt_inv_snoc: "bt_inv (m @ [(k, v)]) \<longleftrightarrow> bt_inv m \<and> (\<forall>a \<in> set (map fst m). a < k)"
  by (auto simp: bt_inv_def sorted_wrt_append)

lemma bt_of_list_id: "bt_inv m \<Longrightarrow> bt_of_list m = m"
proof (induction m rule: rev_induct)
  case Nil
  then show ?case by (simp add: bt_of_list_def)
next
  case (snoc kv m)
  obtain k v where kv: "kv = (k, v)" by (cases kv)
  have m: "bt_inv m" "\<forall>a \<in> set (map fst m). a < k"
    using snoc.prems by (auto simp: kv bt_inv_snoc)
  then have "bt_of_list (m @ [kv]) = bt_insert k v m"
    using snoc.IH by (simp add: bt_of_list_def kv)
  also have "\<dots> = m @ [kv]"
    unfolding kv by (rule bt_insert_last) (use m in auto)
  finally show ?case .
qed

end
