(* ===== verification/Tables.thy ===== *)
theory Tables
  imports Model_Types BTree_Map
begin

text \<open>
  The SQLite schema of \<open>crates/core/migrations\<close>: one record per table row, the database as a record of
  tables (lists of rows in insertion order), the \<open>AUTOINCREMENT\<close> counters, and the integrity the schema
  declares: unique keys and foreign keys. A column that stores the text of an enum is typed by the
  enum; the text is injective (\<open>task_state_str_inject\<close>, \<open>task_type_str_inject\<close> and their kin), so a
  comparison of texts is a comparison of values. Statements are functions on the database; one that
  violates a constraint returns the error and, being a single statement or inside a transaction that
  is rolled back, no new database.
\<close>

record host_row =
  hr_id :: int
  hr_mac :: string
  hr_name :: string
  hr_disk_size :: int
  hr_disk_error :: "string option"
  hr_ip :: "string option"

record host_part_row =
  hpr_host :: int
  hpr_number :: int
  hpr_partuuid :: string
  hpr_partlabel :: "string option"
  hpr_label :: "string option"
  hpr_uuid :: "string option"
  hpr_fstype :: "string option"
  hpr_size :: int

record group_row =
  gr_id :: int
  gr_name :: string

record group_host_row =
  ghr_group :: int
  ghr_host :: int

record image_row =
  ir_id :: int
  ir_name :: string
  ir_kind :: image_kind
  ir_captured_at :: "time option"
  ir_status :: image_status
  ir_error :: "string option"
  ir_deleted_at :: "time option"
  ir_root :: "int option"
  ir_sector :: int

record image_part_row =
  ipr_id :: int
  ipr_image :: int
  ipr_number :: int
  ipr_fstype :: string
  ipr_size :: int
  ipr_uuid :: "string option"
  ipr_label :: "string option"

record script_row =
  scr_id :: int
  scr_name :: string
  scr_body :: string
  scr_updated_at :: time

record script_input_row =
  sir_script :: int
  sir_position :: int
  sir_input :: script_input

record image_script_row =
  isr_image :: int
  isr_position :: int
  isr_script :: int
  isr_root :: "int option"

record task_row =
  tr_id :: int
  tr_type :: task_type
  tr_image :: "int option"
  tr_created_at :: time

record task_host_row =
  thr_task :: int
  thr_host :: int
  thr_state :: task_state
  thr_error :: "string option"
  thr_started_at :: "time option"
  thr_finished_at :: "time option"
  thr_partuuid :: "string option"

record task_input_row =
  tir_task :: int
  tir_host :: int
  tir_name :: string
  tir_value :: string

record script_run_row =
  srr_task :: int
  srr_host :: int
  srr_position :: int
  srr_name :: string
  srr_exit_code :: "int option"
  srr_started_at :: time
  srr_finished_at :: "time option"
  srr_bytes :: int

record output_row =
  or_task :: int
  or_host :: int
  or_position :: int
  or_start :: int
  or_text :: string

record db =
  hosts :: "host_row list"
  host_parts :: "host_part_row list"
  groups :: "group_row list"
  group_hosts :: "group_host_row list"
  images :: "image_row list"
  image_parts :: "image_part_row list"
  scripts :: "script_row list"
  script_inputs :: "script_input_row list"
  image_scripts :: "image_script_row list"
  tasks :: "task_row list"
  task_hosts :: "task_host_row list"
  task_inputs :: "task_input_row list"
  script_runs :: "script_run_row list"
  outputs :: "output_row list"
  next_host :: int
  next_group :: int
  next_image :: int
  next_image_part :: int
  next_script :: int
  next_task :: int

definition empty_db :: db where
  "empty_db = \<lparr>hosts = [], host_parts = [], groups = [], group_hosts = [], images = [], image_parts = [],
     scripts = [], script_inputs = [], image_scripts = [], tasks = [], task_hosts = [], task_inputs = [],
     script_runs = [], outputs = [], next_host = 1, next_group = 1, next_image = 1, next_image_part = 1,
     next_script = 1, next_task = 1\<rparr>"

subsection \<open>Statements on one table\<close>

definition update_where :: "('r \<Rightarrow> bool) \<Rightarrow> ('r \<Rightarrow> 'r) \<Rightarrow> 'r list \<Rightarrow> 'r list" where
  "update_where P f rows = map (\<lambda>r. if P r then f r else r) rows"

definition delete_where :: "('r \<Rightarrow> bool) \<Rightarrow> 'r list \<Rightarrow> 'r list" where
  "delete_where P rows = filter (\<lambda>r. \<not> P r) rows"

lemma update_where_simps [simp]:
  "update_where P f [] = []"
  "update_where P f (r # rs) = (if P r then f r else r) # update_where P f rs"
  "length (update_where P f rs) = length rs"
  by (simp_all add: update_where_def)

lemma map_update_where: "(\<And>r. P r \<Longrightarrow> k (f r) = k r) \<Longrightarrow> map k (update_where P f rs) = map k rs"
  by (simp add: update_where_def)

lemma set_update_where: "set (update_where P f rs) = f ` {r \<in> set rs. P r} \<union> {r \<in> set rs. \<not> P r}"
  by (auto simp: update_where_def)

lemma ball_update_where:
  "(\<forall>r \<in> set (update_where P f rs). Q r) \<longleftrightarrow> (\<forall>r \<in> set rs. Q (if P r then f r else r))"
  by (auto simp: update_where_def)

lemma set_delete_where [simp]: "set (delete_where P rs) = {r \<in> set rs. \<not> P r}"
  by (auto simp: delete_where_def)

lemma distinct_map_delete_where: "distinct (map k rs) \<Longrightarrow> distinct (map k (delete_where P rs))"
  by (simp add: delete_where_def distinct_map_filter)

subsection \<open>Integrity\<close>

definition host_ids :: "db \<Rightarrow> int set" where
  "host_ids d = hr_id ` set (hosts d)"

definition th_key :: "task_host_row \<Rightarrow> int \<times> int" where
  "th_key r = (thr_task r, thr_host r)"

definition run_key :: "script_run_row \<Rightarrow> int \<times> int \<times> int" where
  "run_key r = (srr_task r, srr_host r, srr_position r)"

definition out_key :: "output_row \<Rightarrow> int \<times> int \<times> int" where
  "out_key r = (or_task r, or_host r, or_position r)"

definition input_key :: "task_input_row \<Rightarrow> int \<times> int \<times> string" where
  "input_key r = (tir_task r, tir_host r, tir_name r)"

definition unique_keys :: "db \<Rightarrow> bool" where
  "unique_keys d \<longleftrightarrow>
     distinct (map hr_id (hosts d)) \<and> distinct (map hr_mac (hosts d)) \<and>
     distinct (map (\<lambda>r. (hpr_host r, hpr_number r)) (host_parts d)) \<and>
     distinct (map gr_id (groups d)) \<and>
     distinct (map (\<lambda>r. (ghr_group r, ghr_host r)) (group_hosts d)) \<and>
     distinct (map ir_id (images d)) \<and>
     distinct (map ipr_id (image_parts d)) \<and>
     distinct (map (\<lambda>r. (ipr_image r, ipr_number r)) (image_parts d)) \<and>
     distinct (map scr_id (scripts d)) \<and> distinct (map scr_name (scripts d)) \<and>
     distinct (map (\<lambda>r. (sir_script r, sir_position r)) (script_inputs d)) \<and>
     distinct (map (\<lambda>r. (sir_script r, in_name (sir_input r))) (script_inputs d)) \<and>
     distinct (map (\<lambda>r. (isr_image r, isr_position r)) (image_scripts d)) \<and>
     distinct (map tr_id (tasks d)) \<and>
     distinct (map th_key (task_hosts d)) \<and>
     distinct (map input_key (task_inputs d)) \<and>
     distinct (map run_key (script_runs d)) \<and>
     distinct (map (\<lambda>r. (out_key r, or_start r)) (outputs d))"

definition foreign_keys :: "db \<Rightarrow> bool" where
  "foreign_keys d \<longleftrightarrow>
     (\<forall>r \<in> set (host_parts d). hpr_host r \<in> host_ids d) \<and>
     (\<forall>r \<in> set (group_hosts d). ghr_group r \<in> gr_id ` set (groups d) \<and> ghr_host r \<in> host_ids d) \<and>
     (\<forall>r \<in> set (image_parts d). ipr_image r \<in> ir_id ` set (images d)) \<and>
     (\<forall>r \<in> set (script_inputs d). sir_script r \<in> scr_id ` set (scripts d)) \<and>
     (\<forall>r \<in> set (image_scripts d). isr_image r \<in> ir_id ` set (images d) \<and> isr_script r \<in> scr_id ` set (scripts d)) \<and>
     (\<forall>r \<in> set (tasks d). \<forall>i. tr_image r = Some i \<longrightarrow> i \<in> ir_id ` set (images d)) \<and>
     (\<forall>r \<in> set (task_hosts d). thr_task r \<in> tr_id ` set (tasks d) \<and> thr_host r \<in> host_ids d) \<and>
     (\<forall>r \<in> set (task_inputs d). (tir_task r, tir_host r) \<in> th_key ` set (task_hosts d)) \<and>
     (\<forall>r \<in> set (script_runs d). (srr_task r, srr_host r) \<in> th_key ` set (task_hosts d)) \<and>
     (\<forall>r \<in> set (outputs d). out_key r \<in> run_key ` set (script_runs d))"

text \<open>\<open>AUTOINCREMENT\<close>: no id at or above the counter was ever handed out.\<close>

definition fresh_ids :: "db \<Rightarrow> bool" where
  "fresh_ids d \<longleftrightarrow>
     (\<forall>r \<in> set (hosts d). hr_id r < next_host d) \<and>
     (\<forall>r \<in> set (groups d). gr_id r < next_group d) \<and>
     (\<forall>r \<in> set (images d). ir_id r < next_image d) \<and>
     (\<forall>r \<in> set (image_parts d). ipr_id r < next_image_part d) \<and>
     (\<forall>r \<in> set (scripts d). scr_id r < next_script d) \<and>
     (\<forall>r \<in> set (tasks d). tr_id r < next_task d)"

definition db_ok :: "db \<Rightarrow> bool" where
  "db_ok d \<longleftrightarrow> unique_keys d \<and> foreign_keys d \<and> fresh_ids d"

lemmas db_ok_defs = db_ok_def unique_keys_def foreign_keys_def fresh_ids_def host_ids_def

lemma empty_db_ok: "db_ok empty_db"
  by (simp add: db_ok_defs empty_db_def)

subsection \<open>Replacing one table\<close>

text \<open>Integrity after one table got new rows: the rules the repositories' proofs go through.\<close>

lemma db_ok_set_host_parts:
  "db_ok d \<Longrightarrow> distinct (map (\<lambda>r. (hpr_host r, hpr_number r)) rows) \<Longrightarrow> hpr_host ` set rows \<subseteq> host_ids d \<Longrightarrow>
   db_ok (d\<lparr>host_parts := rows\<rparr>)"
  unfolding db_ok_defs by (simp add: image_subset_iff)

lemma db_ok_set_group_hosts:
  "db_ok d \<Longrightarrow> distinct (map (\<lambda>r. (ghr_group r, ghr_host r)) rows) \<Longrightarrow>
   ghr_group ` set rows \<subseteq> gr_id ` set (groups d) \<Longrightarrow> ghr_host ` set rows \<subseteq> host_ids d \<Longrightarrow>
   db_ok (d\<lparr>group_hosts := rows\<rparr>)"
  unfolding db_ok_defs by (simp add: image_subset_iff)

lemma db_ok_set_image_parts:
  "db_ok d \<Longrightarrow> distinct (map ipr_id rows) \<Longrightarrow> distinct (map (\<lambda>r. (ipr_image r, ipr_number r)) rows) \<Longrightarrow>
   ipr_image ` set rows \<subseteq> ir_id ` set (images d) \<Longrightarrow> \<forall>r \<in> set rows. ipr_id r < n \<Longrightarrow>
   db_ok (d\<lparr>image_parts := rows, next_image_part := n\<rparr>)"
  unfolding db_ok_defs by (simp add: image_subset_iff)

lemma db_ok_set_script_inputs:
  "db_ok d \<Longrightarrow> distinct (map (\<lambda>r. (sir_script r, sir_position r)) rows) \<Longrightarrow>
   distinct (map (\<lambda>r. (sir_script r, in_name (sir_input r))) rows) \<Longrightarrow>
   sir_script ` set rows \<subseteq> scr_id ` set (scripts d) \<Longrightarrow> db_ok (d\<lparr>script_inputs := rows\<rparr>)"
  unfolding db_ok_defs by (simp add: image_subset_iff)

lemma db_ok_set_image_scripts:
  "db_ok d \<Longrightarrow> distinct (map (\<lambda>r. (isr_image r, isr_position r)) rows) \<Longrightarrow>
   isr_image ` set rows \<subseteq> ir_id ` set (images d) \<Longrightarrow> isr_script ` set rows \<subseteq> scr_id ` set (scripts d) \<Longrightarrow>
   db_ok (d\<lparr>image_scripts := rows\<rparr>)"
  unfolding db_ok_defs by (simp add: image_subset_iff)

lemma in_image_mono: "f ` A \<subseteq> B \<Longrightarrow> (\<forall>r \<in> S. g r \<in> f ` A) \<Longrightarrow> (\<forall>r \<in> S. g r \<in> B)"
  by blast

lemma db_ok_set_hosts:
  assumes d: "db_ok d" and "distinct (map hr_id rows)" "distinct (map hr_mac rows)"
    "hr_id ` set (hosts d) \<subseteq> hr_id ` set rows" "\<forall>r \<in> set rows. hr_id r < n"
  shows "db_ok (d\<lparr>hosts := rows, next_host := n\<rparr>)"
proof -
  have keep: "x \<in> hr_id ` set (hosts d) \<Longrightarrow> x \<in> hr_id ` set rows" for x using assms(4) by blast
  have "foreign_keys (d\<lparr>hosts := rows, next_host := n\<rparr>)"
    using d unfolding db_ok_def foreign_keys_def host_ids_def by (simp add: keep)
  then show ?thesis
    using assms by (simp add: db_ok_def unique_keys_def fresh_ids_def)
qed

lemma db_ok_set_groups:
  assumes d: "db_ok d" and "distinct (map gr_id rows)" "gr_id ` set (groups d) \<subseteq> gr_id ` set rows"
    "\<forall>r \<in> set rows. gr_id r < n"
  shows "db_ok (d\<lparr>groups := rows, next_group := n\<rparr>)"
proof -
  have keep: "x \<in> gr_id ` set (groups d) \<Longrightarrow> x \<in> gr_id ` set rows" for x using assms(3) by blast
  have "foreign_keys (d\<lparr>groups := rows, next_group := n\<rparr>)"
    using d unfolding db_ok_def foreign_keys_def host_ids_def by (simp add: keep)
  then show ?thesis
    using assms by (simp add: db_ok_def unique_keys_def fresh_ids_def)
qed

lemma db_ok_set_images:
  assumes d: "db_ok d" and "distinct (map ir_id rows)" "ir_id ` set (images d) \<subseteq> ir_id ` set rows"
    "\<forall>r \<in> set rows. ir_id r < n"
  shows "db_ok (d\<lparr>images := rows, next_image := n\<rparr>)"
proof -
  have keep: "x \<in> ir_id ` set (images d) \<Longrightarrow> x \<in> ir_id ` set rows" for x using assms(3) by blast
  have "foreign_keys (d\<lparr>images := rows, next_image := n\<rparr>)"
    using d unfolding db_ok_def foreign_keys_def host_ids_def by (simp add: keep)
  then show ?thesis
    using assms by (simp add: db_ok_def unique_keys_def fresh_ids_def)
qed

lemma db_ok_set_scripts:
  assumes d: "db_ok d" and "distinct (map scr_id rows)" "distinct (map scr_name rows)"
    "scr_id ` set (scripts d) \<subseteq> scr_id ` set rows" "\<forall>r \<in> set rows. scr_id r < n"
  shows "db_ok (d\<lparr>scripts := rows, next_script := n\<rparr>)"
proof -
  have keep: "x \<in> scr_id ` set (scripts d) \<Longrightarrow> x \<in> scr_id ` set rows" for x using assms(4) by blast
  have "foreign_keys (d\<lparr>scripts := rows, next_script := n\<rparr>)"
    using d unfolding db_ok_def foreign_keys_def host_ids_def by (simp add: keep)
  then show ?thesis
    using assms by (simp add: db_ok_def unique_keys_def fresh_ids_def)
qed

text \<open>What integrity gives, table by table.\<close>

lemma db_okD:
  assumes "db_ok d"
  shows "distinct (map hr_id (hosts d))" "distinct (map hr_mac (hosts d))"
    "distinct (map (\<lambda>r. (hpr_host r, hpr_number r)) (host_parts d))" "distinct (map gr_id (groups d))"
    "distinct (map (\<lambda>r. (ghr_group r, ghr_host r)) (group_hosts d))" "distinct (map ir_id (images d))"
    "distinct (map ipr_id (image_parts d))" "distinct (map (\<lambda>r. (ipr_image r, ipr_number r)) (image_parts d))"
    "distinct (map scr_id (scripts d))" "distinct (map scr_name (scripts d))"
    "distinct (map (\<lambda>r. (sir_script r, sir_position r)) (script_inputs d))"
    "distinct (map (\<lambda>r. (sir_script r, in_name (sir_input r))) (script_inputs d))"
    "distinct (map (\<lambda>r. (isr_image r, isr_position r)) (image_scripts d))"
    "hpr_host ` set (host_parts d) \<subseteq> host_ids d" "ghr_group ` set (group_hosts d) \<subseteq> gr_id ` set (groups d)"
    "ghr_host ` set (group_hosts d) \<subseteq> host_ids d" "ipr_image ` set (image_parts d) \<subseteq> ir_id ` set (images d)"
    "sir_script ` set (script_inputs d) \<subseteq> scr_id ` set (scripts d)"
    "isr_image ` set (image_scripts d) \<subseteq> ir_id ` set (images d)"
    "isr_script ` set (image_scripts d) \<subseteq> scr_id ` set (scripts d)"
    "\<forall>r \<in> set (hosts d). hr_id r < next_host d" "\<forall>r \<in> set (groups d). gr_id r < next_group d"
    "\<forall>r \<in> set (images d). ir_id r < next_image d" "\<forall>r \<in> set (image_parts d). ipr_id r < next_image_part d"
    "\<forall>r \<in> set (scripts d). scr_id r < next_script d"
  using assms by (simp_all add: db_ok_def unique_keys_def foreign_keys_def fresh_ids_def image_subset_iff)

lemma update_where_keys:
  assumes "\<And>r. k (f r) = k r"
  shows "map k (update_where P f rs) = map k rs" "k ` set (update_where P f rs) = k ` set rs"
proof -
  show "map k (update_where P f rs) = map k rs" by (rule map_update_where) (rule assms)
  then show "k ` set (update_where P f rs) = k ` set rs" by (metis list.set_map)
qed

lemma subset_delete_where: "f ` set rs \<subseteq> B \<Longrightarrow> f ` set (delete_where P rs) \<subseteq> B"
  by auto

end
