(* ===== verification/Task_Repo.thy ===== *)
theory Task_Repo
  imports Task_Domain Tables "HOL-Library.Product_Lexorder"
begin

text \<open>
  \<open>crates/core/src/repository/task.rs\<close> without the script output (theory \<open>Script_Output\<close>): the queue
  of tasks and the per-host state machine. Every operation takes the database and the current time;
  one that returns an error leaves the database as it was. \<open>update_task_hosts\<close> includes the trigger
  \<open>close_script_runs_when_host_leaves_running\<close>.
\<close>

subsection \<open>The view \<open>tasks_with_hosts\<close>\<close>

definition rows_of_task :: "db \<Rightarrow> int \<Rightarrow> task_host_row list" where
  "rows_of_task d tid = filter (\<lambda>r. thr_task r = tid) (task_hosts d)"

definition host_of :: "db \<Rightarrow> int \<Rightarrow> host_row option" where
  "host_of d hid = List.find (\<lambda>h. hr_id h = hid) (hosts d)"

definition task_host_of :: "db \<Rightarrow> task_host_row \<Rightarrow> task_host option" where
  "task_host_of d r =
     (case host_of d (thr_host r) of
        None \<Rightarrow> None
      | Some h \<Rightarrow> Some \<lparr>th_host_id = thr_host r, th_host_name = hr_name h, th_mac = hr_mac h,
          th_state = thr_state r, th_error = thr_error r, th_started_at = thr_started_at r,
          th_finished_at = thr_finished_at r, th_partuuid = thr_partuuid r\<rparr>)"

definition image_of :: "db \<Rightarrow> int option \<Rightarrow> image_row option" where
  "image_of d image_id =
     (case image_id of None \<Rightarrow> None | Some i \<Rightarrow> List.find (\<lambda>r. ir_id r = i) (images d))"

definition task_of_row :: "db \<Rightarrow> task_row \<Rightarrow> task" where
  "task_of_row d r =
     \<lparr>t_id = tr_id r, t_type = tr_type r,
      t_hosts = List.map_filter (task_host_of d) (rows_of_task d (tr_id r)),
      t_image_id = tr_image r,
      t_image_name = map_option ir_name (image_of d (tr_image r)),
      t_image_deleted = (case image_of d (tr_image r) of None \<Rightarrow> False | Some i \<Rightarrow> ir_deleted_at i \<noteq> None),
      t_created_at = tr_created_at r\<rparr>"

definition row_state :: "db \<Rightarrow> task_row \<Rightarrow> task_state" where
  "row_state d r = view_state (map thr_state (rows_of_task d (tr_id r)))"

definition get :: "db \<Rightarrow> int \<Rightarrow> task result" where
  "get d tid =
     (case List.find (\<lambda>r. tr_id r = tid) (tasks d) of
        None \<Rightarrow> Inl row_not_found
      | Some r \<Rightarrow> Inr (task_of_row d r))"

subsection \<open>Creating\<close>

definition insert_task_input :: "int \<Rightarrow> int \<Rightarrow> db \<Rightarrow> string \<times> string \<Rightarrow> db result" where
  "insert_task_input task_id host_id d nv =
     (if (task_id, host_id, fst nv) \<in> set (map input_key (task_inputs d))
      then Inl (unique_violation ''task_host_inputs.task_id, task_host_inputs.host_id, task_host_inputs.name'')
      else Inr (d\<lparr>task_inputs := task_inputs d @
             [\<lparr>tir_task = task_id, tir_host = host_id, tir_name = fst nv, tir_value = snd nv\<rparr>]\<rparr>))"

definition insert_task_host ::
  "int \<Rightarrow> (int, (string, string) btree_map) btree_map \<Rightarrow> (int, string) btree_map \<Rightarrow> db \<Rightarrow> int \<Rightarrow> db result" where
  "insert_task_host task_id inputs partuuids d host_id =
     (if (task_id, host_id) \<in> set (map th_key (task_hosts d))
      then Inl (unique_violation ''task_hosts.task_id, task_hosts.host_id'')
      else if host_of d host_id = None then Inl foreign_key_violation
      else try_fold (insert_task_input task_id host_id)
             (d\<lparr>task_hosts := task_hosts d @
                [\<lparr>thr_task = task_id, thr_host = host_id, thr_state = Pending, thr_error = None,
                  thr_started_at = None, thr_finished_at = None, thr_partuuid = bt_lookup partuuids host_id\<rparr>]\<rparr>)
             (case bt_lookup inputs host_id of None \<Rightarrow> [] | Some values \<Rightarrow> values))"

definition create_with_inputs ::
  "task_type \<Rightarrow> int list \<Rightarrow> int option \<Rightarrow> (int, (string, string) btree_map) btree_map \<Rightarrow>
   (int, string) btree_map \<Rightarrow> time \<Rightarrow> db \<Rightarrow> (task \<times> db) result" where
  "create_with_inputs task_type ids image_id inputs partuuids now d =
     (let tid = next_task d in
      if image_id \<noteq> None \<and> image_of d image_id = None then Inl foreign_key_violation
      else and_then
        (try_fold (insert_task_host tid inputs partuuids)
           (d\<lparr>tasks := tasks d @ [\<lparr>tr_id = tid, tr_type = task_type, tr_image = image_id, tr_created_at = now\<rparr>],
              next_task := tid + 1\<rparr>) ids)
        (\<lambda>d'. and_then (get d' tid) (\<lambda>t. Inr (t, d'))))"

definition create :: "task_type \<Rightarrow> int list \<Rightarrow> int option \<Rightarrow> time \<Rightarrow> db \<Rightarrow> (task \<times> db) result" where
  "create task_type ids image_id now d = create_with_inputs task_type ids image_id [] [] now d"

subsection \<open>The queue\<close>

definition queue_rank :: "task_host_row \<Rightarrow> nat" where
  "queue_rank r = (if thr_state r = Running then 1 else 2)"

text \<open>The rows the join produces for a host, in \<open>ORDER BY\<close> order; rows the order does not tell apart
  keep the table's order.\<close>

definition host_queue :: "db \<Rightarrow> int \<Rightarrow> (task_row \<times> task_host_row) list" where
  "host_queue d host_id =
     sort_key (\<lambda>(t, r). (queue_rank r, tr_created_at t))
       (concat (map (\<lambda>t. map (Pair t)
          (filter (\<lambda>r. thr_host r = host_id \<and> (thr_state r = Running \<or> thr_state r = Pending))
             (rows_of_task d (tr_id t)))) (tasks d)))"

definition get_next :: "db \<Rightarrow> int \<Rightarrow> task option" where
  "get_next d host_id =
     (case host_queue d host_id of [] \<Rightarrow> None | (t, _) # _ \<Rightarrow> Some (task_of_row d t))"

subsection \<open>The state machine of a host row\<close>

text \<open>An update of \<open>task_hosts\<close> with its trigger: a row that is now neither pending nor running closes
  the script runs of its host that are still open.\<close>

definition update_task_hosts ::
  "(task_host_row \<Rightarrow> bool) \<Rightarrow> (task_host_row \<Rightarrow> task_host_row) \<Rightarrow> db \<Rightarrow> db" where
  "update_task_hosts P f d =
     (let left = filter (\<lambda>r. \<not> active (thr_state r)) (map f (filter P (task_hosts d)));
          close = (\<lambda>s. if srr_finished_at s = None
             then (case List.find (\<lambda>r. thr_task r = srr_task s \<and> thr_host r = srr_host s) left of
                     None \<Rightarrow> s
                   | Some r \<Rightarrow> s\<lparr>srr_finished_at := thr_finished_at r\<rparr>)
             else s)
      in d\<lparr>task_hosts := update_where P f (task_hosts d), script_runs := map close (script_runs d)\<rparr>)"

definition is_row :: "int \<Rightarrow> int \<Rightarrow> task_host_row \<Rightarrow> bool" where
  "is_row task_id host_id r \<longleftrightarrow> thr_task r = task_id \<and> thr_host r = host_id"

definition start :: "int \<Rightarrow> int \<Rightarrow> time \<Rightarrow> db \<Rightarrow> db" where
  "start task_id host_id now =
     update_task_hosts (\<lambda>r. is_row task_id host_id r \<and> (thr_state r = Pending \<or> thr_state r = Running))
       (\<lambda>r. r\<lparr>thr_state := Running, thr_started_at := Some now\<rparr>)"

definition mark_finished :: "int \<Rightarrow> int \<Rightarrow> time \<Rightarrow> db \<Rightarrow> db" where
  "mark_finished task_id host_id now =
     update_task_hosts (\<lambda>r. is_row task_id host_id r \<and> (thr_state r = Pending \<or> thr_state r = Running))
       (\<lambda>r. r\<lparr>thr_state := Done, thr_finished_at := Some now\<rparr>)"

definition mark_failed :: "int \<Rightarrow> int \<Rightarrow> string \<Rightarrow> time \<Rightarrow> db \<Rightarrow> db" where
  "mark_failed task_id host_id error now =
     update_task_hosts (\<lambda>r. is_row task_id host_id r \<and> (thr_state r = Pending \<or> thr_state r = Running))
       (\<lambda>r. r\<lparr>thr_state := Failed, thr_finished_at := Some now, thr_error := Some error\<rparr>)"

definition fail_running :: "task_type \<Rightarrow> string \<Rightarrow> time \<Rightarrow> db \<Rightarrow> db" where
  "fail_running task_type error now d =
     update_task_hosts
       (\<lambda>r. thr_state r = Running \<and> thr_task r \<in> set (map tr_id (filter (\<lambda>t. tr_type t = task_type) (tasks d))))
       (\<lambda>r. r\<lparr>thr_state := Failed, thr_finished_at := Some now, thr_error := Some error\<rparr>) d"

definition retry :: "int \<Rightarrow> db \<Rightarrow> db" where
  "retry tid d =
     (let stopped = (\<lambda>r. thr_task r = tid \<and> (thr_state r = Failed \<or> thr_state r = Cancelled));
          dropped = (\<lambda>task host. task = tid \<and> host \<in> set (map thr_host (filter stopped (task_hosts d))));
          d' = d\<lparr>script_runs := delete_where (\<lambda>s. dropped (srr_task s) (srr_host s)) (script_runs d),
                 outputs := delete_where (\<lambda>s. dropped (or_task s) (or_host s)) (outputs d)\<rparr>
      in update_task_hosts stopped
           (\<lambda>r. r\<lparr>thr_state := Pending, thr_error := None, thr_started_at := None, thr_finished_at := None\<rparr>) d')"

definition cancel :: "int \<Rightarrow> time \<Rightarrow> db \<Rightarrow> db" where
  "cancel tid now =
     update_task_hosts (\<lambda>r. thr_task r = tid \<and> (thr_state r = Pending \<or> thr_state r = Running))
       (\<lambda>r. r\<lparr>thr_state := Cancelled, thr_finished_at := Some now\<rparr>)"

subsection \<open>Queries\<close>

definition get_active_by_image :: "db \<Rightarrow> int \<Rightarrow> task list" where
  "get_active_by_image d image_id =
     map (task_of_row d)
       (sort_key (\<lambda>t. - tr_created_at t)
          (filter (\<lambda>t. tr_image t = Some image_id \<and>
             (\<exists>r \<in> set (rows_of_task d (tr_id t)). thr_state r = Pending \<or> thr_state r = Running)) (tasks d)))"

definition get_next_multicast :: "db \<Rightarrow> task option" where
  "get_next_multicast d =
     (case sort_key tr_id
        (filter (\<lambda>t. (tr_type t = Multicast \<or> tr_type t = MulticastPartition) \<and>
           (\<exists>r \<in> set (rows_of_task d (tr_id t)). thr_state r = Pending)) (tasks d)) of
        [] \<Rightarrow> None
      | t # _ \<Rightarrow> Some (task_of_row d t))"

definition get_inputs :: "db \<Rightarrow> int \<Rightarrow> int \<Rightarrow> (string, string) btree_map" where
  "get_inputs d task_id host_id =
     bt_of_list (map (\<lambda>r. (tir_name r, tir_value r))
       (filter (\<lambda>r. tir_task r = task_id \<and> tir_host r = host_id) (task_inputs d)))"


subsection \<open>Rows under an update\<close>

definition row_at :: "db \<Rightarrow> int \<Rightarrow> int \<Rightarrow> task_host_row option" where
  "row_at d task_id host_id = List.find (is_row task_id host_id) (task_hosts d)"

definition state_at :: "db \<Rightarrow> int \<Rightarrow> int \<Rightarrow> task_state option" where
  "state_at d task_id host_id = map_option thr_state (row_at d task_id host_id)"

lemma find_update_where:
  "(\<And>r. Q (f r) = Q r) \<Longrightarrow>
   List.find Q (update_where P f rs) = map_option (\<lambda>r. if P r then f r else r) (List.find Q rs)"
  by (induction rs) auto

lemma find_delete_where_disjoint:
  "(\<And>r. Q r \<Longrightarrow> \<not> P r) \<Longrightarrow> List.find Q (delete_where P rs) = List.find Q rs"
  by (induction rs) (auto simp: delete_where_def)

lemma row_at_update:
  "(\<And>r. is_row t h (f r) = is_row t h r) \<Longrightarrow>
   row_at (update_task_hosts P f d) t h = map_option (\<lambda>r. if P r then f r else r) (row_at d t h)"
  by (simp add: row_at_def update_task_hosts_def Let_def find_update_where)

lemma row_at_key: "row_at d t h = Some r \<Longrightarrow> thr_task r = t \<and> thr_host r = h \<and> r \<in> set (task_hosts d)"
  by (auto simp: row_at_def find_Some_iff is_row_def)

lemma row_at_unique:
  assumes "unique_keys d" and "r \<in> set (task_hosts d)"
  shows "row_at d (thr_task r) (thr_host r) = Some r"
proof -
  obtain r' where r': "row_at d (thr_task r) (thr_host r) = Some r'"
    using assms(2) by (cases "row_at d (thr_task r) (thr_host r)")
      (auto simp: row_at_def find_None_iff is_row_def)
  have "inj_on th_key (set (task_hosts d))"
    using assms(1) by (simp add: unique_keys_def distinct_map)
  then have "r' = r"
    using row_at_key [OF r'] assms(2) by (auto simp: inj_on_def th_key_def)
  with r' show ?thesis by simp
qed

lemma is_row_updates [simp]:
  "is_row t h (r\<lparr>thr_state := s\<rparr>) = is_row t h r"
  "is_row t h (r\<lparr>thr_started_at := a\<rparr>) = is_row t h r"
  "is_row t h (r\<lparr>thr_finished_at := a\<rparr>) = is_row t h r"
  "is_row t h (r\<lparr>thr_error := e\<rparr>) = is_row t h r"
  by (simp_all add: is_row_def)

lemmas transition_defs = start_def mark_finished_def mark_failed_def fail_running_def cancel_def

text \<open>What one operation does to one row; every other row keeps its contents.\<close>

lemma row_at_start:
  "row_at (start t h now d) t' h' =
   map_option (\<lambda>r. if t' = t \<and> h' = h \<and> active (thr_state r)
     then r\<lparr>thr_state := Running, thr_started_at := Some now\<rparr> else r) (row_at d t' h')"
  by (cases "row_at d t' h'")
     (auto simp: start_def row_at_update active_def is_row_def dest!: row_at_key)

lemma row_at_mark_finished:
  "row_at (mark_finished t h now d) t' h' =
   map_option (\<lambda>r. if t' = t \<and> h' = h \<and> active (thr_state r)
     then r\<lparr>thr_state := Done, thr_finished_at := Some now\<rparr> else r) (row_at d t' h')"
  by (cases "row_at d t' h'")
     (auto simp: mark_finished_def row_at_update active_def is_row_def dest!: row_at_key)

lemma row_at_mark_failed:
  "row_at (mark_failed t h e now d) t' h' =
   map_option (\<lambda>r. if t' = t \<and> h' = h \<and> active (thr_state r)
     then r\<lparr>thr_state := Failed, thr_finished_at := Some now, thr_error := Some e\<rparr> else r) (row_at d t' h')"
  by (cases "row_at d t' h'")
     (auto simp: mark_failed_def row_at_update active_def is_row_def dest!: row_at_key)

lemma row_at_cancel:
  "row_at (cancel t now d) t' h' =
   map_option (\<lambda>r. if t' = t \<and> active (thr_state r)
     then r\<lparr>thr_state := Cancelled, thr_finished_at := Some now\<rparr> else r) (row_at d t' h')"
  by (cases "row_at d t' h'")
     (auto simp: cancel_def row_at_update active_def is_row_def dest!: row_at_key)

lemma row_at_fail_running:
  "row_at (fail_running ty e now d) t' h' =
   map_option (\<lambda>r. if thr_state r = Running \<and> (\<exists>x \<in> set (tasks d). tr_id x = t' \<and> tr_type x = ty)
     then r\<lparr>thr_state := Failed, thr_finished_at := Some now, thr_error := Some e\<rparr> else r) (row_at d t' h')"
  by (cases "row_at d t' h'")
     (auto simp: fail_running_def row_at_update is_row_def image_iff dest!: row_at_key)

lemma row_at_retry:
  "row_at (retry t d) t' h' =
   map_option (\<lambda>r. if t' = t \<and> (thr_state r = Failed \<or> thr_state r = Cancelled)
     then r\<lparr>thr_state := Pending, thr_error := None, thr_started_at := None, thr_finished_at := None\<rparr>
     else r) (row_at d t' h')"
proof -
  have "row_at (d\<lparr>script_runs := a, outputs := b\<rparr>) t' h' = row_at d t' h'" for a b
    by (simp add: row_at_def)
  then show ?thesis
    by (cases "row_at d t' h'")
       (auto simp: retry_def Let_def row_at_update is_row_def dest!: row_at_key)
qed

lemmas row_at_simps = row_at_start row_at_mark_finished row_at_mark_failed row_at_cancel
  row_at_fail_running row_at_retry

end
