(* ===== verification/Task_Machine.thy ===== *)
theory Task_Machine
  imports Task_Repo
begin

text \<open>
  The task repository as a state machine. The specification is the relation \<open>edge\<close> on the states of
  one host row; \<open>repo_step\<close> is one call of an operation of the repository. \<open>life_step\<close> is the abstract machine over the
  states of all rows, which a sequence of calls (\<open>performs_all\<close>) refines exactly. Every call moves a row along an edge, keeps the integrity of the database (\<open>db_ok\<close>), keeps each row's times
  and error in step with its state (\<open>row_ok\<close>), and never leaves a script run open for a host that is
  neither pending nor running (\<open>runs_ok\<close>, the work of the trigger).
\<close>

subsection \<open>Specification\<close>

inductive edge :: "task_state \<Rightarrow> task_state \<Rightarrow> bool" where
  begins: "edge Pending Running"
| finishes: "active s \<Longrightarrow> edge s Done"
| fails: "active s \<Longrightarrow> edge s Failed"
| cancels: "active s \<Longrightarrow> edge s Cancelled"
| retries: "s = Failed \<or> s = Cancelled \<Longrightarrow> edge s Pending"

inductive_simps edge_from_simps [simp]:
  "edge Pending s" "edge Running s" "edge Done s" "edge Failed s" "edge Cancelled s" "edge Partial s"

code_pred edge .

lemma edge_not_reflexive: "\<not> edge s s"
  by (cases s) simp_all

definition row_ok :: "task_host_row \<Rightarrow> bool" where
  "row_ok r \<longleftrightarrow>
     (case thr_state r of
        Pending \<Rightarrow> thr_error r = None \<and> thr_started_at r = None \<and> thr_finished_at r = None
      | Running \<Rightarrow> thr_error r = None \<and> thr_started_at r \<noteq> None \<and> thr_finished_at r = None
      | Done \<Rightarrow> thr_error r = None \<and> thr_finished_at r \<noteq> None
      | Failed \<Rightarrow> thr_error r \<noteq> None \<and> thr_finished_at r \<noteq> None
      | Cancelled \<Rightarrow> thr_error r = None \<and> thr_finished_at r \<noteq> None
      | Partial \<Rightarrow> False)"

definition rows_ok :: "db \<Rightarrow> bool" where
  "rows_ok d \<longleftrightarrow> (\<forall>r \<in> set (task_hosts d). row_ok r)"

definition runs_ok :: "db \<Rightarrow> bool" where
  "runs_ok d \<longleftrightarrow>
     (\<forall>s \<in> set (script_runs d). srr_finished_at s = None \<longrightarrow>
        (\<exists>r \<in> set (task_hosts d). is_row (srr_task s) (srr_host s) r \<and> active (thr_state r)))"

subsection \<open>Creating a task\<close>

definition new_row :: "int \<Rightarrow> (int, string) btree_map \<Rightarrow> int \<Rightarrow> task_host_row" where
  "new_row tid partuuids h = \<lparr>thr_task = tid, thr_host = h, thr_state = Pending, thr_error = None,
     thr_started_at = None, thr_finished_at = None, thr_partuuid = bt_lookup partuuids h\<rparr>"

definition inputs_for :: "(int, (string, string) btree_map) btree_map \<Rightarrow> int \<Rightarrow> (string \<times> string) list" where
  "inputs_for inputs h = (case bt_lookup inputs h of None \<Rightarrow> [] | Some values \<Rightarrow> values)"

definition new_inputs :: "int \<Rightarrow> (int, (string, string) btree_map) btree_map \<Rightarrow> int \<Rightarrow> task_input_row list" where
  "new_inputs tid inputs h =
     map (\<lambda>(n, v). \<lparr>tir_task = tid, tir_host = h, tir_name = n, tir_value = v\<rparr>) (inputs_for inputs h)"

lemma insert_task_inputs:
  "try_fold (insert_task_input t h) d nvs = Inr d' \<longleftrightarrow>
   distinct (map fst nvs) \<and> (\<forall>n \<in> set (map fst nvs). (t, h, n) \<notin> input_key ` set (task_inputs d)) \<and>
   d' = d\<lparr>task_inputs := task_inputs d @
     map (\<lambda>(n, v). \<lparr>tir_task = t, tir_host = h, tir_name = n, tir_value = v\<rparr>) nvs\<rparr>"
proof (induction nvs arbitrary: d)
  case Nil
  then show ?case by auto
next
  case (Cons nv nvs)
  then show ?case
    by (cases nv) (auto simp: insert_task_input_def input_key_def image_iff)
qed

lemma host_of_None: "host_of d h = None \<longleftrightarrow> h \<notin> host_ids d"
  by (auto simp: host_of_def find_None_iff host_ids_def)

lemma insert_task_host:
  "insert_task_host tid inputs pu d h = Inr d' \<longleftrightarrow>
   (tid, h) \<notin> th_key ` set (task_hosts d) \<and> h \<in> host_ids d \<and>
   distinct (map fst (inputs_for inputs h)) \<and>
   (\<forall>n \<in> set (map fst (inputs_for inputs h)). (tid, h, n) \<notin> input_key ` set (task_inputs d)) \<and>
   d' = d\<lparr>task_hosts := task_hosts d @ [new_row tid pu h],
          task_inputs := task_inputs d @ new_inputs tid inputs h\<rparr>"
  unfolding insert_task_host_def new_row_def [symmetric] inputs_for_def [symmetric]
  by (auto simp: insert_task_inputs new_inputs_def host_of_None)

lemma new_input_keys:
  assumes "distinct (map fst (inputs_for inputs h))"
    and "\<forall>n \<in> set (map fst (inputs_for inputs h)). (tid, h, n) \<notin> K"
  shows "distinct (map input_key (new_inputs tid inputs h)) \<and>
    K \<inter> input_key ` set (new_inputs tid inputs h) = {}"
  using assms by (auto simp: new_inputs_def distinct_map inj_on_def input_key_def split_beta)

lemma insert_task_hosts:
  "try_fold (insert_task_host tid inputs pu) d ids = Inr d' \<Longrightarrow>
   distinct ids \<and> set ids \<subseteq> host_ids d \<and> (\<forall>h \<in> set ids. (tid, h) \<notin> th_key ` set (task_hosts d)) \<and>
   d' = d\<lparr>task_hosts := task_hosts d @ map (new_row tid pu) ids,
          task_inputs := task_inputs d @ concat (map (new_inputs tid inputs) ids)\<rparr> \<and>
   (distinct (map input_key (task_inputs d)) \<longrightarrow> distinct (map input_key (task_inputs d')))"
proof (induction ids arbitrary: d)
  case Nil
  then show ?case by simp
next
  case (Cons h ids)
  let ?d2 = "d\<lparr>task_hosts := task_hosts d @ [new_row tid pu h],
     task_inputs := task_inputs d @ new_inputs tid inputs h\<rparr>"
  from Cons.prems have step: "insert_task_host tid inputs pu d h = Inr ?d2"
    and rest: "try_fold (insert_task_host tid inputs pu) ?d2 ids = Inr d'"
    by (auto simp: result_simps insert_task_host)
  have hosts: "host_ids ?d2 = host_ids d"
    by (simp add: host_ids_def)
  have keys: "th_key ` set (task_hosts ?d2) = insert (tid, h) (th_key ` set (task_hosts d))"
    by (simp add: new_row_def th_key_def)
  have dist: "distinct (map input_key (task_inputs d)) \<longrightarrow> distinct (map input_key (task_inputs ?d2))"
    using step new_input_keys [of inputs h tid "input_key ` set (task_inputs d)"]
    by (simp add: insert_task_host)
  note IH = Cons.IH [OF rest, unfolded hosts keys]
  have d': "d' = d\<lparr>task_hosts := task_hosts d @ map (new_row tid pu) (h # ids),
      task_inputs := task_inputs d @ concat (map (new_inputs tid inputs) (h # ids))\<rparr>"
    using IH by simp
  have "distinct (h # ids) \<and> set (h # ids) \<subseteq> host_ids d \<and>
      (\<forall>h \<in> set (h # ids). (tid, h) \<notin> th_key ` set (task_hosts d))"
    using IH step by (auto simp: insert_task_host)
  with d' IH dist show ?case by blast
qed

lemma create_Inr:
  assumes "create_with_inputs ty ids img inputs pu now d = Inr (t, d')"
  shows "(img = None \<or> image_of d img \<noteq> None) \<and> distinct ids \<and> set ids \<subseteq> host_ids d \<and>
    d' = d\<lparr>tasks := tasks d @ [\<lparr>tr_id = next_task d, tr_type = ty, tr_image = img, tr_created_at = now\<rparr>],
           next_task := next_task d + 1,
           task_hosts := task_hosts d @ map (new_row (next_task d) pu) ids,
           task_inputs := task_inputs d @ concat (map (new_inputs (next_task d) inputs) ids)\<rparr> \<and>
    (distinct (map input_key (task_inputs d)) \<longrightarrow> distinct (map input_key (task_inputs d'))) \<and>
    get d' (next_task d) = Inr t"
  using assms
  by (auto simp: create_with_inputs_def Let_def result_simps host_ids_def
      dest!: insert_task_hosts split: if_splits)


subsection \<open>One call\<close>

inductive repo_step :: "db \<Rightarrow> db \<Rightarrow> bool" where
  created: "create_with_inputs ty ids img inputs pu now d = Inr (t, d') \<Longrightarrow> repo_step d d'"
| started: "repo_step d (start t h now d)"
| finished: "repo_step d (mark_finished t h now d)"
| failed: "repo_step d (mark_failed t h e now d)"
| all_failed: "repo_step d (fail_running ty e now d)"
| retried: "repo_step d (retry t d)"
| cancelled: "repo_step d (cancel t now d)"

lemma find_new_row:
  "List.find (is_row t h) (map (new_row tid pu) ids) =
   (if t = tid \<and> h \<in> set ids then Some (new_row tid pu h) else None)"
  by (induction ids) (auto simp: is_row_def new_row_def)

lemma row_at_create:
  assumes "create_with_inputs ty ids img inputs pu now d = Inr (tk, d')"
  shows "row_at d' t h = (case row_at d t h of
     None \<Rightarrow> if t = next_task d \<and> h \<in> set ids then Some (new_row t pu h) else None
   | Some r \<Rightarrow> Some r)"
proof -
  have "task_hosts d' = task_hosts d @ map (new_row (next_task d) pu) ids"
    using create_Inr [OF assms] by simp
  then show ?thesis
    by (simp add: row_at_def find_append find_new_row split: option.split)
qed

text \<open>What one call may do to one row: a row appears only as pending, keeps its state, or follows an
  edge of the specification; it never disappears.\<close>

fun row_move :: "task_state option \<Rightarrow> task_state option \<Rightarrow> bool" where
  "row_move None s' \<longleftrightarrow> s' = None \<or> s' = Some Pending"
| "row_move (Some s) s' \<longleftrightarrow> (\<exists>x. s' = Some x \<and> (x = s \<or> edge s x))"

lemma row_move_map:
  assumes "\<And>r. x = Some r \<Longrightarrow> thr_state (f r) = thr_state r \<or> edge (thr_state r) (thr_state (f r))"
  shows "row_move (map_option thr_state x) (map_option thr_state (map_option f x))"
  using assms by (cases x) auto

lemma repo_step_move: "repo_step d d' \<Longrightarrow> row_move (state_at d t h) (state_at d' t h)"
proof (induction rule: repo_step.induct)
  case (created ty ids img inputs pu now d tk d')
  show ?case
    unfolding state_at_def row_at_create [OF created]
    by (auto simp: new_row_def split: option.splits)
qed (unfold state_at_def row_at_simps, (rule row_move_map, auto simp: edge.simps active_def)+)

subsection \<open>What every call keeps\<close>

text \<open>The updates of the state machine, as one family: the row's key stays, its times and error follow
  its state, and a row that ends up neither pending nor running has a finish time.\<close>

definition row_update_ok :: "(task_host_row \<Rightarrow> bool) \<Rightarrow> (task_host_row \<Rightarrow> task_host_row) \<Rightarrow> bool" where
  "row_update_ok P f \<longleftrightarrow>
     (\<forall>r. th_key (f r) = th_key r \<and> (P r \<longrightarrow> row_ok r \<longrightarrow> row_ok (f r)) \<and>
        (P r \<longrightarrow> active (thr_state (f r)) \<or> thr_finished_at (f r) \<noteq> None))"

definition repo_inv :: "db \<Rightarrow> bool" where
  "repo_inv d \<longleftrightarrow> db_ok d \<and> rows_ok d \<and> runs_ok d"

lemma update_rows:
  "task_hosts (update_task_hosts P f d) = update_where P f (task_hosts d)"
  "tasks (update_task_hosts P f d) = tasks d" "hosts (update_task_hosts P f d) = hosts d"
  "map run_key (script_runs (update_task_hosts P f d)) = map run_key (script_runs d)"
  "map (\<lambda>s. (srr_task s, srr_host s)) (script_runs (update_task_hosts P f d)) =
   map (\<lambda>s. (srr_task s, srr_host s)) (script_runs d)"
  by (auto simp: update_task_hosts_def Let_def run_key_def split: option.splits)

lemma ball_run_hosts:
  "(\<forall>r \<in> set rs. (srr_task r, srr_host r) \<in> K) \<longleftrightarrow> set (map (\<lambda>s. (srr_task s, srr_host s)) rs) \<subseteq> K"
  by auto

lemma ball_rows_keys:
  "(\<forall>r \<in> set rs. thr_task r \<in> T \<and> thr_host r \<in> H) \<longleftrightarrow> th_key ` set rs \<subseteq> T \<times> H"
  by (auto simp: th_key_def)

lemma update_keeps_keys:
  assumes "row_update_ok P f"
  shows "map th_key (update_where P f rs) = map th_key rs"
  using assms by (intro map_update_where) (simp add: row_update_ok_def)

lemma update_db_ok:
  assumes ok: "row_update_ok P f" and d: "db_ok d"
  shows "db_ok (update_task_hosts P f d)"
proof -
  let ?d = "update_task_hosts P f d"
  have keys: "map th_key (task_hosts ?d) = map th_key (task_hosts d)"
    by (simp add: update_rows update_keeps_keys [OF ok])
  then have key_set: "th_key ` set (task_hosts ?d) = th_key ` set (task_hosts d)"
    by (metis list.set_map)
  have run_set: "run_key ` set (script_runs ?d) = run_key ` set (script_runs d)"
    using update_rows(4) [of P f d] by (metis list.set_map)
  have same: "?d = d\<lparr>task_hosts := task_hosts ?d, script_runs := script_runs ?d\<rparr>"
    by (simp add: update_task_hosts_def Let_def)
  have "unique_keys ?d"
    using d keys update_rows(4) [of P f d] by (subst same) (simp add: db_ok_def unique_keys_def)
  moreover have "foreign_keys ?d"
    using d key_set run_set update_rows(5) [of P f d]
    by (subst same) (simp add: db_ok_def foreign_keys_def host_ids_def ball_run_hosts ball_rows_keys)
  moreover have "fresh_ids ?d"
    using d by (subst same) (simp add: db_ok_def fresh_ids_def)
  ultimately show ?thesis by (simp add: db_ok_def)
qed

lemma update_rows_ok: "row_update_ok P f \<Longrightarrow> rows_ok d \<Longrightarrow> rows_ok (update_task_hosts P f d)"
  by (auto simp: rows_ok_def update_rows ball_update_where row_update_ok_def)

lemma update_runs_ok:
  assumes ok: "row_update_ok P f" and runs: "runs_ok d"
  shows "runs_ok (update_task_hosts P f d)"
  unfolding runs_ok_def
proof (intro ballI impI)
  let ?left = "filter (\<lambda>r. \<not> active (thr_state r)) (map f (filter P (task_hosts d)))"
  fix s' assume s': "s' \<in> set (script_runs (update_task_hosts P f d))" and "srr_finished_at s' = None"
  then obtain s where s: "s \<in> set (script_runs d)" "srr_finished_at s = None"
    and key: "srr_task s' = srr_task s" "srr_host s' = srr_host s"
    and left: "case List.find (is_row (srr_task s) (srr_host s)) ?left of
       None \<Rightarrow> True | Some r \<Rightarrow> thr_finished_at r = None"
    by (auto simp: update_task_hosts_def Let_def is_row_def [abs_def] split: option.splits if_splits)
  obtain r where r: "r \<in> set (task_hosts d)" "is_row (srr_task s) (srr_host s) r" "active (thr_state r)"
    using runs s by (auto simp: runs_ok_def)
  have row: "is_row t h (f r) = is_row t h r" for t h
    using ok by (auto simp: row_update_ok_def th_key_def is_row_def)
  have "active (thr_state (if P r then f r else r))"
  proof (rule ccontr)
    assume "\<not> ?thesis"
    then have "P r" "\<not> active (thr_state (f r))" using r(3) by (auto split: if_splits)
    then obtain r' where found: "List.find (is_row (srr_task s) (srr_host s)) ?left = Some r'"
      using r row by (cases "List.find (is_row (srr_task s) (srr_host s)) ?left")
        (auto simp: find_None_iff)
    then obtain x where "P x" "r' = f x" "\<not> active (thr_state (f x))"
      by (auto dest!: find_member)
    with ok left found show False by (auto simp: row_update_ok_def)
  qed
  then show "\<exists>r \<in> set (task_hosts (update_task_hosts P f d)).
      is_row (srr_task s') (srr_host s') r \<and> active (thr_state r)"
    using r row key by (intro bexI [of _ "if P r then f r else r"]) (auto simp: update_rows update_where_def)
qed

lemma update_repo_inv: "row_update_ok P f \<Longrightarrow> repo_inv d \<Longrightarrow> repo_inv (update_task_hosts P f d)"
  by (simp add: repo_inv_def update_db_ok update_rows_ok update_runs_ok)

lemma drop_runs_db_ok:
  assumes "db_ok d"
  shows "db_ok (d\<lparr>script_runs := delete_where (\<lambda>s. D (srr_task s) (srr_host s)) (script_runs d),
     outputs := delete_where (\<lambda>s. D (or_task s) (or_host s)) (outputs d)\<rparr>)"
    (is "db_ok ?d")
proof -
  have "unique_keys ?d"
    using assms by (simp add: db_ok_def unique_keys_def distinct_map_delete_where)
  moreover have "foreign_keys ?d"
    using assms by (fastforce simp: db_ok_def foreign_keys_def host_ids_def out_key_def run_key_def image_iff)
  moreover have "fresh_ids ?d"
    using assms by (simp add: db_ok_def fresh_ids_def)
  ultimately show ?thesis by (simp add: db_ok_def)
qed

lemma drop_runs_inv:
  "repo_inv d \<Longrightarrow> repo_inv (d\<lparr>script_runs := delete_where (\<lambda>s. D (srr_task s) (srr_host s)) (script_runs d),
     outputs := delete_where (\<lambda>s. D (or_task s) (or_host s)) (outputs d)\<rparr>)"
  by (simp add: repo_inv_def drop_runs_db_ok rows_ok_def runs_ok_def)

lemma create_db_ok:
  assumes d: "db_ok d" and c: "create_with_inputs ty ids img inputs pu now d = Inr (t, d')"
  shows "db_ok d'"
proof -
  note c' = create_Inr [OF c]
  have fresh: "next_task d \<notin> tr_id ` set (tasks d)"
    using d by (auto simp: db_ok_def fresh_ids_def)
  then have no_row: "(next_task d, h) \<notin> th_key ` set (task_hosts d)" for h
    using d by (auto simp: db_ok_def foreign_keys_def th_key_def)
  have img: "img = Some i \<Longrightarrow> i \<in> ir_id ` set (images d)" for i
    using c' by (auto simp: image_of_def dest!: find_member)
  have th: "map th_key (task_hosts d') = map th_key (task_hosts d) @ map (Pair (next_task d)) ids"
    using c' by (simp add: th_key_def new_row_def o_def)
  have "distinct (map th_key (task_hosts d'))"
    unfolding th using d c' no_row
    by (auto simp: db_ok_def unique_keys_def distinct_map inj_on_def)
  moreover have "distinct (map input_key (task_inputs d'))"
    using d c' unfolding db_ok_def unique_keys_def by blast
  moreover have "tasks d' = tasks d @ [\<lparr>tr_id = next_task d, tr_type = ty, tr_image = img, tr_created_at = now\<rparr>]"
    using c' by simp
  then have "distinct (map tr_id (tasks d'))"
    using d fresh by (simp add: db_ok_def unique_keys_def)
  moreover have "hosts d' = hosts d" "host_parts d' = host_parts d" "groups d' = groups d"
    "group_hosts d' = group_hosts d" "images d' = images d" "image_parts d' = image_parts d"
    "scripts d' = scripts d" "script_inputs d' = script_inputs d" "image_scripts d' = image_scripts d"
    "script_runs d' = script_runs d" "outputs d' = outputs d"
    using c' by simp_all
  ultimately have "unique_keys d'"
    using d by (simp add: db_ok_def unique_keys_def)
  moreover have "foreign_keys d'"
  proof -
    have th_set: "th_key ` set (task_hosts d') = th_key ` set (task_hosts d) \<union> Pair (next_task d) ` set ids"
      using th by (metis list.set_map set_append)
    have ins: "set (task_inputs d') = set (task_inputs d) \<union> (\<Union>h \<in> set ids. set (new_inputs (next_task d) inputs h))"
      using c' by simp
    have inp: "\<forall>r \<in> set (task_inputs d'). (tir_task r, tir_host r) \<in> th_key ` set (task_hosts d')"
      using d unfolding th_set ins db_ok_def foreign_keys_def
      by (auto simp: new_inputs_def)
    have rows: "th_key ` set (task_hosts d') \<subseteq> tr_id ` set (tasks d') \<times> host_ids d'"
    proof -
      have "tr_id ` set (tasks d') = insert (next_task d) (tr_id ` set (tasks d))" "host_ids d' = host_ids d"
        using c' by (simp_all add: host_ids_def)
      moreover have "th_key ` set (task_hosts d) \<subseteq> tr_id ` set (tasks d) \<times> host_ids d"
        using d by (simp add: db_ok_def foreign_keys_def ball_rows_keys)
      moreover have "set ids \<subseteq> host_ids d" using c' by blast
      ultimately show ?thesis unfolding th_set by auto
    qed
    have "th_key ` set (task_hosts d) \<subseteq> th_key ` set (task_hosts d')"
      unfolding th_set by simp
    then have runs: "\<forall>r \<in> set (script_runs d). (srr_task r, srr_host r) \<in> th_key ` set (task_hosts d')"
      using d unfolding db_ok_def foreign_keys_def by blast
    show ?thesis
      unfolding foreign_keys_def ball_rows_keys
      using inp rows runs d c' img by (auto simp: db_ok_def foreign_keys_def host_ids_def)
  qed
  moreover have "fresh_ids d'"
    using d c' by (auto simp: db_ok_def fresh_ids_def)
  ultimately show ?thesis by (simp add: db_ok_def)
qed

lemma create_inv:
  assumes "repo_inv d" and c: "create_with_inputs ty ids img inputs pu now d = Inr (t, d')"
  shows "repo_inv d'"
proof -
  note c' = create_Inr [OF c]
  have "rows_ok d'"
    using assms(1) c' by (auto simp: repo_inv_def rows_ok_def new_row_def row_ok_def)
  moreover have "runs_ok d'"
    using assms(1) c' by (auto simp: repo_inv_def runs_ok_def)
  ultimately show ?thesis
    using assms(1) create_db_ok [OF _ c] by (simp add: repo_inv_def)
qed

lemma repo_step_inv: "repo_step d d' \<Longrightarrow> repo_inv d \<Longrightarrow> repo_inv d'"
proof (induction rule: repo_step.induct)
  case (created ty ids img inputs pu now d t d')
  then show ?case using create_inv by blast
next
  case (retried t d)
  then show ?case
    unfolding retry_def Let_def
    by (intro update_repo_inv drop_runs_inv)
       (auto simp: row_update_ok_def th_key_def row_ok_def split: task_state.splits)
qed (unfold transition_defs, (rule update_repo_inv, auto simp: row_update_ok_def th_key_def row_ok_def)+)

lemma repo_step_db_ok: "repo_step d d' \<Longrightarrow> db_ok d \<Longrightarrow> db_ok d'"
proof (induction rule: repo_step.induct)
  case (created ty ids img inputs pu now d t d')
  then show ?case using create_db_ok by blast
next
  case (retried d t)
  have "db_ok (d\<lparr>script_runs := delete_where (\<lambda>s. D (srr_task s) (srr_host s)) (script_runs d),
     outputs := delete_where (\<lambda>s. D (or_task s) (or_host s)) (outputs d)\<rparr>)" for D
    using retried by (rule drop_runs_db_ok)
  then show ?case
    unfolding retry_def Let_def
    by (intro update_db_ok) (auto simp: row_update_ok_def th_key_def row_ok_def split: task_state.splits)
qed (unfold transition_defs, (rule update_db_ok, auto simp: row_update_ok_def th_key_def row_ok_def)+)

subsection \<open>The calls and what each means\<close>

text \<open>A call by its name and the rows it is about; a created task by its type, hosts and id.\<close>

datatype repo_call =
    Create_call task_type "int list" int
  | Start_call int int
  | Finish_call int int
  | Fail_call int int
  | Fail_running_call task_type
  | Retry_call int
  | Cancel_call int

inductive performs :: "db \<Rightarrow> repo_call \<Rightarrow> db \<Rightarrow> bool" where
  "create_with_inputs ty ids img inputs pu now d = Inr (t, d') \<Longrightarrow> performs d (Create_call ty ids (t_id t)) d'"
| "performs d (Start_call t h) (start t h now d)"
| "performs d (Finish_call t h) (mark_finished t h now d)"
| "performs d (Fail_call t h) (mark_failed t h e now d)"
| "performs d (Fail_running_call ty) (fail_running ty e now d)"
| "performs d (Retry_call t) (retry t d)"
| "performs d (Cancel_call t) (cancel t now d)"

inductive performs_all :: "db \<Rightarrow> repo_call list \<Rightarrow> db \<Rightarrow> bool" for d where
  performs_none: "performs_all d [] d"
| performs_next: "performs_all d cs d1 \<Longrightarrow> performs d1 c d2 \<Longrightarrow> performs_all d (cs @ [c]) d2"

text \<open>The abstract machine: the type of every task and the state of every host row, and what a call means for them.\<close>

type_synonym life_board = "(int \<Rightarrow> task_type option) \<times> (int \<Rightarrow> int \<Rightarrow> task_state option)"

definition board_of :: "db \<Rightarrow> life_board" where
  "board_of d = (\<lambda>t. map_option tr_type (List.find (\<lambda>x. tr_id x = t) (tasks d)), state_at d)"

definition open_state :: "task_state option \<Rightarrow> bool" where
  "open_state s \<longleftrightarrow> s = Some Pending \<or> s = Some Running"

definition moved :: "(int \<Rightarrow> int \<Rightarrow> task_state option \<Rightarrow> bool) \<Rightarrow> task_state \<Rightarrow> life_board \<Rightarrow> life_board" where
  "moved affected s b = (fst b, \<lambda>t h. if affected t h (snd b t h) then Some s else snd b t h)"

fun life_step :: "repo_call \<Rightarrow> life_board \<Rightarrow> life_board" where
  "life_step (Create_call ty ids tid) b = ((fst b)(tid \<mapsto> ty), snd (moved (\<lambda>t h s. t = tid \<and> h \<in> set ids) Pending b))"
| "life_step (Start_call tid hid) b = moved (\<lambda>t h s. t = tid \<and> h = hid \<and> open_state s) Running b"
| "life_step (Finish_call tid hid) b = moved (\<lambda>t h s. t = tid \<and> h = hid \<and> open_state s) Done b"
| "life_step (Fail_call tid hid) b = moved (\<lambda>t h s. t = tid \<and> h = hid \<and> open_state s) Failed b"
| "life_step (Fail_running_call ty) b = moved (\<lambda>t h s. fst b t = Some ty \<and> s = Some Running) Failed b"
| "life_step (Retry_call tid) b = moved (\<lambda>t h s. t = tid \<and> (s = Some Failed \<or> s = Some Cancelled)) Pending b"
| "life_step (Cancel_call tid) b = moved (\<lambda>t h s. t = tid \<and> open_state s) Cancelled b"

lemma performs_step: "performs d c d' \<Longrightarrow> repo_step d d'"
  by (induction rule: performs.induct) (auto intro: repo_step.intros)

lemma open_state_Some [simp]: "open_state (Some s) \<longleftrightarrow> active s" "\<not> open_state None"
  by (auto simp: open_state_def active_def)

lemma same_task_types:
  "tasks (start t h now d) = tasks d" "tasks (mark_finished t h now d) = tasks d"
  "tasks (mark_failed t h e now d) = tasks d" "tasks (fail_running ty e now d) = tasks d"
  "tasks (retry t d) = tasks d" "tasks (cancel t now d) = tasks d"
  by (simp_all add: transition_defs retry_def update_rows Let_def)

lemma find_type:
  assumes "distinct (map tr_id xs)"
  shows "map_option tr_type (List.find (\<lambda>x. tr_id x = t) xs) = Some ty \<longleftrightarrow> (\<exists>x \<in> set xs. tr_id x = t \<and> tr_type x = ty)"
  using assms by (induction xs) (auto simp: image_iff)

lemma map_option_if: "map_option f (map_option g x) = (case x of None \<Rightarrow> None | Some r \<Rightarrow> Some (f (g r)))"
  by (cases x) auto

lemma board_of_call:
  assumes "performs d c d'" and ok: "db_ok d"
  shows "board_of d' = life_step c (board_of d)"
  using assms(1)
proof (cases rule: performs.cases)
  case (1 ty ids img inputs pu now t)
  note made = create_Inr [OF 1(2)]
  have id: "t_id t = next_task d"
    using made by (auto simp: get_def task_of_row_def split: option.splits dest!: find_member)
  have fresh: "\<forall>x \<in> set (tasks d). tr_id x \<noteq> next_task d"
    using ok by (auto simp: db_ok_def fresh_ids_def)
  have none: "row_at d (next_task d) h = None" for h
  proof (rule ccontr)
    assume "row_at d (next_task d) h \<noteq> None"
    then obtain r where "thr_task r = next_task d" "r \<in> set (task_hosts d)" by (auto dest: row_at_key)
    moreover have "\<forall>r \<in> set (task_hosts d). thr_task r \<in> tr_id ` set (tasks d)"
      using ok by (simp add: db_ok_def foreign_keys_def)
    ultimately have "next_task d \<in> tr_id ` set (tasks d)" by metis
    with fresh show False by auto
  qed
  have "tasks d' = tasks d @ [\<lparr>tr_id = next_task d, tr_type = ty, tr_image = img, tr_created_at = now\<rparr>]"
    using made by simp
  then have "fst (board_of d') = (fst (board_of d))(next_task d \<mapsto> ty)"
    using fresh by (auto simp: board_of_def fun_eq_iff find_append find_None_iff split: option.splits dest!: find_member)
  moreover have "snd (board_of d') = (\<lambda>t h. if t = next_task d \<and> h \<in> set ids then Some Pending else snd (board_of d) t h)"
    using none by (auto simp: board_of_def fun_eq_iff state_at_def row_at_create [OF 1(2)] new_row_def split: option.splits)
  ultimately show ?thesis
    unfolding 1(1) by (simp add: id moved_def prod_eq_iff)
next
  case (5 ty e now)
  have kind: "fst (board_of d) t = Some ty \<longleftrightarrow> (\<exists>x \<in> set (tasks d). tr_id x = t \<and> tr_type x = ty)" for t
    using find_type [of "tasks d" t ty] ok by (simp add: board_of_def db_ok_def unique_keys_def)
  show ?thesis
    unfolding 5 life_step.simps moved_def kind
    by (auto simp: board_of_def fun_eq_iff same_task_types state_at_def row_at_fail_running map_option_if split: option.splits)
next
  case (2 t h now)
  show ?thesis
    unfolding 2 by (auto simp: board_of_def moved_def fun_eq_iff same_task_types state_at_def row_at_simps map_option_if split: option.splits)
next
  case (3 t h now)
  show ?thesis
    unfolding 3 by (auto simp: board_of_def moved_def fun_eq_iff same_task_types state_at_def row_at_simps map_option_if split: option.splits)
next
  case (4 t h e now)
  show ?thesis
    unfolding 4 by (auto simp: board_of_def moved_def fun_eq_iff same_task_types state_at_def row_at_simps map_option_if split: option.splits)
next
  case (6 t)
  show ?thesis
    unfolding 6 by (auto simp: board_of_def moved_def fun_eq_iff same_task_types state_at_def row_at_simps map_option_if split: option.splits)
next
  case (7 t now)
  show ?thesis
    unfolding 7 by (auto simp: board_of_def moved_def fun_eq_iff same_task_types state_at_def row_at_simps map_option_if split: option.splits)
qed

lemma performs_all_ok: "performs_all d cs d' \<Longrightarrow> db_ok d \<Longrightarrow> db_ok d'"
  by (induction rule: performs_all.induct) (auto intro: repo_step_db_ok performs_step)

lemma performs_all_split:
  "performs_all d cs d' \<Longrightarrow> cs = before @ c # after \<Longrightarrow>
   \<exists>d1 d2. performs_all d before d1 \<and> performs d1 c d2"
proof (induction arbitrary: after rule: performs_all.induct)
  case performs_none
  then show ?case by simp
next
  case (performs_next cs d1 x d2)
  then show ?case by (cases after rule: rev_cases) auto
qed

lemma board_of_calls: "performs_all d cs d' \<Longrightarrow> db_ok d \<Longrightarrow> board_of d' = fold life_step cs (board_of d)"
  by (induction rule: performs_all.induct) (auto simp: board_of_call performs_all_ok)


subsection \<open>Properties of the state machine\<close>

definition demo_db :: db where
  "demo_db = empty_db\<lparr>
     hosts := [\<lparr>hr_id = 1, hr_mac = ''aa'', hr_name = ''one'', hr_disk_size = 10, hr_disk_error = None, hr_ip = None\<rparr>,
               \<lparr>hr_id = 2, hr_mac = ''bb'', hr_name = ''two'', hr_disk_size = 10, hr_disk_error = None, hr_ip = None\<rparr>],
     tasks := [\<lparr>tr_id = 1, tr_type = Reboot, tr_image = None, tr_created_at = 5\<rparr>],
     task_hosts := [new_row 1 [] 1, new_row 1 [] 2],
     next_host := 3, next_task := 2\<rparr>"

lemma demo_db_inv: "repo_inv demo_db"
  by (simp add: demo_db_def empty_db_def repo_inv_def db_ok_defs rows_ok_def runs_ok_def row_ok_def
      new_row_def th_key_def)

text \<open>Whatever sequence of repository calls is made, the database keeps its keys and references,
  every host row keeps its times and error in step with its state (never the roll-up state
  \<open>Partial\<close>), and no script run is left open for a host that is neither pending nor running.\<close>

theorem repository_keeps_invariant: "repo_step\<^sup>*\<^sup>* d d' \<Longrightarrow> repo_inv d \<Longrightarrow> repo_inv d'"
  by (induction rule: rtranclp_induct) (auto intro: repo_step_inv)

theorem repository_keeps_invariant_witness:
  "repo_inv (mark_failed 1 2 ''no disk'' 9 (start 1 2 7 demo_db))"
  by (rule repository_keeps_invariant [OF _ demo_db_inv])
     (meson repo_step.started repo_step.failed r_into_rtranclp rtranclp.rtrancl_into_rtrancl)

text \<open>C1: the repository is a refinement of the life cycle. After any sequence of its calls, the type of every task and the
  state of every host row are exactly those of the abstract machine \<open>life_step\<close> run over the same calls: a created task starts with
  one pending row per host; a start, an end, a failure or a cancellation moves the rows it is about if they are pending or running and
  leaves every other row alone; the failing of all running tasks of a type moves the running rows of that type only; and a retry
  moves exactly the failed and cancelled rows of its task. And each single call moves a row along one edge of the life
  cycle or not at all; it never loses a row and adds only pending ones.\<close>

theorem repository_refines_life_cycle:
  assumes "performs_all d cs d'" and "db_ok d"
  shows "board_of d' = fold life_step cs (board_of d) \<and>
    (\<forall>before c after t h. cs = before @ c # after \<longrightarrow>
       row_move (snd (fold life_step before (board_of d)) t h) (snd (fold life_step (before @ [c]) (board_of d)) t h))"
proof (intro conjI allI impI)
  show "board_of d' = fold life_step cs (board_of d)" by (rule board_of_calls [OF assms])
  fix before c after t h
  assume "cs = before @ c # after"
  then obtain d1 d2 where run: "performs_all d before d1" "performs d1 c d2"
    using performs_all_split [OF assms(1)] by blast
  have "snd (board_of d1) t h = state_at d1 t h" "snd (board_of d2) t h = state_at d2 t h" by (simp_all add: board_of_def)
  with repo_step_move [OF performs_step [OF run(2)], of t h] board_of_calls [OF run(1) assms(2)]
    board_of_calls [OF performs_next [OF run] assms(2)]
  show "row_move (snd (fold life_step before (board_of d)) t h) (snd (fold life_step (before @ [c]) (board_of d)) t h)"
    by simp
qed

theorem repository_refines_life_cycle_witness:
  "board_of (start 1 2 9 (retry 1 (cancel 1 8 (start 1 2 7 demo_db)))) =
     fold life_step [Start_call 1 2, Cancel_call 1, Retry_call 1, Start_call 1 2] (board_of demo_db) \<and>
   state_at (start 1 2 9 (retry 1 (cancel 1 8 (start 1 2 7 demo_db)))) 1 1 = Some Pending"
proof -
  let ?d1 = "start 1 2 7 demo_db" and ?d2 = "cancel 1 8 (start 1 2 7 demo_db)"
  have "performs_all demo_db [Start_call 1 2] ?d1"
    using performs_next [OF performs_none performs.intros(2)] by simp
  from performs_next [OF this performs.intros(7)] have "performs_all demo_db [Start_call 1 2, Cancel_call 1] ?d2" by simp
  from performs_next [OF this performs.intros(6)] have
    "performs_all demo_db [Start_call 1 2, Cancel_call 1, Retry_call 1] (retry 1 ?d2)" by simp
  from performs_next [OF this performs.intros(2)] have
    run: "performs_all demo_db [Start_call 1 2, Cancel_call 1, Retry_call 1, Start_call 1 2] (start 1 2 9 (retry 1 ?d2))" by simp
  have "db_ok demo_db" using demo_db_inv by (simp add: repo_inv_def)
  note same = conjunct1 [OF repository_refines_life_cycle [OF run this]]
  have one: "row_at demo_db 1 1 = Some (new_row 1 [] 1)"
    by (simp add: row_at_def demo_db_def is_row_def new_row_def)
  have "snd (fold life_step [Start_call 1 2, Cancel_call 1, Retry_call 1, Start_call 1 2] (board_of demo_db)) 1 1 = Some Pending"
    by (simp add: moved_def board_of_def state_at_def one new_row_def active_def)
  then have "snd (board_of (start 1 2 9 (retry 1 ?d2))) 1 1 = Some Pending" unfolding same .
  then have "state_at (start 1 2 9 (retry 1 ?d2)) 1 1 = Some Pending" unfolding board_of_def snd_conv .
  with same show ?thesis by blast
qed

text \<open>C4: a report about a host decides that host's row and no other: an active row takes the reported
  state, its finish time and the error of a failure; a row that has already been settled is kept as it
  is, so a late report, a cancellation or a restart never overwrites an outcome.\<close>

theorem reports_settle_once:
  assumes "row_at d t h = Some r"
  shows "row_at (mark_finished t h now d) t h =
           Some (if active (thr_state r) then r\<lparr>thr_state := Done, thr_finished_at := Some now\<rparr> else r) \<and>
         row_at (mark_failed t h e now d) t h =
           Some (if active (thr_state r)
             then r\<lparr>thr_state := Failed, thr_finished_at := Some now, thr_error := Some e\<rparr> else r) \<and>
         row_at (start t h now d) t h =
           Some (if active (thr_state r) then r\<lparr>thr_state := Running, thr_started_at := Some now\<rparr> else r) \<and>
         row_at (cancel t now d) t h =
           Some (if active (thr_state r) then r\<lparr>thr_state := Cancelled, thr_finished_at := Some now\<rparr> else r) \<and>
         (\<forall>t' h'. (t', h') \<noteq> (t, h) \<longrightarrow>
           row_at (mark_finished t h now d) t' h' = row_at d t' h' \<and>
           row_at (mark_failed t h e now d) t' h' = row_at d t' h' \<and>
           row_at (start t h now d) t' h' = row_at d t' h')"
  using assms by (auto simp: row_at_simps option.map_ident)

theorem reports_settle_once_witness:
  "row_at (mark_finished 1 2 8 demo_db) 1 2 =
     Some ((new_row 1 [] 2)\<lparr>thr_state := Done, thr_finished_at := Some 8\<rparr>)"
proof -
  have "row_at demo_db 1 2 = Some (new_row 1 [] 2)"
    by (simp add: row_at_def demo_db_def is_row_def new_row_def)
  from reports_settle_once [OF this, of 8 "''''"] show ?thesis
    by (simp add: new_row_def)
qed

end
