(* ===== verification/Task_Listing.thy ===== *)
theory Task_Listing
  imports Task_Repo
begin

text \<open>
  The paged task list of \<open>crates/core/src/repository/task.rs\<close> (\<open>list\<close>): the query, one page of it, and
  the walk that follows the cursors.
\<close>

subsection \<open>The paged task list\<close>

definition MAX_TASK_PAGE_SIZE :: nat where
  "MAX_TASK_PAGE_SIZE = 200"

record task_query =
  tq_states :: "task_state list"
  tq_types :: "task_type list"
  tq_host_id :: "int option"
  tq_before :: "int option"
  tq_limit :: nat

record task_page =
  tp_tasks :: "task list"
  tp_next_cursor :: "int option"

definition query_selects :: "db \<Rightarrow> task_query \<Rightarrow> task_row \<Rightarrow> bool" where
  "query_selects d q t \<longleftrightarrow>
     (case tq_before q of None \<Rightarrow> True | Some b \<Rightarrow> tr_id t < b) \<and>
     (tq_states q = [] \<or> row_state d t \<in> set (tq_states q)) \<and>
     (tq_types q = [] \<or> tr_type t \<in> set (tq_types q)) \<and>
     (case tq_host_id q of None \<Rightarrow> True | Some h \<Rightarrow> (\<exists>r \<in> set (rows_of_task d (tr_id t)). thr_host r = h))"

definition list_tasks :: "db \<Rightarrow> task_query \<Rightarrow> task_page result" where
  "list_tasks d q =
     (if \<not> (1 \<le> tq_limit q \<and> tq_limit q \<le> MAX_TASK_PAGE_SIZE)
      then Inl (InvalidArgument (''limit must be between 1 and '' @ nat_str MAX_TASK_PAGE_SIZE))
      else
        let fetched = tq_limit q + 1;
            rows = take fetched (sort_key (\<lambda>t. - tr_id t) (filter (query_selects d q) (tasks d)));
            found = map (task_of_row d) rows
        in if length found > tq_limit q
           then let page = take (tq_limit q) found
                in Inr \<lparr>tp_tasks = page, tp_next_cursor = (if page = [] then None else Some (t_id (last page)))\<rparr>
           else Inr \<lparr>tp_tasks = found, tp_next_cursor = None\<rparr>)"


subsection \<open>Walking the pages\<close>

definition selected :: "db \<Rightarrow> task_query \<Rightarrow> task_row list" where
  "selected d q = sort_key (\<lambda>t. - tr_id t) (filter (query_selects d q) (tasks d))"

fun walk :: "nat \<Rightarrow> db \<Rightarrow> task_query \<Rightarrow> task list option" where
  "walk 0 d q = None"
| "walk (Suc fuel) d q =
     (case list_tasks d q of
        Inl e \<Rightarrow> None
      | Inr p \<Rightarrow> (case tp_next_cursor p of
            None \<Rightarrow> Some (tp_tasks p)
          | Some c \<Rightarrow> map_option ((@) (tp_tasks p)) (walk fuel d (q\<lparr>tq_before := Some c\<rparr>))))"

lemma set_selected: "set (selected d q) = {t \<in> set (tasks d). query_selects d q t}"
  by (simp add: selected_def)

lemma length_selected: "length (selected d q) \<le> length (tasks d)"
  by (simp add: selected_def)

lemma sorted_desc_distinct:
  "sorted (map (\<lambda>t. - f t) xs) \<Longrightarrow> distinct (map f xs) \<Longrightarrow> sorted_wrt (\<lambda>a b. f b < f a) (xs :: 'a list)"
  for f :: "'a \<Rightarrow> int"
proof (induction xs)
  case Nil
  then show ?case by simp
next
  case (Cons x xs)
  have "f y < f x" if "y \<in> set xs" for y
  proof -
    have "f y \<le> f x" using Cons.prems(1) that by auto
    moreover have "f y \<noteq> f x" using Cons.prems(2) that by (metis distinct.simps(2) image_eqI list.map(2) list.set_map)
    ultimately show ?thesis by simp
  qed
  with Cons show ?case by auto
qed

lemma selected_descending:
  assumes "unique_keys d"
  shows "sorted_wrt (\<lambda>a b. tr_id b < tr_id a) (selected d q)"
proof (rule sorted_desc_distinct)
  show "sorted (map (\<lambda>t. - tr_id t) (selected d q))"
    unfolding selected_def by (rule sorted_sort_key)
  have "distinct (map tr_id (filter (query_selects d q) (tasks d)))"
    using assms by (simp add: unique_keys_def distinct_map_filter)
  then show "distinct (map tr_id (selected d q))"
    by (simp add: distinct_map selected_def)
qed

lemma filter_below_descending:
  fixes f :: "'a \<Rightarrow> int"
  assumes desc: "sorted_wrt (\<lambda>a b. f b < f a) xs" and m: "m < length xs"
  shows "filter (\<lambda>t. f t < f (xs ! m)) xs = drop (Suc m) xs"
proof -
  have lt: "f (xs ! j) < f (xs ! i)" if "i < j" "j < length xs" for i j
    using desc that by (simp add: sorted_wrt_iff_nth_less)
  have le: "\<not> f (xs ! i) < f (xs ! m)" if "i \<le> m" for i
    using lt [of i m] that m by (cases "i = m") auto
  have "\<not> f t < f (xs ! m)" if "t \<in> set (take (Suc m) xs)" for t
    using that m le by (auto simp: in_set_conv_nth)
  moreover have "f t < f (xs ! m)" if "t \<in> set (drop (Suc m) xs)" for t
    using that lt [of m] by (auto simp: in_set_conv_nth)
  ultimately have "filter (\<lambda>t. f t < f (xs ! m)) (take (Suc m) xs @ drop (Suc m) xs) = drop (Suc m) xs"
    unfolding filter_append by (simp add: filter_empty_conv)
  then show ?thesis by simp
qed

lemma selected_after:
  assumes "unique_keys d" and m: "m < length (selected d q)"
  shows "selected d (q\<lparr>tq_before := Some (tr_id (selected d q ! m))\<rparr>) = drop (Suc m) (selected d q)"
proof -
  define c where "c = tr_id (selected d q ! m)"
  have "selected d q ! m \<in> set (selected d q)"
    using m by simp
  then have below: "case tq_before q of None \<Rightarrow> True | Some b \<Rightarrow> c < b"
    unfolding c_def set_selected query_selects_def by blast
  have "query_selects d (q\<lparr>tq_before := Some c\<rparr>) = (\<lambda>t. query_selects d q t \<and> tr_id t < c)"
    using below by (auto simp: query_selects_def fun_eq_iff split: option.splits)
  then have "selected d (q\<lparr>tq_before := Some c\<rparr>) = filter (\<lambda>t. tr_id t < c) (selected d q)"
    by (simp add: selected_def filter_sort [symmetric] conj_commute)
  also have "\<dots> = drop (Suc m) (selected d q)"
    unfolding c_def by (rule filter_below_descending [OF selected_descending [OF assms(1)] m])
  finally show ?thesis by (simp add: c_def)
qed

definition limit_ok :: "task_query \<Rightarrow> bool" where
  "limit_ok q \<longleftrightarrow> 1 \<le> tq_limit q \<and> tq_limit q \<le> MAX_TASK_PAGE_SIZE"

lemma t_id_task_of_row [simp]: "t_id (task_of_row d r) = tr_id r"
  by (simp add: task_of_row_def)

lemma list_tasks_page:
  assumes ok: "limit_ok q" and m: "tq_limit q = Suc m"
  shows "list_tasks d q = Inr \<lparr>tp_tasks = map (task_of_row d) (take (Suc m) (selected d q)),
     tp_next_cursor = (if Suc m < length (selected d q) then Some (tr_id (selected d q ! m)) else None)\<rparr>"
proof (cases "Suc m < length (selected d q)")
  case True
  then have "last (take (Suc m) (selected d q)) = selected d q ! m" "take (Suc m) (selected d q) \<noteq> []"
    by (auto simp: take_Suc_conv_app_nth)
  with True ok m show ?thesis
    by (simp add: list_tasks_def limit_ok_def Let_def selected_def [symmetric] take_map last_map min_def)
next
  case False
  with ok m show ?thesis
    by (simp add: list_tasks_def limit_ok_def Let_def selected_def [symmetric])
qed

lemma walk_pages:
  assumes "unique_keys d"
  shows "limit_ok q \<Longrightarrow> length (selected d q) < fuel \<Longrightarrow>
    walk fuel d q = Some (map (task_of_row d) (selected d q))"
proof (induction fuel arbitrary: q)
  case 0
  then show ?case by simp
next
  case (Suc fuel)
  let ?L = "selected d q"
  obtain m where m: "tq_limit q = Suc m"
    using Suc.prems(1) by (cases "tq_limit q") (auto simp: limit_ok_def)
  note page = list_tasks_page [OF Suc.prems(1) m, of d]
  show ?case
  proof (cases "Suc m < length ?L")
    case True
    let ?q = "q\<lparr>tq_before := Some (tr_id (?L ! m))\<rparr>"
    have after: "selected d ?q = drop (Suc m) ?L"
      by (rule selected_after [OF assms]) (use True in simp)
    have "walk fuel d ?q = Some (map (task_of_row d) (selected d ?q))"
    proof (rule Suc.IH)
      show "limit_ok ?q" using Suc.prems(1) by (simp add: limit_ok_def)
      show "length (selected d ?q) < fuel" using Suc.prems(2) True unfolding after by simp
    qed
    then show ?thesis
      using page True unfolding after by (simp flip: map_append)
  next
    case False
    with page show ?thesis by simp
  qed
qed

end
