(* ===== verification/Task_Queue.thy ===== *)
theory Task_Queue
  imports Task_Machine Task_Listing
begin

text \<open>
  What the repository promises its callers: the result of creating a task, the choice \<open>get_next\<close>
  makes for a host, and the agreement between the states the list filters on and the states of the
  tasks it returns.
\<close>

subsection \<open>Reading a task back\<close>

lemma host_of_Some: "h \<in> host_ids d \<Longrightarrow> \<exists>r. host_of d h = Some r"
  using host_of_None [of d h] by auto

lemma task_host_of_total:
  assumes "foreign_keys d" and "r \<in> set (task_hosts d)"
  shows "\<exists>th. task_host_of d r = Some th \<and> th_state th = thr_state r \<and> th_host_id th = thr_host r \<and>
    th_partuuid th = thr_partuuid r"
proof -
  have "thr_host r \<in> host_ids d" using assms by (auto simp: foreign_keys_def)
  from host_of_Some [OF this] show ?thesis by (auto simp: task_host_of_def)
qed

lemma map_filter_total:
  "(\<And>x. x \<in> set xs \<Longrightarrow> \<exists>y. f x = Some y \<and> g y = k x) \<Longrightarrow> map g (List.map_filter f xs) = map k xs"
  by (induction xs) (fastforce simp: List.map_filter_def split: option.splits)+

lemma task_hosts_of_row:
  assumes "foreign_keys d"
  shows "map th_state (t_hosts (task_of_row d t)) = map thr_state (rows_of_task d (tr_id t))"
    and "map th_host_id (t_hosts (task_of_row d t)) = map thr_host (rows_of_task d (tr_id t))"
    and "map th_partuuid (t_hosts (task_of_row d t)) = map thr_partuuid (rows_of_task d (tr_id t))"
proof -
  have total: "\<exists>th. task_host_of d r = Some th \<and> th_state th = thr_state r \<and> th_host_id th = thr_host r \<and>
      th_partuuid th = thr_partuuid r" if "r \<in> set (rows_of_task d (tr_id t))" for r
    by (rule task_host_of_total [OF assms]) (use that in \<open>simp add: rows_of_task_def\<close>)
  have hosts: "t_hosts (task_of_row d t) = List.map_filter (task_host_of d) (rows_of_task d (tr_id t))"
    by (simp add: task_of_row_def)
  show "map th_state (t_hosts (task_of_row d t)) = map thr_state (rows_of_task d (tr_id t))"
    unfolding hosts by (rule map_filter_total) (use total in blast)
  show "map th_host_id (t_hosts (task_of_row d t)) = map thr_host (rows_of_task d (tr_id t))"
    unfolding hosts by (rule map_filter_total) (use total in blast)
  show "map th_partuuid (t_hosts (task_of_row d t)) = map thr_partuuid (rows_of_task d (tr_id t))"
    unfolding hosts by (rule map_filter_total) (use total in blast)
qed

lemma task_of_row_type [simp]: "t_type (task_of_row d t) = tr_type t"
  by (simp add: task_of_row_def)

lemma row_state_roll_up: "row_state d t = roll_up (map thr_state (rows_of_task d (tr_id t)))"
  by (simp add: row_state_def roll_up_eq_view)

lemma aggregate_state_row:
  "foreign_keys d \<Longrightarrow> aggregate_state (task_of_row d t) = row_state d t"
  by (simp add: aggregate_state_def row_state_roll_up task_hosts_of_row)

lemma get_row:
  assumes "unique_keys d" and "t \<in> set (tasks d)"
  shows "get d (tr_id t) = Inr (task_of_row d t)"
proof -
  have "List.find (\<lambda>r. tr_id r = tr_id t) (tasks d) = Some t"
    using assms find_unique [of tr_id "tasks d" "tr_id t" t] by (simp add: unique_keys_def)
  then show ?thesis by (simp add: get_def)
qed

text \<open>the page the list returns is exactly the newest tasks that pass the query, and the state of a
  returned task, as the rest of the program derives it, is one of the states that were asked for.\<close>

theorem list_page_correct:
  assumes "db_ok d" and "list_tasks d q = Inr p"
  shows "tp_tasks p = map (task_of_row d) (take (tq_limit q) (selected d q)) \<and>
    (\<forall>t \<in> set (tp_tasks p). get d (t_id t) = Inr t \<and>
       (tq_states q \<noteq> [] \<longrightarrow> aggregate_state t \<in> set (tq_states q)) \<and>
       (tq_types q \<noteq> [] \<longrightarrow> t_type t \<in> set (tq_types q)) \<and>
       (\<forall>h. tq_host_id q = Some h \<longrightarrow> h \<in> set (map th_host_id (t_hosts t)))) \<and>
    (tp_next_cursor p = None \<longleftrightarrow> length (selected d q) \<le> tq_limit q)"
proof -
  have ok: "unique_keys d" "foreign_keys d" using assms(1) by (simp_all add: db_ok_def)
  have lim: "limit_ok q" using assms(2) by (auto simp: list_tasks_def limit_ok_def split: if_splits)
  then obtain m where m: "tq_limit q = Suc m" by (cases "tq_limit q") (auto simp: limit_ok_def)
  have p: "p = \<lparr>tp_tasks = map (task_of_row d) (take (Suc m) (selected d q)),
     tp_next_cursor = (if Suc m < length (selected d q) then Some (tr_id (selected d q ! m)) else None)\<rparr>"
    using assms(2) list_tasks_page [OF lim m, of d] by simp
  have "get d (tr_id t) = Inr (task_of_row d t) \<and>
      (tq_states q \<noteq> [] \<longrightarrow> aggregate_state (task_of_row d t) \<in> set (tq_states q)) \<and>
      (tq_types q \<noteq> [] \<longrightarrow> t_type (task_of_row d t) \<in> set (tq_types q)) \<and>
      (\<forall>h. tq_host_id q = Some h \<longrightarrow> h \<in> set (map th_host_id (t_hosts (task_of_row d t))))"
    if "t \<in> set (selected d q)" for t
  proof -
    from that have sel: "t \<in> set (tasks d)" "query_selects d q t" by (auto simp: set_selected)
    from sel(2) have "\<forall>h. tq_host_id q = Some h \<longrightarrow> h \<in> set (map thr_host (rows_of_task d (tr_id t)))"
      by (auto simp: query_selects_def)
    with sel get_row [OF ok(1) sel(1)] show ?thesis
      unfolding task_hosts_of_row [OF ok(2)] aggregate_state_row [OF ok(2)]
      by (auto simp: query_selects_def)
  qed
  then show ?thesis
    unfolding p m by (auto dest: in_set_takeD)
qed

theorem list_page_correct_witness:
  "aggregate_state (task_of_row demo_db (hd (tasks demo_db))) = Pending"
proof -
  let ?q = "\<lparr>tq_states = [Pending], tq_types = [], tq_host_id = Some 2, tq_before = None, tq_limit = 5\<rparr>"
  let ?p = "\<lparr>tp_tasks = [task_of_row demo_db (hd (tasks demo_db))], tp_next_cursor = None\<rparr>"
  have ok: "db_ok demo_db" using demo_db_inv by (simp add: repo_inv_def)
  have "list_tasks demo_db ?q = Inr ?p"
    by (simp add: list_tasks_def MAX_TASK_PAGE_SIZE_def query_selects_def row_state_def view_state_def
        rows_of_task_def demo_db_def empty_db_def new_row_def)
  from list_page_correct [OF ok this] show ?thesis by simp
qed

lemma strict_desc_distinct: "sorted_wrt (\<lambda>a b. f b < (f a :: int)) xs \<Longrightarrow> distinct (map f xs)"
  by (induction xs) auto

text \<open>C5: following the cursors from any query with a valid limit terminates and lists every task that
  passes the query exactly once, newest first, in whatever number of pages the limit gives.\<close>

theorem walk_lists_everything:
  assumes "db_ok d" and "limit_ok q"
  shows "walk (Suc (length (tasks d))) d q = Some (map (task_of_row d) (selected d q)) \<and>
    distinct (map tr_id (selected d q)) \<and> set (selected d q) = {t \<in> set (tasks d). query_selects d q t} \<and>
    sorted_wrt (\<lambda>a b. tr_id b < tr_id a) (selected d q)"
proof -
  have u: "unique_keys d" using assms(1) by (simp add: db_ok_def)
  have "walk (Suc (length (tasks d))) d q = Some (map (task_of_row d) (selected d q))"
    using length_selected [of d q] by (intro walk_pages u assms(2)) simp
  moreover have "distinct (map tr_id (selected d q))"
    using selected_descending [OF u, of q] by (rule strict_desc_distinct)
  ultimately show ?thesis
    using selected_descending [OF u] by (simp add: set_selected)
qed


theorem walk_lists_everything_witness:
  "walk 2 demo_db \<lparr>tq_states = [], tq_types = [Reboot], tq_host_id = None, tq_before = None, tq_limit = 1\<rparr> =
     Some (map (task_of_row demo_db) (selected demo_db
       \<lparr>tq_states = [], tq_types = [Reboot], tq_host_id = None, tq_before = None, tq_limit = 1\<rparr>))"
proof -
  have ok: "db_ok demo_db" using demo_db_inv by (simp add: repo_inv_def)
  have len: "length (tasks demo_db) = 1" by (simp add: demo_db_def)
  show ?thesis
    using walk_lists_everything [OF ok, of
        "\<lparr>tq_states = [], tq_types = [Reboot], tq_host_id = None, tq_before = None, tq_limit = 1\<rparr>"]
    unfolding len by (simp add: limit_ok_def MAX_TASK_PAGE_SIZE_def numeral_2_eq_2)
qed

subsection \<open>The next task of a host\<close>

lemma set_host_queue:
  "set (host_queue d h) = {(t, r). t \<in> set (tasks d) \<and> r \<in> set (task_hosts d) \<and> thr_task r = tr_id t \<and>
     thr_host r = h \<and> active (thr_state r)}"
  by (auto simp: host_queue_def rows_of_task_def active_def)

lemma sort_key_hd: "sort_key f xs = y # ys \<Longrightarrow> z \<in> set xs \<Longrightarrow> f y \<le> f z"
  using sorted_sort_key [of f xs] set_sort [of f xs] by auto

text \<open>C3: \<open>get_next\<close> returns nothing exactly when no row of the host is pending or running; otherwise it
  returns the stored task of an active row of the host such that no other active row of the host comes
  before it, running rows first and then the older task.\<close>

theorem get_next_correct:
  assumes "db_ok d"
  shows "case get_next d h of
      None \<Rightarrow> (\<forall>r \<in> set (task_hosts d). thr_host r = h \<longrightarrow> \<not> active (thr_state r))
    | Some t \<Rightarrow> get d (t_id t) = Inr t \<and>
        (\<exists>r \<in> set (task_hosts d). is_row (t_id t) h r \<and> active (thr_state r) \<and>
          (\<forall>r' \<in> set (task_hosts d). \<forall>t'. thr_host r' = h \<and> active (thr_state r') \<and>
             get d (thr_task r') = Inr t' \<longrightarrow>
               (thr_state r' = Running \<longrightarrow> thr_state r = Running) \<and>
               (thr_state r = thr_state r' \<longrightarrow> t_created_at t \<le> t_created_at t')))"
proof -
  have ok: "unique_keys d" "foreign_keys d" using assms by (simp_all add: db_ok_def)
  have task: "\<exists>t \<in> set (tasks d). tr_id t = thr_task r \<and> get d (thr_task r) = Inr (task_of_row d t)"
    if "r \<in> set (task_hosts d)" for r
    using that ok(2) get_row [OF ok(1)] by (fastforce simp: foreign_keys_def)
  show ?thesis
  proof (cases "host_queue d h")
    case Nil
    then have none: "set (host_queue d h) = {}" by simp
    have "\<not> active (thr_state r)" if "r \<in> set (task_hosts d)" "thr_host r = h" for r
      using none task [OF that(1)] that unfolding set_host_queue by fastforce
    with Nil show ?thesis by (simp add: get_next_def)
  next
    case (Cons tr rest)
    obtain t r where tr: "tr = (t, r)" by (cases tr)
    have "(t, r) \<in> set (host_queue d h)" using Cons tr by simp
    then have mem: "t \<in> set (tasks d)" "r \<in> set (task_hosts d)" "is_row (tr_id t) h r" "active (thr_state r)"
      by (auto simp: set_host_queue is_row_def)
    have least: "(queue_rank r, tr_created_at t) \<le> (queue_rank r', tr_created_at t')"
      if "(t', r') \<in> set (host_queue d h)" for t' r'
      using sort_key_hd [OF Cons [unfolded host_queue_def tr], of "(t', r')"] that
      by (simp add: host_queue_def)
    have "(thr_state r' = Running \<longrightarrow> thr_state r = Running) \<and>
        (thr_state r = thr_state r' \<longrightarrow> tr_created_at t \<le> t_created_at t')"
      if r': "r' \<in> set (task_hosts d)" "thr_host r' = h" "active (thr_state r')"
        "get d (thr_task r') = Inr t'" for r' t'
    proof -
      obtain x where "x \<in> set (tasks d)" "tr_id x = thr_task r'" "t' = task_of_row d x"
        using task [OF r'(1)] r'(4) by auto
      then show ?thesis
        using least [of x r'] r' mem(4)
        by (auto simp: set_host_queue queue_rank_def task_of_row_def active_def split: if_splits)
    qed
    then show ?thesis
      using Cons tr mem get_row [OF ok(1) mem(1)]
      by (auto simp: get_next_def task_of_row_def intro!: bexI [of _ r])
  qed
qed

theorem get_next_correct_witness:
  "\<exists>t. get_next demo_db 2 = Some t \<and> get demo_db (t_id t) = Inr t"
proof -
  have ok: "db_ok demo_db" using demo_db_inv by (simp add: repo_inv_def)
  have "get_next demo_db 2 = Some (task_of_row demo_db (hd (tasks demo_db)))"
    by (simp add: get_next_def host_queue_def rows_of_task_def demo_db_def new_row_def)
  with get_next_correct [OF ok, of 2] show ?thesis by simp
qed

subsection \<open>Creating a task\<close>







subsection \<open>The hosts of a task\<close>

lemma get_row_of: "get d tid = Inr t \<Longrightarrow> \<exists>r \<in> set (tasks d). tr_id r = tid \<and> t = task_of_row d r"
  by (auto simp: get_def dest: find_member split: option.splits)

lemma hosts_in_rows:
  assumes "foreign_keys d"
  shows "hosts_in s (task_of_row d r) = map thr_host (filter (\<lambda>x. thr_state x = s) (rows_of_task d (tr_id r)))"
proof -
  have total: "\<exists>th. task_host_of d x = Some th \<and> th_state th = thr_state x \<and> th_host_id th = thr_host x"
    if "x \<in> set (rows_of_task d (tr_id r))" for x
    using task_host_of_total [OF assms, of x] that by (auto simp: rows_of_task_def)
  have "map th_host_id (filter (\<lambda>h. th_state h = s) (List.map_filter (task_host_of d) xs)) =
    map thr_host (filter (\<lambda>x. thr_state x = s) xs)" if "set xs \<subseteq> set (rows_of_task d (tr_id r))" for xs
    using that total by (induction xs) (fastforce simp: List.map_filter_def)+
  from this [of "rows_of_task d (tr_id r)"] show ?thesis by (simp add: hosts_in_def task_of_row_def)
qed

lemma rows_of_task_distinct:
  assumes "unique_keys d"
  shows "distinct (map thr_host (rows_of_task d tid))"
proof -
  have "inj_on th_key (set (task_hosts d))" "distinct (task_hosts d)"
    using assms by (simp_all add: unique_keys_def distinct_map)
  then show ?thesis
    by (auto simp: rows_of_task_def distinct_map inj_on_def th_key_def)
qed

lemma hosts_in_distinct:
  assumes "db_ok d" "get d tid = Inr t"
  shows "distinct (hosts_in s t)"
proof -
  obtain r where r: "t = task_of_row d r" using get_row_of [OF assms(2)] by blast
  have ok: "unique_keys d" "foreign_keys d" using assms(1) by (simp_all add: db_ok_def)
  show ?thesis
    unfolding r hosts_in_rows [OF ok(2)] using rows_of_task_distinct [OF ok(1), of "tr_id r"]
    by (rule distinct_map_filter)
qed

lemma set_hosts_in:
  assumes "db_ok d" "get d tid = Inr t"
  shows "h \<in> set (hosts_in s t) \<longleftrightarrow> state_at d tid h = Some s"
proof -
  obtain r where r: "tr_id r = tid" "t = task_of_row d r" using get_row_of [OF assms(2)] by blast
  have ok: "unique_keys d" "foreign_keys d" using assms(1) by (simp_all add: db_ok_def)
  have "h \<in> set (hosts_in s t) \<longleftrightarrow> (\<exists>x \<in> set (task_hosts d). thr_task x = tid \<and> thr_host x = h \<and> thr_state x = s)"
    unfolding r(2) hosts_in_rows [OF ok(2)] by (auto simp: rows_of_task_def r(1))
  also have "\<dots> \<longleftrightarrow> state_at d tid h = Some s"
    using row_at_unique [OF ok(1)] by (auto simp: state_at_def dest: row_at_key)
  finally show ?thesis .
qed

lemma get_task_id: "get d tid = Inr t \<Longrightarrow> t_id t = tid"
  using get_row_of [of d tid t] by (auto simp: task_of_row_def)

end
