(* ===== verification/Utf8.thy ===== *)
theory Utf8
  imports Rust_Str
begin

text \<open>
  UTF-8 as the standard library decodes it: \<open>str::from_utf8\<close> with its error position and length,
  \<open>String::from_utf8_lossy\<close>, and character boundaries. A text is \<open>well_formed\<close> when it does not begin
  inside a character and a boundary is never more than three bytes away; every valid text is, and
  appending keeps it. Nothing here is code of the repository.
\<close>

subsection \<open>One character\<close>

datatype utf8_next = Width nat | Bad nat | Cut

definition byte_in :: "nat \<Rightarrow> nat \<Rightarrow> char \<Rightarrow> bool" where
  "byte_in lo hi c \<longleftrightarrow> lo \<le> byte c \<and> byte c \<le> hi"

definition second3 :: "char \<Rightarrow> char \<Rightarrow> bool" where
  "second3 a b \<longleftrightarrow>
     byte a = 0xE0 \<and> byte_in 0xA0 0xBF b \<or> byte_in 0xE1 0xEC a \<and> byte_in 0x80 0xBF b \<or>
     byte a = 0xED \<and> byte_in 0x80 0x9F b \<or> byte_in 0xEE 0xEF a \<and> byte_in 0x80 0xBF b"

definition second4 :: "char \<Rightarrow> char \<Rightarrow> bool" where
  "second4 a b \<longleftrightarrow>
     byte a = 0xF0 \<and> byte_in 0x90 0xBF b \<or> byte_in 0xF1 0xF3 a \<and> byte_in 0x80 0xBF b \<or>
     byte a = 0xF4 \<and> byte_in 0x80 0x8F b"

fun next3 :: "char \<Rightarrow> string \<Rightarrow> utf8_next" where
  "next3 a [] = Cut"
| "next3 a (b # cs) =
     (if \<not> second3 a b then Bad 1
      else case cs of [] \<Rightarrow> Cut | c # _ \<Rightarrow> if is_continuation c then Width 3 else Bad 2)"

fun next4 :: "char \<Rightarrow> string \<Rightarrow> utf8_next" where
  "next4 a [] = Cut"
| "next4 a (b # cs) =
     (if \<not> second4 a b then Bad 1
      else case cs of [] \<Rightarrow> Cut
        | c # ds \<Rightarrow> if \<not> is_continuation c then Bad 2
            else case ds of [] \<Rightarrow> Cut | d # _ \<Rightarrow> if is_continuation d then Width 4 else Bad 3)"

text \<open>What the decoder finds at the start of some bytes: a character of some width, an invalid sequence of
  some length, or the beginning of a character that the end of the input cuts.\<close>

fun next_char :: "string \<Rightarrow> utf8_next" where
  "next_char [] = Cut"
| "next_char (a # bs) =
     (if byte a < 0x80 then Width 1
      else if byte_in 0xC2 0xDF a then
        (case bs of [] \<Rightarrow> Cut | b # _ \<Rightarrow> if is_continuation b then Width 2 else Bad 1)
      else if byte_in 0xE0 0xEF a then next3 a bs
      else if byte_in 0xF0 0xF4 a then next4 a bs
      else Bad 1)"

lemma next_char_Width: "next_char bs = Width w \<Longrightarrow> 0 < w \<and> w \<le> length bs"
  by (cases bs rule: next_char.cases) (auto elim!: next3.elims next4.elims split: if_splits list.splits)

lemma next_char_Bad: "next_char bs = Bad n \<Longrightarrow> 0 < n \<and> n \<le> length bs"
  by (cases bs rule: next_char.cases) (auto elim!: next3.elims next4.elims split: if_splits list.splits)

lemma next_char_append:
  "next_char p = Width w \<Longrightarrow> next_char (p @ q) = Width w"
  "next_char p = Bad n \<Longrightarrow> next_char (p @ q) = Bad n"
  by (cases p rule: next_char.cases; auto elim!: next3.elims next4.elims split: if_splits list.splits)+

lemma next_char_tail:
  assumes "next_char bs = Width w"
  shows "\<not> is_continuation (hd bs) \<and> w \<le> 4"
  using assms by (cases bs rule: next_char.cases)
    (auto simp: byte_in_def is_continuation_def elim!: next3.elims next4.elims split: if_splits list.splits)

subsection \<open>A whole text\<close>

text \<open>\<open>str::from_utf8\<close>: nothing for a valid text, otherwise \<open>valid_up_to\<close> and \<open>error_len\<close>.\<close>

function from_utf8 :: "string \<Rightarrow> (nat \<times> nat option) option" where
  "from_utf8 bs =
     (if bs = [] then None
      else case next_char bs of
        Width w \<Rightarrow> map_option (\<lambda>(v, e). (w + v, e)) (from_utf8 (drop w bs))
      | Bad n \<Rightarrow> Some (0, Some n)
      | Cut \<Rightarrow> Some (0, None))"
  by pat_completeness auto
termination
  by (relation "measure length") (auto dest: next_char_Width)

function from_utf8_lossy :: "string \<Rightarrow> string" where
  "from_utf8_lossy bs =
     (if bs = [] then []
      else case next_char bs of
        Width w \<Rightarrow> take w bs @ from_utf8_lossy (drop w bs)
      | Bad n \<Rightarrow> map char_of [0xEF, 0xBF, 0xBD :: nat] @ from_utf8_lossy (drop n bs)
      | Cut \<Rightarrow> map char_of [0xEF, 0xBF, 0xBD :: nat])"
  by pat_completeness auto
termination
  by (relation "measure length") (auto dest: next_char_Width next_char_Bad)

declare from_utf8.simps [simp del] from_utf8_lossy.simps [simp del]

definition REPLACEMENT_CHARACTER :: string where
  "REPLACEMENT_CHARACTER = map char_of [0xEF, 0xBF, 0xBD :: nat]"

definition valid_utf8 :: "string \<Rightarrow> bool" where
  "valid_utf8 s \<longleftrightarrow> from_utf8 s = None"

lemma valid_utf8_Nil [simp]: "valid_utf8 []"
  by (simp add: valid_utf8_def from_utf8.simps)

lemma valid_utf8_step:
  "valid_utf8 s \<longleftrightarrow> s = [] \<or> (\<exists>w. next_char s = Width w \<and> valid_utf8 (drop w s))"
  unfolding valid_utf8_def by (subst from_utf8.simps) (auto split: utf8_next.splits)

lemma valid_utf8_append: "valid_utf8 s \<Longrightarrow> valid_utf8 t \<Longrightarrow> valid_utf8 (s @ t)"
proof (induction "length s" arbitrary: s rule: less_induct)
  case less
  show ?case
  proof (cases "s = []")
    case False
    then obtain w where w: "next_char s = Width w" "valid_utf8 (drop w s)"
      using less.prems(1) valid_utf8_step by blast
    then have "length (drop w s) < length s" using next_char_Width by fastforce
    then have "valid_utf8 (drop w s @ t)" using less.hyps w(2) less.prems(2) by blast
    with w next_char_Width [OF w(1)] show ?thesis
      by (subst valid_utf8_step) (auto dest: next_char_append)
  qed (use less.prems in simp)
qed

lemma valid_replacement: "valid_utf8 REPLACEMENT_CHARACTER"
  by (simp add: REPLACEMENT_CHARACTER_def valid_utf8_step [of "_ # _"] second3_def byte_in_def is_continuation_def)

lemma from_utf8_Some:
  "from_utf8 bs = Some (v, e) \<Longrightarrow>
   v \<le> length bs \<and> valid_utf8 (take v bs) \<and> drop v bs \<noteq> [] \<and>
   next_char (drop v bs) = (case e of None \<Rightarrow> Cut | Some n \<Rightarrow> Bad n)"
proof (induction "length bs" arbitrary: bs v rule: less_induct)
  case less
  from less.prems have ne: "bs \<noteq> []" by (auto simp: from_utf8.simps)
  show ?case
  proof (cases "next_char bs")
    case (Width w)
    then have w: "0 < w" "w \<le> length bs" using next_char_Width by auto
    from less.prems ne Width obtain v' where v': "from_utf8 (drop w bs) = Some (v', e)" "v = w + v'"
      by (subst (asm) from_utf8.simps) auto
    have IH: "v' \<le> length (drop w bs)" "valid_utf8 (take v' (drop w bs))" "drop v' (drop w bs) \<noteq> []"
      "next_char (drop v' (drop w bs)) = (case e of None \<Rightarrow> Cut | Some n \<Rightarrow> Bad n)"
      using less.hyps [OF _ v'(1)] w ne by auto
    have "next_char (take v bs) = Width w"
    proof -
      have "take v bs = take w bs @ take v' (drop w bs)" by (simp add: v'(2) take_add)
      moreover have "next_char (take w bs) = Width w"
        using Width w by (cases bs rule: next_char.cases)
          (auto elim!: next3.elims next4.elims split: if_splits list.splits)
      ultimately show ?thesis by (simp add: next_char_append)
    qed
    then have "valid_utf8 (take v bs)"
      using IH(2) w v'(2) by (subst valid_utf8_step) (auto simp: drop_take)
    with IH v' w show ?thesis by (simp add: add.commute)
  qed (use less.prems ne in \<open>subst (asm) from_utf8.simps, auto\<close>)+
qed

subsection \<open>Lossy decoding\<close>

lemma lossy_Nil [simp]: "from_utf8_lossy [] = []"
  by (simp add: from_utf8_lossy.simps)

lemma lossy_valid_append: "valid_utf8 s \<Longrightarrow> from_utf8_lossy (s @ t) = s @ from_utf8_lossy t"
proof (induction "length s" arbitrary: s rule: less_induct)
  case less
  show ?case
  proof (cases "s = []")
    case False
    then obtain w where w: "next_char s = Width w" "valid_utf8 (drop w s)"
      using less.prems(1) valid_utf8_step by blast
    then have wl: "0 < w" "w \<le> length s" using next_char_Width by auto
    then have "length (drop w s) < length s" by simp
    then have "from_utf8_lossy (drop w s @ t) = drop w s @ from_utf8_lossy t"
      using less.hyps w(2) by blast
    moreover have "next_char (s @ t) = Width w" using w(1) by (rule next_char_append)
    ultimately show ?thesis
      using False wl by (subst from_utf8_lossy.simps) (simp add: append_assoc [symmetric] del: append_assoc)
  qed simp
qed

lemma lossy_valid: "valid_utf8 s \<Longrightarrow> from_utf8_lossy s = s"
  using lossy_valid_append [of s "[]"] by simp

lemma lossy_bad: "next_char s = Bad n \<Longrightarrow> from_utf8_lossy (s @ t) = REPLACEMENT_CHARACTER @ from_utf8_lossy (drop n s @ t)"
  using next_char_Bad [of s n] next_char_append(2) [of s n t]
  by (subst from_utf8_lossy.simps) (auto simp: REPLACEMENT_CHARACTER_def)

lemma lossy_cut: "s \<noteq> [] \<Longrightarrow> next_char s = Cut \<Longrightarrow> from_utf8_lossy s = REPLACEMENT_CHARACTER"
  by (subst from_utf8_lossy.simps) (simp add: REPLACEMENT_CHARACTER_def)

lemma valid_lossy: "valid_utf8 (from_utf8_lossy bs)"
proof (induction "length bs" arbitrary: bs rule: less_induct)
  case less
  show ?case
  proof (cases "bs = []")
    case False
    show ?thesis
    proof (cases "next_char bs")
      case (Width w)
      then have w: "0 < w" "w \<le> length bs" using next_char_Width by auto
      have "next_char (take w bs) = Width w"
        using Width w by (cases bs rule: next_char.cases)
          (auto elim!: next3.elims next4.elims split: if_splits list.splits)
      then have "valid_utf8 (take w bs)" by (subst valid_utf8_step) simp
      moreover have "valid_utf8 (from_utf8_lossy (drop w bs))" using less.hyps w False by simp
      ultimately show ?thesis
        using False Width by (subst from_utf8_lossy.simps) (simp add: valid_utf8_append)
    next
      case (Bad n)
      then have n: "0 < n" "n \<le> length bs" using next_char_Bad by auto
      have "valid_utf8 (from_utf8_lossy (drop n bs))" using less.hyps n False by simp
      then show ?thesis
        using valid_utf8_append [OF valid_replacement] lossy_bad [OF Bad, of "[]"] by simp
    next
      case Cut
      then show ?thesis using lossy_cut False valid_replacement by simp
    qed
  qed simp
qed

subsection \<open>Character boundaries\<close>

definition is_char_boundary :: "string \<Rightarrow> nat \<Rightarrow> bool" where
  "is_char_boundary s i \<longleftrightarrow>
     i = 0 \<or> (if i < length s then \<not> is_continuation (s ! i) else i = length s)"

definition well_formed :: "string \<Rightarrow> bool" where
  "well_formed s \<longleftrightarrow>
     (s \<noteq> [] \<longrightarrow> \<not> is_continuation (hd s)) \<and>
     (\<forall>i \<le> length s. \<exists>j. i \<le> j \<and> j \<le> i + 3 \<and> j \<le> length s \<and> is_char_boundary s j)"

lemma boundary_ends [simp]: "is_char_boundary s 0" "is_char_boundary s (length s)"
  by (simp_all add: is_char_boundary_def)

lemma boundary_append_left:
  "well_formed u \<Longrightarrow> j \<le> length s \<Longrightarrow> is_char_boundary (s @ u) j \<longleftrightarrow> is_char_boundary s j"
  by (cases u) (auto simp: is_char_boundary_def well_formed_def nth_append)

lemma boundary_append_right:
  "well_formed u \<Longrightarrow> is_char_boundary (s @ u) (length s + j) \<longleftrightarrow> is_char_boundary u j"
  by (cases u; cases j) (auto simp: is_char_boundary_def well_formed_def nth_append)

lemma well_formed_append: "well_formed s \<Longrightarrow> well_formed u \<Longrightarrow> well_formed (s @ u)"
proof -
  assume s: "well_formed s" and u: "well_formed u"
  have "\<exists>j. i \<le> j \<and> j \<le> i + 3 \<and> j \<le> length (s @ u) \<and> is_char_boundary (s @ u) j"
    if "i \<le> length (s @ u)" for i
  proof (cases "i \<le> length s")
    case True
    with s obtain j where "i \<le> j" "j \<le> i + 3" "j \<le> length s" "is_char_boundary s j"
      unfolding well_formed_def by blast
    then show ?thesis using boundary_append_left [OF u] by (intro exI [of _ j]) simp
  next
    case False
    with that have "i - length s \<le> length u" by simp
    with u obtain j where "i - length s \<le> j" "j \<le> i - length s + 3" "j \<le> length u" "is_char_boundary u j"
      unfolding well_formed_def by blast
    then show ?thesis
      using False boundary_append_right [OF u] by (intro exI [of _ "length s + j"]) auto
  qed
  then show "well_formed (s @ u)"
    using s u unfolding well_formed_def by (cases s) auto
qed

lemma well_formed_drop:
  assumes s: "well_formed s" and b: "is_char_boundary s i" and i: "i \<le> length s"
  shows "well_formed (drop i s)"
proof -
  have hd: "drop i s \<noteq> [] \<longrightarrow> \<not> is_continuation (hd (drop i s))"
    using s b i by (cases "i = 0") (auto simp: well_formed_def is_char_boundary_def hd_drop_conv_nth split: if_splits)
  have bd: "is_char_boundary (drop i s) j" if "is_char_boundary s (i + j)" "i + j \<le> length s" for j
    using that i by (cases j) (auto simp: is_char_boundary_def split: if_splits)
  have "\<exists>j. k \<le> j \<and> j \<le> k + 3 \<and> j \<le> length (drop i s) \<and> is_char_boundary (drop i s) j"
    if k: "k \<le> length (drop i s)" for k
  proof -
    from k i have "i + k \<le> length s" by simp
    with s obtain j where j: "i + k \<le> j" "j \<le> i + k + 3" "j \<le> length s" "is_char_boundary s j"
      unfolding well_formed_def by blast
    then have "is_char_boundary (drop i s) (j - i)" using bd [of "j - i"] by simp
    moreover have "k \<le> j - i" "j - i \<le> k + 3" "j - i \<le> length (drop i s)" using j by auto
    ultimately show ?thesis by blast
  qed
  with hd show ?thesis unfolding well_formed_def by blast
qed

lemma valid_well_formed: "valid_utf8 s \<Longrightarrow> well_formed s"
proof (induction "length s" arbitrary: s rule: less_induct)
  case less
  show ?case
  proof (cases "s = []")
    case True
    then show ?thesis by (simp add: well_formed_def)
  next
    case False
    then obtain w where w: "next_char s = Width w" "valid_utf8 (drop w s)"
      using less.prems valid_utf8_step by blast
    then have wl: "0 < w" "w \<le> length s" "\<not> is_continuation (hd s)" "w \<le> 4"
      using next_char_Width next_char_tail by auto
    then have tail: "well_formed (drop w s)" using less.hyps [of "drop w s"] w(2) by simp
    have first: "well_formed (take w s)"
    proof -
      have "\<exists>j. i \<le> j \<and> j \<le> i + 3 \<and> j \<le> length (take w s) \<and> is_char_boundary (take w s) j"
        if "i \<le> length (take w s)" for i
        using that wl
        by (intro exI [of _ "if i = 0 then 0 else w"]) (auto simp: is_char_boundary_def)
      then show ?thesis using wl False by (auto simp: well_formed_def)
    qed
    show ?thesis using well_formed_append [OF first tail] by simp
  qed
qed

end
