(* ===== verification/Script_Output.thy ===== *)
theory Script_Output
  imports Task_Queue Utf8
begin

text \<open>
  The output of a post-install script, from the bytes the agent streams to the text the dashboard shows:
  \<open>crates/core/src/service/script_output.rs\<close> decodes the stream and appends text,
  \<open>crates/core/src/repository/task.rs\<close> keeps the head and the latest tail of it in chunks and
  assembles them again. The specification is \<open>shown\<close>, a function of the whole text; \<open>stored\<close> relates
  the chunks in the table to the text they stand for.
\<close>

definition SCRIPT_OUTPUT_HEAD_BYTES :: nat where
  "SCRIPT_OUTPUT_HEAD_BYTES = 64 * 1024"

definition SCRIPT_OUTPUT_TAIL_BYTES :: nat where
  "SCRIPT_OUTPUT_TAIL_BYTES = 256 * 1024"

type_synonym chunk = "int \<times> string"

definition ceil_char_boundary :: "string \<Rightarrow> nat \<Rightarrow> nat" where
  "ceil_char_boundary text index =
     (case List.find (is_char_boundary text) [min index (length text)..<length text + 1] of
        Some i \<Rightarrow> i | None \<Rightarrow> length text)"

definition kept_output :: "int \<Rightarrow> string \<Rightarrow> chunk list" where
  "kept_output at text =
     (let head_room = int SCRIPT_OUTPUT_HEAD_BYTES - at;
          cut = (if 0 < head_room then ceil_char_boundary text (nat head_room) else 0);
          kept = (if 0 < head_room then [(at, take cut text)] else []);
          rest = drop cut text;
          rest_start = at + int cut
      in if rest \<noteq> []
         then let skip = ceil_char_boundary rest (length rest - SCRIPT_OUTPUT_TAIL_BYTES)
              in kept @ [(rest_start + int skip, drop skip rest)]
         else kept)"

definition omitted_marker :: "int \<Rightarrow> string" where
  "omitted_marker n =
     (let dots = map char_of [0xE2, 0x80, 0xA6 :: nat]; newline = [char_of (10 :: nat)]
      in newline @ ''['' @ dots @ '' '' @ int_str n @ '' bytes of output omitted '' @ dots @ '']'' @ newline)"

definition assemble_output :: "chunk list \<Rightarrow> string" where
  "assemble_output chunks =
     (let head_end = int SCRIPT_OUTPUT_HEAD_BYTES;
          head = filter (\<lambda>(at, _). at < head_end) chunks;
          tail = filter (\<lambda>(at, _). \<not> at < head_end) chunks;
          output = concat (map snd head)
      in case tail of
           [] \<Rightarrow> output
         | (tail_start, _) # _ \<Rightarrow>
             let text = concat (map snd tail);
                 skip = ceil_char_boundary text (length text - SCRIPT_OUTPUT_TAIL_BYTES);
                 omitted = tail_start + int skip - int (length output)
             in output @ (if omitted > 0 then omitted_marker omitted else []) @ drop skip text)"

text \<open>The condition of the \<open>DELETE\<close> that follows every append.\<close>

definition dropped :: "int \<Rightarrow> chunk \<Rightarrow> bool" where
  "dropped total_bytes c \<longleftrightarrow>
     int SCRIPT_OUTPUT_HEAD_BYTES \<le> fst c \<and>
     fst c + int (length (snd c)) \<le> total_bytes - int SCRIPT_OUTPUT_TAIL_BYTES"

subsection \<open>Character boundaries\<close>

lemma constants: "0 < SCRIPT_OUTPUT_HEAD_BYTES" "4 \<le> SCRIPT_OUTPUT_TAIL_BYTES"
  by (simp_all add: SCRIPT_OUTPUT_HEAD_BYTES_def SCRIPT_OUTPUT_TAIL_BYTES_def)

lemma ceil_eqI:
  assumes "is_char_boundary s c" "min i (length s) \<le> c" "c \<le> length s"
    and "\<And>j. min i (length s) \<le> j \<Longrightarrow> j < c \<Longrightarrow> \<not> is_char_boundary s j"
  shows "ceil_char_boundary s i = c"
proof -
  have "[min i (length s)..<length s + 1] = [min i (length s)..<c] @ [c..<length s + 1]"
    using assms(2,3) upt_add_eq_append [of "min i (length s)" c "length s + 1 - c"] by simp
  also have "[c..<length s + 1] = c # [Suc c..<length s + 1]"
    using assms(3) by (intro upt_conv_Cons) simp
  finally have "[min i (length s)..<length s + 1] = [min i (length s)..<c] @ c # [Suc c..<length s + 1]" .
  moreover have "List.find (is_char_boundary s) [min i (length s)..<c] = None"
    using assms(4) by (auto simp: find_None_iff)
  ultimately show ?thesis
    using assms(1) by (simp add: ceil_char_boundary_def find_append)
qed

lemma ceil_spec:
  "is_char_boundary s (ceil_char_boundary s i)" "min i (length s) \<le> ceil_char_boundary s i"
  "ceil_char_boundary s i \<le> length s"
  "min i (length s) \<le> j \<Longrightarrow> j < ceil_char_boundary s i \<Longrightarrow> \<not> is_char_boundary s j"
proof -
  define c where "c = (LEAST j. min i (length s) \<le> j \<and> is_char_boundary s j)"
  have ex: "min i (length s) \<le> length s \<and> is_char_boundary s (length s)" by simp
  have c: "min i (length s) \<le> c \<and> is_char_boundary s c"
    unfolding c_def by (rule LeastI) (rule ex)
  have cl: "c \<le> length s"
    unfolding c_def by (rule Least_le) (rule ex)
  have least: "\<not> is_char_boundary s j" if "min i (length s) \<le> j" "j < c" for j
    using that not_less_Least [of j "\<lambda>j. min i (length s) \<le> j \<and> is_char_boundary s j"]
    unfolding c_def by blast
  have eq: "ceil_char_boundary s i = c"
    by (rule ceil_eqI) (use c cl least in auto)
  show "is_char_boundary s (ceil_char_boundary s i)" "min i (length s) \<le> ceil_char_boundary s i"
    "ceil_char_boundary s i \<le> length s"
    using c cl by (simp_all add: eq)
  show "min i (length s) \<le> j \<Longrightarrow> j < ceil_char_boundary s i \<Longrightarrow> \<not> is_char_boundary s j"
    using least by (simp add: eq)
qed

lemma ceil_le: "min i (length s) \<le> j \<Longrightarrow> j \<le> length s \<Longrightarrow> is_char_boundary s j \<Longrightarrow> ceil_char_boundary s i \<le> j"
  using ceil_spec(4) [where s = s and i = i and j = j] by (meson not_le)

lemma ceil_all: "length s \<le> i \<Longrightarrow> ceil_char_boundary s i = length s"
  using ceil_spec(2,3) [where s = s and i = i] by simp

lemma ceil_0 [simp]: "ceil_char_boundary s 0 = 0"
  using ceil_le [of 0 s 0] by simp

lemma ceil_mono: "i \<le> j \<Longrightarrow> ceil_char_boundary s i \<le> ceil_char_boundary s j"
  using ceil_spec(1-3) [where s = s and i = j] ceil_spec(2) [where s = s and i = j] by (intro ceil_le) auto

lemma ceil_near: "well_formed s \<Longrightarrow> i \<le> length s \<Longrightarrow> ceil_char_boundary s i \<le> i + 3"
proof -
  assume "well_formed s" "i \<le> length s"
  then obtain j where "i \<le> j" "j \<le> i + 3" "j \<le> length s" "is_char_boundary s j"
    unfolding well_formed_def by blast
  then show ?thesis using ceil_le [of i s j] by simp
qed

lemma ceil_append_left:
  assumes "well_formed u" "i \<le> length s"
  shows "ceil_char_boundary (s @ u) i = ceil_char_boundary s i"
  by (rule ceil_eqI)
     (use ceil_spec [where s = s and i = i] assms in \<open>auto simp: boundary_append_left min_absorb1\<close>)

lemma ceil_append_right:
  assumes "well_formed u" "i \<le> length u"
  shows "ceil_char_boundary (s @ u) (length s + i) = length s + ceil_char_boundary u i"
proof (rule ceil_eqI)
  fix j assume "min (length s + i) (length (s @ u)) \<le> j" "j < length s + ceil_char_boundary u i"
  then have "min i (length u) \<le> j - length s" "j - length s < ceil_char_boundary u i" "length s \<le> j"
    using assms(2) by auto
  then have "\<not> is_char_boundary u (j - length s)" using ceil_spec(4) [where s = u and i = i] by blast
  with \<open>length s \<le> j\<close> show "\<not> is_char_boundary (s @ u) j"
    using boundary_append_right [OF assms(1), of s "j - length s"] by simp
qed (use ceil_spec [where s = u and i = i] assms in \<open>auto simp: boundary_append_right\<close>)

subsection \<open>The text the chunks stand for\<close>

definition head_end :: "string \<Rightarrow> nat" where
  "head_end text = ceil_char_boundary text SCRIPT_OUTPUT_HEAD_BYTES"

definition tail_start :: "string \<Rightarrow> nat" where
  "tail_start text =
     max (head_end text) (ceil_char_boundary text (length text - SCRIPT_OUTPUT_TAIL_BYTES))"

definition shown :: "string \<Rightarrow> string" where
  "shown text =
     take (head_end text) text @
     (if head_end text < tail_start text then omitted_marker (int (tail_start text) - int (head_end text)) else []) @
     drop (tail_start text) text"

text \<open>Consecutive pieces of the text from one position to another, each beginning at a boundary.\<close>

fun covers :: "string \<Rightarrow> nat \<Rightarrow> chunk list \<Rightarrow> nat \<Rightarrow> bool" where
  "covers text a [] b \<longleftrightarrow> a = b"
| "covers text a ((s, t) # cs) b \<longleftrightarrow>
     s = int a \<and> t \<noteq> [] \<and> is_char_boundary text a \<and> a + length t \<le> length text \<and>
     take (length t) (drop a text) = t \<and> covers text (a + length t) cs b"

definition stored :: "string \<Rightarrow> chunk list \<Rightarrow> bool" where
  "stored text cs \<longleftrightarrow>
     (\<exists>hs ts a. cs = hs @ ts \<and> covers text 0 hs (head_end text) \<and> covers text a ts (length text) \<and>
        (\<forall>c \<in> set hs. fst c < int SCRIPT_OUTPUT_HEAD_BYTES) \<and>
        (\<forall>c \<in> set ts. length (snd c) \<le> SCRIPT_OUTPUT_TAIL_BYTES \<and> \<not> dropped (int (length text)) c) \<and>
        head_end text \<le> a \<and> a \<le> tail_start text)"

lemma covers_append:
  "covers text a cs b \<Longrightarrow> well_formed u \<Longrightarrow> b \<le> length text \<Longrightarrow> covers (text @ u) a cs b"
  by (induction "text" a cs b rule: covers.induct) (auto simp: boundary_append_left)

lemma covers_le: "covers text a cs b \<Longrightarrow> a \<le> b"
  by (induction "text" a cs b rule: covers.induct) auto

lemma covers_end: "covers text a cs b \<Longrightarrow> a \<le> length text \<Longrightarrow> b \<le> length text"
  by (induction "text" a cs b rule: covers.induct) auto

lemma covers_concat: "covers text a cs b \<Longrightarrow> concat (map snd cs) = take (b - a) (drop a text)"
proof (induction "text" a cs b rule: covers.induct)
  case (1 w a b)
  then show ?case by simp
next
  case (2 w a s t cs b)
  then have "a + length t \<le> b" using covers_le by auto
  then have "take (b - a) (drop a w) =
      take (length t) (drop a w) @ take (b - (a + length t)) (drop (a + length t) w)"
    using take_add [of "length t" "b - (a + length t)" "drop a w"] by (simp add: add.commute)
  with 2 show ?case by simp
qed

lemma covers_join: "covers text a cs b \<Longrightarrow> covers text b ds c \<Longrightarrow> covers text a (cs @ ds) c"
  by (induction "text" a cs b rule: covers.induct) auto

lemma covers_starts: "covers text a cs b \<Longrightarrow> c \<in> set cs \<Longrightarrow> int a \<le> fst c \<and> fst c + int (length (snd c)) \<le> int b"
proof (induction "text" a cs b rule: covers.induct)
  case (2 w a s t cs b)
  then show ?case using covers_le [of w "a + length t" cs b] by auto
qed simp

lemma covers_sorted: "covers text a cs b \<Longrightarrow> sorted_wrt (<) (map fst cs)"
proof (induction "text" a cs b rule: covers.induct)
  case (2 w a s t cs b)
  then have "s < fst c" if "c \<in> set cs" for c
    using covers_starts [of w "a + length t" cs b c] that by (cases t) auto
  with 2 show ?case by simp
qed simp

lemma covers_nonempty: "covers text a cs b \<Longrightarrow> c \<in> set cs \<Longrightarrow> snd c \<noteq> []"
  by (induction "text" a cs b rule: covers.induct) auto

lemma covers_boundary: "covers text a cs b \<Longrightarrow> cs \<noteq> [] \<Longrightarrow> is_char_boundary text a"
  by (cases cs) auto

text \<open>Dropping the pieces that end at or before a limit leaves consecutive pieces.\<close>

lemma covers_drop:
  "covers text a cs b \<Longrightarrow>
   \<exists>a'. covers text a' (filter (\<lambda>c. \<not> fst c + int (length (snd c)) \<le> L) cs) b \<and> a \<le> a' \<and>
     (a' = a \<or> int a' \<le> L)"
proof (induction "text" a cs b rule: covers.induct)
  case (1 w a b)
  then show ?case by auto
next
  case (2 w a s t cs b)
  show ?case
  proof (cases "s + int (length t) \<le> L")
    case True
    with 2 show ?thesis by force
  next
    case False
    then have "filter (\<lambda>c. \<not> fst c + int (length (snd c)) \<le> L) cs = cs"
      using covers_starts [of w "a + length t" cs b] 2(2) by (fastforce simp: filter_id_conv)
    with 2(2) False show ?thesis by (intro exI [of _ a]) simp
  qed
qed

subsection \<open>Appending\<close>

lemma head_end_le: "head_end T \<le> length T" "min SCRIPT_OUTPUT_HEAD_BYTES (length T) \<le> head_end T"
  using ceil_spec [where s = T and i = SCRIPT_OUTPUT_HEAD_BYTES] by (simp_all add: head_end_def)

lemma head_end_short: "length T \<le> SCRIPT_OUTPUT_HEAD_BYTES \<Longrightarrow> head_end T = length T"
  by (simp add: head_end_def ceil_all)

lemma tail_start_bounds: "head_end T \<le> tail_start T" "tail_start T \<le> length T"
  "int (length T) - int SCRIPT_OUTPUT_TAIL_BYTES \<le> int (tail_start T)"
  using ceil_spec(2,3) [where s = T and i = "length T - SCRIPT_OUTPUT_TAIL_BYTES"] head_end_le [of T]
  by (auto simp: tail_start_def)

lemma tail_start_less: "well_formed T \<Longrightarrow> head_end T < length T \<Longrightarrow> tail_start T < length T"
  using ceil_near [of T "length T - SCRIPT_OUTPUT_TAIL_BYTES"] constants
  by (cases "SCRIPT_OUTPUT_TAIL_BYTES \<le> length T") (auto simp: tail_start_def)

lemma not_dropped_head: "fst c < int SCRIPT_OUTPUT_HEAD_BYTES \<Longrightarrow> \<not> dropped n c"
  by (simp add: dropped_def)

lemma filter_dropped_tail:
  "(\<forall>c \<in> set ts. int SCRIPT_OUTPUT_HEAD_BYTES \<le> fst c) \<Longrightarrow>
   filter (\<lambda>c. \<not> dropped n c) ts =
   filter (\<lambda>c. \<not> fst c + int (length (snd c)) \<le> n - int SCRIPT_OUTPUT_TAIL_BYTES) ts"
  by (intro filter_cong) (auto simp: dropped_def)

text \<open>The last part of an append: what is left of the new text after the head took its share.\<close>

lemma append_first_tail:
  assumes u: "well_formed u" and T: "well_formed T" and m: "m = ceil_char_boundary u (SCRIPT_OUTPUT_HEAD_BYTES - length T)"
    and short: "length T < SCRIPT_OUTPUT_HEAD_BYTES" and rest: "drop m u \<noteq> []"
    and skip: "skip = ceil_char_boundary (drop m u) (length (drop m u) - SCRIPT_OUTPUT_TAIL_BYTES)"
  shows "head_end (T @ u) = length T + m"
    and "head_end (T @ u) \<le> length T + m + skip \<and> length T + m + skip \<le> tail_start (T @ u)"
    and "covers (T @ u) (length T + m + skip) [(int (length T + m + skip), drop skip (drop m u))] (length (T @ u))"
    and "length (drop skip (drop m u)) \<le> SCRIPT_OUTPUT_TAIL_BYTES"
proof -
  let ?r = "drop m u"
  have cl: "m < length u" using rest by auto
  have head_room: "SCRIPT_OUTPUT_HEAD_BYTES - length T \<le> length u"
    using cl m ceil_spec(2) [where s = u and i = "SCRIPT_OUTPUT_HEAD_BYTES - length T"] by simp
  show e: "head_end (T @ u) = length T + m"
    using ceil_append_right [OF u head_room, of T] short by (simp add: head_end_def m)
  have b: "is_char_boundary u m" using m ceil_spec(1) by simp
  have r: "well_formed ?r" using well_formed_drop [OF u b] cl by simp
  have split: "T @ u = (T @ take m u) @ ?r" by simp
  have lb: "length (T @ take m u) = length T + m" using cl by simp
  have near: "skip \<le> length ?r - SCRIPT_OUTPUT_TAIL_BYTES + 3"
    unfolding skip by (rule ceil_near [OF r]) simp
  have far: "length ?r - SCRIPT_OUTPUT_TAIL_BYTES \<le> skip"
    using ceil_spec(2) [where s = ?r and i = "length ?r - SCRIPT_OUTPUT_TAIL_BYTES"] by (simp add: skip)
  have sk0: "length ?r \<le> SCRIPT_OUTPUT_TAIL_BYTES \<Longrightarrow> skip = 0" by (simp add: skip)
  have less: "skip < length ?r"
    using near sk0 constants(2) cl by (cases "length ?r \<le> SCRIPT_OUTPUT_TAIL_BYTES") auto
  show "length (drop skip ?r) \<le> SCRIPT_OUTPUT_TAIL_BYTES" using far less by simp
  have bs: "is_char_boundary (T @ u) (length T + m + skip)"
    using boundary_append_right [OF r, of "T @ take m u" skip] ceil_spec(1) [of ?r] lb
    by (simp add: split [symmetric] skip del: drop_drop length_drop)
  show "covers (T @ u) (length T + m + skip) [(int (length T + m + skip), drop skip ?r)] (length (T @ u))"
    using bs less cl by (simp add: add.commute)
  have "length T + m + skip \<le> tail_start (T @ u)"
  proof (cases "length ?r \<le> SCRIPT_OUTPUT_TAIL_BYTES")
    case True
    then show ?thesis using sk0 tail_start_bounds(1) [of "T @ u"] e by simp
  next
    case False
    then have "length (T @ u) - SCRIPT_OUTPUT_TAIL_BYTES =
        length (T @ take m u) + (length ?r - SCRIPT_OUTPUT_TAIL_BYTES)"
      using cl by simp
    then have "ceil_char_boundary (T @ u) (length (T @ u) - SCRIPT_OUTPUT_TAIL_BYTES) = length T + m + skip"
      using ceil_append_right [OF r, of "length ?r - SCRIPT_OUTPUT_TAIL_BYTES" "T @ take m u"] lb
      by (simp add: split [symmetric] skip del: drop_drop length_drop length_append)
    then show ?thesis unfolding tail_start_def by simp
  qed
  with e show "head_end (T @ u) \<le> length T + m + skip \<and> length T + m + skip \<le> tail_start (T @ u)"
    by simp
qed

lemma stored_empty: "stored [] []"
proof -
  have "head_end [] = 0" using head_end_le(1) [of "[]"] by simp
  then show ?thesis by (auto simp: stored_def intro!: exI [of _ "[]"])
qed

lemma covers_one: "covers T a [(s, t)] b \<Longrightarrow> s = int a \<and> b = a + length t \<and> t \<noteq> []"
  by auto

lemma stored_short:
  assumes "stored T cs" "well_formed T" "head_end T = length T"
  shows "covers T 0 cs (length T)" "\<forall>c \<in> set cs. fst c < int SCRIPT_OUTPUT_HEAD_BYTES"
proof -
  from assms(1) obtain hs ts a where h: "cs = hs @ ts" "covers T 0 hs (head_end T)" "covers T a ts (length T)"
    "\<forall>c \<in> set hs. fst c < int SCRIPT_OUTPUT_HEAD_BYTES" "head_end T \<le> a" "a \<le> tail_start T"
    unfolding stored_def by blast
  then have "a = length T" using assms(3) tail_start_bounds(2) [of T] by simp
  with h(3) have "ts = []" by (cases ts) (auto dest: covers_le)
  with h assms(3) show "covers T 0 cs (length T)" "\<forall>c \<in> set cs. fst c < int SCRIPT_OUTPUT_HEAD_BYTES" by auto
qed

lemma dropped_last: "t \<noteq> [] \<Longrightarrow> s + int (length t) = n \<Longrightarrow> \<not> dropped n (s, t)"
  using constants(2) by (simp add: dropped_def)

text \<open>One append keeps the relation: the new chunks and the deletion leave chunks that stand for the longer
  text. The first case is a text that still fits the head, the second one past it.\<close>

lemma stored_append_head:
  assumes st: "stored T cs" and T: "well_formed T" and u: "well_formed u" "u \<noteq> []"
    and short: "length T < SCRIPT_OUTPUT_HEAD_BYTES"
  shows "stored (T @ u) (filter (\<lambda>c. \<not> dropped (int (length (T @ u))) c) (cs @ kept_output (int (length T)) u))"
proof -
  define m where "m = ceil_char_boundary u (SCRIPT_OUTPUT_HEAD_BYTES - length T)"
  let ?n = "length T" and ?r = "drop m u"
  have eT: "head_end T = ?n" using head_end_short short by simp
  note cs = stored_short [OF st T eT]
  have room: "nat (int SCRIPT_OUTPUT_HEAD_BYTES - int ?n) = SCRIPT_OUTPUT_HEAD_BYTES - ?n" by simp
  have "0 < min (SCRIPT_OUTPUT_HEAD_BYTES - ?n) (length u)" using short u(2) by simp
  then have ml: "m \<le> length u" "0 < m"
    using ceil_spec(2,3) [where s = u and i = "SCRIPT_OUTPUT_HEAD_BYTES - ?n"]
    unfolding m_def by (blast, linarith)
  have head: "covers (T @ u) 0 (cs @ [(int ?n, take m u)]) (?n + m)"
  proof (rule covers_join)
    show "covers (T @ u) 0 cs ?n" using covers_append [OF cs(1) u(1)] by simp
    have "is_char_boundary (T @ u) ?n" using boundary_append_left [OF u(1), of ?n T] by simp
    then show "covers (T @ u) ?n [(int ?n, take m u)] (?n + m)" using ml u(2) by simp
  qed
  have starts: "\<forall>c \<in> set (cs @ [(int ?n, take m u)]). fst c < int SCRIPT_OUTPUT_HEAD_BYTES"
    using cs(2) short by auto
  then have keep: "filter (\<lambda>c. \<not> dropped n c) (cs @ [(int ?n, take m u)]) = cs @ [(int ?n, take m u)]" for n
    unfolding filter_id_conv using not_dropped_head by blast
  show ?thesis
  proof (cases "?r = []")
    case True
    then have mu: "m = length u" using ml by simp
    have e: "head_end (T @ u) = length (T @ u)"
    proof (cases "SCRIPT_OUTPUT_HEAD_BYTES - ?n \<le> length u")
      case inside: True
      then show ?thesis
        using ceil_append_right [OF u(1) inside, of T] short mu by (simp add: head_end_def m_def)
    qed (simp add: head_end_short)
    have kept: "kept_output (int ?n) u = [(int ?n, take m u)]"
      using True short by (simp add: kept_output_def Let_def room m_def)
    show ?thesis
      unfolding kept keep unfolding stored_def
      using head starts e mu tail_start_bounds [of "T @ u"]
      by (intro exI [of _ "cs @ [(int ?n, take m u)]"] exI [of _ "[]"] exI [of _ "length (T @ u)"]) simp
  next
    case False
    define k where "k = ceil_char_boundary ?r (length ?r - SCRIPT_OUTPUT_TAIL_BYTES)"
    note tail = append_first_tail [OF u(1) T m_def short False k_def]
    let ?c = "(int (?n + m + k), drop k ?r)"
    have kept: "kept_output (int ?n) u = [(int ?n, take m u), ?c]"
      using False short by (simp add: kept_output_def Let_def room m_def [symmetric] k_def)
    have last: "\<not> dropped (int (length (T @ u))) ?c"
      using covers_one [OF tail(3)] by (intro dropped_last) simp_all
    have all: "filter (\<lambda>c. \<not> dropped (int (length (T @ u))) c) (cs @ kept_output (int ?n) u) =
        (cs @ [(int ?n, take m u)]) @ [?c]"
    proof -
      have "cs @ kept_output (int ?n) u = (cs @ [(int ?n, take m u)]) @ [?c]" by (simp add: kept)
      then show ?thesis
        using last keep [of "int (length (T @ u))"]
          filter_append [of "\<lambda>c. \<not> dropped (int (length (T @ u))) c" "cs @ [(int ?n, take m u)]" "[?c]"]
        by (simp only: filter.simps if_True not_False_eq_True)
    qed
    show ?thesis
      unfolding all stored_def
      by (intro exI [of _ "cs @ [(int ?n, take m u)]"] exI [of _ "[?c]"] exI [of _ "?n + m + k"] conjI refl)
         (use head starts tail last in auto)
  qed
qed

lemma stored_append_tail:
  assumes st: "stored T cs" and T: "well_formed T" and u: "well_formed u" "u \<noteq> []"
    and long: "SCRIPT_OUTPUT_HEAD_BYTES \<le> length T"
  shows "stored (T @ u) (filter (\<lambda>c. \<not> dropped (int (length (T @ u))) c) (cs @ kept_output (int (length T)) u))"
proof -
  let ?n = "length T" and ?N = "int (length (T @ u))"
  let ?L = "?N - int SCRIPT_OUTPUT_TAIL_BYTES"
  define k where "k = ceil_char_boundary u (length u - SCRIPT_OUTPUT_TAIL_BYTES)"
  let ?c = "(int (?n + k), drop k u)"
  obtain hs ts a where h: "cs = hs @ ts" "covers T 0 hs (head_end T)" "covers T a ts ?n"
    "\<forall>c \<in> set hs. fst c < int SCRIPT_OUTPUT_HEAD_BYTES"
    "\<forall>c \<in> set ts. length (snd c) \<le> SCRIPT_OUTPUT_TAIL_BYTES" "head_end T \<le> a" "a \<le> tail_start T"
    using st unfolding stored_def by blast
  have e: "head_end (T @ u) = head_end T"
    using ceil_append_left [OF u(1) long] by (simp add: head_end_def)
  have far: "length u - SCRIPT_OUTPUT_TAIL_BYTES \<le> k" "k \<le> length u - SCRIPT_OUTPUT_TAIL_BYTES + 3"
    using ceil_spec(2) [where s = u and i = "length u - SCRIPT_OUTPUT_TAIL_BYTES"]
      ceil_near [OF u(1), of "length u - SCRIPT_OUTPUT_TAIL_BYTES"] by (simp_all add: k_def)
  have k0: "length u \<le> SCRIPT_OUTPUT_TAIL_BYTES \<Longrightarrow> k = 0" by (simp add: k_def)
  have kl: "k < length u"
    using far(2) k0 constants(2) u(2) by (cases "length u \<le> SCRIPT_OUTPUT_TAIL_BYTES") auto
  have kept: "kept_output (int ?n) u = [?c]"
    using long u(2) by (simp add: kept_output_def k_def Let_def)
  have bound: "is_char_boundary (T @ u) (?n + k)"
    using boundary_append_right [OF u(1), of T k] ceil_spec(1) [of u] by (simp add: k_def)
  have cov: "covers (T @ u) (?n + k) [?c] (length (T @ u))" using bound kl by simp
  have last: "\<not> dropped ?N ?c" using kl by (intro dropped_last) simp_all
  have size: "length (drop k u) \<le> SCRIPT_OUTPUT_TAIL_BYTES" using far(1) by simp
  have at: "SCRIPT_OUTPUT_HEAD_BYTES \<le> a"
    using h(6) head_end_le(2) [of T] long by simp
  have big: "\<forall>c \<in> set ts. int SCRIPT_OUTPUT_HEAD_BYTES \<le> fst c"
    using covers_starts [OF h(3)] at by fastforce
  have hs: "covers (T @ u) 0 hs (head_end (T @ u))"
    unfolding e using covers_append [OF h(2) u(1) head_end_le(1)] .
  have keep: "filter (\<lambda>c. \<not> dropped ?N c) hs = hs"
    unfolding filter_id_conv using h(4) not_dropped_head by blast
  have le: "ceil_char_boundary T (length T - SCRIPT_OUTPUT_TAIL_BYTES) \<le>
      ceil_char_boundary (T @ u) (length (T @ u) - SCRIPT_OUTPUT_TAIL_BYTES)"
    using ceil_append_left [OF u(1), of "length T - SCRIPT_OUTPUT_TAIL_BYTES" T]
      ceil_mono [of "length T - SCRIPT_OUTPUT_TAIL_BYTES" "length (T @ u) - SCRIPT_OUTPUT_TAIL_BYTES" "T @ u"]
    by simp
  then have mono: "tail_start T \<le> tail_start (T @ u)" unfolding tail_start_def e by simp
  have "\<exists>b. covers (T @ u) b (filter (\<lambda>c. \<not> dropped ?N c) ts @ [?c]) (length (T @ u)) \<and> a \<le> b \<and> b \<le> tail_start (T @ u)"
  proof (cases "length u \<le> SCRIPT_OUTPUT_TAIL_BYTES")
    case True
    have ts: "covers (T @ u) a ts ?n" using covers_append [OF h(3) u(1)] by simp
    obtain b where b: "covers (T @ u) b (filter (\<lambda>c. \<not> dropped ?N c) ts) ?n" "a \<le> b" "b = a \<or> int b \<le> ?L"
      using covers_drop [OF ts, of ?L] unfolding filter_dropped_tail [OF big] by blast
    have "b \<le> tail_start (T @ u)"
      using b(3) mono h(7) tail_start_bounds(3) [of "T @ u"] by auto
    then show ?thesis using covers_join [OF b(1)] cov k0 [OF True] b(2) by (intro exI [of _ b]) simp
  next
    case False
    have "dropped ?N c" if "c \<in> set ts" for c
      using covers_starts [OF h(3) that] False at by (auto simp: dropped_def)
    then have none: "filter (\<lambda>c. \<not> dropped ?N c) ts = []" by (simp add: filter_empty_conv)
    have "ceil_char_boundary (T @ u) (?n + (length u - SCRIPT_OUTPUT_TAIL_BYTES)) = ?n + k"
      using ceil_append_right [OF u(1), of "length u - SCRIPT_OUTPUT_TAIL_BYTES" T] by (simp add: k_def)
    then have "?n + k \<le> tail_start (T @ u)"
      using False unfolding tail_start_def by (simp add: max.coboundedI2)
    moreover have "a \<le> ?n + k" using covers_le [OF h(3)] by simp
    ultimately show ?thesis using none cov by (intro exI [of _ "?n + k"]) simp
  qed
  then obtain b where b: "covers (T @ u) b (filter (\<lambda>c. \<not> dropped ?N c) ts @ [?c]) (length (T @ u))"
    "a \<le> b" "b \<le> tail_start (T @ u)" by blast
  have all: "filter (\<lambda>c. \<not> dropped ?N c) (cs @ kept_output (int ?n) u) =
      hs @ (filter (\<lambda>c. \<not> dropped ?N c) ts @ [?c])"
    using keep last by (simp add: h(1) kept)
  show ?thesis
    unfolding all stored_def
    by (intro exI [of _ hs] exI [of _ "filter (\<lambda>c. \<not> dropped ?N c) ts @ [?c]"] exI [of _ b] conjI refl)
       (use hs b h(4,5,6) e last size in auto)
qed

lemma stored_append:
  assumes "stored T cs" "well_formed T" "well_formed u" "u \<noteq> []"
  shows "stored (T @ u) (filter (\<lambda>c. \<not> dropped (int (length (T @ u))) c) (cs @ kept_output (int (length T)) u))"
  using stored_append_head [OF assms] stored_append_tail [OF assms] by (meson not_le)

subsection \<open>Assembling\<close>

lemma stored_sorted: "stored T cs \<Longrightarrow> sorted_wrt (<) (map fst cs)"
proof -
  assume "stored T cs"
  then obtain hs ts a where h: "cs = hs @ ts" "covers T 0 hs (head_end T)" "covers T a ts (length T)" "head_end T \<le> a"
    unfolding stored_def by blast
  have "fst x < fst y" if "x \<in> set hs" "y \<in> set ts" for x y
  proof -
    have "0 < length (snd x)" using covers_nonempty [OF h(2) that(1)] by simp
    then show ?thesis using covers_starts [OF h(2) that(1)] covers_starts [OF h(3) that(2)] h(4) by linarith
  qed
  then show ?thesis using covers_sorted [OF h(2)] covers_sorted [OF h(3)] by (auto simp: h(1) sorted_wrt_append)
qed

lemma assemble_stored:
  assumes st: "stored T cs" and T: "well_formed T"
  shows "assemble_output cs = shown T"
proof -
  obtain hs ts a where h: "cs = hs @ ts" "covers T 0 hs (head_end T)" "covers T a ts (length T)"
    "\<forall>c \<in> set hs. fst c < int SCRIPT_OUTPUT_HEAD_BYTES" "head_end T \<le> a" "a \<le> tail_start T"
    using st unfolding stored_def by blast
  have al: "a \<le> length T" using h(6) tail_start_bounds(2) [of T] by simp
  have head: "concat (map snd hs) = take (head_end T) T"
    and tail: "concat (map snd ts) = drop a T"
    using covers_concat [OF h(2)] covers_concat [OF h(3)] by simp_all
  have big: "\<forall>c \<in> set ts. \<not> fst c < int SCRIPT_OUTPUT_HEAD_BYTES"
  proof (cases "head_end T = length T")
    case True
    then have "ts = []" using stored_short(2) [OF st T True] h(1,3,5) al by (cases ts) (auto dest: covers_le)
    then show ?thesis by simp
  next
    case False
    then have "SCRIPT_OUTPUT_HEAD_BYTES \<le> a"
      using h(5) head_end_le [of T] head_end_short [of T] by (cases "length T \<le> SCRIPT_OUTPUT_HEAD_BYTES") auto
    then show ?thesis using covers_starts [OF h(3)] by fastforce
  qed
  have filters: "filter (\<lambda>(s, _). s < int SCRIPT_OUTPUT_HEAD_BYTES) cs = hs"
    "filter (\<lambda>(s, _). \<not> s < int SCRIPT_OUTPUT_HEAD_BYTES) cs = ts"
    using h(4) big by (auto simp: h(1) filter_empty_conv split_beta intro!: filter_True)
  have len: "length (take (head_end T) T) = head_end T" using head_end_le(1) [of T] by simp
  show ?thesis
  proof (cases ts)
    case Nil
    then have "a = length T" using h(3) by simp
    then have "tail_start T = length T" using h(6) tail_start_bounds(2) [of T] by simp
    moreover have "head_end T = length T"
      using tail_start_less [OF T] calculation head_end_le(1) [of T] by fastforce
    ultimately show ?thesis
      unfolding assemble_output_def Let_def filters using Nil head by (simp add: shown_def)
  next
    case (Cons c ts')
    have first: "fst c = int a" using h(3) Cons by (cases c) simp
    have b: "is_char_boundary T a" using covers_boundary [OF h(3)] Cons by simp
    define k where "k = ceil_char_boundary (drop a T) (length (drop a T) - SCRIPT_OUTPUT_TAIL_BYTES)"
    have k: "a + k = tail_start T"
    proof (cases "length T - a \<le> SCRIPT_OUTPUT_TAIL_BYTES")
      case True
      have "ceil_char_boundary T (length T - SCRIPT_OUTPUT_TAIL_BYTES) \<le> a"
        by (rule ceil_le) (use True al b in auto)
      then have "tail_start T \<le> a" using h(5) by (simp add: tail_start_def)
      with True h(6) show ?thesis by (simp add: k_def)
    next
      case False
      have wf: "well_formed (drop a T)" using well_formed_drop [OF T b al] .
      have "length T - SCRIPT_OUTPUT_TAIL_BYTES = length (take a T) + (length (drop a T) - SCRIPT_OUTPUT_TAIL_BYTES)"
        using False al by simp
      then have "ceil_char_boundary T (length T - SCRIPT_OUTPUT_TAIL_BYTES) = a + k"
        using ceil_append_right [OF wf, of "length (drop a T) - SCRIPT_OUTPUT_TAIL_BYTES" "take a T"] al
        by (simp add: k_def)
      then show ?thesis using h(5) by (simp add: tail_start_def)
    qed
    have "drop k (drop a T) = drop (tail_start T) T" using k by (simp add: add.commute)
    moreover have "int a + int k = int (tail_start T)" using k by simp
    ultimately show ?thesis
      unfolding assemble_output_def Let_def filters head using Cons first tail len k_def [symmetric]
      by (simp add: shown_def split_beta)
  qed
qed

text \<open>Storage stays bounded however long the output is.\<close>

lemma stored_bound:
  assumes st: "stored T cs" and T: "well_formed T"
  shows "sum_list (map (length \<circ> snd) cs) \<le> SCRIPT_OUTPUT_HEAD_BYTES + 3 + 2 * SCRIPT_OUTPUT_TAIL_BYTES"
proof -
  obtain hs ts a where h: "cs = hs @ ts" "covers T 0 hs (head_end T)" "covers T a ts (length T)"
    "\<forall>c \<in> set ts. length (snd c) \<le> SCRIPT_OUTPUT_TAIL_BYTES \<and> \<not> dropped (int (length T)) c" "head_end T \<le> a"
    using st unfolding stored_def by blast
  have sum: "sum_list (map (length \<circ> snd) ds) = length (concat (map snd ds))" for ds :: "chunk list"
    by (simp add: length_concat comp_def)
  have "head_end T \<le> SCRIPT_OUTPUT_HEAD_BYTES + 3"
    using ceil_near [OF T, of SCRIPT_OUTPUT_HEAD_BYTES] head_end_le(1) [of T]
    by (cases "SCRIPT_OUTPUT_HEAD_BYTES \<le> length T") (auto simp: head_end_def)
  moreover have "length T - a \<le> 2 * SCRIPT_OUTPUT_TAIL_BYTES"
  proof (cases ts)
    case Nil
    with h(3) show ?thesis by simp
  next
    case (Cons c ts')
    then have c: "fst c = int a" "length (snd c) \<le> SCRIPT_OUTPUT_TAIL_BYTES" "\<not> dropped (int (length T)) c"
      using h(3,4) by (cases c, simp)+
    show ?thesis
    proof (cases "int SCRIPT_OUTPUT_HEAD_BYTES \<le> fst c")
      case True
      with c show ?thesis by (auto simp: dropped_def)
    next
      case False
      then have "head_end T < SCRIPT_OUTPUT_HEAD_BYTES" using c(1) h(5) by simp
      then have "head_end T = length T" using head_end_le [of T] by simp
      with h(5) show ?thesis by simp
    qed
  qed
  ultimately show ?thesis
    unfolding h(1) using covers_concat [OF h(2)] covers_concat [OF h(3)]
    by (simp add: sum del: comp_apply)
qed

lemma shown_short:
  assumes "length T \<le> SCRIPT_OUTPUT_HEAD_BYTES + SCRIPT_OUTPUT_TAIL_BYTES"
  shows "shown T = T"
proof -
  have "ceil_char_boundary T (length T - SCRIPT_OUTPUT_TAIL_BYTES) \<le> head_end T"
    unfolding head_end_def by (rule ceil_mono) (use assms in simp)
  then have "tail_start T = head_end T" by (simp add: tail_start_def)
  then show ?thesis by (simp add: shown_def)
qed

lemma shown_long:
  assumes T: "well_formed T" and long: "SCRIPT_OUTPUT_HEAD_BYTES + 3 + SCRIPT_OUTPUT_TAIL_BYTES < length T"
  shows "\<exists>e p. shown T = take e T @ omitted_marker (int p - int e) @ drop p T \<and>
    SCRIPT_OUTPUT_HEAD_BYTES \<le> e \<and> e \<le> SCRIPT_OUTPUT_HEAD_BYTES + 3 \<and> e < p \<and>
    length T - p \<le> SCRIPT_OUTPUT_TAIL_BYTES \<and> SCRIPT_OUTPUT_TAIL_BYTES \<le> length T - p + 3 \<and>
    is_char_boundary T e \<and> is_char_boundary T p"
proof -
  let ?e = "head_end T" and ?p = "ceil_char_boundary T (length T - SCRIPT_OUTPUT_TAIL_BYTES)"
  have e: "SCRIPT_OUTPUT_HEAD_BYTES \<le> ?e" "?e \<le> SCRIPT_OUTPUT_HEAD_BYTES + 3"
    using head_end_le(2) [of T] ceil_near [OF T, of SCRIPT_OUTPUT_HEAD_BYTES] long by (simp_all add: head_end_def)
  have p: "length T - SCRIPT_OUTPUT_TAIL_BYTES \<le> ?p" "?p \<le> length T - SCRIPT_OUTPUT_TAIL_BYTES + 3" "?p \<le> length T"
    using ceil_spec(2,3) [where s = T and i = "length T - SCRIPT_OUTPUT_TAIL_BYTES"]
      ceil_near [OF T, of "length T - SCRIPT_OUTPUT_TAIL_BYTES"] by simp_all
  have "?e < ?p" using e p long by simp
  moreover from this have "tail_start T = ?p" by (simp add: tail_start_def)
  ultimately show ?thesis
    using e p long ceil_spec(1) by (intro exI [of _ ?e] exI [of _ ?p]) (auto simp: shown_def head_end_def)
qed

end
