(* ===== verification/Script_Runs.thy ===== *)
theory Script_Runs
  imports Script_Output
begin

text \<open>
  The script runs in the database (\<open>start_script_run\<close>, \<open>append_script_output\<close>, \<open>finish_script_run\<close>,
  \<open>get_script_runs\<close> of \<open>crates/core/src/repository/task.rs\<close>) and the service that records a stream of
  bytes into one (\<open>crates/core/src/service/script_output.rs\<close>). \<open>holds\<close> says that a run is open and that
  its rows stand for a text.
\<close>

record script_run =
  sr_position :: int
  sr_script_name :: string
  sr_output :: string
  sr_exit_code :: "int option"
  sr_started_at :: time
  sr_finished_at :: "time option"

definition no_running_script :: "int \<Rightarrow> int \<Rightarrow> int \<Rightarrow> app_error" where
  "no_running_script task_id host_id position =
     InvalidArgument (''script '' @ int_str position @ '' of task '' @ int_str task_id @
       '' is not running on host '' @ int_str host_id)"

definition start_script_run :: "int \<Rightarrow> int \<Rightarrow> int \<Rightarrow> string \<Rightarrow> time \<Rightarrow> db \<Rightarrow> db result" where
  "start_script_run task_id host_id position script_name now d =
     (let later = (\<lambda>r. srr_task r = task_id \<and> srr_host r = host_id \<and> position \<le> srr_position r);
          gone = map run_key (filter later (script_runs d))
      in if (task_id, host_id) \<notin> set (map th_key (task_hosts d)) then Inl foreign_key_violation
         else Inr (d\<lparr>script_runs := delete_where later (script_runs d) @
                       [\<lparr>srr_task = task_id, srr_host = host_id, srr_position = position, srr_name = script_name,
                         srr_exit_code = None, srr_started_at = now, srr_finished_at = None, srr_bytes = 0\<rparr>],
                     outputs := delete_where (\<lambda>r. out_key r \<in> set gone) (outputs d)\<rparr>))"

definition insert_chunk :: "int \<Rightarrow> int \<Rightarrow> int \<Rightarrow> db \<Rightarrow> chunk \<Rightarrow> db result" where
  "insert_chunk task_id host_id position d c =
     (if ((task_id, host_id, position), fst c) \<in> set (map (\<lambda>r. (out_key r, or_start r)) (outputs d))
      then Inl (unique_violation ''script_run_output.task_id, script_run_output.host_id, script_run_output.position, script_run_output.start'')
      else Inr (d\<lparr>outputs := outputs d @
             [\<lparr>or_task = task_id, or_host = host_id, or_position = position, or_start = fst c, or_text = snd c\<rparr>]\<rparr>))"

definition append_script_output :: "int \<Rightarrow> int \<Rightarrow> int \<Rightarrow> string \<Rightarrow> db \<Rightarrow> db result" where
  "append_script_output task_id host_id position output d =
     (let added = int (length output);
          open_run = (\<lambda>r. run_key r = (task_id, host_id, position) \<and> srr_finished_at r = None)
      in case List.find open_run (script_runs d) of
           None \<Rightarrow> Inl (no_running_script task_id host_id position)
         | Some r \<Rightarrow>
             let total_bytes = srr_bytes r + added;
                 d' = d\<lparr>script_runs := update_where open_run (\<lambda>r. r\<lparr>srr_bytes := srr_bytes r + added\<rparr>) (script_runs d)\<rparr>
             in and_then (try_fold (insert_chunk task_id host_id position) d' (kept_output (total_bytes - added) output))
                  (\<lambda>d''. Inr (d''\<lparr>outputs := delete_where
                     (\<lambda>r. out_key r = (task_id, host_id, position) \<and> dropped total_bytes (or_start r, or_text r))
                     (outputs d'')\<rparr>)))"

definition finish_script_run :: "int \<Rightarrow> int \<Rightarrow> int \<Rightarrow> int option \<Rightarrow> time \<Rightarrow> db \<Rightarrow> db result" where
  "finish_script_run task_id host_id position exit_code now d =
     (let open_run = (\<lambda>r. run_key r = (task_id, host_id, position) \<and> srr_finished_at r = None)
      in if length (filter open_run (script_runs d)) = 0
         then Inl (no_running_script task_id host_id position)
         else Inr (d\<lparr>script_runs := update_where open_run
                (\<lambda>r. r\<lparr>srr_exit_code := exit_code, srr_finished_at := Some now\<rparr>) (script_runs d)\<rparr>))"

text \<open>The rows of one run, in insertion order; the query sorts them by their start.\<close>

definition chunks_of :: "db \<Rightarrow> int \<times> int \<times> int \<Rightarrow> chunk list" where
  "chunks_of d key = map (\<lambda>r. (or_start r, or_text r)) (filter (\<lambda>r. out_key r = key) (outputs d))"

definition get_script_runs :: "db \<Rightarrow> int \<Rightarrow> int \<Rightarrow> script_run list" where
  "get_script_runs d task_id host_id =
     map (\<lambda>r. \<lparr>sr_position = srr_position r, sr_script_name = srr_name r,
               sr_output = assemble_output (sort_key fst (chunks_of d (task_id, host_id, srr_position r))),
               sr_exit_code = srr_exit_code r, sr_started_at = srr_started_at r, sr_finished_at = srr_finished_at r\<rparr>)
       (sort_key srr_position
          (filter (\<lambda>r. srr_task r = task_id \<and> srr_host r = host_id) (script_runs d)))"

subsection \<open>Recording a stream\<close>

record script_run_key =
  rk_task_id :: int
  rk_host_id :: int
  rk_position :: int

function decoded_prefix :: "string \<Rightarrow> string \<times> string" where
  "decoded_prefix pending =
     (case from_utf8 pending of
        None \<Rightarrow> (pending, [])
      | Some (valid, None) \<Rightarrow> (from_utf8_lossy (take valid pending), drop valid pending)
      | Some (valid, Some invalid) \<Rightarrow>
          (let (decoded, rest) = decoded_prefix (drop (valid + invalid) pending)
           in (from_utf8_lossy (take valid pending) @ REPLACEMENT_CHARACTER @ decoded, rest)))"
  by pat_completeness auto
termination
proof (relation "measure length")
  fix pending x valid e invalid
  assume "from_utf8 pending = Some x" "(valid, e) = x" "e = Some invalid"
  then show "(drop (valid + invalid) pending, pending) \<in> measure length"
    using from_utf8_Some [of pending valid e] next_char_Bad [of "drop valid pending" invalid] by auto
qed simp

declare decoded_prefix.simps [simp del]

text \<open>\<open>append\<close> skips an empty text, which the repository could not store twice.\<close>

definition append_text :: "script_run_key \<Rightarrow> string \<Rightarrow> db \<Rightarrow> db result" where
  "append_text run txt d =
     (if txt = [] then Inr d
      else append_script_output (rk_task_id run) (rk_host_id run) (rk_position run) txt d)"

text \<open>What \<open>select!\<close> can yield: bytes or an error of the stream, or a tick of the flush timer. The list ends
  where the stream ends.\<close>

datatype output_event = Arrived string | StreamError app_error | Tick

fun record_output :: "script_run_key \<Rightarrow> output_event list \<Rightarrow> string \<Rightarrow> db \<Rightarrow> unit result \<times> db" where
  "record_output run [] pending d =
     (let (decoded, pending') = decoded_prefix pending
      in case append_text run (decoded @ from_utf8_lossy pending') d of
           Inl e \<Rightarrow> (Inl e, d)
         | Inr d' \<Rightarrow> (Inr (), d'))"
| "record_output run (Arrived bytes # events) pending d =
     (let pending = pending @ bytes
      in if SCRIPT_OUTPUT_TAIL_BYTES \<le> length pending
         then let (decoded, pending') = decoded_prefix pending
              in case append_text run decoded d of
                   Inl e \<Rightarrow> (Inl e, d)
                 | Inr d' \<Rightarrow> record_output run events pending' d'
         else record_output run events pending d)"
| "record_output run (StreamError e # events) pending d = (Inl e, d)"
| "record_output run (Tick # events) pending d =
     (let (decoded, pending') = decoded_prefix pending
      in case append_text run decoded d of
           Inl e \<Rightarrow> (Inl e, d)
         | Inr d' \<Rightarrow> record_output run events pending' d')"

subsection \<open>Decoding does not depend on where the stream was cut\<close>

lemma decoded_prefix_lossy:
  "decoded_prefix p = (t, r) \<Longrightarrow>
   valid_utf8 t \<and> (r = [] \<or> next_char r = Cut) \<and> from_utf8_lossy (p @ q) = t @ from_utf8_lossy (r @ q)"
proof (induction p arbitrary: t r rule: decoded_prefix.induct)
  case (1 p)
  show ?case
  proof (cases "from_utf8 p")
    case None
    then have "valid_utf8 p" by (simp add: valid_utf8_def)
    with None "1.prems" show ?thesis
      by (subst (asm) decoded_prefix.simps) (auto simp: lossy_valid_append)
  next
    case (Some ve)
    obtain v e where ve: "ve = (v, e)" by (cases ve)
    note split = from_utf8_Some [OF Some [unfolded ve]]
    have valid: "valid_utf8 (take v p)" using split by blast
    have lossy: "from_utf8_lossy (p @ q) = take v p @ from_utf8_lossy (drop v p @ q)"
      using lossy_valid_append [OF valid, of "drop v p @ q"]
      by (simp add: append_assoc [symmetric] del: append_assoc)
    show ?thesis
    proof (cases e)
      case None
      then have "t = take v p" "r = drop v p"
        using "1.prems" Some ve valid by (simp_all add: decoded_prefix.simps [of p] lossy_valid)
      with None split lossy valid show ?thesis by simp
    next
      case (Some n)
      then have n: "next_char (drop v p) = Bad n" using split by simp
      obtain t' where t': "decoded_prefix (drop (v + n) p) = (t', r)" "t = take v p @ REPLACEMENT_CHARACTER @ t'"
        using "1.prems" Some ve \<open>from_utf8 p = Some ve\<close> valid
        by (auto simp: decoded_prefix.simps [of p] lossy_valid split: prod.splits)
      have IH: "valid_utf8 t' \<and> (r = [] \<or> next_char r = Cut) \<and>
          from_utf8_lossy (drop (v + n) p @ q) = t' @ from_utf8_lossy (r @ q)"
        by (rule "1.IH") (use \<open>from_utf8 p = Some ve\<close> ve Some t' in auto)
      have "from_utf8_lossy (drop v p @ q) = REPLACEMENT_CHARACTER @ from_utf8_lossy (drop (v + n) p @ q)"
        using lossy_bad [OF n, of q] by (simp add: add.commute)
      then show ?thesis
        using IH t'(2) lossy valid by (simp add: valid_utf8_append valid_replacement)
    qed
  qed
qed

subsection \<open>A run and the text its rows stand for\<close>

definition open_run_row :: "int \<times> int \<times> int \<Rightarrow> string \<Rightarrow> time \<Rightarrow> int \<Rightarrow> script_run_row" where
  "open_run_row key name now bytes =
     \<lparr>srr_task = fst key, srr_host = fst (snd key), srr_position = snd (snd key), srr_name = name,
      srr_exit_code = None, srr_started_at = now, srr_finished_at = None, srr_bytes = bytes\<rparr>"

definition holds :: "db \<Rightarrow> int \<times> int \<times> int \<Rightarrow> string \<Rightarrow> time \<Rightarrow> string \<Rightarrow> bool" where
  "holds d key name now T \<longleftrightarrow>
     distinct (map run_key (script_runs d)) \<and> open_run_row key name now (int (length T)) \<in> set (script_runs d) \<and>
     well_formed T \<and> stored T (chunks_of d key)"

lemma run_key_open [simp]: "run_key (open_run_row key name now n) = key" "srr_finished_at (open_run_row key name now n) = None"
  "srr_bytes (open_run_row key name now n) = n"
  by (simp_all add: open_run_row_def run_key_def)

lemma insert_chunks:
  "try_fold (insert_chunk t h p) d cs = Inr d' \<longleftrightarrow>
   distinct (map fst cs) \<and> (\<forall>c \<in> set cs. fst c \<notin> fst ` set (chunks_of d (t, h, p))) \<and>
   d' = d\<lparr>outputs := outputs d @
     map (\<lambda>c. \<lparr>or_task = t, or_host = h, or_position = p, or_start = fst c, or_text = snd c\<rparr>) cs\<rparr>"
proof (induction cs arbitrary: d)
  case Nil
  then show ?case by auto
next
  case (Cons c cs)
  let ?d = "d\<lparr>outputs := outputs d @
      [\<lparr>or_task = t, or_host = h, or_position = p, or_start = fst c, or_text = snd c\<rparr>]\<rparr>"
  have key: "((t, h, p), fst c) \<in> set (map (\<lambda>r. (out_key r, or_start r)) (outputs d)) \<longleftrightarrow>
      fst c \<in> fst ` set (chunks_of d (t, h, p))"
    by (force simp: chunks_of_def)
  have chunks: "chunks_of ?d (t, h, p) = chunks_of d (t, h, p) @ [c]"
    by (simp add: chunks_of_def out_key_def)
  have "try_fold (insert_chunk t h p) d (c # cs) = Inr d' \<longleftrightarrow>
      fst c \<notin> fst ` set (chunks_of d (t, h, p)) \<and> try_fold (insert_chunk t h p) ?d cs = Inr d'"
    unfolding try_fold.simps insert_chunk_def [of t h p d c] key by simp
  also have "\<dots> \<longleftrightarrow> fst c \<notin> fst ` set (chunks_of d (t, h, p)) \<and> distinct (map fst cs) \<and>
      (\<forall>x \<in> set cs. fst x \<notin> fst ` set (chunks_of d (t, h, p) @ [c])) \<and>
      d' = ?d\<lparr>outputs := outputs ?d @
        map (\<lambda>c. \<lparr>or_task = t, or_host = h, or_position = p, or_start = fst c, or_text = snd c\<rparr>) cs\<rparr>"
    unfolding Cons.IH chunks by blast
  also have "(\<forall>x \<in> set cs. fst x \<notin> fst ` set (chunks_of d (t, h, p) @ [c])) \<longleftrightarrow>
      fst c \<notin> fst ` set cs \<and> (\<forall>x \<in> set cs. fst x \<notin> fst ` set (chunks_of d (t, h, p)))"
    by (force simp: image_iff)
  finally show ?case by auto
qed

lemma find_open_run:
  assumes "holds d key name now T"
  shows "List.find (\<lambda>r. run_key r = key \<and> srr_finished_at r = None) (script_runs d) =
    Some (open_run_row key name now (int (length T)))"
proof -
  let ?r = "open_run_row key name now (int (length T))"
  have r: "?r \<in> set (script_runs d)" "distinct (map run_key (script_runs d))"
    using assms by (simp_all add: holds_def)
  have "List.find (\<lambda>r. run_key r = key \<and> srr_finished_at r = None) (script_runs d) \<noteq> None"
  proof
    assume "List.find (\<lambda>r. run_key r = key \<and> srr_finished_at r = None) (script_runs d) = None"
    then have "\<not> (run_key ?r = key \<and> srr_finished_at ?r = None)"
      using r(1) unfolding find_None_iff by blast
    then show False by simp
  qed
  then obtain x where x: "List.find (\<lambda>r. run_key r = key \<and> srr_finished_at r = None) (script_runs d) = Some x"
    by blast
  then have "x \<in> set (script_runs d)" "run_key x = run_key ?r" by (auto dest: find_member)
  then have "x = ?r" using r by (auto simp: distinct_map inj_on_def)
  with x show ?thesis by simp
qed

lemma chunk_starts: "stored T cs \<Longrightarrow> c \<in> set cs \<Longrightarrow> fst c < int (length T)"
proof -
  assume "stored T cs" "c \<in> set cs"
  then obtain hs ts a where h: "cs = hs @ ts" "covers T 0 hs (head_end T)" "covers T a ts (length T)"
    unfolding stored_def by blast
  have "0 < length (snd c) \<and> fst c + int (length (snd c)) \<le> int (length T)"
  proof (cases "c \<in> set hs")
    case True
    then show ?thesis
      using covers_nonempty [OF h(2) True] covers_starts [OF h(2) True] head_end_le(1) [of T] by simp
  next
    case False
    then have c: "c \<in> set ts" using \<open>c \<in> set cs\<close> h(1) by simp
    show ?thesis using covers_nonempty [OF h(3) c] covers_starts [OF h(3) c] by simp
  qed
  then show ?thesis by linarith
qed

lemma kept_starts: "c \<in> set (kept_output s u) \<Longrightarrow> s \<le> fst c"
  by (auto simp: kept_output_def Let_def split: if_splits)

lemma kept_distinct: "u \<noteq> [] \<Longrightarrow> 0 \<le> s \<Longrightarrow> distinct (map fst (kept_output s u))"
proof -
  assume u: "u \<noteq> []"
  have "0 < ceil_char_boundary u (nat (int SCRIPT_OUTPUT_HEAD_BYTES - s))" if "s < int SCRIPT_OUTPUT_HEAD_BYTES"
  proof -
    have "0 < min (nat (int SCRIPT_OUTPUT_HEAD_BYTES - s)) (length u)" using that u by simp
    then show ?thesis using ceil_spec(2) [where s = u and i = "nat (int SCRIPT_OUTPUT_HEAD_BYTES - s)"] by linarith
  qed
  then show ?thesis by (auto simp: kept_output_def Let_def)
qed

text \<open>Appending to an open run never fails, extends the text its rows stand for, and leaves the rows of
  every other run alone.\<close>

lemma append_holds:
  assumes ok: "holds d (t, h, p) name now T" and u: "well_formed u" "u \<noteq> []"
  shows "\<exists>d'. append_script_output t h p u d = Inr d' \<and> holds d' (t, h, p) name now (T @ u) \<and>
    (\<forall>k. k \<noteq> (t, h, p) \<longrightarrow> chunks_of d' k = chunks_of d k)"
proof -
  let ?key = "(t, h, p)" and ?N = "int (length T) + int (length u)"
  let ?open = "\<lambda>r. run_key r = ?key \<and> srr_finished_at r = None"
  define kept where "kept = kept_output (int (length T)) u"
  define rows where "rows = map (\<lambda>c. \<lparr>or_task = t, or_host = h, or_position = p, or_start = fst c, or_text = snd c\<rparr>) kept"
  define d1 where "d1 = d\<lparr>script_runs := update_where ?open (\<lambda>r. r\<lparr>srr_bytes := srr_bytes r + int (length u)\<rparr>) (script_runs d)\<rparr>"
  define d2 where "d2 = d1\<lparr>outputs := outputs d @ rows\<rparr>"
  define d3 where "d3 = d2\<lparr>outputs := delete_where
     (\<lambda>r. out_key r = ?key \<and> dropped ?N (or_start r, or_text r)) (outputs d2)\<rparr>"
  have st: "stored T (chunks_of d ?key)" "well_formed T" using ok by (simp_all add: holds_def)
  have fresh: "\<forall>c \<in> set kept. fst c \<notin> fst ` set (chunks_of d1 ?key)"
    using kept_starts chunk_starts [OF st(1)] by (fastforce simp: kept_def d1_def chunks_of_def)
  have ins: "try_fold (insert_chunk t h p) d1 kept = Inr d2"
    unfolding insert_chunks using fresh kept_distinct [OF u(2), of "int (length T)"]
    by (simp add: kept_def [symmetric] d2_def rows_def d1_def)
  have app: "append_script_output t h p u d = Inr d3"
    unfolding append_script_output_def Let_def find_open_run [OF ok] option.case run_key_open
    using ins by (simp add: kept_def d1_def d3_def)
  have own: "chunks_of d3 ?key = filter (\<lambda>c. \<not> dropped ?N c) (chunks_of d ?key @ kept)"
    by (simp add: chunks_of_def d3_def d2_def d1_def rows_def delete_where_def filter_map o_def conj_commute
        out_key_def cong: conj_cong)
  have other: "chunks_of d3 k = chunks_of d k" if "k \<noteq> ?key" for k
  proof -
    have "filter (\<lambda>r. out_key r = k) (outputs d3) = filter (\<lambda>r. out_key r = k) (outputs d2)"
      using that by (auto simp: d3_def delete_where_def intro!: filter_cong)
    moreover have "outputs d2 = outputs d @ rows" by (simp add: d2_def)
    moreover have "filter (\<lambda>r. out_key r = k) rows = []"
      using that by (auto simp: rows_def filter_empty_conv out_key_def)
    ultimately show ?thesis by (simp add: chunks_of_def)
  qed
  have runs: "script_runs d3 = update_where ?open (\<lambda>r. r\<lparr>srr_bytes := srr_bytes r + int (length u)\<rparr>) (script_runs d)"
    by (simp add: d3_def d2_def d1_def)
  have "map run_key (script_runs d3) = map run_key (script_runs d)"
    unfolding runs by (rule map_update_where) (simp add: run_key_def)
  then have "distinct (map run_key (script_runs d3))" using ok by (simp add: holds_def)
  moreover have "open_run_row ?key name now (int (length (T @ u))) \<in> set (script_runs d3)"
  proof -
    let ?r = "open_run_row ?key name now (int (length T))"
    have "?r \<in> set (script_runs d)" "?open ?r" using ok by (simp_all add: holds_def)
    then have "?r\<lparr>srr_bytes := srr_bytes ?r + int (length u)\<rparr> \<in> set (script_runs d3)"
      unfolding runs set_update_where by blast
    then show ?thesis by (simp add: open_run_row_def)
  qed
  ultimately have "holds d3 ?key name now (T @ u)"
    using stored_append [OF st u] own well_formed_append [OF st(2) u(1)]
    by (simp add: holds_def kept_def)
  with app other show ?thesis by blast
qed

lemma start_holds:
  assumes ok: "db_ok d" and s: "start_script_run t h p name now d = Inr d0"
  shows "holds d0 (t, h, p) name now []"
proof -
  let ?later = "\<lambda>r. srr_task r = t \<and> srr_host r = h \<and> p \<le> srr_position r"
  have runs: "script_runs d0 = delete_where ?later (script_runs d) @ [open_run_row (t, h, p) name now 0]"
    and outs: "outputs d0 = delete_where (\<lambda>r. out_key r \<in> set (map run_key (filter ?later (script_runs d)))) (outputs d)"
    using s by (auto simp: start_script_run_def Let_def open_run_row_def split: if_splits)
  have "distinct (map run_key (script_runs d))" using ok by (simp add: db_ok_def unique_keys_def)
  then have "distinct (map run_key (script_runs d0))"
    unfolding runs by (auto simp: distinct_map_delete_where run_key_def open_run_row_def)
  moreover have "chunks_of d0 (t, h, p) = []"
  proof -
    have "out_key x \<in> set (map run_key (filter ?later (script_runs d)))"
      if x: "x \<in> set (outputs d)" "out_key x = (t, h, p)" for x
    proof -
      have "out_key x \<in> run_key ` set (script_runs d)"
        using ok x(1) by (simp add: db_ok_def foreign_keys_def)
      with x(2) show ?thesis by (force simp: run_key_def)
    qed
    then show ?thesis by (auto simp: chunks_of_def outs filter_empty_conv)
  qed
  ultimately show ?thesis
    using stored_empty by (simp add: holds_def runs well_formed_def)
qed

text \<open>The bytes a stream carried.\<close>

fun arrived :: "output_event list \<Rightarrow> string" where
  "arrived [] = []"
| "arrived (Arrived bytes # events) = bytes @ arrived events"
| "arrived (_ # events) = arrived events"

definition same_elsewhere :: "int \<times> int \<times> int \<Rightarrow> db \<Rightarrow> db \<Rightarrow> bool" where
  "same_elsewhere key d d' \<longleftrightarrow> (\<forall>k. k \<noteq> key \<longrightarrow> chunks_of d' k = chunks_of d k)"

lemma append_text_holds:
  assumes ok: "holds d (t, h, p) name now T" and u: "valid_utf8 u"
  shows "\<exists>d'. append_text \<lparr>rk_task_id = t, rk_host_id = h, rk_position = p\<rparr> u d = Inr d' \<and>
    holds d' (t, h, p) name now (T @ u) \<and> same_elsewhere (t, h, p) d d'"
  using append_holds [OF ok valid_well_formed [OF u]] ok
  by (cases "u = []") (auto simp: append_text_def same_elsewhere_def)

lemma record_holds:
  assumes "holds d (t, h, p) name now T" and "\<forall>e. StreamError e \<notin> set events"
  shows "\<exists>d'. record_output \<lparr>rk_task_id = t, rk_host_id = h, rk_position = p\<rparr> events pending d = (Inr (), d') \<and>
    holds d' (t, h, p) name now (T @ from_utf8_lossy (pending @ arrived events)) \<and> same_elsewhere (t, h, p) d d'"
    (is "\<exists>d'. record_output ?run _ _ _ = _ \<and> _")
  using assms
proof (induction events arbitrary: d T pending)
  case Nil
  obtain u r where p: "decoded_prefix pending = (u, r)" by (cases "decoded_prefix pending")
  note split = decoded_prefix_lossy [OF p, of "[]"]
  then have "valid_utf8 (u @ from_utf8_lossy r)" by (simp add: valid_utf8_append valid_lossy)
  from append_text_holds [OF Nil.prems(1) this] show ?case using split by (auto simp: p)
next
  case (Cons e events)
  have step: "\<exists>d'. (case append_text ?run u d of Inl e \<Rightarrow> (Inl e, d) | Inr d' \<Rightarrow> record_output ?run events r d') = (Inr (), d') \<and>
      holds d' (t, h, p) name now (T @ from_utf8_lossy (q @ arrived events)) \<and> same_elsewhere (t, h, p) d d'"
    if u: "decoded_prefix q = (u, r)" for q u r
  proof -
    note split = decoded_prefix_lossy [OF u, of "arrived events"]
    obtain d1 where d1: "append_text ?run u d = Inr d1" "holds d1 (t, h, p) name now (T @ u)"
      "same_elsewhere (t, h, p) d d1"
      using append_text_holds [OF Cons.prems(1)] split by blast
    obtain d' where "record_output ?run events r d1 = (Inr (), d')"
      "holds d' (t, h, p) name now ((T @ u) @ from_utf8_lossy (r @ arrived events))" "same_elsewhere (t, h, p) d1 d'"
      using Cons.IH [OF d1(2)] Cons.prems(2) by auto
    then show ?thesis using d1 split by (auto simp: same_elsewhere_def)
  qed
  show ?case
  proof (cases e)
    case (Arrived bytes)
    obtain u r where u: "decoded_prefix (pending @ bytes) = (u, r)" by (cases "decoded_prefix (pending @ bytes)")
    show ?thesis
    proof (cases "SCRIPT_OUTPUT_TAIL_BYTES \<le> length (pending @ bytes)")
      case True
      with step [OF u] show ?thesis by (simp add: Arrived Let_def u)
    next
      case False
      then show ?thesis using Cons.IH [OF Cons.prems(1), of "pending @ bytes"] Cons.prems(2) by (simp add: Arrived Let_def)
    qed
  next
    case (StreamError x)
    with Cons.prems(2) show ?thesis by auto
  next
    case Tick
    obtain u r where u: "decoded_prefix pending = (u, r)" by (cases "decoded_prefix pending")
    with step [OF u] show ?thesis by (simp add: Tick)
  qed
qed

lemma sort_key_sorted: "sorted (map f xs) \<Longrightarrow> sort_key f xs = xs"
  by (induction xs) (auto simp: insort_is_Cons)

lemma get_script_runs_holds:
  assumes "holds d (t, h, p) name now T"
  shows "\<lparr>sr_position = p, sr_script_name = name, sr_output = shown T, sr_exit_code = None,
    sr_started_at = now, sr_finished_at = None\<rparr> \<in> set (get_script_runs d t h)"
proof -
  have st: "stored T (chunks_of d (t, h, p))" "well_formed T"
    and r: "open_run_row (t, h, p) name now (int (length T)) \<in> set (script_runs d)"
    using assms by (simp_all add: holds_def)
  have "sorted (map fst (chunks_of d (t, h, p)))"
    using stored_sorted [OF st(1)] by (simp add: strict_sorted_iff)
  then have "sort_key fst (chunks_of d (t, h, p)) = chunks_of d (t, h, p)" by (rule sort_key_sorted)
  with assemble_stored [OF st] r show ?thesis
    by (force simp: get_script_runs_def open_run_row_def)
qed

subsection \<open>Integrity\<close>

lemma start_script_run_db_ok:
  assumes "db_ok d" and s: "start_script_run t h p name now d = Inr d'"
  shows "db_ok d'"
proof -
  let ?later = "\<lambda>r. srr_task r = t \<and> srr_host r = h \<and> p \<le> srr_position r"
  let ?gone = "set (map run_key (filter ?later (script_runs d)))"
  have th: "(t, h) \<in> th_key ` set (task_hosts d)"
    and d': "d' = d\<lparr>script_runs := delete_where ?later (script_runs d) @ [open_run_row (t, h, p) name now 0],
       outputs := delete_where (\<lambda>r. out_key r \<in> ?gone) (outputs d)\<rparr>"
    using s by (auto simp: start_script_run_def Let_def open_run_row_def split: if_splits)
  have keys: "distinct (map run_key (script_runs d'))"
    using start_holds [OF assms] by (simp add: holds_def)
  have "unique_keys d'"
    using assms(1) keys by (simp add: d' db_ok_def unique_keys_def distinct_map_delete_where)
  moreover have "foreign_keys d'"
  proof -
    have "out_key r \<in> run_key ` set (script_runs d')" if "r \<in> set (outputs d')" for r
    proof -
      have "out_key r \<in> run_key ` set (script_runs d)" "out_key r \<notin> ?gone"
        using assms(1) that by (auto simp: d' db_ok_def foreign_keys_def)
      then show ?thesis by (auto simp: d')
    qed
    then show ?thesis
      using assms(1) th by (auto simp: d' db_ok_def foreign_keys_def host_ids_def open_run_row_def)
  qed
  ultimately show ?thesis
    using assms(1) by (simp add: d' db_ok_def fresh_ids_def)
qed

lemma update_runs_db_ok:
  assumes "db_ok d" and keep: "\<And>r. run_key (f r) = run_key r"
  shows "db_ok (d\<lparr>script_runs := update_where P f (script_runs d)\<rparr>)"
proof -
  let ?runs = "update_where P f (script_runs d)"
  have keys: "map run_key ?runs = map run_key (script_runs d)"
    by (rule map_update_where) (rule keep)
  then have set: "run_key ` set ?runs = run_key ` set (script_runs d)" by (metis list.set_map)
  have "(srr_task (f r), srr_host (f r)) = (srr_task r, srr_host r)" for r
    using keep [of r] by (simp add: run_key_def)
  then show ?thesis
    using assms(1) keys set
    by (simp add: db_ok_def unique_keys_def foreign_keys_def fresh_ids_def host_ids_def ball_update_where)
qed

lemma append_script_output_db_ok:
  assumes ok: "db_ok d" and a: "append_script_output t h p u d = Inr d'"
  shows "db_ok d'"
proof -
  let ?open = "\<lambda>r. run_key r = (t, h, p) \<and> srr_finished_at r = None"
  obtain r where r: "List.find ?open (script_runs d) = Some r"
    using a by (auto simp: append_script_output_def Let_def split: option.splits)
  define d1 where "d1 = d\<lparr>script_runs := update_where ?open (\<lambda>r. r\<lparr>srr_bytes := srr_bytes r + int (length u)\<rparr>) (script_runs d)\<rparr>"
  have d1: "db_ok d1"
    unfolding d1_def by (rule update_runs_db_ok [OF ok]) (simp add: run_key_def)
  have key: "(t, h, p) \<in> run_key ` set (script_runs d1)"
  proof -
    have "map run_key (script_runs d1) = map run_key (script_runs d)"
      unfolding d1_def by (simp, rule map_update_where) (simp add: run_key_def)
    then show ?thesis using find_member [OF r] by (metis image_eqI list.set_map)
  qed
  define cs where "cs = kept_output (srr_bytes r + int (length u) - int (length u)) u"
  define rows where "rows = map (\<lambda>c. \<lparr>or_task = t, or_host = h, or_position = p, or_start = fst c, or_text = snd c\<rparr>) cs"
  obtain d2 where ins: "try_fold (insert_chunk t h p) d1 cs = Inr d2"
    and d': "d' = d2\<lparr>outputs := delete_where
       (\<lambda>x. out_key x = (t, h, p) \<and> dropped (srr_bytes r + int (length u)) (or_start x, or_text x)) (outputs d2)\<rparr>"
    using a r unfolding append_script_output_def Let_def d1_def cs_def by (auto simp: result_simps)
  have d2: "d2 = d1\<lparr>outputs := outputs d1 @ rows\<rparr>" and dist: "distinct (map fst cs)"
    and fresh: "\<forall>c \<in> set cs. fst c \<notin> fst ` set (chunks_of d1 (t, h, p))"
    using ins unfolding insert_chunks rows_def by blast+
  have "distinct (map (\<lambda>r. (out_key r, or_start r)) rows)"
    using dist by (auto simp: rows_def distinct_map inj_on_def out_key_def)
  moreover have "(\<lambda>r. (out_key r, or_start r)) ` set (outputs d1) \<inter> (\<lambda>r. (out_key r, or_start r)) ` set rows = {}"
    using fresh by (force simp: rows_def chunks_of_def out_key_def)
  ultimately have "distinct (map (\<lambda>r. (out_key r, or_start r)) (outputs d2))"
    using d1 by (simp add: d2 db_ok_def unique_keys_def)
  then have "unique_keys d'"
    using d1 by (simp add: d' d2 db_ok_def unique_keys_def distinct_map_delete_where del: map_append)
  moreover have "foreign_keys d'"
    using d1 key by (auto simp: d' d2 rows_def out_key_def db_ok_def foreign_keys_def host_ids_def)
  ultimately show ?thesis
    using d1 by (simp add: d' d2 db_ok_def fresh_ids_def)
qed

lemma finish_script_run_db_ok:
  assumes "db_ok d" and "finish_script_run t h p code now d = Inr d'"
  shows "db_ok d'"
  using assms(2) update_runs_db_ok [OF assms(1)]
  by (auto simp: finish_script_run_def Let_def run_key_def split: if_splits)

subsection \<open>Properties\<close>

text \<open>C7: whatever way the stream is cut into reads and flushes, recording it into a started run succeeds,
  and the dashboard then shows for that run exactly the specified view of the lossily decoded bytes. What
  is stored for it stays bounded, and the output of every other run is untouched.\<close>

theorem recorded_output_shown:
  assumes "db_ok d" and "start_script_run t h p name now d = Inr d0" and "\<forall>e. StreamError e \<notin> set events"
  shows "\<exists>d'. record_output \<lparr>rk_task_id = t, rk_host_id = h, rk_position = p\<rparr> events [] d0 = (Inr (), d') \<and>
    \<lparr>sr_position = p, sr_script_name = name, sr_output = shown (from_utf8_lossy (arrived events)),
      sr_exit_code = None, sr_started_at = now, sr_finished_at = None\<rparr> \<in> set (get_script_runs d' t h) \<and>
    sum_list (map (length \<circ> snd) (chunks_of d' (t, h, p))) \<le>
      SCRIPT_OUTPUT_HEAD_BYTES + 3 + 2 * SCRIPT_OUTPUT_TAIL_BYTES \<and>
    same_elsewhere (t, h, p) d0 d'"
proof -
  obtain d' where d': "record_output \<lparr>rk_task_id = t, rk_host_id = h, rk_position = p\<rparr> events [] d0 = (Inr (), d')"
    "holds d' (t, h, p) name now (from_utf8_lossy (arrived events))" "same_elsewhere (t, h, p) d0 d'"
    using record_holds [OF start_holds [OF assms(1,2)] assms(3), of "[]"] by auto
  have "stored (from_utf8_lossy (arrived events)) (chunks_of d' (t, h, p))"
    "well_formed (from_utf8_lossy (arrived events))"
    using d'(2) by (simp_all add: holds_def)
  from stored_bound [OF this] d' get_script_runs_holds [OF d'(2)] show ?thesis by blast
qed

theorem recorded_output_shown_witness:
  "\<exists>d0 d'. start_script_run 1 2 0 ''setup'' 9 demo_db = Inr d0 \<and>
     record_output \<lparr>rk_task_id = 1, rk_host_id = 2, rk_position = 0\<rparr>
       [Arrived ''caf'', Arrived [char_of (0xC3 :: nat)], Tick, Arrived [char_of (0xA9 :: nat)]] [] d0 = (Inr (), d')"
proof -
  have ok: "db_ok demo_db" using demo_db_inv by (simp add: repo_inv_def)
  obtain d0 where d0: "start_script_run 1 2 0 ''setup'' 9 demo_db = Inr d0"
    by (simp add: start_script_run_def demo_db_def th_key_def new_row_def)
  let ?events = "[Arrived ''caf'', Arrived [char_of (0xC3 :: nat)], Tick, Arrived [char_of (0xA9 :: nat)]]"
  have "\<forall>e. StreamError e \<notin> set ?events" by simp
  from recorded_output_shown [OF ok d0 this] d0 show ?thesis by blast
qed

text \<open>The view of a recorded text is the text itself as long as head and tail can hold it; a longer one
  shows its first 64 KiB and its last 256 KiB, each up to the next character boundary and never splitting
  a character, and between them the exact number of bytes left out.\<close>

theorem shown_head_and_tail:
  assumes "valid_utf8 T"
  shows "(length T \<le> SCRIPT_OUTPUT_HEAD_BYTES + SCRIPT_OUTPUT_TAIL_BYTES \<longrightarrow>
      assemble_output (kept_output 0 T) = T) \<and>
    (SCRIPT_OUTPUT_HEAD_BYTES + 3 + SCRIPT_OUTPUT_TAIL_BYTES < length T \<longrightarrow>
      (\<exists>e p. assemble_output (kept_output 0 T) = take e T @ omitted_marker (int p - int e) @ drop p T \<and>
        SCRIPT_OUTPUT_HEAD_BYTES \<le> e \<and> e \<le> SCRIPT_OUTPUT_HEAD_BYTES + 3 \<and> e < p \<and>
        length T - p \<le> SCRIPT_OUTPUT_TAIL_BYTES \<and> SCRIPT_OUTPUT_TAIL_BYTES \<le> length T - p + 3 \<and>
        is_char_boundary T e \<and> is_char_boundary T p))"
proof (cases "T = []")
  case True
  then show ?thesis
    using constants by (simp add: kept_output_def assemble_output_def)
next
  case False
  have T: "well_formed T" using assms by (rule valid_well_formed)
  have "well_formed []" by (simp add: well_formed_def)
  have st: "stored T (filter (\<lambda>c. \<not> dropped (int (length T)) c) (kept_output 0 T))"
    using stored_append [OF stored_empty \<open>well_formed []\<close> T False] by simp
  have "\<not> dropped (int (length T)) c" if "c \<in> set (kept_output 0 T)" for c
    using that constants by (auto simp: kept_output_def Let_def dropped_def split: if_splits)
  then have "filter (\<lambda>c. \<not> dropped (int (length T)) c) (kept_output 0 T) = kept_output 0 T"
    unfolding filter_id_conv by blast
  with assemble_stored [OF st T] show ?thesis
    using shown_short [of T] shown_long [OF T] by simp
qed

theorem shown_head_and_tail_witness: "assemble_output (kept_output 0 ''ok'') = ''ok''"
proof -
  have "valid_utf8 ''ok''"
    by (simp add: valid_utf8_step [of "_ # _"] byte_def)
  from shown_head_and_tail [OF this] show ?thesis
    by (simp add: SCRIPT_OUTPUT_HEAD_BYTES_def SCRIPT_OUTPUT_TAIL_BYTES_def)
qed

text \<open>once a run is finished, or its host has left the pending and running states, every further
  output and a second exit code are refused with an invalid-argument error that names the run, and
  nothing of the database changes.\<close>

theorem closed_run_refuses:
  assumes "\<forall>r \<in> set (script_runs d). run_key r = (t, h, p) \<longrightarrow> srr_finished_at r \<noteq> None"
  shows "append_script_output t h p u d = Inl (no_running_script t h p) \<and>
    finish_script_run t h p code now d = Inl (no_running_script t h p) \<and>
    (u \<noteq> [] \<longrightarrow>
      record_output \<lparr>rk_task_id = t, rk_host_id = h, rk_position = p\<rparr> [] u d = (Inl (no_running_script t h p), d))"
proof -
  have none: "List.find (\<lambda>r. run_key r = (t, h, p) \<and> srr_finished_at r = None) (script_runs d) = None"
    "filter (\<lambda>r. run_key r = (t, h, p) \<and> srr_finished_at r = None) (script_runs d) = []"
    using assms by (auto simp: find_None_iff filter_empty_conv)
  have app: "append_script_output t h p v d = Inl (no_running_script t h p)" for v
    using none(1) by (simp add: append_script_output_def Let_def)
  have "from_utf8_lossy u = decoded @ from_utf8_lossy rest" if "decoded_prefix u = (decoded, rest)" for decoded rest
    using decoded_prefix_lossy [OF that, of "[]"] by simp
  moreover have "from_utf8_lossy u \<noteq> []" if "u \<noteq> []"
    using that by (subst from_utf8_lossy.simps) (auto split: utf8_next.splits dest: next_char_Width)
  ultimately have "u \<noteq> [] \<longrightarrow>
      record_output \<lparr>rk_task_id = t, rk_host_id = h, rk_position = p\<rparr> [] u d = (Inl (no_running_script t h p), d)"
    using app by (cases "decoded_prefix u") (auto simp: append_text_def)
  with app none(2) show ?thesis by (simp add: finish_script_run_def)
qed

theorem closed_run_refuses_witness:
  "append_script_output 1 2 0 ''late'' demo_db = Inl (no_running_script 1 2 0)"
proof -
  have "\<forall>r \<in> set (script_runs demo_db). run_key r = (1, 2, 0) \<longrightarrow> srr_finished_at r \<noteq> None"
    by (simp add: demo_db_def empty_db_def)
  from closed_run_refuses [OF this] show ?thesis by blast
qed

end
