(* ===== verification/Registry.thy ===== *)
theory Registry
  imports Model_Types BTree_Map
begin

text \<open>
  \<open>crates/core/src/registry.rs\<close>: which hosts hold a connection, the one-slot mailbox that wakes a
  connection, and the feed of connection changes. The lock makes every method one step on the state.
  \<open>rg_log\<close> is everything ever sent on the broadcast channel, of which the channel keeps the last 32
  events; \<open>rg_mail\<close> holds the generations whose mailbox has an unread wake-up. The order in which a
  \<open>HashMap\<close> is drained is unspecified; \<open>disconnect_all\<close> takes it as an argument.
\<close>

record host_entry =
  generation :: u64

record registry =
  rg_map :: "(int, host_entry) btree_map"
  rg_next_generation :: u64
  rg_log :: "host_connection_event list"
  rg_mail :: "u64 list"

record registration =
  rn_id :: int
  rn_generation :: u64

definition new_registry :: registry where
  "new_registry = \<lparr>rg_map = [], rg_next_generation = 0, rg_log = [], rg_mail = []\<rparr>"

definition broadcast :: "int \<Rightarrow> bool \<Rightarrow> registry \<Rightarrow> registry" where
  "broadcast host up r = r\<lparr>rg_log := rg_log r @ [\<lparr>ev_id = host, ev_connected = up\<rparr>]\<rparr>"

definition register :: "int \<Rightarrow> registry \<Rightarrow> registration \<times> registry" where
  "register host r =
     (let g = rg_next_generation r;
          r' = r\<lparr>rg_next_generation := g + 1, rg_map := bt_insert host \<lparr>generation = g\<rparr> (rg_map r)\<rparr>
      in (\<lparr>rn_id = host, rn_generation = g\<rparr>, broadcast host True r'))"

text \<open>Dropping a registration runs its cleanup.\<close>

definition cleanup :: "registration \<Rightarrow> registry \<Rightarrow> registry" where
  "cleanup reg r =
     (case bt_lookup (rg_map r) (rn_id reg) of
        None \<Rightarrow> r
      | Some e \<Rightarrow>
          if generation e = rn_generation reg
          then broadcast (rn_id reg) False (r\<lparr>rg_map := bt_remove (rn_id reg) (rg_map r)\<rparr>)
          else r)"

definition deregister :: "int \<Rightarrow> registry \<Rightarrow> registry" where
  "deregister host r =
     (if bt_lookup (rg_map r) host \<noteq> None
      then broadcast host False (r\<lparr>rg_map := bt_remove host (rg_map r)\<rparr>)
      else r)"

definition disconnect_all :: "int list \<Rightarrow> registry \<Rightarrow> registry" where
  "disconnect_all drained r = fold (\<lambda>host. broadcast host False) drained (r\<lparr>rg_map := []\<rparr>)"

text \<open>\<open>try_send\<close> into a channel of capacity one: a wake-up that finds one waiting is dropped.\<close>

definition dispatch :: "int \<Rightarrow> registry \<Rightarrow> registry" where
  "dispatch host r =
     (case bt_lookup (rg_map r) host of
        None \<Rightarrow> r
      | Some e \<Rightarrow> if generation e \<in> set (rg_mail r) then r else r\<lparr>rg_mail := generation e # rg_mail r\<rparr>)"

definition connected_hosts :: "registry \<Rightarrow> int list" where
  "connected_hosts r = bt_keys (rg_map r)"

text \<open>What the receiver of a registration sees: a wake-up, nothing yet, or the end, once the registry holds
  its sender no longer.\<close>

datatype received = Woken | Waiting | Closed

definition receive :: "registration \<Rightarrow> registry \<Rightarrow> received \<times> registry" where
  "receive reg r =
     (if rn_generation reg \<in> set (rg_mail r)
      then (Woken, r\<lparr>rg_mail := filter (\<lambda>g. g \<noteq> rn_generation reg) (rg_mail r)\<rparr>)
      else if \<exists>e \<in> set (rg_map r). generation (snd e) = rn_generation reg then (Waiting, r)
      else (Closed, r))"

subsection \<open>The feed\<close>

definition BROADCAST_CAPACITY :: nat where
  "BROADCAST_CAPACITY = 32"

record feed =
  fd_position :: nat
  fd_connected :: "int list option"

definition watch :: "registry \<Rightarrow> feed" where
  "watch r = \<lparr>fd_position = length (rg_log r), fd_connected = Some (connected_hosts r)\<rparr>"

datatype recv_result = Event host_connection_event nat | Lagged nat | Empty_channel

definition recv :: "registry \<Rightarrow> nat \<Rightarrow> recv_result" where
  "recv r position =
     (if position = length (rg_log r) then Empty_channel
      else if BROADCAST_CAPACITY < length (rg_log r) - position
      then Lagged (length (rg_log r) - BROADCAST_CAPACITY)
      else Event (rg_log r ! position) (Suc position))"

text \<open>\<open>next\<close> on a registry that stays as it is; \<open>None\<close> is a call that waits for the next event. The loop goes
  round once at most, because a resync leaves a snapshot to hand out.\<close>

definition feed_next :: "registry \<Rightarrow> feed \<Rightarrow> (connection_change \<times> feed) option" where
  "feed_next r f =
     (case fd_connected f of
        Some hosts \<Rightarrow> Some (connection_change.Connected hosts, f\<lparr>fd_connected := None\<rparr>)
      | None \<Rightarrow>
          (case recv r (fd_position f) of
             Event e p \<Rightarrow> Some (Changed e, f\<lparr>fd_position := p\<rparr>)
           | Lagged _ \<Rightarrow>
               (let f' = watch r
                in Some (connection_change.Connected (the (fd_connected f')), f'\<lparr>fd_connected := None\<rparr>))
           | Empty_channel \<Rightarrow> None))"

subsection \<open>The registry as a machine\<close>

datatype registry_op =
    Register int
  | Drop registration
  | Deregister int
  | Disconnect_all "int list"
  | Dispatch int
  | Receive registration

definition op_ok :: "registry \<Rightarrow> registry_op \<Rightarrow> bool" where
  "op_ok r x \<longleftrightarrow> (case x of Disconnect_all drained \<Rightarrow> distinct drained \<and> set drained = set (connected_hosts r) | _ \<Rightarrow> True)"

fun apply_op :: "registry_op \<Rightarrow> registry \<Rightarrow> registry" where
  "apply_op (Register host) r = snd (register host r)"
| "apply_op (Drop reg) r = cleanup reg r"
| "apply_op (Deregister host) r = deregister host r"
| "apply_op (Disconnect_all drained) r = disconnect_all drained r"
| "apply_op (Dispatch host) r = dispatch host r"
| "apply_op (Receive reg) r = snd (receive reg r)"

text \<open>Runs of any length; a hash map's drain yields its keys once each.\<close>

inductive runs :: "registry \<Rightarrow> registry_op list \<Rightarrow> registry \<Rightarrow> bool" where
  runs_none: "runs r [] r"
| runs_step: "op_ok r x \<Longrightarrow> runs (apply_op x r) xs r' \<Longrightarrow> runs r (x # xs) r'"

inductive_simps runs_simps [simp]: "runs r [] r'" "runs r (x # xs) r'"

code_pred runs .

lemma broadcast_fields [simp]:
  "rg_map (broadcast h b r) = rg_map r" "rg_next_generation (broadcast h b r) = rg_next_generation r"
  "rg_log (broadcast h b r) = rg_log r @ [\<lparr>ev_id = h, ev_connected = b\<rparr>]"
  by (simp_all add: broadcast_def)

lemma fold_broadcast:
  "rg_map (fold (\<lambda>h. broadcast h b) hs r) = rg_map r"
  "rg_next_generation (fold (\<lambda>h. broadcast h b) hs r) = rg_next_generation r"
  "rg_log (fold (\<lambda>h. broadcast h b) hs r) = rg_log r @ map (\<lambda>h. \<lparr>ev_id = h, ev_connected = b\<rparr>) hs"
  by (induction hs arbitrary: r) simp_all

subsection \<open>Generations\<close>

text \<open>The invariant: the map is a map, and every generation in it was handed out.\<close>

definition registry_ok :: "nat \<Rightarrow> registry \<Rightarrow> bool" where
  "registry_ok n r \<longleftrightarrow>
     bt_inv (rg_map r) \<and> unat (rg_next_generation r) = n \<and>
     (\<forall>h e. bt_lookup (rg_map r) h = Some e \<longrightarrow> unat (generation e) < n)"

fun registrations :: "registry_op list \<Rightarrow> nat" where
  "registrations [] = 0"
| "registrations (Register h # xs) = Suc (registrations xs)"
| "registrations (_ # xs) = registrations xs"

definition entry_at :: "registry \<Rightarrow> int \<Rightarrow> u64 option" where
  "entry_at r h = map_option generation (bt_lookup (rg_map r) h)"

lemma lookup_remove [simp]:
  "bt_inv m \<Longrightarrow> bt_lookup (bt_remove k m) h = (if h = k then None else bt_lookup m h)"
  by (simp add: bt_lookup_def bt_remove_lookup bt_inv_def)

lemma lookup_Nil [simp]: "bt_lookup [] h = None"
  by (simp add: bt_lookup_def)

lemma apply_op_ok:
  assumes "registry_ok n r" and "n + registrations [x] < 2 ^ 64"
  shows "registry_ok (n + registrations [x]) (apply_op x r)"
proof (cases x)
  case (Register h)
  have "unat (rg_next_generation r + 1) = Suc n"
    using assms Register by (simp add: registry_ok_def unat_word_ariths)
  then show ?thesis
    using assms Register by (auto simp: registry_ok_def register_def Let_def bt.lookup_insert bt.inv_insert less_Suc_eq)
qed (use assms in \<open>auto simp: registry_ok_def cleanup_def deregister_def disconnect_all_def dispatch_def receive_def
      fold_broadcast bt_remove_inv split: option.splits if_splits\<close>)

lemma registrations_Cons: "registrations (x # xs) = registrations [x] + registrations xs"
  by (cases x) simp_all

lemma runs_ok_registry:
  "runs r xs r' \<Longrightarrow> registry_ok n r \<Longrightarrow> n + registrations xs < 2 ^ 64 \<Longrightarrow> registry_ok (n + registrations xs) r'"
proof (induction arbitrary: n rule: runs.induct)
  case (runs_none r)
  then show ?case by simp
next
  case (runs_step r x xs r')
  have "registry_ok (n + registrations [x]) (apply_op x r)"
    by (rule apply_op_ok) (use runs_step.prems registrations_Cons [of x xs] in auto)
  then show ?case
    using runs_step.IH [of "n + registrations [x]"] runs_step.prems registrations_Cons [of x xs] by (simp add: add.assoc)
qed

text \<open>Operations that may end the registration of generation \<open>g\<close> of a host.\<close>

fun ends :: "int \<Rightarrow> u64 \<Rightarrow> registry_op \<Rightarrow> bool" where
  "ends h g (Register h') \<longleftrightarrow> h' = h"
| "ends h g (Drop reg) \<longleftrightarrow> rn_id reg = h \<and> rn_generation reg = g"
| "ends h g (Deregister h') \<longleftrightarrow> h' = h"
| "ends h g (Disconnect_all _) \<longleftrightarrow> True"
| "ends h g (Dispatch _) \<longleftrightarrow> False"
| "ends h g (Receive _) \<longleftrightarrow> False"

lemma entry_kept:
  assumes "bt_inv (rg_map r)" "entry_at r h = Some g" "\<not> ends h g x"
  shows "entry_at (apply_op x r) h = Some g"
  using assms
  by (cases x) (auto simp: entry_at_def register_def Let_def cleanup_def deregister_def dispatch_def receive_def
      bt.lookup_insert split: option.splits if_splits)

lemma runs_entry_kept:
  "runs r xs r' \<Longrightarrow> registry_ok n r \<Longrightarrow> n + registrations xs < 2 ^ 64 \<Longrightarrow>
   entry_at r h = Some g \<Longrightarrow> (\<forall>x \<in> set xs. \<not> ends h g x) \<Longrightarrow> entry_at r' h = Some g"
proof (induction arbitrary: n rule: runs.induct)
  case (runs_none r)
  then show ?case by simp
next
  case (runs_step r x xs r')
  have "registry_ok (n + registrations [x]) (apply_op x r)"
    by (rule apply_op_ok) (use runs_step.prems registrations_Cons [of x xs] in auto)
  moreover have "entry_at (apply_op x r) h = Some g"
    using runs_step.prems by (intro entry_kept) (auto simp: registry_ok_def)
  ultimately show ?case
    using runs_step.IH [of "n + registrations [x]"] runs_step.prems registrations_Cons [of x xs] by (simp add: add.assoc)
qed

subsection \<open>The consumer of a feed\<close>

fun apply_change :: "connection_change \<Rightarrow> int set \<Rightarrow> int set" where
  "apply_change (connection_change.Connected hosts) S = set hosts"
| "apply_change (Changed e) S = (if ev_connected e then insert (ev_id e) S else S - {ev_id e})"

definition replay :: "host_connection_event list \<Rightarrow> int set \<Rightarrow> int set" where
  "replay events S = fold (\<lambda>e. apply_change (Changed e)) events S"

lemma replay_simps [simp]:
  "replay [] S = S" "replay (e # es) S = replay es (apply_change (Changed e) S)"
  "replay (es @ es') S = replay es' (replay es S)"
  by (simp_all add: replay_def)

lemma connected_dom: "bt_inv (rg_map r) \<Longrightarrow> set (connected_hosts r) = dom (bt_lookup (rg_map r))"
  by (simp add: connected_hosts_def bt.keys_dom)

lemma replay_disconnects: "replay (map (\<lambda>h. \<lparr>ev_id = h, ev_connected = False\<rparr>) hs) S = S - set hs"
  by (induction hs arbitrary: S) auto

text \<open>The events an operation sends are exactly the change it makes.\<close>

lemma op_events:
  assumes "bt_inv (rg_map r)" and "op_ok r x"
  shows "\<exists>es. rg_log (apply_op x r) = rg_log r @ es \<and>
    set (connected_hosts (apply_op x r)) = replay es (set (connected_hosts r)) \<and> bt_inv (rg_map (apply_op x r))"
proof (cases x)
  case (Register h)
  have inv: "bt_inv (bt_insert h e (rg_map r))" for e :: host_entry using assms(1) by (rule bt.inv_insert)
  have "set (bt_keys (bt_insert h e (rg_map r))) = insert h (set (bt_keys (rg_map r)))" for e :: host_entry
    by (simp only: bt.keys_dom inv assms(1)) (simp add: bt.lookup_insert assms(1))
  then show ?thesis
    using inv by (simp add: Register register_def Let_def connected_hosts_def)
next
  case (Drop reg)
  then show ?thesis
    using assms(1) by (auto simp: cleanup_def connected_hosts_def bt.keys_dom bt_remove_inv split: option.splits if_splits)
next
  case (Deregister h)
  then show ?thesis
    using assms(1) by (auto simp: deregister_def connected_hosts_def bt.keys_dom bt_remove_inv split: if_splits)
next
  case (Disconnect_all hs)
  then show ?thesis
    using assms by (simp add: disconnect_all_def fold_broadcast connected_hosts_def bt_keys_def op_ok_def replay_disconnects)
next
  case (Dispatch h)
  then show ?thesis
    using assms(1) by (auto simp: dispatch_def connected_hosts_def split: option.splits)
next
  case (Receive reg)
  then show ?thesis
    using assms(1) by (auto simp: receive_def connected_hosts_def)
qed

definition feed_ok :: "registry \<Rightarrow> feed \<Rightarrow> int set \<Rightarrow> bool" where
  "feed_ok r f S \<longleftrightarrow>
     bt_inv (rg_map r) \<and> fd_position f \<le> length (rg_log r) \<and>
     replay (drop (fd_position f) (rg_log r))
       (case fd_connected f of None \<Rightarrow> S | Some hosts \<Rightarrow> set hosts) = set (connected_hosts r)"

lemma feed_ok_watch: "bt_inv (rg_map r) \<Longrightarrow> feed_ok r (watch r) S"
  by (simp add: feed_ok_def watch_def)

lemma feed_ok_op: "feed_ok r f S \<Longrightarrow> op_ok r x \<Longrightarrow> feed_ok (apply_op x r) f S"
  using op_events [of r x] by (auto simp: feed_ok_def)

lemma feed_ok_next:
  assumes ok: "feed_ok r f S" and n: "feed_next r f = Some (c, f')"
  shows "feed_ok r f' (apply_change c S)"
proof (cases "fd_connected f")
  case None
  show ?thesis
  proof (cases "recv r (fd_position f)")
    case (Event e p)
    then have p: "p = Suc (fd_position f)" "e = rg_log r ! fd_position f" "fd_position f \<noteq> length (rg_log r)"
      by (auto simp: recv_def split: if_splits)
    then have lt: "fd_position f < length (rg_log r)" using ok by (simp add: feed_ok_def)
    then have split: "drop (fd_position f) (rg_log r) = e # drop p (rg_log r)"
      using p by (simp add: Cons_nth_drop_Suc)
    have "f' = f\<lparr>fd_position := p\<rparr>" "c = Changed e" "p \<le> length (rg_log r)"
      using n None Event p(1) lt by (simp_all add: feed_next_def)
    then show ?thesis using ok None split by (simp add: feed_ok_def)
  next
    case (Lagged p)
    have "f' = (watch r)\<lparr>fd_connected := None\<rparr>" "c = connection_change.Connected (connected_hosts r)"
      using n None Lagged by (simp_all add: feed_next_def watch_def Let_def)
    then show ?thesis using ok by (simp add: feed_ok_def watch_def)
  next
    case Empty_channel
    with n None show ?thesis by (simp add: feed_next_def)
  qed
next
  case (Some hosts)
  then have "f' = f\<lparr>fd_connected := None\<rparr>" "c = connection_change.Connected hosts"
    using n by (simp_all add: feed_next_def)
  then show ?thesis using ok Some by (simp add: feed_ok_def)
qed

text \<open>One step of the whole: an operation on the registry, or the consumer taking the next change.\<close>

inductive watched :: "registry \<times> feed \<times> int set \<Rightarrow> registry \<times> feed \<times> int set \<Rightarrow> bool" where
  watched_op: "op_ok r x \<Longrightarrow> watched (r, f, S) (apply_op x r, f, S)"
| watched_next: "feed_next r f = Some (c, f') \<Longrightarrow> watched (r, f, S) (r, f', apply_change c S)"

lemma watched_ok: "watched\<^sup>*\<^sup>* s s' \<Longrightarrow> feed_ok (fst s) (fst (snd s)) (snd (snd s)) \<Longrightarrow>
  feed_ok (fst s') (fst (snd s')) (snd (snd s'))"
proof (induction rule: rtranclp_induct)
  case (step s1 s2)
  from step.hyps(2) step.IH [OF step.prems] show ?case
    by (cases rule: watched.cases) (auto intro: feed_ok_op feed_ok_next)
qed simp

text \<open>The consumer alone: it takes changes until it would wait.\<close>

fun catch_up :: "nat \<Rightarrow> registry \<Rightarrow> feed \<Rightarrow> int set \<Rightarrow> feed \<times> int set" where
  "catch_up 0 r f S = (f, S)"
| "catch_up (Suc n) r f S =
     (case feed_next r f of None \<Rightarrow> (f, S) | Some (c, f') \<Rightarrow> catch_up n r f' (apply_change c S))"

definition backlog :: "registry \<Rightarrow> feed \<Rightarrow> nat" where
  "backlog r f = (if fd_connected f = None then 0 else 1) + min (Suc BROADCAST_CAPACITY) (length (rg_log r) - fd_position f)"

lemma feed_next_backlog:
  assumes "feed_ok r f S" and "feed_next r f = Some (c, f')"
  shows "backlog r f' < backlog r f"
proof (cases "fd_connected f")
  case None
  then show ?thesis
    using assms by (auto simp: feed_ok_def feed_next_def backlog_def watch_def recv_def Let_def
        split: if_splits recv_result.splits)
next
  case (Some hosts)
  then show ?thesis using assms(2) by (auto simp: feed_next_def backlog_def)
qed

lemma catch_up_done:
  "feed_ok r f S \<Longrightarrow> backlog r f \<le> n \<Longrightarrow> catch_up n r f S = (f', S') \<Longrightarrow>
   feed_next r f' = None \<and> feed_ok r f' S'"
proof (induction n arbitrary: f S)
  case 0
  have "feed_next r f = None"
    using feed_next_backlog [OF "0.prems"(1)] 0 by (cases "feed_next r f") auto
  with 0 show ?case by simp
next
  case (Suc n)
  show ?case
  proof (cases "feed_next r f")
    case None
    with Suc.prems show ?thesis by simp
  next
    case (Some cf)
    obtain c f1 where cf: "cf = (c, f1)" by (cases cf)
    have "backlog r f1 \<le> n"
      using feed_next_backlog [OF Suc.prems(1)] Some cf Suc.prems(2) by fastforce
    then show ?thesis
      using Suc.IH [OF feed_ok_next [OF Suc.prems(1)]] Some cf Suc.prems(3) by simp
  qed
qed

lemma waiting_feed: "feed_ok r f S \<Longrightarrow> feed_next r f = None \<Longrightarrow> S = set (connected_hosts r)"
  by (auto simp: feed_ok_def feed_next_def recv_def Let_def split: option.splits if_splits)

subsection \<open>Properties\<close>

text \<open>C8: a registration stays the one of its host until the host registers again or is deregistered, every
  host is disconnected, or it is dropped itself: whatever else happens, the drop of an older registration
  of the host included. As long as it stays, dropping another registration changes nothing, a dispatch
  reaches its mailbox, and dropping it disconnects the host.\<close>

theorem registration_survives:
  assumes "runs new_registry xs r" and "register h r = (reg, r1)" and "runs r1 ys r2"
    and "registrations xs + registrations ys + 1 < 2 ^ 64"
    and "\<forall>y \<in> set ys. \<not> ends h (rn_generation reg) y"
  shows "entry_at r2 h = Some (rn_generation reg) \<and>
    (\<forall>old. rn_id old = h \<and> rn_generation old \<noteq> rn_generation reg \<longrightarrow> cleanup old r2 = r2) \<and>
    fst (receive reg (dispatch h r2)) = Woken \<and>
    entry_at (cleanup reg r2) h = None"
proof -
  have "registry_ok 0 new_registry" by (simp add: registry_ok_def new_registry_def bt_inv_def)
  then have r: "registry_ok (registrations xs) r"
    using runs_ok_registry [OF assms(1), of 0] assms(4) by simp
  have reg: "reg = \<lparr>rn_id = h, rn_generation = rg_next_generation r\<rparr>" "r1 = apply_op (Register h) r"
    using assms(2) by (auto simp: register_def Let_def)
  have r1: "registry_ok (registrations xs + 1) r1"
    unfolding reg(2) using apply_op_ok [OF r, of "Register h"] assms(4) by simp
  have "entry_at r1 h = Some (rn_generation reg)"
    using r by (simp add: reg entry_at_def register_def Let_def bt.lookup_insert registry_ok_def)
  then have e: "entry_at r2 h = Some (rn_generation reg)"
    using runs_entry_kept [OF assms(3) r1] assms(4,5) by simp
  moreover have "bt_inv (rg_map r2)"
    using runs_ok_registry [OF assms(3) r1] assms(4) by (simp add: registry_ok_def)
  ultimately show ?thesis
    by (auto simp: entry_at_def cleanup_def receive_def dispatch_def reg(1) split: option.splits)
qed

theorem registration_survives_witness:
  "entry_at (cleanup \<lparr>rn_id = 1, rn_generation = 0\<rparr> (apply_op (Register 1) (apply_op (Register 1) new_registry))) 1 = Some 1"
proof -
  have "runs new_registry [Register 1] (apply_op (Register 1) new_registry)" by (simp add: op_ok_def)
  moreover have "register 1 (apply_op (Register 1) new_registry) =
      (\<lparr>rn_id = 1, rn_generation = 1\<rparr>, apply_op (Register 1) (apply_op (Register 1) new_registry))"
    by (simp add: register_def new_registry_def Let_def broadcast_def)
  moreover have "runs (apply_op (Register 1) (apply_op (Register 1) new_registry)) [Drop \<lparr>rn_id = 1, rn_generation = 0\<rparr>]
      (cleanup \<lparr>rn_id = 1, rn_generation = 0\<rparr> (apply_op (Register 1) (apply_op (Register 1) new_registry)))"
    by (simp add: op_ok_def)
  ultimately show ?thesis
    using registration_survives [of "[Register 1]" _ 1] by fastforce
qed

text \<open>C9: a consumer that applies every change of a feed ends up with the registry's connected hosts. At any
  moment, after any interleaving of registry operations with its own reads and however far it fell
  behind the channel, at most 34 further reads leave it waiting, and then it has exactly them.\<close>

theorem feed_follows_registry:
  assumes "runs new_registry xs r" and "registrations xs < 2 ^ 64"
    and "watched\<^sup>*\<^sup>* (r, watch r, {}) (r', f', S')"
  shows "\<exists>f S. catch_up 34 r' f' S' = (f, S) \<and> feed_next r' f = None \<and> S = set (connected_hosts r')"
proof -
  have "registry_ok (registrations xs) r"
    using runs_ok_registry [OF assms(1), of 0] assms(2) by (simp add: registry_ok_def new_registry_def bt_inv_def)
  then have "feed_ok r (watch r) {}" by (simp add: feed_ok_watch registry_ok_def)
  then have ok: "feed_ok r' f' S'" using watched_ok [OF assms(3)] by simp
  obtain f S where c: "catch_up 34 r' f' S' = (f, S)" by fastforce
  have "backlog r' f' \<le> 34" by (simp add: backlog_def BROADCAST_CAPACITY_def min_le_iff_disj)
  from catch_up_done [OF ok this c] c waiting_feed show ?thesis by blast
qed

theorem feed_follows_registry_witness:
  "\<exists>f. catch_up 34 (apply_op (Register 7) new_registry) (watch new_registry) {} = (f, {7})"
proof -
  have "watched\<^sup>*\<^sup>* (new_registry, watch new_registry, {}) (apply_op (Register 7) new_registry, watch new_registry, {})"
    using watched_op [of new_registry "Register 7" "watch new_registry" "{}"]
    by (intro r_into_rtranclp) (simp add: op_ok_def)
  from feed_follows_registry [of "[]", OF _ _ this]
  obtain f where "catch_up 34 (apply_op (Register 7) new_registry) (watch new_registry) {} =
      (f, set (connected_hosts (apply_op (Register 7) new_registry)))" by auto
  moreover have "set (connected_hosts (apply_op (Register 7) new_registry)) = {7}"
    by (simp add: connected_hosts_def register_def Let_def new_registry_def bt_keys_def)
  ultimately show ?thesis by (metis (no_types))
qed

end
