(* ===== verification/Script_Inputs.thy ===== *)
theory Script_Inputs
  imports Model_Types BTree_Map Utf8
begin

text \<open>
  \<open>crates/model/src/script.rs\<close> and \<open>crates/model/src/script_env.rs\<close>: the inputs a script declares, the
  check of a value against a declaration, the validation of scripts and their names, and the
  resolution of deploy inputs against the configured script variables. A \<open>BTreeMap\<close> is the sorted
  association list of theory \<open>BTree_Map\<close>.
\<close>

type_synonym input_values = "(string, string) btree_map"

datatype input_source = Value string | Variable string

type_synonym input_sources = "(string, input_source) btree_map"

record deploy_inputs =
  di_shared :: input_sources
  di_per_machine :: "(int, input_sources) btree_map"

record resolved_inputs =
  rin_shared :: input_values
  rin_per_machine :: "(int, input_values) btree_map"

subsection \<open>Resolving variables\<close>

definition resolve_source :: "(string, string) btree_map \<Rightarrow> string \<times> input_source \<Rightarrow> (string \<times> string) result" where
  "resolve_source variables ns =
     (case snd ns of
        Value v \<Rightarrow> Inr (fst ns, v)
      | Variable x \<Rightarrow>
          and_then (ok_or (InvalidArgument (''input `'' @ fst ns @ ''` uses script variable `'' @ x @
              ''`, which is not configured'')) (bt_lookup variables x))
            (\<lambda>v. Inr (fst ns, v)))"

definition resolve_sources :: "(string, string) btree_map \<Rightarrow> input_sources \<Rightarrow> input_values result" where
  "resolve_sources variables sources =
     and_then (collect_map (resolve_source variables) sources) (\<lambda>kvs. Inr (bt_of_list kvs))"

definition resolve_deploy :: "deploy_inputs \<Rightarrow> (string, string) btree_map \<Rightarrow> resolved_inputs result" where
  "resolve_deploy inputs variables =
     and_then (resolve_sources variables (di_shared inputs)) (\<lambda>shared.
     and_then (collect_map (\<lambda>(host_id, sources).
         and_then (resolve_sources variables sources) (\<lambda>values. Inr (host_id, values))) (di_per_machine inputs))
       (\<lambda>per_machine. Inr \<lparr>rin_shared = shared, rin_per_machine = bt_of_list per_machine\<rparr>))"

subsection \<open>Numbers\<close>

text \<open>\<open>parse::<f64>\<close> of the standard library: the grammar it documents, and whether the value, rounded to
  the nearest double, is finite. A decimal rounds to infinity exactly from halfway between the largest
  double and the next power of two on.\<close>

definition take_sign :: "string \<Rightarrow> bool \<times> string" where
  "take_sign s =
     (case s of
        [] \<Rightarrow> (False, [])
      | c # cs \<Rightarrow> if c = CHR ''-'' then (True, cs) else if c = CHR ''+'' then (False, cs) else (False, s))"

definition exponent :: "string \<Rightarrow> int option" where
  "exponent s =
     (let (negative, ds) = take_sign s
      in if all_digits ds then Some (if negative then - int (digits_val ds) else int (digits_val ds)) else None)"

text \<open>A decimal number as mantissa and power of ten.\<close>

definition decimal_number :: "string \<Rightarrow> (nat \<times> int) option" where
  "decimal_number s =
     (let whole = takeWhile is_digit s; rest = dropWhile is_digit s;
          (fraction, rest) = (case rest of
             c # cs \<Rightarrow> if c = CHR ''.'' then (takeWhile is_digit cs, dropWhile is_digit cs) else ([], rest)
           | [] \<Rightarrow> ([], []));
          mantissa = digits_val (whole @ fraction)
      in if whole @ fraction = [] then None
         else case rest of
                [] \<Rightarrow> Some (mantissa, - int (length fraction))
              | c # cs \<Rightarrow>
                  if c = CHR ''e'' \<or> c = CHR ''E''
                  then map_option (\<lambda>e. (mantissa, e - int (length fraction))) (exponent cs)
                  else None)"

definition F64_INFINITE_FROM :: nat where
  "F64_INFINITE_FROM = 2 ^ 1024 - 2 ^ 970"

definition decimal_finite :: "nat \<times> int \<Rightarrow> bool" where
  "decimal_finite me \<longleftrightarrow>
     (let (m, e) = me
      in if e < 0 then m < F64_INFINITE_FROM * 10 ^ nat (- e) else m * 10 ^ nat e < F64_INFINITE_FROM)"

text \<open>\<open>None\<close> is a parse error, \<open>Some finite\<close> a parsed number that is finite or not.\<close>

definition parse_f64 :: "string \<Rightarrow> bool option" where
  "parse_f64 s =
     (let (_, t) = take_sign s
      in if map lower t \<in> {''inf'', ''infinity'', ''nan''} then Some False
         else map_option decimal_finite (decimal_number t))"

subsection \<open>Checking a value\<close>

definition MAX_SCRIPT_NAME_LEN :: nat where
  "MAX_SCRIPT_NAME_LEN = 64"

definition MAX_INPUT_DESCRIPTION_LEN :: nat where
  "MAX_INPUT_DESCRIPTION_LEN = 1000"

definition check_value :: "script_input \<Rightarrow> string \<Rightarrow> string + unit" where
  "check_value i v =
     (if nul \<in> set v then Inl (''input `'' @ in_name i @ ''` cannot contain NUL bytes'')
      else case in_kind i of
             Text \<Rightarrow> Inr ()
           | Secret \<Rightarrow> Inr ()
           | Number \<Rightarrow>
               (case parse_f64 (trim v) of
                  Some True \<Rightarrow> Inr ()
                | _ \<Rightarrow> Inl (''input `'' @ in_name i @ ''` must be a number''))
           | Choice \<Rightarrow>
               if v \<in> set (in_choices i) then Inr ()
               else Inl (''input `'' @ in_name i @ ''` must be one of '' @ join '', '' (in_choices i)))"

definition value_from :: "script_input \<Rightarrow> input_values \<Rightarrow> string option" where
  "value_from i values =
     (case bt_lookup values (in_name i) of
        Some v \<Rightarrow> if v = [] then in_default i else Some v
      | None \<Rightarrow> in_default i)"

subsection \<open>Validation\<close>

definition is_input_name :: "string \<Rightarrow> bool" where
  "is_input_name name \<longleftrightarrow> name \<noteq> [] \<and> list_all (\<lambda>b. is_lower b \<or> is_digit b \<or> b = CHR ''_'') name"

definition is_script_name :: "string \<Rightarrow> bool" where
  "is_script_name name \<longleftrightarrow>
     name \<noteq> [] \<and> length name \<le> MAX_SCRIPT_NAME_LEN \<and> \<not> starts_with ''.'' name \<and>
     list_all (\<lambda>b. is_alnum b \<or> b = CHR ''-'' \<or> b = CHR ''_'' \<or> b = CHR ''.'') name"

definition first_duplicate :: "string list \<Rightarrow> string option" where
  "first_duplicate items = first_repeat [] items"

definition validate_input :: "script_input \<Rightarrow> unit result" where
  "validate_input i =
     (if \<not> is_input_name (in_name i)
      then Inl (InvalidArgument (''input name `'' @ in_name i @ ''` may only contain a-z, 0-9 and _''))
      else if in_kind i = Choice \<and> in_choices i = []
      then Inl (InvalidArgument (''choice input `'' @ in_name i @ ''` needs at least one choice''))
      else if in_kind i \<noteq> Choice \<and> in_choices i \<noteq> []
      then Inl (InvalidArgument (input_kind_str (in_kind i) @ '' input `'' @ in_name i @ ''` cannot have choices''))
      else case first_duplicate (in_choices i) of
        Some d \<Rightarrow> Inl (InvalidArgument (''input `'' @ in_name i @ ''` lists choice `'' @ d @ ''` twice''))
      | None \<Rightarrow>
          if \<exists>t \<in> set_option (in_description i). MAX_INPUT_DESCRIPTION_LEN < char_count t
          then Inl (InvalidArgument (''input `'' @ in_name i @ ''` description is longer than '' @
                 nat_str MAX_INPUT_DESCRIPTION_LEN @ '' characters''))
          else if \<exists>t \<in> set_option (in_description i). nul \<in> set t
          then Inl (InvalidArgument (''input `'' @ in_name i @ ''` description cannot contain NUL bytes''))
          else if in_kind i = Secret \<and> in_default i \<noteq> None
          then Inl (InvalidArgument (''secret input `'' @ in_name i @ ''` cannot have a default value''))
          else case in_default i of
                 None \<Rightarrow> Inr ()
               | Some v \<Rightarrow> map_err (\<lambda>e. InvalidArgument (''default value is invalid: '' @ e)) (check_value i v))"

definition deserialize_description :: "string option \<Rightarrow> string option" where
  "deserialize_description t =
     (case t of
        None \<Rightarrow> None
      | Some s \<Rightarrow> let trimmed = trim s in
          if trimmed = [] then None else if length trimmed = length s then Some s else Some trimmed)"

definition validate_script_name :: "string \<Rightarrow> unit result" where
  "validate_script_name name =
     (if is_script_name name then Inr ()
      else Inl (InvalidArgument (''script name `'' @ name @ ''` must be 1 to '' @ nat_str MAX_SCRIPT_NAME_LEN @
        '' letters, digits, -, _ or . and cannot start with .'')))"

definition validate_script :: "string \<Rightarrow> string \<Rightarrow> script_input list \<Rightarrow> unit result" where
  "validate_script name body inputs =
     and_then (validate_script_name name) (\<lambda>_.
       if trim body = [] then Inl (InvalidArgument (''script `'' @ name @ ''` has an empty body''))
       else and_then (collect_map validate_input inputs) (\<lambda>_.
         case first_duplicate (map in_name inputs) of
           Some d \<Rightarrow> Inl (InvalidArgument (''script `'' @ name @ ''` declares input `'' @ d @ ''` twice''))
         | None \<Rightarrow> Inr ()))"

subsection \<open>Script variables\<close>

definition INPUT_PREFIX :: string where
  "INPUT_PREFIX = ''IMAGED_INPUT_''"

definition AGENT_VARIABLES :: "string list" where
  "AGENT_VARIABLES = [''PATH'', ''HOME'', ''IMAGED_MAC'', ''IMAGED_IP'', ''IMAGED_SERVER'']"

definition PROXY_VARIABLES :: "string list" where
  "PROXY_VARIABLES = [''http_proxy'', ''https_proxy'', ''HTTP_PROXY'', ''HTTPS_PROXY'']"

definition check_variable :: "string \<Rightarrow> string \<Rightarrow> string + unit" where
  "check_variable name v =
     (let valid_name =
        (case name of [] \<Rightarrow> False | first # _ \<Rightarrow> is_alpha first \<or> first = CHR ''_'') \<and>
        list_all (\<lambda>b. is_alnum b \<or> b = CHR ''_'') name
      in if \<not> valid_name
         then Inl (''script variable `'' @ name @
           ''` may only contain letters, digits and _ and cannot start with a digit'')
         else if starts_with INPUT_PREFIX name \<or> name \<in> set AGENT_VARIABLES \<or> name \<in> set PROXY_VARIABLES
         then Inl (''script variable `'' @ name @ ''` is set by imaged itself'')
         else if nul \<in> set v
         then Inl (''script variable `'' @ name @ ''` cannot contain NUL bytes'')
         else Inr ())"

subsection \<open>Properties\<close>

definition source_value :: "(string, string) btree_map \<Rightarrow> input_source \<Rightarrow> string option" where
  "source_value variables s = (case s of Value v \<Rightarrow> Some v | Variable x \<Rightarrow> bt_lookup variables x)"

lemma resolve_source_Inr:
  "resolve_source variables ns = Inr kv \<longleftrightarrow> (\<exists>v. source_value variables (snd ns) = Some v \<and> kv = (fst ns, v))"
  by (auto simp: resolve_source_def source_value_def and_then_Inr ok_or_Inr split: input_source.splits)

lemma resolve_sources_Inr:
  assumes "bt_inv ss"
  shows "resolve_sources variables ss = Inr m \<longleftrightarrow>
    (\<forall>ns \<in> set ss. source_value variables (snd ns) \<noteq> None) \<and>
    m = map (\<lambda>ns. (fst ns, the (source_value variables (snd ns)))) ss"
proof -
  have "collect_map (resolve_source variables) xs = Inr kvs \<longleftrightarrow>
      (\<forall>ns \<in> set xs. source_value variables (snd ns) \<noteq> None) \<and>
      kvs = map (\<lambda>ns. (fst ns, the (source_value variables (snd ns)))) xs" for xs kvs
    by (induction xs arbitrary: kvs) (auto simp: and_then_Inr resolve_source_Inr)
  moreover have "bt_inv (map (\<lambda>ns. (fst ns, the (source_value variables (snd ns)))) ss)"
    using assms by (simp add: bt_inv_def o_def)
  ultimately show ?thesis
    by (auto simp: resolve_sources_def and_then_Inr bt_of_list_id)
qed

text \<open>Resolving the script variables of a deployment succeeds exactly when every variable it uses, shared
  or for one machine, is configured; then every input keeps its name and scope and has its own value or
  the value of its variable, and nothing else changes.\<close>

theorem resolve_deploy_correct:
  assumes inv: "bt_inv (di_shared i)" "bt_inv (di_per_machine i)" "\<forall>hs \<in> set (di_per_machine i). bt_inv (snd hs)"
  shows "resolve_deploy i variables = Inr r \<longleftrightarrow>
    (\<forall>ss \<in> insert (di_shared i) (snd ` set (di_per_machine i)). \<forall>ns \<in> set ss. source_value variables (snd ns) \<noteq> None) \<and>
    r = \<lparr>rin_shared = map (\<lambda>ns. (fst ns, the (source_value variables (snd ns)))) (di_shared i),
         rin_per_machine = map (\<lambda>hs. (fst hs, map (\<lambda>ns. (fst ns, the (source_value variables (snd ns)))) (snd hs)))
           (di_per_machine i)\<rparr>"
proof -
  let ?f = "\<lambda>(host_id, sources). and_then (resolve_sources variables sources) (\<lambda>values. Inr (host_id, values))"
  let ?g = "\<lambda>hs. (fst hs, map (\<lambda>ns. (fst ns, the (source_value variables (snd ns)))) (snd hs))"
  have f: "?f hs = Inr x \<longleftrightarrow> (\<forall>ns \<in> set (snd hs). source_value variables (snd ns) \<noteq> None) \<and> x = ?g hs"
    if "bt_inv (snd hs)" for hs x
    using that by (cases hs) (auto simp: and_then_Inr resolve_sources_Inr)
  have "collect_map ?f xs = Inr out \<longleftrightarrow>
      (\<forall>hs \<in> set xs. \<forall>ns \<in> set (snd hs). source_value variables (snd ns) \<noteq> None) \<and> out = map ?g xs"
    if "\<forall>hs \<in> set xs. bt_inv (snd hs)" for xs out
    using that
  proof (induction xs arbitrary: out)
    case (Cons hs xs)
    then have "collect_map ?f (hs # xs) = Inr out \<longleftrightarrow>
        (\<exists>x out'. ?f hs = Inr x \<and> collect_map ?f xs = Inr out' \<and> out = x # out')"
      unfolding collect_map.simps and_then_Inr by auto
    with Cons f [of hs] show ?case by auto
  qed auto
  note all = this [OF inv(3)]
  have "bt_inv (map ?g (di_per_machine i))" using inv(2) by (simp add: bt_inv_def o_def)
  then show ?thesis
    unfolding resolve_deploy_def and_then_Inr all resolve_sources_Inr [OF inv(1)] by (auto simp: bt_of_list_id)
qed

theorem resolve_deploy_correct_witness:
  "resolve_deploy \<lparr>di_shared = [(''site'', Variable ''SITE'')], di_per_machine = [(1, [(''name'', Value ''pc'')])]\<rparr>
     [(''SITE'', ''lab'')] = Inr \<lparr>rin_shared = [(''site'', ''lab'')], rin_per_machine = [(1, [(''name'', ''pc'')])]\<rparr>"
  by (subst resolve_deploy_correct) (simp_all add: bt_inv_def source_value_def bt_lookup_def)

text \<open>Numbers are printed and accepted: an integer in decimal is a valid number exactly when the nearest
  double of it is finite.\<close>

lemma takeWhile_digits: "takeWhile is_digit (nat_str n) = nat_str n" "dropWhile is_digit (nat_str n) = []"
  by (auto simp: takeWhile_eq_all_conv dropWhile_eq_Nil_conv dest: nat_str_digits)

lemma decimal_number_nat_str: "decimal_number (nat_str n) = Some (n, 0)"
  by (simp add: decimal_number_def takeWhile_digits Let_def)

lemma nat_str_Cons: "\<exists>c cs. nat_str n = c # cs \<and> is_digit c"
  using nat_str_digits [of "hd (nat_str n)" n] by (cases "nat_str n") auto

lemma parse_f64_int_str: "parse_f64 (int_str k) = Some (nat \<bar>k\<bar> < F64_INFINITE_FROM)"
proof -
  have word: "map lower (nat_str n) \<notin> {''inf'', ''infinity'', ''nan''}" for n
  proof -
    obtain c cs where "nat_str n = c # cs" "is_digit c" using nat_str_Cons by blast
    moreover from this(2) have "lower c = c" by (auto simp: lower_def ascii_simps)
    moreover have "\<not> is_digit CHR ''i''" "\<not> is_digit CHR ''n''" by code_simp+
    ultimately show ?thesis by auto
  qed
  have sign: "take_sign (nat_str n) = (False, nat_str n)" for n
  proof -
    obtain c cs where "nat_str n = c # cs" "is_digit c" using nat_str_Cons by blast
    moreover have "\<not> is_digit CHR ''-''" "\<not> is_digit CHR ''+''" by code_simp+
    ultimately show ?thesis by (auto simp: take_sign_def)
  qed
  have "map_option decimal_finite (decimal_number (nat_str n)) = Some (n < F64_INFINITE_FROM)" for n
    by (simp add: decimal_number_nat_str decimal_finite_def)
  then show ?thesis
    using word sign by (simp add: parse_f64_def int_str_def) (simp add: take_sign_def)
qed

lemma int_str_ends: "int_str k \<noteq> [] \<and> 33 \<le> byte (hd (int_str k)) \<and> byte (hd (int_str k)) \<le> 126 \<and>
    33 \<le> byte (last (int_str k)) \<and> byte (last (int_str k)) \<le> 126"
proof -
  have d: "33 \<le> byte (hd (nat_str n)) \<and> byte (hd (nat_str n)) \<le> 126 \<and>
      33 \<le> byte (last (nat_str n)) \<and> byte (last (nat_str n)) \<le> 126" for n
    using nat_str_digits [OF hd_in_set [OF nat_str_not_Nil], of n] nat_str_digits [OF last_in_set [OF nat_str_not_Nil], of n]
    by (simp add: is_digit_def)
  then show ?thesis by (simp add: int_str_def byte_def)
qed

text \<open>A number input takes every integer in decimal up to the range of a double: the value is accepted
  exactly when its magnitude is below the point from which it rounds to infinity.\<close>

theorem number_input_takes_integers:
  assumes "in_kind i = Number"
  shows "check_value i (int_str k) = Inr () \<longleftrightarrow> nat \<bar>k\<bar> < 2 ^ 1024 - 2 ^ 970"
proof -
  have "nul \<notin> set (int_str k)"
  proof
    assume "nul \<in> set (int_str k)"
    then have "is_digit nul \<or> nul = CHR ''-''"
      by (auto simp: int_str_def split: if_splits dest: nat_str_digits)
    moreover have "\<not> is_digit nul" "nul \<noteq> CHR ''-''" by code_simp+
    ultimately show False by blast
  qed
  moreover have "trim (int_str k) = int_str k" using int_str_ends [of k] by (intro trim_ascii) simp_all
  ultimately show ?thesis
    using assms by (auto simp: check_value_def parse_f64_int_str F64_INFINITE_FROM_def simp del: One_nat_def split: option.splits bool.splits)
qed

theorem number_input_takes_integers_witness:
  "check_value \<lparr>in_name = ''n'', in_label = [], in_description = None, in_kind = Number, in_required = True,
     in_default = None, in_per_machine = False, in_choices = []\<rparr> (int_str (- 42)) = Inr ()"
  by (subst number_input_takes_integers) simp_all

end
