(* ===== verification/Mac_Address.thy ===== *)
theory Mac_Address
  imports App_Error
begin

text \<open>
  \<open>crates/model/src/agent.rs\<close>: MAC addresses as an agent sends them and as the database stores them, and
  the paths an agent calls. Parsing takes six hexadecimal pairs separated by colons or by dashes; the
  display is the canonical form, lower case with colons.
\<close>

type_synonym mac_address = "nat list"

fun mac_bytes :: "nat \<Rightarrow> string list \<Rightarrow> (nat list \<times> string list) option" where
  "mac_bytes 0 parts = Some ([], parts)"
| "mac_bytes (Suc n) [] = None"
| "mac_bytes (Suc n) (p # parts) =
     (if length p = 2 \<and> list_all is_hexdigit p
      then map_option (\<lambda>(bytes, rest). ((16 * hex_val (p ! 0) + hex_val (p ! 1)) # bytes, rest)) (mac_bytes n parts)
      else None)"

lemma mac_bytes_code [code]:
  "mac_bytes n parts =
     (if n = 0 then Some ([], parts)
      else case parts of
        [] \<Rightarrow> None
      | p # parts \<Rightarrow>
          if length p = 2 \<and> list_all is_hexdigit p
          then map_option (\<lambda>(bytes, rest). ((16 * hex_val (p ! 0) + hex_val (p ! 1)) # bytes, rest)) (mac_bytes (n - 1) parts)
          else None)"
  by (cases n; cases parts) simp_all

definition mac_from_str :: "string \<Rightarrow> mac_address result" where
  "mac_from_str txt =
     (let invalid = InvalidArgument (''invalid MAC address '' @ debug_str txt);
          separator = (if CHR ''-'' \<in> set txt then CHR ''-'' else CHR '':'')
      in case mac_bytes 6 (split_on separator txt) of
           None \<Rightarrow> Inl invalid
         | Some (bytes, rest) \<Rightarrow> (case rest of [] \<Rightarrow> Inr bytes | _ # _ \<Rightarrow> Inl invalid))"

definition hex2 :: "nat \<Rightarrow> string" where
  "hex2 b = [hex_digit (b div 16), hex_digit (b mod 16)]"

definition mac_display :: "mac_address \<Rightarrow> string" where
  "mac_display bytes = join '':'' (map hex2 bytes)"

text \<open>\<open>canonical_mac\<close> of \<open>crates/core/src/repository/host.rs\<close>.\<close>

definition canonical_mac :: "string \<Rightarrow> string result" where
  "canonical_mac mac = and_then (mac_from_str mac) (\<lambda>m. Inr (mac_display m))"

lemma hex2_val: "length p = 2 \<Longrightarrow> list_all is_hexdigit p \<Longrightarrow> hex2 (16 * hex_val (p ! 0) + hex_val (p ! 1)) = map lower p"
proof -
  assume p: "length p = 2" "list_all is_hexdigit p"
  then obtain a b where ab: "p = [a, b]" "is_hexdigit a" "is_hexdigit b"
    by (cases p rule: list.exhaust; cases "tl p" rule: list.exhaust) auto
  have "(16 * hex_val a + hex_val b) div 16 = hex_val a" "(16 * hex_val a + hex_val b) mod 16 = hex_val b"
    using hex_val_less [OF ab(3)] by simp_all
  then show ?thesis using ab by (simp add: hex2_def hex_digit_val)
qed

lemma mac_bytes_Some:
  "mac_bytes n parts = Some (bytes, rest) \<Longrightarrow>
   \<exists>own. parts = own @ rest \<and> length own = n \<and> length bytes = n \<and>
     (\<forall>p \<in> set own. length p = 2 \<and> list_all is_hexdigit p) \<and>
     map hex2 bytes = map (map lower) own \<and> (\<forall>b \<in> set bytes. b < 256)"
proof (induction n parts arbitrary: bytes rest rule: mac_bytes.induct)
  case (3 n p parts)
  then obtain bs where bs: "mac_bytes n parts = Some (bs, rest)" "length p = 2" "list_all is_hexdigit p"
    "bytes = (16 * hex_val (p ! 0) + hex_val (p ! 1)) # bs"
    by (auto split: if_splits)
  have "hex_val (p ! 0) < 16" "hex_val (p ! 1) < 16"
    using bs(2,3) by (auto simp: list_all_length intro: hex_val_less)
  then have "16 * hex_val (p ! 0) + hex_val (p ! 1) < 256" by simp
  moreover obtain own where "parts = own @ rest" "length own = n" "length bs = n"
     "\<forall>p \<in> set own. length p = 2 \<and> list_all is_hexdigit p" "map hex2 bs = map (map lower) own" "\<forall>b \<in> set bs. b < 256"
    using "3.IH" bs by blast
  ultimately show ?case
    using bs hex2_val by (intro exI [of _ "p # own"]) auto
qed auto

lemma mac_bytes_display:
  "(\<forall>b \<in> set bytes. b < 256) \<Longrightarrow> mac_bytes (length bytes) (map hex2 bytes) = Some (bytes, [])"
  by (induction bytes) (auto simp: hex2_def hex_digit_is_hexdigit hex_val_digit)

lemma map_join: "map f (join [c] ps) = join [f c] (map (map f) ps)"
  by (induction "[c]" ps rule: join.induct) auto

definition dash_to_colon :: "char \<Rightarrow> char" where
  "dash_to_colon c = (if c = CHR ''-'' then CHR '':'' else c)"

lemma hexdigit_no_sep: "is_hexdigit c \<Longrightarrow> c \<noteq> CHR ''-'' \<and> c \<noteq> CHR '':''"
  by (auto simp: ascii_simps byte_def)

lemma lower_colon: "lower (CHR '':'') = CHR '':''"
  by (simp add: lower_def is_upper_def byte_def)

lemma mac_display_from_str:
  assumes "mac_from_str s = Inr bytes"
  shows "mac_display bytes = map (\<lambda>c. lower (dash_to_colon c)) s \<and> length bytes = 6 \<and> (\<forall>b \<in> set bytes. b < 256)"
proof -
  define sep where "sep = (if CHR ''-'' \<in> set s then CHR ''-'' else CHR '':'')"
  have "mac_bytes 6 (split_on sep s) = Some (bytes, [])"
    using assms by (auto simp: mac_from_str_def Let_def sep_def split: option.splits list.splits prod.splits)
  from mac_bytes_Some [OF this] have parts: "\<forall>p \<in> set (split_on sep s). length p = 2 \<and> list_all is_hexdigit p"
    "map hex2 bytes = map (map lower) (split_on sep s)" "length bytes = 6" "\<forall>b \<in> set bytes. b < 256"
    by auto
  have "map (\<lambda>c. lower (dash_to_colon c)) s = map (\<lambda>c. lower (dash_to_colon c)) (join [sep] (split_on sep s))"
    by (simp add: join_split_on)
  also have "\<dots> = join '':'' (map (map (\<lambda>c. lower (dash_to_colon c))) (split_on sep s))"
    unfolding map_join by (simp add: sep_def dash_to_colon_def lower_colon)
  also have "map (map (\<lambda>c. lower (dash_to_colon c))) (split_on sep s) = map (map lower) (split_on sep s)"
    using parts(1) by (auto simp: dash_to_colon_def list_all_iff dest: hexdigit_no_sep)
  finally show ?thesis using parts by (simp add: mac_display_def)
qed

lemma mac_from_display:
  assumes "length bytes = 6" and "\<forall>b \<in> set bytes. b < 256"
  shows "mac_from_str (mac_display bytes) = Inr bytes"
proof -
  have hex: "\<forall>p \<in> set (map hex2 bytes). list_all is_hexdigit p"
    using assms(2) by (auto simp: hex2_def hex_digit_is_hexdigit)
  then have no: "CHR '':'' \<notin> set p" "CHR ''-'' \<notin> set p" if "p \<in> set (map hex2 bytes)" for p
    using that hexdigit_no_sep unfolding list_all_iff by blast+
  have "map hex2 bytes \<noteq> []" using assms(1) by auto
  then have split: "split_on (CHR '':'') (mac_display bytes) = map hex2 bytes"
    unfolding mac_display_def using no(1) by (intro split_on_join) auto
  have "set (join [c] ps) \<subseteq> insert c (\<Union>p \<in> set ps. set p)" for c and ps :: "string list"
    by (induction "[c]" ps rule: join.induct) auto
  then have "set (mac_display bytes) \<subseteq> insert (CHR '':'') (\<Union>p \<in> set (map hex2 bytes). set p)"
    unfolding mac_display_def by blast
  moreover have "CHR ''-'' \<notin> (\<Union>p \<in> set (map hex2 bytes). set p)"
    using no(2) by blast
  ultimately have "CHR ''-'' \<notin> set (mac_display bytes)" by auto
  then show ?thesis
    using mac_bytes_display [OF assms(2)] assms(1) by (simp add: mac_from_str_def split)
qed

text \<open>a MAC address is accepted in upper or lower case, with colons or with dashes; what the database
  stores for it is the text in lower case with colons, the stored form is accepted and kept as it is, and
  so two accepted texts name the same host exactly when they differ in case and separators alone.\<close>

theorem canonical_mac_correct:
  assumes "canonical_mac s = Inr m"
  shows "m = map (\<lambda>c. lower (dash_to_colon c)) s \<and> canonical_mac m = Inr m \<and>
    mac_from_str m = mac_from_str s \<and>
    (\<forall>s'. canonical_mac s' = Inr m \<longrightarrow>
      map (\<lambda>c. lower (dash_to_colon c)) s' = map (\<lambda>c. lower (dash_to_colon c)) s)"
proof -
  obtain bytes where b: "mac_from_str s = Inr bytes" "m = mac_display bytes"
    using assms by (auto simp: canonical_mac_def result_simps)
  note d = mac_display_from_str [OF b(1)]
  have again: "mac_from_str m = Inr bytes" using mac_from_display [of bytes] d b(2) by metis
  have "map (\<lambda>c. lower (dash_to_colon c)) s' = m" if s': "canonical_mac s' = Inr m" for s'
  proof -
    obtain bytes' where "mac_from_str s' = Inr bytes'" "m = mac_display bytes'"
      using s' by (auto simp: canonical_mac_def result_simps)
    with mac_display_from_str [of s' bytes'] show ?thesis by simp
  qed
  note same = this
  have m: "m = map (\<lambda>c. lower (dash_to_colon c)) s" using b(2) d by metis
  show ?thesis
  proof (intro conjI allI impI)
    show "canonical_mac m = Inr m" using again b(2) by (simp add: canonical_mac_def)
    show "mac_from_str m = mac_from_str s" using again b(1) by metis
    show "map (\<lambda>c. lower (dash_to_colon c)) s' = map (\<lambda>c. lower (dash_to_colon c)) s"
      if "canonical_mac s' = Inr m" for s'
      using same [OF that] m by metis
  qed (rule m)
qed

theorem canonical_mac_correct_witness:
  "canonical_mac ''AA-bb-0C-11-2d-Fe'' = Inr ''aa:bb:0c:11:2d:fe'' \<and> canonical_mac ''aa:bb:0c:11:2d:fe'' = Inr ''aa:bb:0c:11:2d:fe''"
proof -
  have "canonical_mac ''AA-bb-0C-11-2d-Fe'' = Inr ''aa:bb:0c:11:2d:fe''"
    by code_simp
  with canonical_mac_correct [OF this] show ?thesis by blast
qed

end
