(* ===== verification/Host_Repo.thy ===== *)
theory Host_Repo
  imports Mac_Address Tables
begin

text \<open>
  \<open>crates/core/src/domain/host.rs\<close> with its repository \<open>crates/core/src/repository/host.rs\<close>, and the
  groups of hosts, \<open>crates/core/src/repository/group.rs\<close>. A \<open>u64\<close> size is stored in a signed 64-bit
  column and read back with \<open>as u64\<close>. \<open>DELETE\<close> cascades along the foreign keys of the schema.
\<close>

record host =
  h_id :: int
  h_name :: string
  h_mac_address :: string
  h_disk :: "string + u64"
  h_ip :: "string option"
  h_partitions :: "host_partition list"

definition usable_disk :: "host \<Rightarrow> u64 result" where
  "usable_disk h =
     map_err (\<lambda>reason. FailedPrecondition (''host '' @ h_name h @ '' has no usable disk: '' @ reason)) (h_disk h)"

definition host_partition_of :: "host \<Rightarrow> string \<Rightarrow> host_partition result" where
  "host_partition_of h uuid =
     ok_or (FailedPrecondition (''host '' @ h_name h @ '' has no partition '' @ uuid))
       (List.find (\<lambda>p. eq_ignore_case (partuuid p) uuid) (h_partitions h))"

subsection \<open>Rows\<close>

definition as_i64 :: "u64 \<Rightarrow> int" where
  "as_i64 w = sint w"

definition as_u64 :: "int \<Rightarrow> u64" where
  "as_u64 i = word_of_int i"

lemma as_u64_i64 [simp]: "as_u64 (as_i64 w) = w"
  by (simp add: as_u64_def as_i64_def)

definition into_host :: "host_row \<Rightarrow> host_partition list \<Rightarrow> host" where
  "into_host r partitions =
     (let disk = (case hr_disk_error r of Some reason \<Rightarrow> Inl reason | None \<Rightarrow> Inr (as_u64 (hr_disk_size r)))
      in \<lparr>h_id = hr_id r, h_name = hr_name r, h_mac_address = hr_mac r, h_disk = disk, h_ip = hr_ip r,
          h_partitions = partitions\<rparr>)"

definition part_of_row :: "host_part_row \<Rightarrow> host_partition" where
  "part_of_row r =
     \<lparr>hp_number = hpr_number r, partuuid = hpr_partuuid r, partlabel = hpr_partlabel r, hp_label = hpr_label r,
      hp_uuid = hpr_uuid r, hp_fstype = hpr_fstype r, hp_size_bytes = as_u64 (hpr_size r)\<rparr>"

definition load_partitions :: "db \<Rightarrow> int \<Rightarrow> host_partition list" where
  "load_partitions d hid =
     map part_of_row (sort_key hpr_number (filter (\<lambda>r. hpr_host r = hid) (host_parts d)))"

definition assemble_hosts :: "db \<Rightarrow> host_row list \<Rightarrow> host list" where
  "assemble_hosts d rows = map (\<lambda>r. into_host r (load_partitions d (hr_id r))) rows"

definition one_host :: "db \<Rightarrow> host_row \<Rightarrow> host" where
  "one_host d r = hd (assemble_hosts d [r])"

subsection \<open>Operations\<close>

text \<open>\<open>INSERT .. ON CONFLICT(mac) DO UPDATE\<close>.\<close>

definition upsert_row :: "string \<Rightarrow> string \<Rightarrow> int \<Rightarrow> string option \<Rightarrow> string option \<Rightarrow> db \<Rightarrow> db" where
  "upsert_row mac name size_bytes disk_error ip d =
     (if \<exists>r \<in> set (hosts d). hr_mac r = mac
      then d\<lparr>hosts := update_where (\<lambda>r. hr_mac r = mac)
             (\<lambda>r. r\<lparr>hr_disk_size := size_bytes, hr_disk_error := disk_error, hr_ip := ip\<rparr>) (hosts d)\<rparr>
      else d\<lparr>hosts := hosts d @ [\<lparr>hr_id = next_host d, hr_mac = mac, hr_name = name, hr_disk_size = size_bytes,
               hr_disk_error = disk_error, hr_ip = ip\<rparr>],
             next_host := next_host d + 1\<rparr>)"

text \<open>The returned \<open>ip\<close> column is declared not null in the query; how the driver reads a \<open>NULL\<close> there is
  its own affair, the parameter \<open>forced\<close>.\<close>

definition upsert_host ::
  "(string option \<Rightarrow> string option) \<Rightarrow> string \<Rightarrow> string + u64 \<Rightarrow> string option \<Rightarrow> db \<Rightarrow> (host \<times> db) result" where
  "upsert_host forced given disk ip d =
     and_then (canonical_mac given) (\<lambda>mac.
       let name = replace_all '':'' ''-'' mac;
           (size_bytes, disk_error) = (case disk of Inr s \<Rightarrow> (as_i64 s, None) | Inl reason \<Rightarrow> (0, Some reason));
           d = upsert_row mac name size_bytes disk_error ip d
       in case List.find (\<lambda>r. hr_mac r = mac) (hosts d) of
            None \<Rightarrow> Inl row_not_found
          | Some r \<Rightarrow>
              let d' = (if hr_disk_error r \<noteq> None
                        then d\<lparr>host_parts := delete_where (\<lambda>p. hpr_host p = hr_id r) (host_parts d)\<rparr>
                        else d)
              in Inr (one_host d' (r\<lparr>hr_ip := forced (hr_ip r)\<rparr>), d'))"

definition update_host_name :: "int \<Rightarrow> string \<Rightarrow> db \<Rightarrow> (host \<times> db) result" where
  "update_host_name hid name d =
     (let d' = d\<lparr>hosts := update_where (\<lambda>r. hr_id r = hid) (\<lambda>r. r\<lparr>hr_name := name\<rparr>) (hosts d)\<rparr>
      in case List.find (\<lambda>r. hr_id r = hid) (hosts d') of
           None \<Rightarrow> Inl row_not_found
         | Some r \<Rightarrow> Inr (one_host d' r, d'))"

definition get_all_hosts :: "int option \<Rightarrow> db \<Rightarrow> host list" where
  "get_all_hosts group_id d =
     assemble_hosts d (sort_key hr_name
       (case group_id of
          None \<Rightarrow> hosts d
        | Some g \<Rightarrow> concat (map (\<lambda>h. map (\<lambda>_. h)
            (filter (\<lambda>m. ghr_host m = hr_id h \<and> ghr_group m = g) (group_hosts d))) (hosts d))))"

definition delete_host :: "int \<Rightarrow> db \<Rightarrow> db" where
  "delete_host hid d =
     d\<lparr>hosts := delete_where (\<lambda>r. hr_id r = hid) (hosts d),
       host_parts := delete_where (\<lambda>r. hpr_host r = hid) (host_parts d),
       group_hosts := delete_where (\<lambda>r. ghr_host r = hid) (group_hosts d),
       task_hosts := delete_where (\<lambda>r. thr_host r = hid) (task_hosts d),
       task_inputs := delete_where (\<lambda>r. tir_host r = hid) (task_inputs d),
       script_runs := delete_where (\<lambda>r. srr_host r = hid) (script_runs d),
       outputs := delete_where (\<lambda>r. or_host r = hid) (outputs d)\<rparr>"

definition get_by_mac :: "string \<Rightarrow> db \<Rightarrow> host result" where
  "get_by_mac mac d =
     and_then (canonical_mac mac) (\<lambda>mac.
       case List.find (\<lambda>r. hr_mac r = mac) (hosts d) of
         None \<Rightarrow> Inl row_not_found
       | Some r \<Rightarrow> Inr (one_host d r))"

definition insert_host_partition :: "int \<Rightarrow> db \<Rightarrow> host_partition \<Rightarrow> db result" where
  "insert_host_partition hid d p =
     (if 2 ^ 63 \<le> unat (hp_size_bytes p)
      then Inl (InvalidArgument (''partition '' @ int_str (hp_number p) @ '' size '' @
             nat_str (unat (hp_size_bytes p)) @ '' is out of range''))
      else if (hid, hp_number p) \<in> set (map (\<lambda>r. (hpr_host r, hpr_number r)) (host_parts d))
      then Inl (unique_violation ''host_partitions.host_id, host_partitions.number'')
      else if hid \<notin> set (map hr_id (hosts d)) then Inl foreign_key_violation
      else Inr (d\<lparr>host_parts := host_parts d @
             [\<lparr>hpr_host = hid, hpr_number = hp_number p, hpr_partuuid = partuuid p, hpr_partlabel = partlabel p,
               hpr_label = hp_label p, hpr_uuid = hp_uuid p, hpr_fstype = hp_fstype p,
               hpr_size = as_i64 (hp_size_bytes p)\<rparr>]\<rparr>))"

definition set_partitions :: "int \<Rightarrow> host_partition list \<Rightarrow> db \<Rightarrow> db result" where
  "set_partitions hid partitions d =
     try_fold (insert_host_partition hid)
       (d\<lparr>host_parts := delete_where (\<lambda>r. hpr_host r = hid) (host_parts d)\<rparr>) partitions"

subsection \<open>Groups\<close>

record group =
  g_id :: int
  g_name :: string

definition insert_group_host :: "int \<Rightarrow> db \<Rightarrow> int \<Rightarrow> db result" where
  "insert_group_host gid d host_id =
     (if (gid, host_id) \<in> set (map (\<lambda>r. (ghr_group r, ghr_host r)) (group_hosts d))
      then Inl (unique_violation ''group_hosts.group_id, group_hosts.host_id'')
      else if host_id \<notin> set (map hr_id (hosts d)) then Inl foreign_key_violation
      else Inr (d\<lparr>group_hosts := group_hosts d @ [\<lparr>ghr_group = gid, ghr_host = host_id\<rparr>]\<rparr>))"

definition create_group :: "string \<Rightarrow> int list \<Rightarrow> db \<Rightarrow> (group \<times> db) result" where
  "create_group name ids d =
     (let gid = next_group d
      in and_then (try_fold (insert_group_host gid)
           (d\<lparr>groups := groups d @ [\<lparr>gr_id = gid, gr_name = name\<rparr>], next_group := gid + 1\<rparr>) ids)
         (\<lambda>d'. Inr (\<lparr>g_id = gid, g_name = name\<rparr>, d')))"

definition update_group_name :: "int \<Rightarrow> string \<Rightarrow> db \<Rightarrow> (group \<times> db) result" where
  "update_group_name gid name d =
     (let d' = d\<lparr>groups := update_where (\<lambda>r. gr_id r = gid) (\<lambda>r. r\<lparr>gr_name := name\<rparr>) (groups d)\<rparr>
      in case List.find (\<lambda>r. gr_id r = gid) (groups d') of
           None \<Rightarrow> Inl row_not_found
         | Some r \<Rightarrow> Inr (\<lparr>g_id = gid, g_name = gr_name r\<rparr>, d'))"

definition get_all_groups :: "db \<Rightarrow> group list" where
  "get_all_groups d = map (\<lambda>r. \<lparr>g_id = gr_id r, g_name = gr_name r\<rparr>) (sort_key gr_name (groups d))"

definition delete_group :: "int \<Rightarrow> db \<Rightarrow> db" where
  "delete_group gid d =
     d\<lparr>groups := delete_where (\<lambda>r. gr_id r = gid) (groups d),
       group_hosts := delete_where (\<lambda>r. ghr_group r = gid) (group_hosts d)\<rparr>"

definition update_group_members :: "int \<Rightarrow> int list \<Rightarrow> db \<Rightarrow> (group \<times> db) result" where
  "update_group_members gid ids d =
     (case List.find (\<lambda>r. gr_id r = gid) (groups d) of
        None \<Rightarrow> Inl row_not_found
      | Some r \<Rightarrow>
          and_then (try_fold (insert_group_host gid)
            (d\<lparr>group_hosts := delete_where (\<lambda>m. ghr_group m = gid) (group_hosts d)\<rparr>) ids)
          (\<lambda>d'. Inr (\<lparr>g_id = gid, g_name = gr_name r\<rparr>, d')))"

subsection \<open>Integrity\<close>

lemma image_delete_where: "f ` set (delete_where P rs) = f ` {r \<in> set rs. \<not> P r}"
  by simp

lemma delete_host_db_ok:
  assumes "db_ok d"
  shows "db_ok (delete_host h d)"
proof -
  have th: "th_key ` {r \<in> set (task_hosts d). thr_host r \<noteq> h} = {k \<in> th_key ` set (task_hosts d). snd k \<noteq> h}"
    by (auto simp: th_key_def)
  have run: "run_key ` {r \<in> set (script_runs d). srr_host r \<noteq> h} = {k \<in> run_key ` set (script_runs d). fst (snd k) \<noteq> h}"
    by (auto simp: run_key_def)
  have "unique_keys (delete_host h d)"
    using assms by (simp add: db_ok_def unique_keys_def delete_host_def distinct_map_delete_where)
  moreover have "foreign_keys (delete_host h d)"
    using assms unfolding db_ok_def foreign_keys_def delete_host_def host_ids_def
    by (simp add: th run) (auto simp: out_key_def)
  moreover have "fresh_ids (delete_host h d)"
    using assms by (simp add: db_ok_def fresh_ids_def delete_host_def)
  ultimately show ?thesis by (simp add: db_ok_def)
qed

lemma update_hosts_db_ok:
  assumes "db_ok d" and "\<And>r. hr_id (f r) = hr_id r" "\<And>r. hr_mac (f r) = hr_mac r"
  shows "db_ok (d\<lparr>hosts := update_where P f (hosts d)\<rparr>)"
  using db_ok_set_hosts [OF assms(1), of "update_where P f (hosts d)" "next_host d"]
  by (simp add: update_where_keys assms(2,3) db_okD [OF assms(1)] ball_update_where)

lemma insert_host_db_ok:
  assumes "db_ok d" and "m \<notin> hr_mac ` set (hosts d)"
  shows "db_ok (d\<lparr>hosts := hosts d @ [\<lparr>hr_id = next_host d, hr_mac = m, hr_name = n, hr_disk_size = s,
    hr_disk_error = e, hr_ip = i\<rparr>], next_host := next_host d + 1\<rparr>)"
  by (rule db_ok_set_hosts) (use assms(2) db_okD(1,2,21) [OF assms(1)] in \<open>auto intro: assms(1)\<close>)

lemma delete_parts_db_ok: "db_ok d \<Longrightarrow> db_ok (d\<lparr>host_parts := delete_where P (host_parts d)\<rparr>)"
  by (rule db_ok_set_host_parts) (simp_all add: db_okD subset_delete_where distinct_map_delete_where del: set_delete_where)

lemma upsert_row_db_ok:
  assumes "db_ok d"
  shows "db_ok (upsert_row mac name s e ip d)"
proof (cases "\<exists>r \<in> set (hosts d). hr_mac r = mac")
  case True
  then show ?thesis unfolding upsert_row_def by (simp add: update_hosts_db_ok [OF assms])
next
  case False
  then have "mac \<notin> hr_mac ` set (hosts d)" by auto
  from insert_host_db_ok [OF assms this] False show ?thesis unfolding upsert_row_def by simp
qed

text \<open>An upsert that returns, taken apart.\<close>

lemma upsert_host_Inr:
  assumes "upsert_host forced given disk ip d = Inr (h, d')"
  obtains mac s e d1 r where "canonical_mac given = Inr mac"
    "d1 = upsert_row mac (replace_all '':'' ''-'' mac) s e ip d"
    "(s, e) = (case disk of Inr s \<Rightarrow> (as_i64 s, None) | Inl reason \<Rightarrow> (0, Some reason))"
    "List.find (\<lambda>r. hr_mac r = mac) (hosts d1) = Some r"
    "d' = (if hr_disk_error r \<noteq> None
       then d1\<lparr>host_parts := delete_where (\<lambda>p. hpr_host p = hr_id r) (host_parts d1)\<rparr> else d1)"
    "h = one_host d' (r\<lparr>hr_ip := forced (hr_ip r)\<rparr>)"
proof -
  obtain mac where mac: "canonical_mac given = Inr mac"
    using assms unfolding upsert_host_def and_then_Inr by blast
  obtain s e where se: "(case disk of Inr s \<Rightarrow> (as_i64 s, None) | Inl reason \<Rightarrow> (0, Some reason)) = (s, e)"
    by (cases "case disk of Inr s \<Rightarrow> (as_i64 s, None) | Inl reason \<Rightarrow> (0, Some reason)")
  define d1 where "d1 = upsert_row mac (replace_all '':'' ''-'' mac) s e ip d"
  note eq = assms [unfolded upsert_host_def mac and_then.simps Let_def se prod.case, folded d1_def]
  show ?thesis
  proof (cases "List.find (\<lambda>r. hr_mac r = mac) (hosts d1)")
    case None
    with eq show ?thesis by simp
  next
    case (Some r)
    show ?thesis
      by (rule that [OF mac d1_def se [symmetric] Some]) (use eq Some in auto)
  qed
qed

lemma upsert_host_db_ok: "db_ok d \<Longrightarrow> upsert_host forced given disk ip d = Inr (h, d') \<Longrightarrow> db_ok d'"
  by (erule upsert_host_Inr) (simp add: upsert_row_db_ok delete_parts_db_ok)

lemma insert_host_partition_Inr:
  "insert_host_partition h d p = Inr d' \<longleftrightarrow>
   unat (hp_size_bytes p) < 2 ^ 63 \<and> (\<forall>r \<in> set (host_parts d). hpr_host r = h \<longrightarrow> hpr_number r \<noteq> hp_number p) \<and>
   h \<in> host_ids d \<and>
   d' = d\<lparr>host_parts := host_parts d @
     [\<lparr>hpr_host = h, hpr_number = hp_number p, hpr_partuuid = partuuid p, hpr_partlabel = partlabel p,
       hpr_label = hp_label p, hpr_uuid = hp_uuid p, hpr_fstype = hp_fstype p, hpr_size = as_i64 (hp_size_bytes p)\<rparr>]\<rparr>"
  by (auto simp: insert_host_partition_def host_ids_def image_iff)

lemma insert_host_partition_db_ok:
  assumes "db_ok d" and "insert_host_partition h d p = Inr d'"
  shows "db_ok d'"
proof -
  obtain row where row: "d' = d\<lparr>host_parts := host_parts d @ [row]\<rparr>" "hpr_host row = h" "h \<in> host_ids d"
    "\<forall>r \<in> set (host_parts d). hpr_host r = h \<longrightarrow> hpr_number r \<noteq> hpr_number row"
    using assms(2) unfolding insert_host_partition_Inr by auto
  show ?thesis
    unfolding row(1)
    by (rule db_ok_set_host_parts [OF assms(1)]) (use row db_okD(3,14) [OF assms(1)] in auto)
qed

lemma set_partitions_db_ok: "db_ok d \<Longrightarrow> set_partitions h ps d = Inr d' \<Longrightarrow> db_ok d'"
  unfolding set_partitions_def
  by (erule try_fold_inv [where P = db_ok]) (auto intro: delete_parts_db_ok insert_host_partition_db_ok)

lemma insert_group_host_Inr:
  "insert_group_host g d h = Inr d' \<longleftrightarrow>
   \<lparr>ghr_group = g, ghr_host = h\<rparr> \<notin> set (group_hosts d) \<and> h \<in> host_ids d \<and>
   d' = d\<lparr>group_hosts := group_hosts d @ [\<lparr>ghr_group = g, ghr_host = h\<rparr>]\<rparr>"
proof -
  have eq: "\<lparr>ghr_group = ghr_group r, ghr_host = ghr_host r\<rparr> = r" for r :: group_host_row
    by simp
  have "(g, h) \<in> set (map (\<lambda>r. (ghr_group r, ghr_host r)) (group_hosts d)) \<longleftrightarrow>
      \<lparr>ghr_group = g, ghr_host = h\<rparr> \<in> set (group_hosts d)"
    by (auto simp: image_iff eq intro!: bexI [of _ "\<lparr>ghr_group = g, ghr_host = h\<rparr>"])
  then show ?thesis by (auto simp: insert_group_host_def host_ids_def)
qed

lemma insert_group_hosts:
  "try_fold (insert_group_host g) d hs = Inr d' \<longleftrightarrow>
   distinct hs \<and> (\<forall>h \<in> set hs. \<lparr>ghr_group = g, ghr_host = h\<rparr> \<notin> set (group_hosts d)) \<and> set hs \<subseteq> host_ids d \<and>
   d' = d\<lparr>group_hosts := group_hosts d @ map (\<lambda>h. \<lparr>ghr_group = g, ghr_host = h\<rparr>) hs\<rparr>"
proof (induction hs arbitrary: d)
  case (Cons h hs)
  let ?d = "d\<lparr>group_hosts := group_hosts d @ [\<lparr>ghr_group = g, ghr_host = h\<rparr>]\<rparr>"
  have "host_ids ?d = host_ids d" by (simp add: host_ids_def)
  moreover have "try_fold (insert_group_host g) d (h # hs) = Inr d' \<longleftrightarrow>
      \<lparr>ghr_group = g, ghr_host = h\<rparr> \<notin> set (group_hosts d) \<and> h \<in> host_ids d \<and>
      try_fold (insert_group_host g) ?d hs = Inr d'"
    by (simp add: result_simps insert_group_host_Inr)
  ultimately show ?case using Cons.IH [of ?d] by auto
qed auto

lemma insert_group_hosts_db_ok:
  assumes "db_ok d" and "g \<in> gr_id ` set (groups d)" and "try_fold (insert_group_host g) d hs = Inr d'"
  shows "db_ok d'"
proof -
  let ?rows = "group_hosts d @ map (\<lambda>h. \<lparr>ghr_group = g, ghr_host = h\<rparr>) hs"
  have f: "distinct hs" "\<forall>h \<in> set hs. \<lparr>ghr_group = g, ghr_host = h\<rparr> \<notin> set (group_hosts d)" "set hs \<subseteq> host_ids d"
    "d' = d\<lparr>group_hosts := ?rows\<rparr>"
    using assms(3) unfolding insert_group_hosts by blast+
  have "distinct ?rows"
    using f db_okD(5) [OF assms(1)] by (auto simp: distinct_map inj_on_def)
  moreover have "inj_on (\<lambda>r. (ghr_group r, ghr_host r)) (set ?rows)"
    by (rule inj_onI) (metis group_host_row.surjective old.unit.exhaust prod.inject)
  ultimately have "distinct (map (\<lambda>r. (ghr_group r, ghr_host r)) ?rows)" unfolding distinct_map by blast
  then show ?thesis
    unfolding f(4) by (rule db_ok_set_group_hosts [OF assms(1)]) (use f assms(2) db_okD(15,16) [OF assms(1)] in auto)
qed

lemma create_group_db_ok:
  assumes "db_ok d" and "create_group name hs d = Inr (g, d')"
  shows "db_ok d'"
proof -
  let ?d = "d\<lparr>groups := groups d @ [\<lparr>gr_id = next_group d, gr_name = name\<rparr>], next_group := next_group d + 1\<rparr>"
  have "db_ok ?d"
    by (rule db_ok_set_groups [OF assms(1)]) (use db_okD(4,22) [OF assms(1)] in auto)
  moreover have "try_fold (insert_group_host (next_group d)) ?d hs = Inr d'"
    using assms(2) by (auto simp: create_group_def Let_def result_simps)
  ultimately show ?thesis using insert_group_hosts_db_ok by force
qed

lemma update_group_name_db_ok:
  assumes "db_ok d" and "update_group_name gid name d = Inr (g, d')"
  shows "db_ok d'"
proof -
  have d': "d' = d\<lparr>groups := update_where (\<lambda>r. gr_id r = gid) (\<lambda>r. r\<lparr>gr_name := name\<rparr>) (groups d)\<rparr>"
    using assms(2) by (auto simp: update_group_name_def Let_def split: option.splits)
  let ?rows = "update_where (\<lambda>r. gr_id r = gid) (\<lambda>r. r\<lparr>gr_name := name\<rparr>) (groups d)"
  have "\<forall>r \<in> set ?rows. gr_id r < next_group d"
    using db_okD(22) [OF assms(1)] by (auto simp: update_where_def)
  then show ?thesis
    unfolding d' using db_ok_set_groups [OF assms(1), of ?rows "next_group d"]
    by (simp add: update_where_keys db_okD [OF assms(1)])
qed

lemma delete_group_db_ok:
  assumes "db_ok d"
  shows "db_ok (delete_group g d)"
proof -
  have "gr_id ` {r \<in> set (groups d). gr_id r \<noteq> g} = gr_id ` set (groups d) - {g}" by auto
  then show ?thesis
    using assms unfolding delete_group_def db_ok_def unique_keys_def foreign_keys_def fresh_ids_def host_ids_def
    by (simp add: distinct_map_delete_where) 
qed

lemma update_group_members_db_ok:
  assumes "db_ok d" and "update_group_members gid hs d = Inr (g, d')"
  shows "db_ok d'"
proof -
  let ?d = "d\<lparr>group_hosts := delete_where (\<lambda>m. ghr_group m = gid) (group_hosts d)\<rparr>"
  obtain r where r: "List.find (\<lambda>r. gr_id r = gid) (groups d) = Some r"
    and f: "try_fold (insert_group_host gid) ?d hs = Inr d'"
    using assms(2) by (auto simp: update_group_members_def result_simps split: option.splits)
  have "db_ok ?d"
    by (rule db_ok_set_group_hosts [OF assms(1)])
       (simp_all add: db_okD [OF assms(1)] subset_delete_where distinct_map_delete_where del: set_delete_where)
  moreover have "gid \<in> gr_id ` set (groups ?d)" using find_member [OF r] by auto
  ultimately show ?thesis using insert_group_hosts_db_ok f by blast
qed

lemma update_host_name_db_ok:
  assumes "db_ok d" and "update_host_name hid name d = Inr (h, d')"
  shows "db_ok d'"
  using assms(2) update_hosts_db_ok [OF assms(1)]
  by (auto simp: update_host_name_def Let_def split: option.splits)

subsection \<open>Properties\<close>

lemma find_update_mac:
  "(\<And>r. hr_mac (f r) = hr_mac r) \<Longrightarrow>
   List.find (\<lambda>r. hr_mac r = m) (update_where P f rs) =
   map_option (\<lambda>r. if P r then f r else r) (List.find (\<lambda>r. hr_mac r = m) rs)"
  by (induction rs) auto

lemma find_upsert_row:
  "List.find (\<lambda>r. hr_mac r = m) (hosts (upsert_row mac name s e ip d)) =
   (if m = mac
    then Some (case List.find (\<lambda>r. hr_mac r = mac) (hosts d) of
        Some r \<Rightarrow> r\<lparr>hr_disk_size := s, hr_disk_error := e, hr_ip := ip\<rparr>
      | None \<Rightarrow> \<lparr>hr_id = next_host d, hr_mac = mac, hr_name = name, hr_disk_size = s, hr_disk_error = e, hr_ip = ip\<rparr>)
    else List.find (\<lambda>r. hr_mac r = m) (hosts d))"
proof (cases "List.find (\<lambda>r. hr_mac r = mac) (hosts d)")
  case None
  then have no: "\<not> (\<exists>r \<in> set (hosts d). hr_mac r = mac)" unfolding find_None_iff by blast
  have hosts: "hosts (upsert_row mac name s e ip d) = hosts d @
      [\<lparr>hr_id = next_host d, hr_mac = mac, hr_name = name, hr_disk_size = s, hr_disk_error = e, hr_ip = ip\<rparr>]"
    unfolding upsert_row_def if_not_P [OF no] by simp
  show ?thesis
    unfolding hosts find_append using None
    by (cases "List.find (\<lambda>r. hr_mac r = m) (hosts d)") auto
next
  case (Some r)
  have yes: "\<exists>r \<in> set (hosts d). hr_mac r = mac" using find_member [OF Some] by blast
  show ?thesis
  proof (cases "m = mac")
    case True
    then show ?thesis
      using Some yes find_member [OF Some] by (simp add: upsert_row_def find_update_mac)
  next
    case False
    then have "(\<lambda>x. if hr_mac x = mac then x\<lparr>hr_disk_size := s, hr_disk_error := e, hr_ip := ip\<rparr> else x) x = x"
      if "List.find (\<lambda>r. hr_mac r = m) (hosts d) = Some x" for x
      using find_member [OF that] by simp
    then show ?thesis
      using yes False by (cases "List.find (\<lambda>r. hr_mac r = m) (hosts d)") (simp_all add: upsert_row_def find_update_mac)
  qed
qed

lemma upsert_row_parts [simp]: "host_parts (upsert_row mac name s e ip d) = host_parts d"
  by (simp add: upsert_row_def)

text \<open>a host that reports itself keeps its id and name if its address is known in any spelling and gets a
  fresh id otherwise; what it reports is what is read back, a disk error as much as a size of 64 bits;
  a disk error forgets its partitions, and no other host changes.\<close>

theorem upsert_host_correct:
  assumes "db_ok d" and "upsert_host forced given disk ip d = Inr (h, d')"
  shows "\<exists>mac. canonical_mac given = Inr mac \<and> h_mac_address h = mac \<and> h_disk h = disk \<and>
    (case List.find (\<lambda>r. hr_mac r = mac) (hosts d) of
       Some r \<Rightarrow> h_id h = hr_id r \<and> h_name h = hr_name r
     | None \<Rightarrow> h_id h = next_host d \<and> h_name h = replace_all '':'' ''-'' mac) \<and>
    h_partitions h = (case disk of Inl _ \<Rightarrow> [] | Inr _ \<Rightarrow> load_partitions d (h_id h)) \<and>
    get_by_mac given d' = Inr (h\<lparr>h_ip := ip\<rparr>) \<and>
    (\<forall>m. m \<noteq> mac \<longrightarrow> List.find (\<lambda>r. hr_mac r = m) (hosts d') = List.find (\<lambda>r. hr_mac r = m) (hosts d))"
  using assms(2)
proof (rule upsert_host_Inr)
  fix mac s e d1 r
  assume mac: "canonical_mac given = Inr mac"
    and d1: "d1 = upsert_row mac (replace_all '':'' ''-'' mac) s e ip d"
    and se: "(s, e) = (case disk of Inr s \<Rightarrow> (as_i64 s, None) | Inl reason \<Rightarrow> (0, Some reason))"
    and r: "List.find (\<lambda>r. hr_mac r = mac) (hosts d1) = Some r"
    and d': "d' = (if hr_disk_error r \<noteq> None
       then d1\<lparr>host_parts := delete_where (\<lambda>p. hpr_host p = hr_id r) (host_parts d1)\<rparr> else d1)"
    and h: "h = one_host d' (r\<lparr>hr_ip := forced (hr_ip r)\<rparr>)"
  have hosts: "hosts d' = hosts d1" by (simp add: d')
  have row: "hr_mac r = mac" "hr_disk_size r = s" "hr_disk_error r = e" "hr_ip r = ip"
    "case List.find (\<lambda>r. hr_mac r = mac) (hosts d) of
       Some x \<Rightarrow> hr_id r = hr_id x \<and> hr_name r = hr_name x
     | None \<Rightarrow> hr_id r = next_host d \<and> hr_name r = replace_all '':'' ''-'' mac"
    using r by (auto simp: d1 find_upsert_row dest: find_member split: option.splits)
  have parts: "load_partitions d' (hr_id r) = (case disk of Inl _ \<Rightarrow> [] | Inr _ \<Rightarrow> load_partitions d (hr_id r))"
    using se row(3) by (auto simp: d' d1 load_partitions_def delete_where_def split: sum.splits)
  have disk: "(case e of Some reason \<Rightarrow> Inl reason | None \<Rightarrow> Inr (as_u64 s)) = disk"
    using se by (cases disk) auto
  have host: "h_mac_address h = mac" "h_disk h = disk" "h_id h = hr_id r" "h_name h = hr_name r"
    "h_partitions h = load_partitions d' (hr_id r)"
    by (simp_all add: h one_host_def assemble_hosts_def into_host_def Let_def row disk cong: option.case_cong)
  have "get_by_mac given d' = Inr (one_host d' r)"
    using r by (simp add: get_by_mac_def mac hosts)
  moreover have "one_host d' r = h\<lparr>h_ip := ip\<rparr>"
    by (simp add: h one_host_def assemble_hosts_def into_host_def Let_def row cong: option.case_cong)
  moreover have "\<forall>m. m \<noteq> mac \<longrightarrow> List.find (\<lambda>r. hr_mac r = m) (hosts d') = List.find (\<lambda>r. hr_mac r = m) (hosts d)"
    by (simp add: hosts d1 find_upsert_row)
  ultimately show ?thesis
    using mac host parts row(5) by (intro exI [of _ mac]) (auto split: option.splits sum.splits)
qed

theorem upsert_host_correct_witness:
  "\<exists>h d'. upsert_host (\<lambda>x. x) ''AA:BB:CC:00:11:22'' (Inr 5000) None empty_db = Inr (h, d') \<and> h_disk h = Inr 5000"
proof -
  have mac: "canonical_mac ''AA:BB:CC:00:11:22'' = Inr ''aa:bb:cc:00:11:22''" by code_simp
  obtain h d' where "upsert_host (\<lambda>x. x) ''AA:BB:CC:00:11:22'' (Inr 5000) None empty_db = Inr (h, d')"
    by (simp add: upsert_host_def mac upsert_row_def empty_db_def Let_def)
  with upsert_host_correct [OF empty_db_ok this] show ?thesis by blast
qed

lemma insert_host_partitions:
  "try_fold (insert_host_partition h) d ps = Inr d' \<longleftrightarrow>
   (\<forall>p \<in> set ps. unat (hp_size_bytes p) < 2 ^ 63) \<and> distinct (map hp_number ps) \<and>
   (\<forall>p \<in> set ps. \<forall>r \<in> set (host_parts d). hpr_host r = h \<longrightarrow> hpr_number r \<noteq> hp_number p) \<and>
   (ps = [] \<or> h \<in> host_ids d) \<and>
   d' = d\<lparr>host_parts := host_parts d @ map (\<lambda>p. \<lparr>hpr_host = h, hpr_number = hp_number p, hpr_partuuid = partuuid p,
     hpr_partlabel = partlabel p, hpr_label = hp_label p, hpr_uuid = hp_uuid p, hpr_fstype = hp_fstype p,
     hpr_size = as_i64 (hp_size_bytes p)\<rparr>) ps\<rparr>"
proof (induction ps arbitrary: d)
  case (Cons p ps)
  let ?row = "\<lparr>hpr_host = h, hpr_number = hp_number p, hpr_partuuid = partuuid p, hpr_partlabel = partlabel p,
     hpr_label = hp_label p, hpr_uuid = hp_uuid p, hpr_fstype = hp_fstype p, hpr_size = as_i64 (hp_size_bytes p)\<rparr>"
  let ?d = "d\<lparr>host_parts := host_parts d @ [?row]\<rparr>"
  have ids: "host_ids ?d = host_ids d" by (simp add: host_ids_def)
  have "try_fold (insert_host_partition h) d (p # ps) = Inr d' \<longleftrightarrow>
      unat (hp_size_bytes p) < 2 ^ 63 \<and> (\<forall>r \<in> set (host_parts d). hpr_host r = h \<longrightarrow> hpr_number r \<noteq> hp_number p) \<and>
      h \<in> host_ids d \<and> try_fold (insert_host_partition h) ?d ps = Inr d'"
    unfolding try_fold.simps and_then_Inr insert_host_partition_Inr by blast
  also have "\<dots> \<longleftrightarrow> unat (hp_size_bytes p) < 2 ^ 63 \<and>
      (\<forall>r \<in> set (host_parts d). hpr_host r = h \<longrightarrow> hpr_number r \<noteq> hp_number p) \<and> h \<in> host_ids d \<and>
      (\<forall>p \<in> set ps. unat (hp_size_bytes p) < 2 ^ 63) \<and> distinct (map hp_number ps) \<and>
      (\<forall>q \<in> set ps. \<forall>r \<in> set (host_parts d @ [?row]). hpr_host r = h \<longrightarrow> hpr_number r \<noteq> hp_number q) \<and>
      d' = ?d\<lparr>host_parts := host_parts ?d @ map (\<lambda>p. \<lparr>hpr_host = h, hpr_number = hp_number p, hpr_partuuid = partuuid p,
        hpr_partlabel = partlabel p, hpr_label = hp_label p, hpr_uuid = hp_uuid p, hpr_fstype = hp_fstype p,
        hpr_size = as_i64 (hp_size_bytes p)\<rparr>) ps\<rparr>"
    unfolding Cons.IH [of ?d] ids by (simp, blast)
  also have "(\<forall>q \<in> set ps. \<forall>r \<in> set (host_parts d @ [?row]). hpr_host r = h \<longrightarrow> hpr_number r \<noteq> hp_number q) \<longleftrightarrow>
      hp_number p \<notin> hp_number ` set ps \<and>
      (\<forall>q \<in> set ps. \<forall>r \<in> set (host_parts d). hpr_host r = h \<longrightarrow> hpr_number r \<noteq> hp_number q)"
    by (auto simp: image_iff)
  finally show ?case by (simp, blast)
qed auto

lemma sort_key_map: "sort_key f (map g xs) = map g (sort_key (\<lambda>x. f (g x)) xs)"
proof -
  have "map g (insort_key (\<lambda>x. f (g x)) x ys) = insort_key f (g x) (map g ys)" for x ys
    by (induction ys) auto
  then show ?thesis by (induction xs) simp_all
qed

text \<open>the partitions a host reports replace the stored ones as a whole or not at all: they are accepted
  exactly when their numbers differ, every size fits a signed 64-bit column and the host exists, and then
  they are read back as reported, ordered by number, while every other host keeps its own.\<close>

theorem set_partitions_correct:
  shows "((\<exists>d'. set_partitions h ps d = Inr d') \<longleftrightarrow>
      distinct (map hp_number ps) \<and> (\<forall>p \<in> set ps. unat (hp_size_bytes p) < 2 ^ 63) \<and> (ps = [] \<or> h \<in> host_ids d)) \<and>
    (\<forall>d'. set_partitions h ps d = Inr d' \<longrightarrow>
      load_partitions d' h = sort_key hp_number ps \<and>
      (\<forall>k. k \<noteq> h \<longrightarrow> load_partitions d' k = load_partitions d k))"
proof -
  let ?d = "d\<lparr>host_parts := delete_where (\<lambda>r. hpr_host r = h) (host_parts d)\<rparr>"
  have ids: "host_ids ?d = host_ids d" by (simp add: host_ids_def)
  have iff: "set_partitions h ps d = Inr d' \<longleftrightarrow>
      (\<forall>p \<in> set ps. unat (hp_size_bytes p) < 2 ^ 63) \<and> distinct (map hp_number ps) \<and> (ps = [] \<or> h \<in> host_ids d) \<and>
      d' = ?d\<lparr>host_parts := host_parts ?d @ map (\<lambda>p. \<lparr>hpr_host = h, hpr_number = hp_number p, hpr_partuuid = partuuid p,
        hpr_partlabel = partlabel p, hpr_label = hp_label p, hpr_uuid = hp_uuid p, hpr_fstype = hp_fstype p,
        hpr_size = as_i64 (hp_size_bytes p)\<rparr>) ps\<rparr>" for d'
    unfolding set_partitions_def insert_host_partitions ids by auto
  have "load_partitions d' h = sort_key hp_number ps \<and> (\<forall>k. k \<noteq> h \<longrightarrow> load_partitions d' k = load_partitions d k)"
    if "set_partitions h ps d = Inr d'" for d'
  proof -
    have d': "d' = ?d\<lparr>host_parts := host_parts ?d @ map (\<lambda>p. \<lparr>hpr_host = h, hpr_number = hp_number p, hpr_partuuid = partuuid p,
        hpr_partlabel = partlabel p, hpr_label = hp_label p, hpr_uuid = hp_uuid p, hpr_fstype = hp_fstype p,
        hpr_size = as_i64 (hp_size_bytes p)\<rparr>) ps\<rparr>"
      using that unfolding iff by blast
    have eq: "\<lparr>hp_number = hp_number x, partuuid = partuuid x, partlabel = partlabel x, hp_label = hp_label x,
        hp_uuid = hp_uuid x, hp_fstype = hp_fstype x, hp_size_bytes = hp_size_bytes x\<rparr> = x" for x :: host_partition
      by simp
    have own: "load_partitions d' h = sort_key hp_number ps"
      by (simp add: eq d' load_partitions_def delete_where_def sort_key_map part_of_row_def filter_map o_def)
    have "load_partitions d' k = load_partitions d k" if "k \<noteq> h" for k
    proof -
      have "filter (\<lambda>r. hpr_host r = k) (host_parts d') = filter (\<lambda>r. hpr_host r = k) (host_parts d)"
        using that by (auto simp: d' delete_where_def filter_map o_def intro!: filter_cong)
      then show ?thesis by (simp add: load_partitions_def)
    qed
    with own show ?thesis by blast
  qed
  then show ?thesis using iff by blast
qed

theorem set_partitions_correct_witness:
  "set_partitions 1 [] empty_db = Inr (empty_db\<lparr>host_parts := []\<rparr>) \<and> load_partitions empty_db 1 = []"
proof -
  have "set_partitions 1 [] empty_db = Inr (empty_db\<lparr>host_parts := []\<rparr>)"
    by (simp add: set_partitions_def empty_db_def delete_where_def)
  moreover from set_partitions_correct [of 1 "[]" empty_db] this
  have "load_partitions (empty_db\<lparr>host_parts := []\<rparr>) 1 = []" by auto
  ultimately show ?thesis by (simp add: empty_db_def)
qed

lemma get_all_hosts_ids:
  "set (map h_id (get_all_hosts (Some g) d)) =
   {h \<in> host_ids d. \<lparr>ghr_group = g, ghr_host = h\<rparr> \<in> set (group_hosts d)}"
proof -
  have i: "h_id (into_host r ps) = hr_id r" for r ps by (simp add: into_host_def Let_def)
  have m: "(\<exists>r \<in> set (group_hosts d). ghr_host r = h \<and> ghr_group r = g) \<longleftrightarrow>
      \<lparr>ghr_group = g, ghr_host = h\<rparr> \<in> set (group_hosts d)" for h
  proof
    assume "\<exists>r \<in> set (group_hosts d). ghr_host r = h \<and> ghr_group r = g"
    then obtain r where r: "r \<in> set (group_hosts d)" "ghr_host r = h" "ghr_group r = g" by blast
    from r(2,3) have "r = \<lparr>ghr_group = g, ghr_host = h\<rparr>" by (cases r) simp
    with r(1) show "\<lparr>ghr_group = g, ghr_host = h\<rparr> \<in> set (group_hosts d)" by blast
  qed force
  have "set (map h_id (get_all_hosts (Some g) d)) =
      hr_id ` {h \<in> set (hosts d). \<exists>r \<in> set (group_hosts d). ghr_host r = hr_id h \<and> ghr_group r = g}"
    by (simp add: i get_all_hosts_def assemble_hosts_def image_image) (force simp: image_iff)
  then show ?thesis unfolding m host_ids_def by auto
qed

lemma get_all_hosts_cong:
  assumes "hosts d' = hosts d" "host_parts d' = host_parts d"
    and "filter (\<lambda>m. ghr_group m = k) (group_hosts d') = filter (\<lambda>m. ghr_group m = k) (group_hosts d)"
  shows "get_all_hosts (Some k) d' = get_all_hosts (Some k) d"
proof -
  have "filter (\<lambda>m. ghr_host m = h \<and> ghr_group m = k) (group_hosts d') =
      filter (\<lambda>m. ghr_host m = h \<and> ghr_group m = k) (group_hosts d)" for h
    using arg_cong [OF assms(3), of "filter (\<lambda>m. ghr_host m = h)"] by (simp add: conj_commute)
  then show ?thesis using assms(1,2) by (simp add: get_all_hosts_def assemble_hosts_def load_partitions_def)
qed

text \<open>Changing the members of a group replaces them as a whole or not at all: it succeeds exactly when
  the group exists and the hosts are distinct and known; then listing the group's hosts yields exactly
  them, and the members of every other group stay.\<close>

theorem update_group_members_correct:
  shows "((\<exists>r. update_group_members g hs d = Inr r) \<longleftrightarrow>
      g \<in> gr_id ` set (groups d) \<and> distinct hs \<and> set hs \<subseteq> host_ids d) \<and>
    (\<forall>x d'. update_group_members g hs d = Inr (x, d') \<longrightarrow>
      set (map h_id (get_all_hosts (Some g) d')) = set hs \<and>
      (\<forall>k. k \<noteq> g \<longrightarrow> get_all_hosts (Some k) d' = get_all_hosts (Some k) d))"
proof -
  let ?d = "d\<lparr>group_hosts := delete_where (\<lambda>m. ghr_group m = g) (group_hosts d)\<rparr>"
  have ids: "host_ids ?d = host_ids d" by (simp add: host_ids_def)
  have fold: "try_fold (insert_group_host g) ?d hs = Inr d' \<longleftrightarrow> distinct hs \<and> set hs \<subseteq> host_ids d \<and>
      d' = ?d\<lparr>group_hosts := group_hosts ?d @ map (\<lambda>h. \<lparr>ghr_group = g, ghr_host = h\<rparr>) hs\<rparr>" for d'
    unfolding insert_group_hosts ids by auto
  have found: "(\<exists>r. List.find (\<lambda>r. gr_id r = g) (groups d) = Some r) \<longleftrightarrow> g \<in> gr_id ` set (groups d)"
    by (cases "List.find (\<lambda>r. gr_id r = g) (groups d)") (auto simp: find_None_iff dest!: find_member)
  have iff: "(\<exists>r. update_group_members g hs d = Inr r) \<longleftrightarrow>
      (\<exists>r. List.find (\<lambda>r. gr_id r = g) (groups d) = Some r) \<and> (\<exists>d'. try_fold (insert_group_host g) ?d hs = Inr d')"
    by (cases "List.find (\<lambda>r. gr_id r = g) (groups d)") (simp_all add: update_group_members_def and_then_Inr)
  have "set (map h_id (get_all_hosts (Some g) d')) = set hs \<and>
      (\<forall>k. k \<noteq> g \<longrightarrow> get_all_hosts (Some k) d' = get_all_hosts (Some k) d)"
    if u: "update_group_members g hs d = Inr (x, d')" for x d'
  proof -
    have "try_fold (insert_group_host g) ?d hs = Inr d'"
      using u by (cases "List.find (\<lambda>r. gr_id r = g) (groups d)") (simp_all add: update_group_members_def and_then_Inr)
    then have d': "set hs \<subseteq> host_ids d" "d' = ?d\<lparr>group_hosts := group_hosts ?d @ map (\<lambda>h. \<lparr>ghr_group = g, ghr_host = h\<rparr>) hs\<rparr>"
      unfolding fold by blast+
    have "host_ids d' = host_ids d" by (simp add: d'(2) host_ids_def)
    then have "set (map h_id (get_all_hosts (Some g) d')) = set hs"
      unfolding get_all_hosts_ids using d' by auto
    moreover have "get_all_hosts (Some k) d' = get_all_hosts (Some k) d" if "k \<noteq> g" for k
      by (rule get_all_hosts_cong)
         (use that in \<open>auto simp: d'(2) delete_where_def filter_map o_def filter_empty_conv intro!: filter_cong\<close>)
    ultimately show ?thesis by blast
  qed
  then show ?thesis using iff fold found by blast
qed

theorem update_group_members_correct_witness:
  "\<exists>r. update_group_members 1 [] (empty_db\<lparr>groups := [\<lparr>gr_id = 1, gr_name = ''lab''\<rparr>]\<rparr>) = Inr r"
  using update_group_members_correct [of 1 "[]" "empty_db\<lparr>groups := [\<lparr>gr_id = 1, gr_name = ''lab''\<rparr>]\<rparr>"] by simp

end
