(* ===== verification/Image_Repo.thy ===== *)
theory Image_Repo
  imports Host_Repo "HOL-Library.Product_Lexorder" "HOL-Library.Multiset"
begin

text \<open>
  \<open>crates/core/src/domain/image.rs\<close> and its repository \<open>crates/core/src/repository/image.rs\<close>: creating,
  capturing, importing, listing and deleting images. A deleted image keeps its row as a tombstone. An
  operation that the code runs in one transaction or that changes nothing on error returns
  \<open>('a \<times> db) result\<close>; \<open>update_image_name\<close>, which converts the row after it was written, returns the
  result beside the new database.
\<close>

record image =
  i_id :: int
  i_name :: string
  i_kind :: image_kind
  i_captured_at :: "time option"
  i_status :: image_status
  i_error :: "string option"
  i_partitions :: "image_partition list"
  i_root_partition :: "int option"
  i_sector_size :: u32

record new_image_partition =
  np_number :: int
  np_fstype :: string
  np_size_bytes :: u64
  np_fs_uuid :: "string option"
  np_fs_label :: "string option"

subsection \<open>Rows\<close>

definition sector_size :: "int \<Rightarrow> u32 result" where
  "sector_size v =
     (if 0 \<le> v \<and> v < 2 ^ 32 then Inr (word_of_int v)
      else Inl (Internal (''stored sector size '' @ int_str v @ '' is out of range'')))"

text \<open>The derived \<open>FromStr\<close> of the two enums comes from \<open>derive_more\<close>: the parameter \<open>from_str\<close>.\<close>

definition image_status_of :: "(string \<Rightarrow> image_status option) \<Rightarrow> string \<Rightarrow> image_status result" where
  "image_status_of from_str v = ok_or (Internal ''conversion error'') (from_str v)"

definition image_kind_of :: "(string \<Rightarrow> image_kind option) \<Rightarrow> string \<Rightarrow> image_kind result" where
  "image_kind_of from_str v = ok_or (Internal ''conversion error'') (from_str v)"

definition image_partition_of_row :: "image_part_row \<Rightarrow> image_partition" where
  "image_partition_of_row p =
     \<lparr>ip_id = ipr_id p, partition_number = ipr_number p, ip_fstype = ipr_fstype p,
      ip_size_bytes = as_u64 (ipr_size p), ip_fs_uuid = ipr_uuid p, ip_fs_label = ipr_label p\<rparr>"

definition get_partitions :: "db \<Rightarrow> int \<Rightarrow> image_partition list" where
  "get_partitions d i =
     map image_partition_of_row (sort_key ipr_number (filter (\<lambda>p. ipr_image p = i) (image_parts d)))"

definition image_of_row :: "image_row \<Rightarrow> image_partition list \<Rightarrow> image result" where
  "image_of_row r partitions =
     and_then (sector_size (ir_sector r)) (\<lambda>s. Inr
       \<lparr>i_id = ir_id r, i_name = ir_name r, i_kind = ir_kind r, i_captured_at = ir_captured_at r,
        i_status = ir_status r, i_error = ir_error r, i_partitions = partitions,
        i_root_partition = ir_root r, i_sector_size = s\<rparr>)"

definition get_image :: "db \<Rightarrow> int \<Rightarrow> image result" where
  "get_image d i =
     (case List.find (\<lambda>r. ir_id r = i \<and> ir_deleted_at r = None) (images d) of
        None \<Rightarrow> Inl row_not_found
      | Some r \<Rightarrow> image_of_row r (get_partitions d i))"

definition get_status :: "db \<Rightarrow> int \<Rightarrow> image_status result" where
  "get_status d i =
     (case List.find (\<lambda>r. ir_id r = i) (images d) of None \<Rightarrow> Inl row_not_found | Some r \<Rightarrow> Inr (ir_status r))"

subsection \<open>Listing\<close>

text \<open>The left join: an image without partitions keeps one row.\<close>

definition left_join :: "image_row \<Rightarrow> image_part_row list \<Rightarrow> (image_row \<times> image_part_row option) list" where
  "left_join i ps = (if ps = [] then [(i, None)] else map (\<lambda>p. (i, Some p)) ps)"

definition image_rows :: "db \<Rightarrow> (image_row \<times> image_part_row option) list" where
  "image_rows d =
     sort_key (\<lambda>(i, p). (ir_id i, case p of None \<Rightarrow> 0 | Some p \<Rightarrow> ipr_number p))
       (concat (map (\<lambda>i. left_join i (filter (\<lambda>p. ipr_image p = ir_id i) (image_parts d)))
          (filter (\<lambda>i. ir_deleted_at i = None) (images d))))"

text \<open>The loop over the rows: the images seen so far by id, and the ids in order.\<close>

definition collect_row ::
  "(int \<Rightarrow> image option) \<times> int list \<Rightarrow> image_row \<times> image_part_row option \<Rightarrow>
   ((int \<Rightarrow> image option) \<times> int list) result" where
  "collect_row s row =
     (let (m, ids) = s; (r, part) = row in
      and_then (case m (ir_id r) of
          Some entry \<Rightarrow> Inr (entry, ids)
        | None \<Rightarrow> and_then (image_of_row r []) (\<lambda>image. Inr (image, ids @ [ir_id r])))
        (\<lambda>(entry, ids).
          let entry = (case part of
              None \<Rightarrow> entry
            | Some p \<Rightarrow> entry\<lparr>i_partitions := i_partitions entry @ [image_partition_of_row p]\<rparr>)
          in Inr (m(ir_id r \<mapsto> entry), ids)))"

definition get_all_images :: "db \<Rightarrow> image list result" where
  "get_all_images d =
     and_then (try_fold collect_row (Map.empty, []) (image_rows d))
       (\<lambda>(m, ids). Inr (List.map_filter m ids))"

subsection \<open>Creating and renaming\<close>

definition insert_image :: "string \<Rightarrow> image_kind \<Rightarrow> image_status \<Rightarrow> db \<Rightarrow> (image \<times> db) result" where
  "insert_image name kind status d =
     (let r = \<lparr>ir_id = next_image d, ir_name = name, ir_kind = kind, ir_captured_at = None, ir_status = status,
               ir_error = None, ir_deleted_at = None, ir_root = None, ir_sector = 512\<rparr>
      in and_then (sector_size (ir_sector r)) (\<lambda>s.
           Inr (\<lparr>i_id = ir_id r, i_name = ir_name r, i_kind = ir_kind r, i_captured_at = None,
                 i_status = ir_status r, i_error = ir_error r, i_partitions = [], i_root_partition = None,
                 i_sector_size = s\<rparr>,
                d\<lparr>images := images d @ [r], next_image := next_image d + 1\<rparr>)))"

definition create_image :: "string \<Rightarrow> image_kind \<Rightarrow> db \<Rightarrow> (image \<times> db) result" where
  "create_image name kind d = insert_image name kind Empty d"

definition start_import :: "string \<Rightarrow> image_kind \<Rightarrow> db \<Rightarrow> (image \<times> db) result" where
  "start_import name kind d = insert_image name kind Importing d"

definition update_image :: "int \<Rightarrow> (image_row \<Rightarrow> image_row) \<Rightarrow> db \<Rightarrow> db" where
  "update_image i f d = d\<lparr>images := update_where (\<lambda>r. ir_id r = i) f (images d)\<rparr>"

definition update_image_name :: "int \<Rightarrow> string \<Rightarrow> db \<Rightarrow> image result \<times> db" where
  "update_image_name i name d =
     (let d' = update_image i (\<lambda>r. r\<lparr>ir_name := name\<rparr>) d
      in (case List.find (\<lambda>r. ir_id r = i) (images d') of
            None \<Rightarrow> Inl row_not_found
          | Some r \<Rightarrow> image_of_row r (get_partitions d' i), d'))"

text \<open>\<open>set_root_partition\<close> reads, checks, writes and reads again, in three statements of their own.\<close>

definition check_root :: "int \<Rightarrow> int option \<Rightarrow> db \<Rightarrow> unit result" where
  "check_root i number d =
     and_then (get_image d i) (\<lambda>image.
       case number of
         None \<Rightarrow> Inr ()
       | Some n \<Rightarrow>
           if \<exists>p \<in> set (i_partitions image). partition_number p = n then Inr ()
           else Inl (InvalidArgument (''image '' @ int_str i @ '' has no partition '' @ int_str n)))"

definition write_root :: "int \<Rightarrow> int option \<Rightarrow> db \<Rightarrow> db" where
  "write_root i number d = update_image i (\<lambda>r. r\<lparr>ir_root := number\<rparr>) d"

definition set_root_partition :: "int \<Rightarrow> int option \<Rightarrow> db \<Rightarrow> (image \<times> db) result" where
  "set_root_partition i number d =
     and_then (check_root i number d) (\<lambda>_.
       let d' = write_root i number d in and_then (get_image d' i) (\<lambda>image. Inr (image, d')))"

definition delete_image :: "int \<Rightarrow> time \<Rightarrow> db \<Rightarrow> db" where
  "delete_image i now d =
     (let d = update_image i (\<lambda>r. r\<lparr>ir_deleted_at := Some now\<rparr>) d
      in d\<lparr>image_scripts := delete_where (\<lambda>s. isr_image s = i) (image_scripts d)\<rparr>)"

subsection \<open>Capturing\<close>

definition start_capture :: "int \<Rightarrow> u32 \<Rightarrow> db \<Rightarrow> db" where
  "start_capture i sector d =
     (let d = d\<lparr>image_parts := delete_where (\<lambda>p. ipr_image p = i) (image_parts d)\<rparr>;
          d = update_image i (\<lambda>r. r\<lparr>ir_status := Capturing, ir_root := None, ir_sector := uint sector\<rparr>) d
      in d\<lparr>image_scripts := update_where (\<lambda>s. isr_image s = i) (\<lambda>s. s\<lparr>isr_root := None\<rparr>) (image_scripts d)\<rparr>)"

definition save_partition ::
  "int \<Rightarrow> int \<Rightarrow> string \<Rightarrow> int \<Rightarrow> string option \<Rightarrow> string option \<Rightarrow> db \<Rightarrow> (image_partition \<times> db) result" where
  "save_partition i number fstype size_bytes uuid label d =
     (let p = \<lparr>ipr_id = next_image_part d, ipr_image = i, ipr_number = number, ipr_fstype = fstype,
               ipr_size = size_bytes, ipr_uuid = uuid, ipr_label = label\<rparr>
      in if (i, number) \<in> set (map (\<lambda>r. (ipr_image r, ipr_number r)) (image_parts d))
         then Inl (unique_violation ''image_partitions.image_id, image_partitions.partition_number'')
         else if i \<notin> set (map ir_id (images d)) then Inl foreign_key_violation
         else Inr (image_partition_of_row p,
                d\<lparr>image_parts := image_parts d @ [p], next_image_part := next_image_part d + 1\<rparr>))"

definition upload_partition :: "int \<Rightarrow> db \<Rightarrow> new_image_partition \<Rightarrow> db result" where
  "upload_partition i d p =
     and_then (save_partition i (np_number p) (np_fstype p) (as_i64 (np_size_bytes p))
       (np_fs_uuid p) (np_fs_label p) d) (\<lambda>(_, d'). Inr d')"

definition mark_image_finished :: "int \<Rightarrow> time \<Rightarrow> db \<Rightarrow> db" where
  "mark_image_finished i now = update_image i (\<lambda>r. r\<lparr>ir_status := Ready, ir_captured_at := Some now\<rparr>)"

definition mark_image_faulted :: "int \<Rightarrow> string \<Rightarrow> db \<Rightarrow> db" where
  "mark_image_faulted i error = update_image i (\<lambda>r. r\<lparr>ir_status := Faulted, ir_error := Some error\<rparr>)"

subsection \<open>Importing\<close>

definition import_partition :: "int \<Rightarrow> db \<Rightarrow> new_image_partition \<Rightarrow> db result" where
  "import_partition i d p =
     (if 2 ^ 63 \<le> unat (np_size_bytes p)
      then Inl (InvalidArgument (''partition '' @ int_str (np_number p) @ '' size '' @
             nat_str (unat (np_size_bytes p)) @ '' is out of range''))
      else upload_partition i d p)"

definition finish_import ::
  "int \<Rightarrow> time option \<Rightarrow> new_image_partition list \<Rightarrow> int option \<Rightarrow> u32 \<Rightarrow> db \<Rightarrow> (image \<times> db) result" where
  "finish_import i captured_at partitions root sector d =
     and_then (try_fold (import_partition i) d partitions) (\<lambda>d.
       if \<forall>r \<in> set (images d). \<not> (ir_id r = i \<and> ir_deleted_at r = None)
       then Inl (NotFound (''image '' @ int_str i))
       else
         let d' = d\<lparr>images := update_where (\<lambda>r. ir_id r = i \<and> ir_deleted_at r = None)
               (\<lambda>r. r\<lparr>ir_status := Ready, ir_captured_at := captured_at, ir_root := root, ir_sector := uint sector\<rparr>)
               (images d)\<rparr>
         in and_then (get_image d' i) (\<lambda>image. Inr (image, d')))"

definition fault_unfinished_imports :: "string \<Rightarrow> db \<Rightarrow> db" where
  "fault_unfinished_imports error d =
     d\<lparr>images := update_where (\<lambda>r. ir_status r = Importing)
         (\<lambda>r. r\<lparr>ir_status := Faulted, ir_error := Some error\<rparr>) (images d)\<rparr>"

subsection \<open>Updating rows\<close>

lemma update_image_tables [simp]:
  "image_parts (update_image i f d) = image_parts d" "image_scripts (update_image i f d) = image_scripts d"
  "get_partitions (update_image i f d) k = get_partitions d k"
  by (simp_all add: update_image_def get_partitions_def)

lemma find_image_update:
  assumes "\<And>r. ir_id (f r) = ir_id r" "\<And>r. ir_deleted_at (f r) = ir_deleted_at r"
  shows "List.find (\<lambda>r. ir_id r = k \<and> ir_deleted_at r = None) (update_where P f rs) =
    map_option (\<lambda>r. if P r then f r else r) (List.find (\<lambda>r. ir_id r = k \<and> ir_deleted_at r = None) rs)"
  by (induction rs) (auto simp: assms)

lemma get_image_update:
  assumes "\<And>r. ir_id (f r) = ir_id r" "\<And>r. ir_deleted_at (f r) = ir_deleted_at r"
  shows "get_image (update_image i f d) k =
    (case List.find (\<lambda>r. ir_id r = k \<and> ir_deleted_at r = None) (images d) of
       None \<Rightarrow> Inl row_not_found
     | Some r \<Rightarrow> image_of_row (if k = i then f r else r) (get_partitions d k))"
proof (cases "List.find (\<lambda>r. ir_id r = k \<and> ir_deleted_at r = None) (images d)")
  case None
  have "get_partitions (update_image i f d) k = get_partitions d k" by simp
  with None show ?thesis
    by (simp add: get_image_def find_image_update [OF assms] update_image_def)
next
  case (Some r)
  then have "ir_id r = k" by (auto dest: find_member)
  moreover have "get_partitions (d\<lparr>images := rs\<rparr>) k = get_partitions d k" for rs
    by (simp add: get_partitions_def)
  ultimately show ?thesis using Some
    by (simp add: get_image_def find_image_update [OF assms] update_image_def)
qed

lemma update_image_db_ok:
  assumes "db_ok d" "\<And>r. ir_id (f r) = ir_id r"
  shows "db_ok (update_image i f d)"
proof -
  have k: "map ir_id (update_where P f (images d)) = map ir_id (images d)"
    "ir_id ` set (update_where P f (images d)) = ir_id ` set (images d)" for P
    by (rule update_where_keys, rule assms(2))+
  have "\<forall>r \<in> set (update_where P f (images d)). ir_id r < next_image d" for P
    using db_okD(23) [OF assms(1)] by (auto simp: ball_update_where assms(2))
  then have "db_ok (d\<lparr>images := update_where (\<lambda>r. ir_id r = i) f (images d), next_image := next_image d\<rparr>)"
    using assms(1) k db_okD(6) [OF assms(1)] by (intro db_ok_set_images) simp_all
  then show ?thesis by (simp add: update_image_def)
qed

subsection \<open>Saved partitions\<close>

fun saved_rows :: "int \<Rightarrow> int \<Rightarrow> new_image_partition list \<Rightarrow> image_part_row list" where
  "saved_rows i n [] = []"
| "saved_rows i n (p # ps) =
     \<lparr>ipr_id = n, ipr_image = i, ipr_number = np_number p, ipr_fstype = np_fstype p,
      ipr_size = as_i64 (np_size_bytes p), ipr_uuid = np_fs_uuid p, ipr_label = np_fs_label p\<rparr>
     # saved_rows i (n + 1) ps"

lemma saved_rows_keys:
  "map (\<lambda>r. (ipr_image r, ipr_number r)) (saved_rows i n ps) = map (\<lambda>p. (i, np_number p)) ps"
  "r \<in> set (saved_rows i n ps) \<Longrightarrow> ipr_image r = i"
  "r \<in> set (saved_rows i n ps) \<Longrightarrow> n \<le> ipr_id r \<and> ipr_id r < n + int (length ps)"
  by (induction ps arbitrary: n) force+

lemma saved_rows_distinct: "distinct (map ipr_id (saved_rows i n ps))"
proof (induction ps arbitrary: n)
  case Nil
  then show ?case by simp
next
  case (Cons p ps)
  have "\<forall>r \<in> set (saved_rows i (n + 1) ps). n < ipr_id r"
    using saved_rows_keys(3) [of _ i "n + 1" ps] by force
  with Cons show ?case by auto
qed

lemma upload_partitions:
  "try_fold (upload_partition i) d ps = Inr d' \<longleftrightarrow>
   distinct (map np_number ps) \<and>
   (\<forall>r \<in> set (image_parts d). ipr_image r = i \<longrightarrow> ipr_number r \<notin> np_number ` set ps) \<and>
   (ps = [] \<or> i \<in> ir_id ` set (images d)) \<and>
   d' = d\<lparr>image_parts := image_parts d @ saved_rows i (next_image_part d) ps,
         next_image_part := next_image_part d + int (length ps)\<rparr>"
proof (induction ps arbitrary: d)
  case Nil
  then show ?case by auto
next
  case (Cons p ps)
  let ?r = "\<lparr>ipr_id = next_image_part d, ipr_image = i, ipr_number = np_number p, ipr_fstype = np_fstype p,
      ipr_size = as_i64 (np_size_bytes p), ipr_uuid = np_fs_uuid p, ipr_label = np_fs_label p\<rparr>"
  let ?d = "d\<lparr>image_parts := image_parts d @ [?r], next_image_part := next_image_part d + 1\<rparr>"
  have one: "upload_partition i d p = Inr d1 \<longleftrightarrow> (i, np_number p) \<notin> (\<lambda>r. (ipr_image r, ipr_number r)) ` set (image_parts d) \<and> i \<in> ir_id ` set (images d) \<and>
      d1 = ?d" for d1
    by (auto simp: upload_partition_def save_partition_def Let_def)
  have "try_fold (upload_partition i) d (p # ps) = Inr d' \<longleftrightarrow>
      (i, np_number p) \<notin> (\<lambda>r. (ipr_image r, ipr_number r)) ` set (image_parts d) \<and> i \<in> ir_id ` set (images d) \<and>
      try_fold (upload_partition i) ?d ps = Inr d'"
    using one by (auto simp: and_then_Inr)
  also have "\<dots> \<longleftrightarrow> ((i, np_number p) \<notin> (\<lambda>r. (ipr_image r, ipr_number r)) ` set (image_parts d) \<and> i \<in> ir_id ` set (images d)) \<and>
      distinct (map np_number ps) \<and>
      (\<forall>r \<in> set (image_parts d @ [?r]). ipr_image r = i \<longrightarrow> ipr_number r \<notin> np_number ` set ps) \<and>
      (ps = [] \<or> i \<in> ir_id ` set (images d)) \<and>
      d' = d\<lparr>image_parts := image_parts d @ saved_rows i (next_image_part d) (p # ps),
         next_image_part := next_image_part d + int (length (p # ps))\<rparr>"
    unfolding Cons.IH by (simp add: algebra_simps)
  finally show ?case by (auto simp: image_iff)
qed

lemma import_partitions:
  "try_fold (import_partition i) d ps = Inr d' \<longleftrightarrow>
   (\<forall>p \<in> set ps. unat (np_size_bytes p) < 2 ^ 63) \<and> try_fold (upload_partition i) d ps = Inr d'"
  by (induction ps arbitrary: d) (auto simp: import_partition_def and_then_Inr)

definition new_of_partition :: "image_partition \<Rightarrow> new_image_partition" where
  "new_of_partition p =
     \<lparr>np_number = partition_number p, np_fstype = ip_fstype p, np_size_bytes = ip_size_bytes p,
      np_fs_uuid = ip_fs_uuid p, np_fs_label = ip_fs_label p\<rparr>"

lemma new_of_saved_rows: "map (\<lambda>r. new_of_partition (image_partition_of_row r)) (saved_rows i n ps) = ps"
  by (induction ps arbitrary: n) (simp_all add: new_of_partition_def image_partition_of_row_def)

lemma sort_key_map_via: "map f (sort_key (\<lambda>x. g (f x)) xs) = sort_key g (map f xs)"
  by (simp add: sort_key_map o_def)

lemma saved_get_partitions:
  assumes "\<forall>r \<in> set (image_parts d). ipr_image r \<noteq> i"
    and "image_parts d' = image_parts d @ saved_rows i n ps"
  shows "map new_of_partition (get_partitions d' i) = sort_key np_number ps"
    "k \<noteq> i \<Longrightarrow> get_partitions d' k = get_partitions d k"
proof -
  have "filter (\<lambda>p. ipr_image p = i) (image_parts d) = []"
    using assms(1) by (simp add: filter_empty_conv)
  moreover have "filter (\<lambda>p. ipr_image p = i) (saved_rows i n ps) = saved_rows i n ps"
    unfolding filter_id_conv using saved_rows_keys(2) by blast
  ultimately have "filter (\<lambda>p. ipr_image p = i) (image_parts d') = saved_rows i n ps"
    by (simp add: assms(2))
  moreover have "ipr_number = (\<lambda>r. np_number (new_of_partition (image_partition_of_row r)))"
    by (simp add: fun_eq_iff new_of_partition_def image_partition_of_row_def)
  ultimately show "map new_of_partition (get_partitions d' i) = sort_key np_number ps"
    using sort_key_map_via [of "\<lambda>r. new_of_partition (image_partition_of_row r)" np_number "saved_rows i n ps"]
    by (simp add: get_partitions_def o_def new_of_saved_rows)
  assume "k \<noteq> i"
  then have "filter (\<lambda>p. ipr_image p = k) (saved_rows i n ps) = []"
    using saved_rows_keys(2) by (force simp: filter_empty_conv)
  then show "get_partitions d' k = get_partitions d k"
    by (simp add: get_partitions_def assms(2))
qed

lemma sector_size_word [simp]: "sector_size (uint (s :: u32)) = Inr s"
  using uint_lt2p [of s] by (simp add: sector_size_def)

lemma finish_import_result:
  assumes fresh: "\<forall>p \<in> set (image_parts d). ipr_image p \<noteq> i"
  shows "((\<exists>r. finish_import i at ps root s d = Inr r) \<longleftrightarrow>
      (\<exists>r \<in> set (images d). ir_id r = i \<and> ir_deleted_at r = None) \<and> distinct (map np_number ps) \<and>
      (\<forall>p \<in> set ps. unat (np_size_bytes p) < 2 ^ 63)) \<and>
    (\<forall>image d'. finish_import i at ps root s d = Inr (image, d') \<longrightarrow>
      get_image d' i = Inr image \<and> i_status image = Ready \<and> i_captured_at image = at \<and>
      i_root_partition image = root \<and> i_sector_size image = s \<and>
      map new_of_partition (i_partitions image) = sort_key np_number ps \<and>
      (\<forall>k. k \<noteq> i \<longrightarrow> get_image d' k = get_image d k))"
proof -
  let ?live = "\<lambda>r. ir_id r = i \<and> ir_deleted_at r = None"
  let ?f = "\<lambda>r. r\<lparr>ir_status := Ready, ir_captured_at := at, ir_root := root, ir_sector := uint s\<rparr>"
  let ?p = "d\<lparr>image_parts := image_parts d @ saved_rows i (next_image_part d) ps,
              next_image_part := next_image_part d + int (length ps)\<rparr>"
  let ?d = "?p\<lparr>images := update_where ?live ?f (images d)\<rparr>"
  have fold: "try_fold (import_partition i) d ps = Inr x \<longleftrightarrow>
      (\<forall>p \<in> set ps. unat (np_size_bytes p) < 2 ^ 63) \<and> distinct (map np_number ps) \<and>
      (ps = [] \<or> i \<in> ir_id ` set (images d)) \<and> x = ?p" for x
    unfolding import_partitions upload_partitions using fresh by blast
  have found: "List.find (\<lambda>r. ir_id r = k \<and> ir_deleted_at r = None) (images ?d) =
      map_option (\<lambda>r. if ?live r then ?f r else r) (List.find (\<lambda>r. ir_id r = k \<and> ir_deleted_at r = None) (images d))" for k
    by (simp add: find_image_update)
  have get: "get_image ?d i = image_of_row (?f r) (get_partitions ?d i)"
    if "List.find ?live (images d) = Some r" for r
    using that find_member [OF that] unfolding get_image_def found by simp
  have iff: "finish_import i at ps root s d = Inr (image, d') \<longleftrightarrow>
      (\<forall>p \<in> set ps. unat (np_size_bytes p) < 2 ^ 63) \<and> distinct (map np_number ps) \<and>
      (\<exists>r. List.find ?live (images d) = Some r \<and> d' = ?d \<and> image_of_row (?f r) (get_partitions ?d i) = Inr image)"
    for image d'
  proof (cases "List.find ?live (images d)")
    case None
    then have "\<forall>r \<in> set (images d). \<not> ?live r" by (simp add: find_None_iff)
    then have "\<not> (\<exists>r. finish_import i at ps root s d = Inr r)"
      by (auto simp: finish_import_def and_then_Inr fold)
    with None show ?thesis by auto
  next
    case (Some r)
    then have r: "r \<in> set (images d)" "?live r" by (auto dest: find_member)
    then have "i \<in> ir_id ` set (images d)" "\<not> (\<forall>r \<in> set (images d). \<not> ?live r)" by blast+
    then have "finish_import i at ps root s d = Inr (image, d') \<longleftrightarrow>
        try_fold (import_partition i) d ps = Inr ?p \<and> d' = ?d \<and> get_image ?d i = Inr image"
      by (auto simp: finish_import_def and_then_Inr fold Let_def)
    then show ?thesis using Some get [OF Some] fold [of ?p] \<open>i \<in> ir_id ` set (images d)\<close> by auto
  qed
  have live: "(\<exists>r. List.find ?live (images d) = Some r) \<longleftrightarrow> (\<exists>r \<in> set (images d). ?live r)"
    by (cases "List.find ?live (images d)") (auto simp: find_None_iff dest: find_member)
  have row: "image_of_row (?f r) ps' = Inr image \<longleftrightarrow> image = \<lparr>i_id = ir_id r, i_name = ir_name r, i_kind = ir_kind r,
      i_captured_at = at, i_status = Ready, i_error = ir_error r, i_partitions = ps', i_root_partition = root,
      i_sector_size = s\<rparr>" for r ps' image
    by (auto simp: image_of_row_def)
  have parts: "map new_of_partition (get_partitions ?d i) = sort_key np_number ps"
    "k \<noteq> i \<Longrightarrow> get_partitions ?d k = get_partitions d k" for k
    by (rule saved_get_partitions [OF fresh, where n = "next_image_part d"]; simp)+
  have other: "get_image ?d k = get_image d k" if "k \<noteq> i" for k
  proof (cases "List.find (\<lambda>r. ir_id r = k \<and> ir_deleted_at r = None) (images d)")
    case (Some r)
    then have "ir_id r = k" by (auto dest: find_member)
    with Some that show ?thesis unfolding get_image_def found parts(2) [OF that] by simp
  next
    case None
    then show ?thesis unfolding get_image_def found by simp
  qed
  have "(\<exists>r. finish_import i at ps root s d = Inr r) \<longleftrightarrow>
      (\<exists>r \<in> set (images d). ?live r) \<and> distinct (map np_number ps) \<and> (\<forall>p \<in> set ps. unat (np_size_bytes p) < 2 ^ 63)"
    unfolding split_paired_Ex iff row live [symmetric] by blast
  moreover have "get_image d' i = Inr image \<and> i_status image = Ready \<and> i_captured_at image = at \<and>
      i_root_partition image = root \<and> i_sector_size image = s \<and>
      map new_of_partition (i_partitions image) = sort_key np_number ps \<and>
      (\<forall>k. k \<noteq> i \<longrightarrow> get_image d' k = get_image d k)"
    if fin: "finish_import i at ps root s d = Inr (image, d')" for image d'
  proof -
    obtain r where r: "List.find ?live (images d) = Some r" "d' = ?d"
      "image_of_row (?f r) (get_partitions ?d i) = Inr image"
      using fin unfolding iff by blast
    from r(3) [unfolded row] have "i_partitions image = get_partitions ?d i" "i_status image = Ready"
      "i_captured_at image = at" "i_root_partition image = root" "i_sector_size image = s" by simp_all
    moreover have "get_image d' i = Inr image" unfolding r(2) get [OF r(1)] by (rule r(3))
    moreover have "\<forall>k. k \<noteq> i \<longrightarrow> get_image d' k = get_image d k" unfolding r(2) using other by blast
    moreover have "map new_of_partition (get_partitions ?d i) = sort_key np_number ps" by (rule parts(1))
    ultimately show ?thesis by simp
  qed
  ultimately show ?thesis by blast
qed

text \<open>C13: finishing an import is all or nothing: it succeeds exactly when the image is live, the partition
  numbers differ and every size fits the signed column. Then the image is ready with the given capture
  time, root partition and sector size, lists exactly the given partitions in order of number, and no
  other image changes.\<close>

theorem finish_import_correct:
  assumes fresh: "\<forall>p \<in> set (image_parts d). ipr_image p \<noteq> i"
  shows "((\<exists>r. finish_import i at ps root s d = Inr r) \<longleftrightarrow>
      (\<exists>r \<in> set (images d). ir_id r = i \<and> ir_deleted_at r = None) \<and> distinct (map np_number ps) \<and>
      (\<forall>p \<in> set ps. unat (np_size_bytes p) < 2 ^ 63)) \<and>
    (\<forall>image d'. finish_import i at ps root s d = Inr (image, d') \<longrightarrow>
      get_image d' i = Inr image \<and> i_status image = Ready \<and> i_captured_at image = at \<and>
      i_root_partition image = root \<and> i_sector_size image = s \<and>
      map new_of_partition (i_partitions image) = sort_key np_number ps \<and>
      (\<forall>k. k \<noteq> i \<longrightarrow> get_image d' k = get_image d k))"
  by (rule finish_import_result [OF fresh])

theorem finish_import_correct_witness:
  "\<exists>image d'. finish_import 1 (Some 7) [\<lparr>np_number = 1, np_fstype = ''ext4'', np_size_bytes = 4096,
      np_fs_uuid = None, np_fs_label = None\<rparr>] (Some 1) 512
      (empty_db\<lparr>images := [\<lparr>ir_id = 1, ir_name = ''lab'', ir_kind = Disk, ir_captured_at = None,
        ir_status = Importing, ir_error = None, ir_deleted_at = None, ir_root = None, ir_sector = 512\<rparr>]\<rparr>) =
      Inr (image, d') \<and> i_status image = Ready"
proof -
  let ?d = "empty_db\<lparr>images := [\<lparr>ir_id = 1, ir_name = ''lab'', ir_kind = Disk, ir_captured_at = None,
        ir_status = Importing, ir_error = None, ir_deleted_at = None, ir_root = None, ir_sector = 512\<rparr>]\<rparr>"
  let ?ps = "[\<lparr>np_number = 1, np_fstype = ''ext4'', np_size_bytes = 4096, np_fs_uuid = None, np_fs_label = None\<rparr>]"
  have "\<forall>p \<in> set (image_parts ?d). ipr_image p \<noteq> 1" by (simp add: empty_db_def)
  note c = finish_import_correct [OF this, of "Some 7" ?ps "Some 1" 512]
  have "\<exists>r. finish_import 1 (Some 7) ?ps (Some 1) 512 ?d = Inr r"
    unfolding conjunct1 [OF c] by simp
  then obtain image d' where "finish_import 1 (Some 7) ?ps (Some 1) 512 ?d = Inr (image, d')" by auto
  with conjunct2 [OF c] show ?thesis by blast
qed

text \<open>C12: capturing an image again replaces what it held. Whatever it stored before, after
  \<open>start_capture\<close>, the uploads of the new partitions (refused exactly when a number repeats) and
  \<open>mark_finished\<close> the image is ready, lists exactly the uploaded partitions in order of number with the
  new sector size and capture time, and neither it nor a script attached to it keeps a root partition.
  An error text of an earlier fault stays.\<close>

theorem recapture_correct:
  assumes d: "db_ok d" and r: "r \<in> set (images d)" "ir_id r = i" "ir_deleted_at r = None"
  shows "((\<exists>d1. try_fold (upload_partition i) (start_capture i s d) ps = Inr d1) \<longleftrightarrow> distinct (map np_number ps)) \<and>
    (\<forall>d1. try_fold (upload_partition i) (start_capture i s d) ps = Inr d1 \<longrightarrow>
      (\<exists>image. get_image (mark_image_finished i now d1) i = Inr image \<and>
        i_name image = ir_name r \<and> i_kind image = ir_kind r \<and> i_status image = Ready \<and>
        i_captured_at image = Some now \<and> i_error image = ir_error r \<and> i_root_partition image = None \<and>
        i_sector_size image = s \<and> map new_of_partition (i_partitions image) = sort_key np_number ps) \<and>
      (\<forall>l \<in> set (image_scripts d1). isr_image l = i \<longrightarrow> isr_root l = None))"
proof -
  let ?f = "\<lambda>r. r\<lparr>ir_status := Capturing, ir_root := None, ir_sector := uint s\<rparr>"
  let ?s = "start_capture i s d"
  have s: "images ?s = update_where (\<lambda>r. ir_id r = i) ?f (images d)"
    "image_parts ?s = delete_where (\<lambda>p. ipr_image p = i) (image_parts d)"
    "image_scripts ?s = update_where (\<lambda>l. isr_image l = i) (\<lambda>l. l\<lparr>isr_root := None\<rparr>) (image_scripts d)"
    by (simp_all add: start_capture_def Let_def update_image_def)
  have gone: "\<forall>p \<in> set (image_parts ?s). ipr_image p \<noteq> i" by (simp add: s(2))
  have ids: "i \<in> ir_id ` set (images ?s)"
    using update_where_keys(2) [of ir_id ?f "\<lambda>r. ir_id r = i" "images d"] r(1,2) s(1) by auto
  have up: "try_fold (upload_partition i) ?s ps = Inr d1 \<longleftrightarrow> distinct (map np_number ps) \<and>
      d1 = ?s\<lparr>image_parts := image_parts ?s @ saved_rows i (next_image_part ?s) ps,
         next_image_part := next_image_part ?s + int (length ps)\<rparr>" for d1
    unfolding upload_partitions using gone ids by blast
  have found: "List.find (\<lambda>x. ir_id x = i \<and> ir_deleted_at x = None) (images d) = Some r"
  proof -
    obtain r' where r': "List.find (\<lambda>x. ir_id x = i \<and> ir_deleted_at x = None) (images d) = Some r'"
      using r by (cases "List.find (\<lambda>x. ir_id x = i \<and> ir_deleted_at x = None) (images d)") (auto simp: find_None_iff)
    have "inj_on ir_id (set (images d))" using db_okD(6) [OF d] by (simp add: distinct_map)
    then have "r' = r" using find_member [OF r'] r by (auto simp: inj_on_def)
    with r' show ?thesis by simp
  qed
  have "(\<exists>image. get_image (mark_image_finished i now d1) i = Inr image \<and>
        i_name image = ir_name r \<and> i_kind image = ir_kind r \<and> i_status image = Ready \<and>
        i_captured_at image = Some now \<and> i_error image = ir_error r \<and> i_root_partition image = None \<and>
        i_sector_size image = s \<and> map new_of_partition (i_partitions image) = sort_key np_number ps) \<and>
      (\<forall>l \<in> set (image_scripts d1). isr_image l = i \<longrightarrow> isr_root l = None)"
    if "try_fold (upload_partition i) ?s ps = Inr d1" for d1
  proof -
    have d1: "d1 = ?s\<lparr>image_parts := image_parts ?s @ saved_rows i (next_image_part ?s) ps,
         next_image_part := next_image_part ?s + int (length ps)\<rparr>"
      using that unfolding up by blast
    have "List.find (\<lambda>x. ir_id x = i \<and> ir_deleted_at x = None) (images d1) = Some (?f r)"
      using r by (simp add: d1 s(1) find_image_update found)
    then have "get_image (mark_image_finished i now d1) i =
        image_of_row (?f r\<lparr>ir_status := Ready, ir_captured_at := Some now\<rparr>) (get_partitions d1 i)"
      unfolding mark_image_finished_def by (subst get_image_update) simp_all
    moreover have "map new_of_partition (get_partitions d1 i) = sort_key np_number ps"
      by (rule saved_get_partitions(1) [OF gone, where n = "next_image_part ?s"]) (simp add: d1)
    moreover have "\<forall>l \<in> set (image_scripts d1). isr_image l = i \<longrightarrow> isr_root l = None"
      by (simp add: d1 s(3) ball_update_where)
    ultimately show ?thesis by (simp add: image_of_row_def)
  qed
  then show ?thesis using up by blast
qed

theorem recapture_correct_witness:
  "\<exists>d1. try_fold (upload_partition 1)
     (start_capture 1 4096 (empty_db\<lparr>images := [\<lparr>ir_id = 1, ir_name = ''lab'', ir_kind = Disk, ir_captured_at = Some 3,
        ir_status = Ready, ir_error = None, ir_deleted_at = None, ir_root = Some 2, ir_sector = 512\<rparr>],
        next_image := 2\<rparr>))
     [\<lparr>np_number = 1, np_fstype = ''ext4'', np_size_bytes = 4096, np_fs_uuid = None, np_fs_label = None\<rparr>] = Inr d1"
proof -
  let ?r = "\<lparr>ir_id = 1, ir_name = ''lab'', ir_kind = Disk, ir_captured_at = Some 3,
        ir_status = Ready, ir_error = None, ir_deleted_at = None, ir_root = Some 2, ir_sector = 512\<rparr>"
  let ?d = "empty_db\<lparr>images := [?r], next_image := 2\<rparr>"
  have "db_ok ?d" by (simp add: db_ok_defs empty_db_def)
  from recapture_correct [OF this, of ?r 1 4096
      "[\<lparr>np_number = 1, np_fstype = ''ext4'', np_size_bytes = 4096, np_fs_uuid = None, np_fs_label = None\<rparr>]"]
  show ?thesis by simp
qed

text \<open>The two statements of \<open>set_root_partition\<close> are not one transaction: a capture that starts between
  them leaves a root partition that the image does not have.\<close>

theorem root_check_goes_stale:
  "\<exists>d. db_ok d \<and> check_root 1 (Some 1) d = Inr () \<and>
    (\<exists>image. get_image (write_root 1 (Some 1) (start_capture 1 512 d)) 1 = Inr image \<and>
      i_root_partition image = Some 1 \<and> i_partitions image = [])"
proof -
  let ?r = "\<lparr>ir_id = 1, ir_name = ''lab'', ir_kind = Disk, ir_captured_at = Some 3,
        ir_status = Ready, ir_error = None, ir_deleted_at = None, ir_root = None, ir_sector = 512\<rparr>"
  let ?p = "\<lparr>ipr_id = 1, ipr_image = 1, ipr_number = 1, ipr_fstype = ''ext4'', ipr_size = 4096,
        ipr_uuid = None, ipr_label = None\<rparr>"
  let ?d = "empty_db\<lparr>images := [?r], next_image := 2, image_parts := [?p], next_image_part := 2\<rparr>"
  have "db_ok ?d" by (simp add: db_ok_defs empty_db_def)
  moreover have "check_root 1 (Some 1) ?d = Inr ()"
    by (simp add: check_root_def get_image_def image_of_row_def sector_size_def get_partitions_def
      image_partition_of_row_def empty_db_def)
  moreover have "\<exists>image. get_image (write_root 1 (Some 1) (start_capture 1 512 ?d)) 1 = Inr image \<and>
      i_root_partition image = Some 1 \<and> i_partitions image = []"
    by (simp add: write_root_def start_capture_def Let_def update_image_def delete_where_def get_image_def
      image_of_row_def sector_size_def get_partitions_def empty_db_def)
  ultimately show ?thesis by blast
qed

subsection \<open>The listing against single images\<close>

abbreviation row_rank :: "image_row \<times> image_part_row option \<Rightarrow> int \<times> int" where
  "row_rank \<equiv> \<lambda>(i, p). (ir_id i, case p of None \<Rightarrow> 0 | Some p \<Rightarrow> ipr_number p)"

definition rows_of_image :: "db \<Rightarrow> image_row \<Rightarrow> (image_row \<times> image_part_row option) list" where
  "rows_of_image d i = left_join i (sort_key ipr_number (filter (\<lambda>p. ipr_image p = ir_id i) (image_parts d)))"

lemma left_join_mset:
  "mset (left_join i ps) = (if mset ps = {#} then {#(i, None)#} else image_mset (\<lambda>p. (i, Some p)) (mset ps))"
  by (simp add: left_join_def)

lemma left_join_mem:
  "(j, q) \<in> set (left_join i ps) \<longleftrightarrow> j = i \<and> (case q of None \<Rightarrow> ps = [] | Some p \<Rightarrow> p \<in> set ps)"
  by (auto simp: left_join_def split: option.splits)

lemma rows_of_image_sorted: "sorted (map row_rank (rows_of_image d i))"
proof -
  let ?ps = "sort_key ipr_number (filter (\<lambda>p. ipr_image p = ir_id i) (image_parts d))"
  have "sorted_wrt (\<lambda>p q. ipr_number p \<le> ipr_number q) ?ps"
    using sorted_sort_key [of ipr_number "filter (\<lambda>p. ipr_image p = ir_id i) (image_parts d)"]
    by (simp add: sorted_map)
  then have "sorted (map (\<lambda>p. (ir_id i, ipr_number p)) ?ps)"
    unfolding sorted_map by (rule sorted_wrt_mono_rel [rotated]) simp
  then show ?thesis by (simp add: rows_of_image_def left_join_def o_def)
qed

lemma rows_of_images_sorted:
  "sorted_wrt (<) (map ir_id rs) \<Longrightarrow> sorted (map row_rank (concat (map (rows_of_image d) rs)))"
proof (induction rs)
  case Nil
  then show ?case by simp
next
  case (Cons r rs)
  have "row_rank x \<le> row_rank y" if "x \<in> set (rows_of_image d r)" "y \<in> set (concat (map (rows_of_image d) rs))" for x y
  proof -
    from that(2) obtain r' where r': "r' \<in> set rs" "y \<in> set (rows_of_image d r')" by auto
    then have "fst x = r" "fst y = r'" "ir_id r < ir_id r'"
      using that(1) Cons.prems by (cases x; cases y; auto simp: rows_of_image_def left_join_mem)+
    then show ?thesis by (cases x; cases y) (simp add: less_eq_prod_def)
  qed
  then show ?case
    using Cons rows_of_image_sorted [of d r] by (auto simp: sorted_append simp del: set_concat)
qed

lemma live_ids_sorted:
  assumes "db_ok d"
  shows "sorted_wrt (<) (map ir_id (sort_key ir_id (filter P (images d))))"
proof -
  have "distinct (map ir_id (filter P (images d)))"
    using db_okD(6) [OF assms] by (rule distinct_map_filter)
  then have "distinct (map ir_id (sort_key ir_id (filter P (images d))))"
    by (simp add: distinct_map)
  then show ?thesis by (simp add: strict_sorted_iff)
qed

lemma image_rows_inj:
  assumes "db_ok d"
  shows "inj_on row_rank (set (concat (map (\<lambda>i. left_join i (filter (\<lambda>p. ipr_image p = ir_id i) (image_parts d)))
    (filter P (images d)))))"
proof (rule inj_onI)
  fix x y
  assume xy: "x \<in> set (concat (map (\<lambda>i. left_join i (filter (\<lambda>p. ipr_image p = ir_id i) (image_parts d))) (filter P (images d))))"
    "y \<in> set (concat (map (\<lambda>i. left_join i (filter (\<lambda>p. ipr_image p = ir_id i) (image_parts d))) (filter P (images d))))"
    and eq: "row_rank x = row_rank y"
  obtain i p j q where x: "x = (i, p)" and y: "y = (j, q)" by (cases x; cases y)
  have ij: "i \<in> set (images d)" "j \<in> set (images d)" "ir_id i = ir_id j"
    using xy eq by (auto simp: x y left_join_mem)
  then have "i = j" using db_okD(6) [OF assms] by (auto simp: distinct_map inj_on_def)
  moreover have "p = q"
  proof (cases p)
    case None
    then show ?thesis using xy ij by (cases q) (auto simp: x y left_join_mem filter_empty_conv)
  next
    case (Some a)
    then have a: "a \<in> set (image_parts d)" "ipr_image a = ir_id i" using xy(1) by (auto simp: x left_join_mem)
    then obtain b where b: "q = Some b" "b \<in> set (image_parts d)" "ipr_image b = ir_id j"
      using xy(2) ij by (cases q) (auto simp: y left_join_mem filter_empty_conv)
    have "ipr_number a = ipr_number b" using eq by (simp add: x y Some b(1))
    then have "a = b" using db_okD(8) [OF assms] a b ij(3) by (auto simp: distinct_map inj_on_def)
    with Some b show ?thesis by simp
  qed
  ultimately show "x = y" by (simp add: x y)
qed

lemma mset_concat_map: "mset (concat (map f xs)) = \<Sum>\<^sub># (image_mset (\<lambda>x. mset (f x)) (mset xs))"
  by (induction xs) auto

lemma image_rows_grouped:
  assumes "db_ok d"
  shows "image_rows d =
    concat (map (rows_of_image d) (sort_key ir_id (filter (\<lambda>i. ir_deleted_at i = None) (images d))))"
proof -
  let ?live = "filter (\<lambda>i. ir_deleted_at i = None) (images d)"
  let ?join = "\<lambda>i. left_join i (filter (\<lambda>p. ipr_image p = ir_id i) (image_parts d))"
  have "mset (rows_of_image d i) = mset (?join i)" for i
    unfolding rows_of_image_def left_join_mset mset_sort by (rule refl)
  then have "mset (concat (map ?join ?live)) = mset (concat (map (rows_of_image d) (sort_key ir_id ?live)))"
    by (simp add: mset_concat_map)
  then have "sort_key row_rank (concat (map ?join ?live)) = concat (map (rows_of_image d) (sort_key ir_id ?live))"
    by (rule sort_key_inj_key_eq) (rule image_rows_inj [OF assms], rule rows_of_images_sorted [OF live_ids_sorted [OF assms]])
  then show ?thesis by (simp add: image_rows_def)
qed

text \<open>Collecting the rows of one image that was not seen before, and of a list of such images.\<close>

lemma collect_parts:
  "try_fold collect_row (m(ir_id r \<mapsto> entry), ids) (map (\<lambda>p. (r, Some p)) ps) =
   Inr (m(ir_id r \<mapsto> entry\<lparr>i_partitions := i_partitions entry @ map image_partition_of_row ps\<rparr>), ids)"
  by (induction ps arbitrary: entry) (simp_all add: collect_row_def Let_def)

lemma collect_image:
  assumes "m (ir_id r) = None"
  shows "try_fold collect_row (m, ids) (rows_of_image d r) =
    and_then (image_of_row r (get_partitions d (ir_id r))) (\<lambda>image. Inr (m(ir_id r \<mapsto> image), ids @ [ir_id r]))"
proof -
  define ps where "ps = sort_key ipr_number (filter (\<lambda>p. ipr_image p = ir_id r) (image_parts d))"
  have parts: "get_partitions d (ir_id r) = map image_partition_of_row ps"
    by (simp add: get_partitions_def ps_def)
  have full: "image_of_row r qs = and_then (image_of_row r []) (\<lambda>image. Inr (image\<lparr>i_partitions := qs\<rparr>))" for qs
    by (cases "sector_size (ir_sector r)") (simp_all add: image_of_row_def)
  have empty: "i_partitions image = []" if "image_of_row r [] = Inr image" for image
    using that by (cases "sector_size (ir_sector r)") (auto simp: image_of_row_def)
  show ?thesis
  proof (cases ps)
    case Nil
    then show ?thesis
      using assms by (cases "image_of_row r []") (simp_all add: parts rows_of_image_def left_join_def ps_def [symmetric] collect_row_def)
  next
    case (Cons p qs)
    show ?thesis
    proof (cases "image_of_row r []")
      case (Inl e)
      then show ?thesis using assms Cons full [of "map image_partition_of_row ps"]
        by (simp add: parts rows_of_image_def left_join_def ps_def [symmetric] collect_row_def)
    next
      case (Inr image)
      then have "collect_row (m, ids) (r, Some p) =
          Inr (m(ir_id r \<mapsto> image\<lparr>i_partitions := [image_partition_of_row p]\<rparr>), ids @ [ir_id r])"
        using assms empty [OF Inr] by (simp add: collect_row_def)
      then have "try_fold collect_row (m, ids) (rows_of_image d r) =
          Inr (m(ir_id r \<mapsto> image\<lparr>i_partitions := map image_partition_of_row ps\<rparr>), ids @ [ir_id r])"
        by (simp add: rows_of_image_def left_join_def ps_def [symmetric] Cons collect_parts)
      then show ?thesis using Inr full [of "map image_partition_of_row ps"] by (simp add: parts)
    qed
  qed
qed

lemma collect_images:
  assumes "distinct (map ir_id rs)" and "\<forall>r \<in> set rs. m (ir_id r) = None"
  shows "try_fold collect_row (m, ids) (concat (map (rows_of_image d) rs)) =
    and_then (collect_map (\<lambda>r. image_of_row r (get_partitions d (ir_id r))) rs)
      (\<lambda>out. Inr (m ++ map_of (rev (zip (map ir_id rs) out)), ids @ map ir_id rs))"
  using assms
proof (induction rs arbitrary: m ids)
  case Nil
  then show ?case by simp
next
  case (Cons r rs)
  show ?case
  proof (cases "image_of_row r (get_partitions d (ir_id r))")
    case (Inl e)
    then show ?thesis using Cons.prems by (simp add: collect_image)
  next
    case (Inr image)
    from Cons.prems(1) have "ir_id r \<notin> ir_id ` set rs" by simp
    then have "\<forall>x \<in> set rs. ir_id x \<noteq> ir_id r" by (metis imageI)
    then have none: "\<forall>x \<in> set rs. (m(ir_id r \<mapsto> image)) (ir_id x) = None" using Cons.prems(2) by simp
    have dist: "distinct (map ir_id rs)" using Cons.prems(1) by simp
    have zip: "m(ir_id r \<mapsto> image) ++ map_of (rev (zip (map ir_id rs) out)) =
        m ++ map_of (rev (zip (map ir_id (r # rs)) (image # out)))" for out
      by (simp add: map_add_assoc)
    have "try_fold collect_row (m, ids) (concat (map (rows_of_image d) (r # rs))) =
        try_fold collect_row (m(ir_id r \<mapsto> image), ids @ [ir_id r]) (concat (map (rows_of_image d) rs))"
      using Cons.prems(2) Inr by (simp add: collect_image)
    also have "\<dots> = and_then (collect_map (\<lambda>r. image_of_row r (get_partitions d (ir_id r))) rs)
          (\<lambda>out. Inr (m ++ map_of (rev (zip (map ir_id (r # rs)) (image # out))), ids @ map ir_id (r # rs)))"
      by (simp only: Cons.IH [OF dist none] zip append_assoc append.simps list.map)
    also have "\<dots> = and_then (collect_map (\<lambda>r. image_of_row r (get_partitions d (ir_id r))) (r # rs))
          (\<lambda>out. Inr (m ++ map_of (rev (zip (map ir_id (r # rs)) out)), ids @ map ir_id (r # rs)))"
      by (cases "collect_map (\<lambda>r. image_of_row r (get_partitions d (ir_id r))) rs")
         (simp_all only: collect_map.simps Inr and_then.simps)
    finally show ?thesis .
  qed
qed

lemma map_filter_zip:
  assumes "distinct ks" "length out = length ks"
  shows "List.map_filter (map_of (rev (zip ks out))) ks = out"
proof -
  have fst: "map fst (zip ks out) = ks" using assms(2) by simp
  then have "distinct (map fst (rev (zip ks out)))" using assms(1) by (simp flip: rev_map)
  then have "map_of (rev (zip ks out)) = map_of (zip ks out)"
    using fst assms(1) by (subst map_of_inject_set) simp_all
  moreover have "map_of (zip ks out) (ks ! j) = Some (out ! j)" if "j < length ks" for j
    using assms that by (simp add: map_of_zip_nth)
  ultimately have some: "map_of (rev (zip ks out)) (ks ! j) = Some (out ! j)" if "j < length ks" for j
    using that by simp
  then have "\<forall>k \<in> set ks. map_of (rev (zip ks out)) k \<noteq> None" by (auto simp: in_set_conv_nth)
  then have "List.map_filter (map_of (rev (zip ks out))) ks = map (\<lambda>k. the (map_of (rev (zip ks out)) k)) ks"
    by (simp add: List.map_filter_def filter_id_conv)
  also have "\<dots> = out" by (rule nth_equalityI) (use assms some in auto)
  finally show ?thesis .
qed

text \<open>the list of all images is the live images in order of id, each as getting it alone returns it; an
  unreadable row fails the list with the error that getting the first such image gives.\<close>

theorem get_all_images_correct:
  assumes "db_ok d"
  shows "get_all_images d =
    collect_map (\<lambda>r. get_image d (ir_id r)) (sort_key ir_id (filter (\<lambda>i. ir_deleted_at i = None) (images d)))"
proof -
  let ?rs = "sort_key ir_id (filter (\<lambda>i. ir_deleted_at i = None) (images d))"
  let ?f = "\<lambda>r. image_of_row r (get_partitions d (ir_id r))"
  have ids: "distinct (map ir_id ?rs)"
    using live_ids_sorted [OF assms] by (simp add: strict_sorted_iff)
  have single: "get_image d (ir_id r) = ?f r" if "r \<in> set ?rs" for r
  proof -
    have r: "r \<in> set (images d)" "ir_deleted_at r = None" using that by auto
    have "List.find (\<lambda>x. ir_id x = ir_id r \<and> ir_deleted_at x = None) (images d) = Some r"
    proof (cases "List.find (\<lambda>x. ir_id x = ir_id r \<and> ir_deleted_at x = None) (images d)")
      case None
      with r show ?thesis by (auto simp: find_None_iff)
    next
      case (Some y)
      from find_member [OF Some] r have "y = r"
        using db_okD(6) [OF assms] by (auto simp: distinct_map inj_on_def)
      with Some show ?thesis by simp
    qed
    then show ?thesis by (simp add: get_image_def)
  qed
  have "get_all_images d = and_then (collect_map ?f ?rs) (\<lambda>out. Inr (List.map_filter
      (map_of (rev (zip (map ir_id ?rs) out))) (map ir_id ?rs)))"
    unfolding get_all_images_def image_rows_grouped [OF assms]
    by (subst collect_images [OF ids]) (simp, cases "collect_map ?f ?rs", simp_all)
  also have "\<dots> = collect_map ?f ?rs"
  proof (cases "collect_map ?f ?rs")
    case (Inr out)
    then have "length out = length (map ir_id ?rs)"
      unfolding collect_map_Inr by (auto dest: list_all2_lengthD)
    from map_filter_zip [OF ids this] Inr show ?thesis by simp
  qed simp
  also have "\<dots> = collect_map (\<lambda>r. get_image d (ir_id r)) ?rs"
  proof -
    have "collect_map ?f xs = collect_map (\<lambda>r. get_image d (ir_id r)) xs" if "set xs \<subseteq> set ?rs" for xs
      using that by (induction xs) (simp_all add: single)
    then show ?thesis by blast
  qed
  finally show ?thesis .
qed

theorem get_all_images_correct_witness: "get_all_images empty_db = Inr []"
  using get_all_images_correct [OF empty_db_ok] by (simp add: empty_db_def)

subsection \<open>Integrity\<close>

lemma insert_image_db_ok:
  assumes d: "db_ok d" and i: "insert_image name kind status d = Inr (im, d')"
  shows "db_ok d'"
proof -
  have d': "d' = d\<lparr>images := images d @ [\<lparr>ir_id = next_image d, ir_name = name, ir_kind = kind, ir_captured_at = None,
      ir_status = status, ir_error = None, ir_deleted_at = None, ir_root = None, ir_sector = 512\<rparr>],
      next_image := next_image d + 1\<rparr>"
    using i by (auto simp: insert_image_def Let_def and_then_Inr)
  have "next_image d \<notin> ir_id ` set (images d)" using db_okD(23) [OF d] by force
  then show ?thesis unfolding d'
    using db_okD(6,23) [OF d] by (intro db_ok_set_images [OF d]) (auto simp: less_add_one intro: less_trans)
qed

lemma save_partition_db_ok:
  assumes d: "db_ok d" and s: "save_partition i n f sz u l d = Inr (p, d')"
  shows "db_ok d'"
proof -
  let ?r = "\<lparr>ipr_id = next_image_part d, ipr_image = i, ipr_number = n, ipr_fstype = f, ipr_size = sz, ipr_uuid = u, ipr_label = l\<rparr>"
  have s': "(i, n) \<notin> (\<lambda>r. (ipr_image r, ipr_number r)) ` set (image_parts d)" "i \<in> ir_id ` set (images d)"
    "d' = d\<lparr>image_parts := image_parts d @ [?r], next_image_part := next_image_part d + 1\<rparr>"
    using s by (auto simp: save_partition_def Let_def split: if_splits)
  have "next_image_part d \<notin> ipr_id ` set (image_parts d)" using db_okD(24) [OF d] by force
  then show ?thesis unfolding s'(3)
  proof (intro db_ok_set_image_parts [OF d])
    show "ipr_image ` set (image_parts d @ [?r]) \<subseteq> ir_id ` set (images d)" using db_okD(17) [OF d] s'(2) by simp
    show "\<forall>r \<in> set (image_parts d @ [?r]). ipr_id r < next_image_part d + 1" using db_okD(24) [OF d] by force
  qed (use db_okD(7,8) [OF d] s'(1) in simp_all)
qed

lemma upload_partition_db_ok: "db_ok d \<Longrightarrow> upload_partition i d p = Inr d' \<Longrightarrow> db_ok d'"
  unfolding upload_partition_def and_then_Inr using save_partition_db_ok by fastforce

lemma delete_image_parts_db_ok: "db_ok d \<Longrightarrow> db_ok (d\<lparr>image_parts := delete_where P (image_parts d)\<rparr>)"
proof -
  assume d: "db_ok d"
  have "db_ok (d\<lparr>image_parts := delete_where P (image_parts d), next_image_part := next_image_part d\<rparr>)"
    using db_okD(7,8,17,24) [OF d] by (intro db_ok_set_image_parts [OF d])
      (auto simp: distinct_map_delete_where)
  then show ?thesis by simp
qed

lemma delete_image_scripts_db_ok: "db_ok d \<Longrightarrow> db_ok (d\<lparr>image_scripts := delete_where P (image_scripts d)\<rparr>)"
proof -
  assume d: "db_ok d"
  then show ?thesis using db_okD(13) [OF d]
    by (intro db_ok_set_image_scripts [OF d] subset_delete_where db_okD(19,20) [OF d]) (simp add: distinct_map_delete_where)
qed

lemma set_script_roots_db_ok:
  assumes d: "db_ok d"
  shows "db_ok (d\<lparr>image_scripts := update_where P (\<lambda>s. s\<lparr>isr_root := v\<rparr>) (image_scripts d)\<rparr>)"
proof -
  have "k ` set (update_where P (\<lambda>s. s\<lparr>isr_root := v\<rparr>) (image_scripts d)) = k ` set (image_scripts d)"
    if "\<And>s. k (s\<lparr>isr_root := v\<rparr>) = k s" for k :: "image_script_row \<Rightarrow> int"
    by (rule update_where_keys(2)) (rule that)
  moreover have "map (\<lambda>r. (isr_image r, isr_position r)) (update_where P (\<lambda>s. s\<lparr>isr_root := v\<rparr>) (image_scripts d)) =
      map (\<lambda>r. (isr_image r, isr_position r)) (image_scripts d)"
    by (rule update_where_keys(1)) simp
  ultimately show ?thesis using db_okD(13,19,20) [OF d] by (intro db_ok_set_image_scripts [OF d]) simp_all
qed

lemma start_capture_db_ok:
  assumes "db_ok d"
  shows "db_ok (start_capture i s d)"
proof -
  have "db_ok (update_image i (\<lambda>r. r\<lparr>ir_status := Capturing, ir_root := None, ir_sector := uint s\<rparr>)
      (d\<lparr>image_parts := delete_where (\<lambda>p. ipr_image p = i) (image_parts d)\<rparr>))"
    by (rule update_image_db_ok [OF delete_image_parts_db_ok [OF assms]]) simp
  from set_script_roots_db_ok [OF this, of "\<lambda>l. isr_image l = i" None]
  show ?thesis by (simp add: start_capture_def Let_def)
qed

lemma delete_image_db_ok:
  assumes "db_ok d"
  shows "db_ok (delete_image i now d)"
proof -
  have "db_ok (update_image i (\<lambda>r. r\<lparr>ir_deleted_at := Some now\<rparr>) d)"
    by (rule update_image_db_ok [OF assms]) simp
  from delete_image_scripts_db_ok [OF this, of "\<lambda>l. isr_image l = i"]
  show ?thesis by (simp add: delete_image_def Let_def)
qed

lemma update_images_db_ok:
  assumes "db_ok d" "\<And>r. ir_id (f r) = ir_id r"
  shows "db_ok (d\<lparr>images := update_where P f (images d)\<rparr>)"
proof -
  have k: "map ir_id (update_where P f (images d)) = map ir_id (images d)"
    "ir_id ` set (update_where P f (images d)) = ir_id ` set (images d)"
    by (rule update_where_keys, rule assms(2))+
  have "\<forall>r \<in> set (update_where P f (images d)). ir_id r < next_image d"
    using db_okD(23) [OF assms(1)] by (auto simp: ball_update_where assms(2))
  then have "db_ok (d\<lparr>images := update_where P f (images d), next_image := next_image d\<rparr>)"
    using assms(1) k db_okD(6) [OF assms(1)] by (intro db_ok_set_images) simp_all
  then show ?thesis by simp
qed

lemma finish_import_db_ok:
  assumes d: "db_ok d" and f: "finish_import i at ps root s d = Inr (im, d')"
  shows "db_ok d'"
proof -
  obtain d1 where d1: "try_fold (import_partition i) d ps = Inr d1"
    and d': "d' = d1\<lparr>images := update_where (\<lambda>r. ir_id r = i \<and> ir_deleted_at r = None)
        (\<lambda>r. r\<lparr>ir_status := Ready, ir_captured_at := at, ir_root := root, ir_sector := uint s\<rparr>) (images d1)\<rparr>"
    using f by (auto simp: finish_import_def Let_def and_then_Inr split: if_splits)
  have "db_ok d1"
    by (rule try_fold_inv [of "upload_partition i" d ps d1 db_ok, OF _ d])
       (use d1 upload_partition_db_ok in \<open>auto simp: import_partitions\<close>)
  then show ?thesis unfolding d' by (rule update_images_db_ok) simp
qed

lemma fault_unfinished_imports_db_ok: "db_ok d \<Longrightarrow> db_ok (fault_unfinished_imports e d)"
  unfolding fault_unfinished_imports_def by (rule update_images_db_ok) simp_all

lemma image_update_db_ok:
  "db_ok d \<Longrightarrow> db_ok (snd (update_image_name i name d))"
  "db_ok d \<Longrightarrow> db_ok (mark_image_finished i now d)"
  "db_ok d \<Longrightarrow> db_ok (mark_image_faulted i e d)"
  "db_ok d \<Longrightarrow> db_ok (write_root i n d)"
  by (simp_all add: update_image_name_def Let_def mark_image_finished_def mark_image_faulted_def
    write_root_def update_image_db_ok)

lemma set_root_partition_db_ok: "db_ok d \<Longrightarrow> set_root_partition i n d = Inr (im, d') \<Longrightarrow> db_ok d'"
  by (auto simp: set_root_partition_def Let_def and_then_Inr image_update_db_ok)

end
