(* ===== verification/Script_Domain.thy ===== *)
theory Script_Domain
  imports Script_Inputs Image_Repo
begin

text \<open>
  \<open>crates/core/src/domain/script.rs\<close>: scripts and scripts attached to an image, the root partition each
  attached script runs on, and \<open>resolve_inputs\<close>, which turns the values given for a deployment into the
  values stored for every host. Its specification is \<open>inputs_fit\<close> (when a deployment is accepted) with
  \<open>given_values\<close> (what each host gets).
\<close>

record script =
  s_id :: int
  s_name :: string
  s_body :: string
  s_updated_at :: time
  s_inputs :: "script_input list"

record new_script =
  ns_name :: string
  ns_body :: string
  ns_inputs :: "script_input list"

record image_script =
  is_script :: script
  is_root_partition :: "int option"

record new_image_script =
  nis_script :: new_script
  nis_root_partition :: "int option"

definition validate_new_script :: "new_script \<Rightarrow> unit result" where
  "validate_new_script s = validate_script (ns_name s) (ns_body s) (ns_inputs s)"

definition script_roots :: "image \<Rightarrow> image_script list \<Rightarrow> int list result" where
  "script_roots im ss =
     collect_map (\<lambda>s.
       ok_or (FailedPrecondition (''image '' @ i_name im @ '' has post-install script `'' @
           s_name (is_script s) @ ''` but no root partition''))
         (case is_root_partition s of Some n \<Rightarrow> Some n | None \<Rightarrow> i_root_partition im)) ss"

subsection \<open>Resolving the inputs of a deployment\<close>

definition unknown_input :: "string \<Rightarrow> app_error" where
  "unknown_input name = InvalidArgument (''no script declares input `'' @ name @ ''`'')"

definition find_declaration :: "script_input list \<Rightarrow> string \<Rightarrow> script_input option" where
  "find_declaration declared name = List.find (\<lambda>i. in_name i = name) declared"

definition check_shared :: "script_input list \<Rightarrow> string \<Rightarrow> unit result" where
  "check_shared declared name =
     (case find_declaration declared name of
        None \<Rightarrow> Inl (unknown_input name)
      | Some i \<Rightarrow>
          if in_per_machine i then Inl (InvalidArgument (''input `'' @ name @ ''` is set per machine''))
          else Inr ())"

definition check_machine :: "script_input list \<Rightarrow> host list \<Rightarrow> int \<times> input_values \<Rightarrow> unit result" where
  "check_machine declared hs hv =
     (if \<not> (\<exists>h \<in> set hs. h_id h = fst hv)
      then Inl (InvalidArgument (''host '' @ int_str (fst hv) @ '' is not part of this deployment''))
      else and_then (collect_map (\<lambda>name.
          case find_declaration declared name of
            None \<Rightarrow> Inl (unknown_input name)
          | Some i \<Rightarrow>
              if \<not> in_per_machine i
              then Inl (InvalidArgument (''input `'' @ name @ ''` is shared by all machines''))
              else Inr ()) (bt_keys (snd hv))) (\<lambda>_. Inr ()))"

definition check_scope :: "script_input list \<Rightarrow> script_input \<Rightarrow> unit result" where
  "check_scope declared i =
     (if \<exists>first \<in> set_option (find_declaration declared (in_name i)). in_per_machine first \<noteq> in_per_machine i
      then Inl (InvalidArgument (''input `'' @ in_name i @ ''` is declared both shared and per machine''))
      else Inr ())"

definition source_of :: "resolved_inputs \<Rightarrow> int \<Rightarrow> script_input \<Rightarrow> input_values" where
  "source_of inputs host_id i =
     (if in_per_machine i
      then (case bt_lookup (rin_per_machine inputs) host_id of None \<Rightarrow> [] | Some values \<Rightarrow> values)
      else rin_shared inputs)"

definition resolve_input :: "resolved_inputs \<Rightarrow> host \<Rightarrow> input_values \<Rightarrow> script_input \<Rightarrow> input_values result" where
  "resolve_input inputs h values i =
     (case value_from i (source_of inputs (h_id h) i) of
        Some v \<Rightarrow>
          and_then (map_err (\<lambda>e. InvalidArgument (h_name h @ '': '' @ e)) (check_value i v))
            (\<lambda>_. Inr (bt_insert (in_name i) v values))
      | None \<Rightarrow>
          if in_required i
          then Inl (InvalidArgument (h_name h @ '': input `'' @ in_name i @ ''` is required''))
          else Inr values)"

definition resolve_inputs ::
  "script list \<Rightarrow> host list \<Rightarrow> resolved_inputs \<Rightarrow> (int, input_values) btree_map result" where
  "resolve_inputs ss hs inputs =
     (let declared = concat (map s_inputs ss) in
      and_then (collect_map (check_shared declared) (bt_keys (rin_shared inputs))) (\<lambda>_.
      and_then (collect_map (check_machine declared hs) (rin_per_machine inputs)) (\<lambda>_.
      and_then (collect_map (check_scope declared) declared) (\<lambda>_.
        try_fold (\<lambda>resolved h.
          and_then (try_fold (resolve_input inputs h) [] declared) (\<lambda>values.
            Inr (bt_insert (h_id h) values resolved))) [] hs))))"

subsection \<open>Specification\<close>

text \<open>What was entered for an input of a host: under the input's name, among the shared values or among the values
  of this host, as the input is declared. An empty entry counts as none, and then the default is used.\<close>

definition entered :: "resolved_inputs \<Rightarrow> int \<Rightarrow> script_input \<Rightarrow> string option" where
  "entered inputs host_id i =
     (if in_per_machine i
      then Option.bind (bt_lookup (rin_per_machine inputs) host_id) (\<lambda>own. bt_lookup own (in_name i))
      else bt_lookup (rin_shared inputs) (in_name i))"

definition used_value :: "resolved_inputs \<Rightarrow> int \<Rightarrow> script_input \<Rightarrow> string option" where
  "used_value inputs host_id i =
     (if entered inputs host_id i \<in> {None, Some []} then in_default i else entered inputs host_id i)"

definition valid_value :: "script_input \<Rightarrow> string \<Rightarrow> bool" where
  "valid_value i v \<longleftrightarrow>
     nul \<notin> set v \<and> (in_kind i = Number \<longrightarrow> parse_f64 (trim v) = Some True) \<and>
     (in_kind i = Choice \<longrightarrow> v \<in> set (in_choices i))"

definition inputs_fit :: "script list \<Rightarrow> host list \<Rightarrow> resolved_inputs \<Rightarrow> bool" where
  "inputs_fit ss hs inputs \<longleftrightarrow>
     (let D = set (concat (map s_inputs ss)) in
      (\<forall>i \<in> D. \<forall>j \<in> D. in_name i = in_name j \<longrightarrow> in_per_machine i = in_per_machine j) \<and>
      (\<forall>n \<in> set (bt_keys (rin_shared inputs)). \<exists>i \<in> D. in_name i = n \<and> \<not> in_per_machine i) \<and>
      (\<forall>hv \<in> set (rin_per_machine inputs). fst hv \<in> h_id ` set hs \<and>
         (\<forall>n \<in> set (bt_keys (snd hv)). \<exists>i \<in> D. in_name i = n \<and> in_per_machine i)) \<and>
      (\<forall>h \<in> set hs. \<forall>i \<in> D.
         case used_value inputs (h_id h) i of None \<Rightarrow> \<not> in_required i | Some v \<Rightarrow> valid_value i v))"

definition given_values :: "script_input list \<Rightarrow> resolved_inputs \<Rightarrow> int \<Rightarrow> (string \<times> string) list" where
  "given_values declared inputs host_id =
     List.map_filter (\<lambda>i. map_option (Pair (in_name i)) (used_value inputs host_id i)) declared"

lemma value_from_source: "value_from i (source_of inputs host_id i) = used_value inputs host_id i"
  by (cases "bt_lookup (rin_per_machine inputs) host_id")
    (auto simp: value_from_def source_of_def used_value_def entered_def bt_lookup_def split: option.splits)

lemma check_value_valid: "check_value i v = Inr () \<longleftrightarrow> valid_value i v"
  by (auto simp: check_value_def valid_value_def split: input_kind.splits option.splits bool.splits)

lemma inputs_fit_code:
  "inputs_fit ss hs inputs \<longleftrightarrow>
     (let D = set (concat (map s_inputs ss)) in
      (\<forall>i \<in> D. \<forall>j \<in> D. in_name i = in_name j \<longrightarrow> in_per_machine i = in_per_machine j) \<and>
      (\<forall>n \<in> set (bt_keys (rin_shared inputs)). \<exists>i \<in> D. in_name i = n \<and> \<not> in_per_machine i) \<and>
      (\<forall>hv \<in> set (rin_per_machine inputs). fst hv \<in> h_id ` set hs \<and>
         (\<forall>n \<in> set (bt_keys (snd hv)). \<exists>i \<in> D. in_name i = n \<and> in_per_machine i)) \<and>
      (\<forall>h \<in> set hs. \<forall>i \<in> D.
         case value_from i (source_of inputs (h_id h) i) of
           None \<Rightarrow> \<not> in_required i
         | Some v \<Rightarrow> check_value i v = Inr ()))"
  unfolding inputs_fit_def value_from_source check_value_valid by (rule refl)

lemma given_values_code:
  "given_values declared inputs host_id =
     List.map_filter (\<lambda>i. map_option (Pair (in_name i)) (value_from i (source_of inputs host_id i))) declared"
  unfolding given_values_def value_from_source by (rule refl)

lemma collect_map_is_ok: "(\<exists>ys. collect_map f xs = Inr ys) \<longleftrightarrow> (\<forall>x \<in> set xs. is_ok (f x))"
proof (induction xs)
  case Nil
  then show ?case by simp
next
  case (Cons x xs)
  then show ?case by (auto simp: and_then_Inr is_ok_iff)
qed

lemma and_then_unit_Inr: "and_then r (\<lambda>_. s) = Inr y \<longleftrightarrow> (\<exists>x. r = Inr x) \<and> s = Inr y"
  by (cases r) auto

lemma is_ok_unit: "is_ok (r :: unit result) \<longleftrightarrow> r = Inr ()"
  by (cases r) auto

lemma find_declaration_Some:
  "find_declaration declared n = Some i \<Longrightarrow> i \<in> set declared \<and> in_name i = n"
  unfolding find_declaration_def by (rule find_member)

lemma find_declaration_None: "find_declaration declared n = None \<longleftrightarrow> n \<notin> in_name ` set declared"
  by (auto simp: find_declaration_def find_None_iff)

lemma check_scope_all:
  "(\<forall>i \<in> set declared. is_ok (check_scope declared i)) \<longleftrightarrow>
   (\<forall>i \<in> set declared. \<forall>j \<in> set declared. in_name i = in_name j \<longrightarrow> in_per_machine i = in_per_machine j)"
proof
  assume ok: "\<forall>i \<in> set declared. is_ok (check_scope declared i)"
  have first: "\<exists>f. find_declaration declared (in_name i) = Some f \<and> in_per_machine f = in_per_machine i"
    if "i \<in> set declared" for i
  proof (cases "find_declaration declared (in_name i)")
    case None
    with that show ?thesis by (simp add: find_declaration_None)
  next
    case (Some f)
    from ok that have "is_ok (check_scope declared i)" by blast
    with Some show ?thesis by (simp add: check_scope_def split: if_splits)
  qed
  show "\<forall>i \<in> set declared. \<forall>j \<in> set declared. in_name i = in_name j \<longrightarrow> in_per_machine i = in_per_machine j"
  proof (intro ballI impI)
    fix i j
    assume "i \<in> set declared" "j \<in> set declared" "in_name i = in_name j"
    with first [of i] first [of j] show "in_per_machine i = in_per_machine j" by auto
  qed
next
  assume same: "\<forall>i \<in> set declared. \<forall>j \<in> set declared. in_name i = in_name j \<longrightarrow> in_per_machine i = in_per_machine j"
  show "\<forall>i \<in> set declared. is_ok (check_scope declared i)"
  proof
    fix i assume "i \<in> set declared"
    then have "in_per_machine f = in_per_machine i" if "find_declaration declared (in_name i) = Some f" for f
      using same [rule_format, of f i] find_declaration_Some [OF that] by simp
    then have "\<not> (\<exists>f \<in> set_option (find_declaration declared (in_name i)). in_per_machine f \<noteq> in_per_machine i)"
      by simp
    then show "is_ok (check_scope declared i)" by (simp add: check_scope_def)
  qed
qed

lemma declared_scope:
  assumes "\<forall>i \<in> set declared. \<forall>j \<in> set declared. in_name i = in_name j \<longrightarrow> in_per_machine i = in_per_machine j"
  shows "(\<exists>i. find_declaration declared n = Some i \<and> in_per_machine i = b) \<longleftrightarrow>
    (\<exists>i \<in> set declared. in_name i = n \<and> in_per_machine i = b)"
proof
  assume "\<exists>i. find_declaration declared n = Some i \<and> in_per_machine i = b"
  then show "\<exists>i \<in> set declared. in_name i = n \<and> in_per_machine i = b" using find_declaration_Some by blast
next
  assume "\<exists>i \<in> set declared. in_name i = n \<and> in_per_machine i = b"
  then obtain i where i: "i \<in> set declared" "in_name i = n" "in_per_machine i = b" by blast
  then obtain f where f: "find_declaration declared n = Some f"
    by (cases "find_declaration declared n") (auto simp: find_declaration_None)
  with find_declaration_Some [OF f] i assms show "\<exists>i. find_declaration declared n = Some i \<and> in_per_machine i = b" by blast
qed

lemma check_shared_ok:
  "is_ok (check_shared declared n) \<longleftrightarrow> (\<exists>i. find_declaration declared n = Some i \<and> in_per_machine i = False)"
  by (cases "find_declaration declared n") (auto simp: check_shared_def)

lemma check_machine_ok:
  "is_ok (check_machine declared hs hv) \<longleftrightarrow> fst hv \<in> h_id ` set hs \<and>
   (\<forall>n \<in> set (bt_keys (snd hv)). \<exists>i. find_declaration declared n = Some i \<and> in_per_machine i = True)"
proof -
  let ?f = "\<lambda>name. case find_declaration declared name of
            None \<Rightarrow> Inl (unknown_input name)
          | Some i \<Rightarrow>
              if \<not> in_per_machine i
              then Inl (InvalidArgument (''input `'' @ name @ ''` is shared by all machines''))
              else Inr ()"
  have f: "is_ok (?f n) \<longleftrightarrow> (\<exists>i. find_declaration declared n = Some i \<and> in_per_machine i = True)" for n
    by (cases "find_declaration declared n") auto
  have "(\<exists>h \<in> set hs. h_id h = fst hv) \<longleftrightarrow> fst hv \<in> h_id ` set hs" by force
  moreover have "is_ok (and_then (collect_map ?f (bt_keys (snd hv))) (\<lambda>_. Inr ())) \<longleftrightarrow>
      (\<forall>n \<in> set (bt_keys (snd hv)). is_ok (?f n))"
    unfolding is_ok_iff and_then_unit_Inr collect_map_is_ok [unfolded is_ok_iff] by blast
  ultimately show ?thesis unfolding check_machine_def f by simp
qed

lemma resolve_input_fold:
  "try_fold (resolve_input inputs h) m declared = Inr m' \<longleftrightarrow>
   (\<forall>i \<in> set declared. case value_from i (source_of inputs (h_id h) i) of
      None \<Rightarrow> \<not> in_required i | Some v \<Rightarrow> check_value i v = Inr ()) \<and>
   m' = fold (\<lambda>(k, v). bt_insert k v) (given_values declared inputs (h_id h)) m"
proof (induction declared arbitrary: m)
  case Nil
  then show ?case by (auto simp: given_values_code List.map_filter_def)
next
  case (Cons i declared)
  show ?case
  proof (cases "value_from i (source_of inputs (h_id h) i)")
    case None
    then show ?thesis using Cons.IH
      by (cases "in_required i") (simp_all add: resolve_input_def given_values_code map_filter_simps)
  next
    case (Some v)
    then show ?thesis using Cons.IH
      by (cases "check_value i v") (simp_all add: resolve_input_def given_values_code map_filter_simps)
  qed
qed

lemma resolve_hosts_fold:
  assumes "bt_inv m"
  shows "try_fold (\<lambda>resolved h. and_then (f h) (\<lambda>values. Inr (bt_insert (h_id h) values resolved))) m hs = Inr m' \<longleftrightarrow>
    (\<exists>out. collect_map (\<lambda>h. and_then (f h) (\<lambda>v. Inr (h_id h, v))) hs = Inr out \<and>
      m' = fold (\<lambda>(k, v). bt_insert k v) out m)"
  using assms
proof (induction hs arbitrary: m)
  case Nil
  then show ?case by auto
next
  case (Cons h hs)
  show ?case
  proof (cases "f h")
    case (Inr v)
    then show ?thesis using Cons.IH [OF bt.inv_insert [OF Cons.prems]] by (auto simp: and_then_Inr)
  qed simp
qed

lemma resolve_inputs_unfold:
  "resolve_inputs ss hs inputs = Inr r \<longleftrightarrow> inputs_fit ss hs inputs \<and>
   r = bt_of_list (map (\<lambda>h. (h_id h, bt_of_list (given_values (concat (map s_inputs ss)) inputs (h_id h)))) hs)"
proof -
  define D where "D = concat (map s_inputs ss)"
  let ?vals = "\<lambda>h. try_fold (resolve_input inputs h) [] D"
  let ?ok = "\<lambda>h. \<forall>i \<in> set D. case value_from i (source_of inputs (h_id h) i) of
      None \<Rightarrow> \<not> in_required i | Some v \<Rightarrow> check_value i v = Inr ()"
  have vals: "?vals h = Inr v \<longleftrightarrow> ?ok h \<and> v = bt_of_list (given_values D inputs (h_id h))" for h v
    unfolding resolve_input_fold bt_of_list_def by blast
  have out: "collect_map (\<lambda>h. and_then (?vals h) (\<lambda>v. Inr (h_id h, v))) xs = Inr out \<longleftrightarrow>
      (\<forall>h \<in> set xs. ?ok h) \<and> out = map (\<lambda>h. (h_id h, bt_of_list (given_values D inputs (h_id h)))) xs" for xs out
  proof (induction xs arbitrary: out)
    case Nil
    then show ?case by auto
  next
    case (Cons h xs)
    have "collect_map (\<lambda>h. and_then (?vals h) (\<lambda>v. Inr (h_id h, v))) (h # xs) = Inr out \<longleftrightarrow>
        (\<exists>v out'. ?vals h = Inr v \<and> collect_map (\<lambda>h. and_then (?vals h) (\<lambda>v. Inr (h_id h, v))) xs = Inr out' \<and>
          out = (h_id h, v) # out')"
      by (auto simp: and_then_Inr)
    then show ?case unfolding vals Cons.IH by auto
  qed
  have hosts: "try_fold (\<lambda>resolved h. and_then (?vals h) (\<lambda>values. Inr (bt_insert (h_id h) values resolved))) [] hs = Inr r \<longleftrightarrow>
      (\<forall>h \<in> set hs. ?ok h) \<and>
      r = bt_of_list (map (\<lambda>h. (h_id h, bt_of_list (given_values D inputs (h_id h)))) hs)"
    unfolding resolve_hosts_fold [OF bt.inv_empty] out bt_of_list_def by blast
  let ?same = "\<forall>i \<in> set D. \<forall>j \<in> set D. in_name i = in_name j \<longrightarrow> in_per_machine i = in_per_machine j"
  have shared: "(\<forall>n \<in> set (bt_keys (rin_shared inputs)). is_ok (check_shared D n)) \<longleftrightarrow>
      (\<forall>n \<in> set (bt_keys (rin_shared inputs)). \<exists>i \<in> set D. in_name i = n \<and> \<not> in_per_machine i)" if ?same
    unfolding check_shared_ok declared_scope [OF that] by simp
  have machine: "(\<forall>hv \<in> set (rin_per_machine inputs). is_ok (check_machine D hs hv)) \<longleftrightarrow>
      (\<forall>hv \<in> set (rin_per_machine inputs). fst hv \<in> h_id ` set hs \<and>
         (\<forall>n \<in> set (bt_keys (snd hv)). \<exists>i \<in> set D. in_name i = n \<and> in_per_machine i))" if ?same
    unfolding check_machine_ok declared_scope [OF that] by simp
  have "resolve_inputs ss hs inputs = Inr r \<longleftrightarrow>
      (\<forall>n \<in> set (bt_keys (rin_shared inputs)). is_ok (check_shared D n)) \<and>
      (\<forall>hv \<in> set (rin_per_machine inputs). is_ok (check_machine D hs hv)) \<and>
      (\<forall>i \<in> set D. is_ok (check_scope D i)) \<and>
      try_fold (\<lambda>resolved h. and_then (?vals h) (\<lambda>values. Inr (bt_insert (h_id h) values resolved))) [] hs = Inr r"
    unfolding resolve_inputs_def Let_def D_def [symmetric] and_then_unit_Inr collect_map_is_ok by blast
  also have "\<dots> \<longleftrightarrow> inputs_fit ss hs inputs \<and>
      r = bt_of_list (map (\<lambda>h. (h_id h, bt_of_list (given_values D inputs (h_id h)))) hs)"
    unfolding check_scope_all hosts inputs_fit_code Let_def D_def [symmetric] using shared machine by blast
  finally show ?thesis unfolding D_def .
qed

lemma map_of_keyed: "h \<in> set hs \<Longrightarrow> map_of (rev (map (\<lambda>h. (k h, f (k h))) hs)) (k h) = Some (f (k h))"
proof -
  assume "h \<in> set hs"
  then have "k h \<in> fst ` set (rev (map (\<lambda>h. (k h, f (k h))) hs))" by (auto simp: image_iff)
  then obtain v where v: "map_of (rev (map (\<lambda>h. (k h, f (k h))) hs)) (k h) = Some v"
    by (cases "map_of (rev (map (\<lambda>h. (k h, f (k h))) hs)) (k h)") (auto simp: map_of_eq_None_iff)
  from map_of_SomeD [OF v] have "v = f (k h)" by auto
  with v show ?thesis by simp
qed

text \<open>C11: the inputs of a deployment are accepted exactly when they fit: every name is declared in one scope
  only, shared values name shared inputs, values per machine name hosts of the deployment and inputs per
  machine, and every declared input has, for every host, a valid value or is optional. Then exactly the
  hosts get values, and a host's value of a name is the one its last declaration uses: the value entered among the shared
  values or for this very host, as the input is declared, or else the default. So no value entered for another host
  can reach it: two deployments with the same shared values and the same values of this host give it the same.\<close>

theorem resolve_inputs_correct:
  shows "((\<exists>r. resolve_inputs ss hs inputs = Inr r) \<longleftrightarrow> inputs_fit ss hs inputs) \<and>
    (\<forall>r. resolve_inputs ss hs inputs = Inr r \<longrightarrow>
      dom (bt_lookup r) = h_id ` set hs \<and>
      (\<forall>h \<in> set hs. \<exists>values. bt_lookup r (h_id h) = Some values \<and> bt_inv values \<and>
        bt_lookup values = map_of (rev (given_values (concat (map s_inputs ss)) inputs (h_id h))) \<and>
        (\<forall>inputs' r'. resolve_inputs ss hs inputs' = Inr r' \<longrightarrow> rin_shared inputs' = rin_shared inputs \<longrightarrow>
           bt_lookup (rin_per_machine inputs') (h_id h) = bt_lookup (rin_per_machine inputs) (h_id h) \<longrightarrow>
           bt_lookup r' (h_id h) = Some values)))"
proof -
  let ?v = "\<lambda>inputs i. bt_of_list (given_values (concat (map s_inputs ss)) inputs i)"
  have r: "bt_lookup r = map_of (rev (map (\<lambda>h. (h_id h, ?v inputs (h_id h))) hs))"
    if "resolve_inputs ss hs inputs = Inr r" for inputs r
    using that unfolding resolve_inputs_unfold by (simp add: bt_of_list_lookup)
  have at: "bt_lookup r (h_id h) = Some (?v inputs (h_id h))"
    if "resolve_inputs ss hs inputs = Inr r" "h \<in> set hs" for inputs r h
    unfolding r [OF that(1)] using map_of_keyed [OF that(2), of h_id "?v inputs"] by simp
  have own: "?v inputs' j = ?v inputs j"
    if "rin_shared inputs' = rin_shared inputs" "bt_lookup (rin_per_machine inputs') j = bt_lookup (rin_per_machine inputs) j"
    for inputs' j
  proof -
    have "entered inputs' j = entered inputs j" using that by (simp add: entered_def fun_eq_iff)
    then show ?thesis by (simp add: given_values_def used_value_def cong: if_cong)
  qed
  have "dom (bt_lookup r) = h_id ` set hs" if "resolve_inputs ss hs inputs = Inr r" for r
    unfolding r [OF that] by (force simp: dom_map_of_conv_image_fst)
  moreover have "\<exists>values. bt_lookup r (h_id h) = Some values \<and> bt_inv values \<and>
      bt_lookup values = map_of (rev (given_values (concat (map s_inputs ss)) inputs (h_id h))) \<and>
      (\<forall>inputs' r'. resolve_inputs ss hs inputs' = Inr r' \<longrightarrow> rin_shared inputs' = rin_shared inputs \<longrightarrow>
         bt_lookup (rin_per_machine inputs') (h_id h) = bt_lookup (rin_per_machine inputs) (h_id h) \<longrightarrow>
         bt_lookup r' (h_id h) = Some values)" if "resolve_inputs ss hs inputs = Inr r" "h \<in> set hs" for r h
  proof (intro exI [of _ "?v inputs (h_id h)"] conjI allI impI)
    show "bt_lookup r (h_id h) = Some (?v inputs (h_id h))" by (rule at [OF that])
    show "bt_inv (?v inputs (h_id h))"
      "bt_lookup (?v inputs (h_id h)) = map_of (rev (given_values (concat (map s_inputs ss)) inputs (h_id h)))"
      by (simp_all add: bt_of_list_lookup)
    fix inputs' r'
    assume "resolve_inputs ss hs inputs' = Inr r'" and same: "rin_shared inputs' = rin_shared inputs"
      "bt_lookup (rin_per_machine inputs') (h_id h) = bt_lookup (rin_per_machine inputs) (h_id h)"
    from at [OF this(1) that(2)] show "bt_lookup r' (h_id h) = Some (?v inputs (h_id h))"
      unfolding own [OF same] .
  qed
  ultimately show ?thesis
    using resolve_inputs_unfold [of ss hs inputs] by blast
qed

theorem resolve_inputs_correct_witness:
  "\<exists>r values. resolve_inputs
     [\<lparr>s_id = 1, s_name = ''setup'', s_body = ''#!/bin/sh'', s_updated_at = 0, s_inputs =
        [\<lparr>in_name = ''site'', in_label = ''Site'', in_description = None, in_kind = Text, in_required = True,
          in_default = None, in_per_machine = False, in_choices = []\<rparr>]\<rparr>]
     [\<lparr>h_id = 1, h_name = ''rack-1'', h_mac_address = [], h_disk = Inr 0, h_ip = None, h_partitions = []\<rparr>]
     \<lparr>rin_shared = [(''site'', ''lab'')], rin_per_machine = []\<rparr> = Inr r \<and>
   bt_lookup r 1 = Some values \<and> bt_lookup values ''site'' = Some ''lab''"
proof -
  let ?i = "\<lparr>in_name = ''site'', in_label = ''Site'', in_description = None, in_kind = Text, in_required = True,
          in_default = None, in_per_machine = False, in_choices = []\<rparr>"
  let ?ss = "[\<lparr>s_id = 1, s_name = ''setup'', s_body = ''#!/bin/sh'', s_updated_at = 0, s_inputs = [?i]\<rparr>]"
  let ?hs = "[\<lparr>h_id = 1, h_name = ''rack-1'', h_mac_address = [], h_disk = Inr 0, h_ip = None, h_partitions = []\<rparr>]"
  let ?given = "\<lparr>rin_shared = [(''site'', ''lab'')], rin_per_machine = []\<rparr>"
  have "nul \<notin> set ''lab''" by code_simp
  then have "inputs_fit ?ss ?hs ?given"
    by (simp add: inputs_fit_def bt_keys_def used_value_def entered_def bt_lookup_def valid_value_def)
  with resolve_inputs_correct [of ?ss ?hs ?given] obtain r where "resolve_inputs ?ss ?hs ?given = Inr r" by blast
  moreover with resolve_inputs_correct [of ?ss ?hs ?given] obtain vs where "bt_lookup r 1 = Some vs"
    "bt_lookup vs = map_of (rev (given_values (concat (map s_inputs ?ss)) ?given 1))" by auto
  moreover have "given_values (concat (map s_inputs ?ss)) ?given 1 = [(''site'', ''lab'')]"
    by (simp add: given_values_def map_filter_simps used_value_def entered_def bt_lookup_def)
  ultimately show ?thesis by simp
qed

end
