(* ===== verification/Script_Repo.thy ===== *)
theory Script_Repo
  imports Script_Domain
begin

text \<open>
  \<open>crates/core/src/repository/script.rs\<close>: storing scripts with their inputs, attaching scripts to an image,
  and importing the scripts of an image archive, which never touches a script another image uses: a
  script whose name is taken by another one is stored under the name with a number. Every operation is
  one transaction; an error leaves the database as it was. Theory \<open>Script_Import\<close> has the properties.
\<close>

subsection \<open>Rows\<close>

text \<open>The derived \<open>FromStr\<close> of the input kind comes from \<open>derive_more\<close>: the parameter \<open>from_str\<close>.\<close>

definition input_kind_of :: "(string \<Rightarrow> input_kind option) \<Rightarrow> string \<Rightarrow> input_kind result" where
  "input_kind_of from_str v = ok_or (Internal ''conversion error'') (from_str v)"

definition load_inputs :: "db \<Rightarrow> int \<Rightarrow> script_input list" where
  "load_inputs d sid = map sir_input (sort_key sir_position (filter (\<lambda>r. sir_script r = sid) (script_inputs d)))"

text \<open>The inputs are taken out of a map by id, so a script listed twice has them once.\<close>

fun assemble_scripts :: "db \<Rightarrow> int list \<Rightarrow> script_row list \<Rightarrow> script list" where
  "assemble_scripts d taken [] = []"
| "assemble_scripts d taken (r # rs) =
     \<lparr>s_id = scr_id r, s_name = scr_name r, s_body = scr_body r, s_updated_at = scr_updated_at r,
      s_inputs = (if scr_id r \<in> set taken then [] else load_inputs d (scr_id r))\<rparr>
     # assemble_scripts d (scr_id r # taken) rs"

definition get_all_scripts :: "db \<Rightarrow> script list" where
  "get_all_scripts d = assemble_scripts d [] (sort_key scr_name (scripts d))"

definition script_row_of :: "db \<Rightarrow> int \<Rightarrow> script_row option" where
  "script_row_of d sid = List.find (\<lambda>r. scr_id r = sid) (scripts d)"

definition get_script :: "db \<Rightarrow> int \<Rightarrow> script result" where
  "get_script d sid =
     and_then (ok_or (NotFound (''script '' @ int_str sid)) (script_row_of d sid))
       (\<lambda>r. Inr (hd (assemble_scripts d [] [r])))"

subsection \<open>Writing\<close>

definition insert_input :: "int \<Rightarrow> db \<Rightarrow> nat \<times> script_input \<Rightarrow> db result" where
  "insert_input sid d pi =
     (if (sid, int (fst pi)) \<in> set (map (\<lambda>r. (sir_script r, sir_position r)) (script_inputs d))
      then Inl (unique_violation ''script_inputs.script_id, script_inputs.position'')
      else if (sid, in_name (snd pi)) \<in> set (map (\<lambda>r. (sir_script r, in_name (sir_input r))) (script_inputs d))
      then Inl (unique_violation ''script_inputs.script_id, script_inputs.name'')
      else if sid \<notin> set (map scr_id (scripts d)) then Inl foreign_key_violation
      else Inr (d\<lparr>script_inputs := script_inputs d @
             [\<lparr>sir_script = sid, sir_position = int (fst pi), sir_input = snd pi\<rparr>]\<rparr>))"

definition insert_inputs :: "int \<Rightarrow> new_script \<Rightarrow> db \<Rightarrow> db result" where
  "insert_inputs sid s d = try_fold (insert_input sid) d (enumerate 0 (ns_inputs s))"

definition write_script :: "int option \<Rightarrow> string \<Rightarrow> new_script \<Rightarrow> time \<Rightarrow> db \<Rightarrow> (int \<times> db) result" where
  "write_script id_opt name s now d =
     and_then
       (case id_opt of
          None \<Rightarrow>
            if name \<in> set (map scr_name (scripts d)) then Inl (unique_violation ''scripts.name'')
            else Inr (next_script d,
              d\<lparr>scripts := scripts d @ [\<lparr>scr_id = next_script d, scr_name = name, scr_body = ns_body s,
                  scr_updated_at = now\<rparr>], next_script := next_script d + 1\<rparr>)
        | Some sid \<Rightarrow>
            if \<exists>r \<in> set (scripts d). scr_id r \<noteq> sid \<and> scr_name r = name \<and> sid \<in> set (map scr_id (scripts d))
            then Inl (unique_violation ''scripts.name'')
            else if sid \<notin> set (map scr_id (scripts d)) then Inl (NotFound (''script '' @ int_str sid))
            else Inr (sid,
              d\<lparr>scripts := update_where (\<lambda>r. scr_id r = sid)
                  (\<lambda>r. r\<lparr>scr_name := name, scr_body := ns_body s, scr_updated_at := now\<rparr>) (scripts d),
                script_inputs := delete_where (\<lambda>r. sir_script r = sid) (script_inputs d)\<rparr>))
       (\<lambda>(sid, d). and_then (insert_inputs sid s d) (\<lambda>d. Inr (sid, d)))"

definition create_script :: "new_script \<Rightarrow> time \<Rightarrow> db \<Rightarrow> (script \<times> db) result" where
  "create_script s now d =
     and_then (validate_new_script s) (\<lambda>_.
     and_then (write_script None (ns_name s) s now d) (\<lambda>(sid, d).
     and_then (get_script d sid) (\<lambda>sc. Inr (sc, d))))"

definition update_script :: "int \<Rightarrow> new_script \<Rightarrow> time \<Rightarrow> db \<Rightarrow> (script \<times> db) result" where
  "update_script sid s now d =
     and_then (validate_new_script s) (\<lambda>_.
     and_then (write_script (Some sid) (ns_name s) s now d) (\<lambda>(_, d).
     and_then (get_script d sid) (\<lambda>sc. Inr (sc, d))))"

definition script_users :: "db \<Rightarrow> int \<Rightarrow> string list" where
  "script_users d sid =
     remdups_adj (sort (map ir_name
       (filter (\<lambda>i. \<exists>l \<in> set (image_scripts d). isr_image l = ir_id i \<and> isr_script l = sid) (images d))))"

definition delete_script :: "int \<Rightarrow> db \<Rightarrow> db result" where
  "delete_script sid d =
     (if script_users d sid \<noteq> []
      then Inl (FailedPrecondition (''script '' @ int_str sid @ '' is used by image '' @ join '', '' (script_users d sid)))
      else if \<exists>l \<in> set (image_scripts d). isr_script l = sid \<and> sid \<in> set (map scr_id (scripts d))
      then Inl foreign_key_violation
      else if sid \<notin> set (map scr_id (scripts d)) then Inl (NotFound (''script '' @ int_str sid))
      else Inr (d\<lparr>scripts := delete_where (\<lambda>r. scr_id r = sid) (scripts d),
                  script_inputs := delete_where (\<lambda>r. sir_script r = sid) (script_inputs d)\<rparr>))"

subsection \<open>Attaching scripts to an image\<close>

definition link_one :: "int \<Rightarrow> (int \<times> int option) list \<Rightarrow> db \<Rightarrow> nat \<times> int \<times> int option \<Rightarrow> db result" where
  "link_one im linked d x =
     (let (position, sid, root) = x in
      if sid \<in> set (map fst (take position linked))
      then Inl (InvalidArgument (''script '' @ int_str sid @ '' is listed twice''))
      else if script_row_of d sid = None then Inl (NotFound (''script '' @ int_str sid))
      else if (im, int position) \<in> set (map (\<lambda>l. (isr_image l, isr_position l)) (image_scripts d))
      then Inl (unique_violation ''image_scripts.image_id, image_scripts.position'')
      else Inr (d\<lparr>image_scripts := image_scripts d @
             [\<lparr>isr_image = im, isr_position = int position, isr_script = sid, isr_root = root\<rparr>]\<rparr>))"

definition link_scripts :: "int \<Rightarrow> (int \<times> int option) list \<Rightarrow> db \<Rightarrow> db result" where
  "link_scripts im linked d =
     (if \<not> (\<exists>r \<in> set (images d). ir_id r = im \<and> ir_deleted_at r = None)
      then Inl (NotFound (''image '' @ int_str im))
      else try_fold (link_one im linked)
             (d\<lparr>image_scripts := delete_where (\<lambda>l. isr_image l = im) (image_scripts d)\<rparr>)
             (enumerate 0 linked))"

definition get_for_image :: "db \<Rightarrow> int \<Rightarrow> image_script list" where
  "get_for_image d im =
     (let rows = concat (map (\<lambda>l. map (\<lambda>r. (r, isr_root l)) (filter (\<lambda>r. scr_id r = isr_script l) (scripts d)))
          (sort_key isr_position (filter (\<lambda>l. isr_image l = im) (image_scripts d))))
      in map (\<lambda>(s, root). \<lparr>is_script = s, is_root_partition = root\<rparr>)
           (zip (assemble_scripts d [] (map fst rows)) (map snd rows)))"

definition set_for_image :: "int \<Rightarrow> int list \<Rightarrow> db \<Rightarrow> db result" where
  "set_for_image im ids d =
     (let roots = map_of (rev (map (\<lambda>l. (isr_script l, isr_root l))
            (filter (\<lambda>l. isr_image l = im) (image_scripts d))));
          linked = map (\<lambda>sid. (sid, case roots sid of None \<Rightarrow> None | Some root \<Rightarrow> root)) ids
      in link_scripts im linked d)"

definition set_root_for_image :: "int \<Rightarrow> int \<Rightarrow> int option \<Rightarrow> db \<Rightarrow> db result" where
  "set_root_for_image im position number d =
     (if \<exists>n \<in> set_option number. \<not> (\<exists>p \<in> set (image_parts d). ipr_image p = im \<and> ipr_number p = n)
      then Inl (InvalidArgument (''image '' @ int_str im @ '' has no partition '' @ int_str (the number)))
      else if \<not> (\<exists>l \<in> set (image_scripts d). isr_image l = im \<and> isr_position l = position)
      then Inl (NotFound (''image '' @ int_str im @ '' has no script at position '' @ int_str position))
      else Inr (d\<lparr>image_scripts := update_where (\<lambda>l. isr_image l = im \<and> isr_position l = position)
             (\<lambda>l. l\<lparr>isr_root := number\<rparr>) (image_scripts d)\<rparr>))"

subsection \<open>Importing\<close>

definition used_by_other_images :: "db \<Rightarrow> int \<Rightarrow> int \<Rightarrow> bool" where
  "used_by_other_images d sid im \<longleftrightarrow> (\<exists>l \<in> set (image_scripts d). isr_script l = sid \<and> isr_image l \<noteq> im)"

definition import_name :: "string \<Rightarrow> nat \<Rightarrow> string" where
  "import_name name attempt =
     (if attempt = 1 then name
      else let suffix = CHR ''-'' # nat_str attempt
           in take (min (length name) (MAX_SCRIPT_NAME_LEN - length suffix)) name @ suffix)"

lemma import_name_inj: "inj_on (import_name name) {2..}"
proof (rule inj_onI)
  fix a b :: nat
  assume ab: "a \<in> {2..}" "b \<in> {2..}" and eq: "import_name name a = import_name name b"
  have last: "takeWhile (\<lambda>c. c \<noteq> CHR ''-'') (rev (import_name name k)) = rev (nat_str k)" if "k \<in> {2..}" for k
  proof -
    have "k \<noteq> 1" using that by simp
    then have "import_name name k = take (min (length name) (MAX_SCRIPT_NAME_LEN - length (CHR ''-'' # nat_str k))) name
        @ CHR ''-'' # nat_str k"
      by (simp add: import_name_def Let_def)
    then obtain base where "import_name name k = base @ CHR ''-'' # nat_str k" by blast
    then have split: "rev (import_name name k) = rev (nat_str k) @ CHR ''-'' # rev base" by simp
    have "takeWhile (\<lambda>c. c \<noteq> CHR ''-'') (rev (nat_str k) @ CHR ''-'' # rev base) =
        rev (nat_str k) @ takeWhile (\<lambda>c. c \<noteq> CHR ''-'') (CHR ''-'' # rev base)"
      by (rule takeWhile_append2) (metis nat_str_no_minus set_rev)
    also have "\<dots> = rev (nat_str k)" by simp
    finally show ?thesis unfolding split .
  qed
  have "rev (nat_str a) = rev (nat_str b)" using last [OF ab(1)] last [OF ab(2)] unfolding eq by (rule trans [OF sym])
  then show "a = b" by simp
qed

lemma import_names_finite: "finite {k. attempt \<le> k \<and> import_name name k \<in> set names}"
proof -
  have "finite (import_name name -` set names \<inter> {2..})"
    by (rule finite_vimage_IntI) (simp_all add: import_name_inj)
  moreover have "{k. attempt \<le> k \<and> import_name name k \<in> set names} \<subseteq> (import_name name -` set names \<inter> {2..}) \<union> {..<2}"
    by auto
  ultimately show ?thesis by (meson finite_UnI finite_lessThan finite_subset)
qed

function import_from :: "int \<Rightarrow> new_script \<Rightarrow> time \<Rightarrow> db \<Rightarrow> nat \<Rightarrow> (int \<times> db) result" where
  "import_from im s now d attempt =
     (let name = import_name (ns_name s) attempt in
      case List.find (\<lambda>r. scr_name r = name) (scripts d) of
        None \<Rightarrow> write_script None name s now d
      | Some r \<Rightarrow>
          if scr_body r = ns_body s \<and> load_inputs d (scr_id r) = ns_inputs s then Inr (scr_id r, d)
          else if attempt = 1 \<and> \<not> used_by_other_images d (scr_id r) im
          then write_script (Some (scr_id r)) name s now d
          else import_from im s now d (attempt + 1))"
  by pat_completeness auto
termination
proof (relation "measure (\<lambda>(im, s, now, d, attempt).
    card {k. attempt \<le> k \<and> import_name (ns_name s) k \<in> set (map scr_name (scripts d))})")
  fix im s now d attempt name r
  assume name: "name = import_name (ns_name s) attempt"
    and r: "List.find (\<lambda>r. scr_name r = name) (scripts d) = Some r"
  let ?A = "\<lambda>a. {k. a \<le> k \<and> import_name (ns_name s) k \<in> set (map scr_name (scripts d))}"
  have "attempt \<in> ?A attempt" using find_member [OF r] name by force
  moreover have "attempt \<notin> ?A (attempt + 1)" "?A (attempt + 1) \<subseteq> ?A attempt" by auto
  ultimately have "?A (attempt + 1) \<subset> ?A attempt" by blast
  then have "card (?A (attempt + 1)) < card (?A attempt)" by (rule psubset_card_mono [OF import_names_finite])
  then show "((im, s, now, d, attempt + 1), im, s, now, d, attempt) \<in> measure (\<lambda>(im, s, now, d, attempt).
    card {k. attempt \<le> k \<and> import_name (ns_name s) k \<in> set (map scr_name (scripts d))})" by simp
qed simp

declare import_from.simps [simp del]

definition import_script :: "int \<Rightarrow> new_script \<Rightarrow> time \<Rightarrow> db \<Rightarrow> (int \<times> db) result" where
  "import_script im s now d = import_from im s now d 1"

fun import_all :: "int \<Rightarrow> new_image_script list \<Rightarrow> time \<Rightarrow> db \<Rightarrow> ((int \<times> int option) list \<times> db) result" where
  "import_all im [] now d = Inr ([], d)"
| "import_all im (s # ss) now d =
     and_then (import_script im (nis_script s) now d) (\<lambda>(sid, d).
     and_then (import_all im ss now d) (\<lambda>(linked, d). Inr ((sid, nis_root_partition s) # linked, d)))"

definition import_for_image :: "int \<Rightarrow> new_image_script list \<Rightarrow> time \<Rightarrow> db \<Rightarrow> db result" where
  "import_for_image im ss now d =
     and_then (collect_map (\<lambda>s. validate_new_script (nis_script s)) ss) (\<lambda>_.
     and_then (import_all im ss now d) (\<lambda>(linked, d). link_scripts im linked d))"

end
