(* ===== verification/Script_Import.thy ===== *)
theory Script_Import
  imports Script_Repo "HOL-Library.Code_Target_Nat"
begin

text \<open>
  What the script repository guarantees: a script is stored and read back with its inputs in order,
  attaching scripts replaces an image's list as a whole, and an import leaves the scripts of other
  images as they are.
\<close>

subsection \<open>Inserting inputs\<close>

definition input_rows :: "int \<Rightarrow> nat \<Rightarrow> script_input list \<Rightarrow> script_input_row list" where
  "input_rows sid n is = map (\<lambda>(p, i). \<lparr>sir_script = sid, sir_position = int p, sir_input = i\<rparr>) (enumerate n is)"

lemma input_rows_simps [simp]:
  "input_rows sid n [] = []"
  "input_rows sid n (i # is) = \<lparr>sir_script = sid, sir_position = int n, sir_input = i\<rparr> # input_rows sid (Suc n) is"
  by (simp_all add: input_rows_def)

lemma input_rows_inputs: "map sir_input (input_rows sid n is) = is"
  by (induction "is" arbitrary: n) simp_all

lemma input_rows_member: "r \<in> set (input_rows sid n is) \<Longrightarrow> sir_script r = sid \<and> int n \<le> sir_position r"
proof (induction "is" arbitrary: n)
  case (Cons i "is")
  then show ?case
  proof (cases "r \<in> set (input_rows sid (Suc n) is)")
    case True
    from Cons.IH [OF this] show ?thesis by simp
  qed simp
qed simp

lemma input_rows_sorted: "sorted (map sir_position (input_rows sid n is))"
proof (induction "is" arbitrary: n)
  case (Cons i "is")
  have "int n \<le> sir_position r" if "r \<in> set (input_rows sid (Suc n) is)" for r
    using input_rows_member [OF that] by simp
  then show ?case using Cons by simp
qed simp

lemmas input_rows_facts = input_rows_inputs input_rows_member input_rows_sorted

lemma input_rows_distinct: "distinct (map sir_position (input_rows sid n is))"
proof (induction "is" arbitrary: n)
  case (Cons i "is")
  have "int n \<notin> sir_position ` set (input_rows sid (Suc n) is)"
    using input_rows_facts(2) [of _ sid "Suc n" "is"] by force
  with Cons show ?case by simp
qed simp

lemma insert_inputs_Inr:
  assumes "\<forall>r \<in> set (script_inputs d). sir_script r = sid \<longrightarrow> sir_position r < int n"
  shows "try_fold (insert_input sid) d (enumerate n is) = Inr d' \<longleftrightarrow>
    distinct (map in_name is) \<and>
    (\<forall>r \<in> set (script_inputs d). sir_script r = sid \<longrightarrow> in_name (sir_input r) \<notin> in_name ` set is) \<and>
    (is = [] \<or> sid \<in> scr_id ` set (scripts d)) \<and>
    d' = d\<lparr>script_inputs := script_inputs d @ input_rows sid n is\<rparr>"
  using assms
proof (induction "is" arbitrary: d n)
  case Nil
  then show ?case by auto
next
  case (Cons i "is")
  let ?r = "\<lparr>sir_script = sid, sir_position = int n, sir_input = i\<rparr>"
  let ?d = "d\<lparr>script_inputs := script_inputs d @ [?r]\<rparr>"
  have pos: "(sid, int n) \<notin> (\<lambda>r. (sir_script r, sir_position r)) ` set (script_inputs d)"
    using Cons.prems by force
  have one: "insert_input sid d (n, i) = Inr x \<longleftrightarrow>
      (sid, in_name i) \<notin> (\<lambda>r. (sir_script r, in_name (sir_input r))) ` set (script_inputs d) \<and>
      sid \<in> scr_id ` set (scripts d) \<and> x = ?d" for x
    using pos by (auto simp: insert_input_def)
  have "\<forall>r \<in> set (script_inputs ?d). sir_script r = sid \<longrightarrow> sir_position r < int (Suc n)"
    using Cons.prems by auto
  from Cons.IH [OF this]
  have ih: "try_fold (insert_input sid) ?d (enumerate (Suc n) is) = Inr d' \<longleftrightarrow>
      distinct (map in_name is) \<and>
      (\<forall>r \<in> set (script_inputs d @ [?r]). sir_script r = sid \<longrightarrow> in_name (sir_input r) \<notin> in_name ` set is) \<and>
      (is = [] \<or> sid \<in> scr_id ` set (scripts d)) \<and>
      d' = d\<lparr>script_inputs := script_inputs d @ input_rows sid n (i # is)\<rparr>"
    by simp
  have "try_fold (insert_input sid) d (enumerate n (i # is)) = Inr d' \<longleftrightarrow>
      (sid, in_name i) \<notin> (\<lambda>r. (sir_script r, in_name (sir_input r))) ` set (script_inputs d) \<and>
      sid \<in> scr_id ` set (scripts d) \<and> try_fold (insert_input sid) ?d (enumerate (Suc n) is) = Inr d'"
    using one by (auto simp: and_then_Inr)
  then show ?case unfolding ih by (auto simp: image_iff)
qed

lemma load_inputs_new:
  assumes "\<forall>r \<in> set (script_inputs d). sir_script r \<noteq> sid"
    and "script_inputs d' = script_inputs d @ input_rows sid n is"
  shows "load_inputs d' sid = is" "k \<noteq> sid \<Longrightarrow> load_inputs d' k = load_inputs d k"
proof -
  have "filter (\<lambda>r. sir_script r = sid) (script_inputs d) = []"
    using assms(1) by (simp add: filter_empty_conv)
  moreover have "filter (\<lambda>r. sir_script r = sid) (input_rows sid n is) = input_rows sid n is"
    unfolding filter_id_conv using input_rows_facts(2) by blast
  ultimately have "filter (\<lambda>r. sir_script r = sid) (script_inputs d') = input_rows sid n is"
    by (simp add: assms(2))
  moreover have "sort_key sir_position (input_rows sid n is) = input_rows sid n is"
    by (rule sort_key_id_if_sorted [OF input_rows_facts(3)])
  ultimately show "load_inputs d' sid = is" by (simp add: load_inputs_def input_rows_facts(1))
  assume "k \<noteq> sid"
  then have "filter (\<lambda>r. sir_script r = k) (input_rows sid n is) = []"
    using input_rows_facts(2) by (force simp: filter_empty_conv)
  then show "load_inputs d' k = load_inputs d k" by (simp add: load_inputs_def assms(2))
qed

lemma new_inputs_db_ok:
  assumes d: "db_ok d" and none: "\<forall>r \<in> set (script_inputs d). sir_script r \<noteq> sid"
    and "distinct (map in_name is)" "is = [] \<or> sid \<in> scr_id ` set (scripts d)"
  shows "db_ok (d\<lparr>script_inputs := script_inputs d @ input_rows sid n is\<rparr>)"
proof (rule db_ok_set_script_inputs [OF d])
  let ?new = "input_rows sid n is"
  have new: "sir_script r = sid" if "r \<in> set ?new" for r using input_rows_facts(2) [OF that] by blast
  have "inj_on sir_position (set ?new)" "distinct ?new"
    using input_rows_distinct [of sid n "is"] by (simp_all add: distinct_map)
  then have "inj_on (\<lambda>r. (sir_script r, sir_position r)) (set ?new)" by (auto simp: inj_on_def)
  with \<open>distinct ?new\<close> none new show "distinct (map (\<lambda>r. (sir_script r, sir_position r)) (script_inputs d @ ?new))"
    using db_okD(11) [OF d] by (fastforce simp: distinct_map inj_on_Un)
  have "map (\<lambda>r. in_name (sir_input r)) ?new = map in_name is"
    using input_rows_facts(1) [of sid n "is"] by (metis (mono_tags, lifting) list.map_comp o_def map_eq_conv)
  then have "inj_on (\<lambda>r. in_name (sir_input r)) (set ?new)"
    using assms(3) by (metis distinct_map)
  then have "inj_on (\<lambda>r. (sir_script r, in_name (sir_input r))) (set ?new)" by (auto simp: inj_on_def)
  with \<open>distinct ?new\<close> none new show "distinct (map (\<lambda>r. (sir_script r, in_name (sir_input r))) (script_inputs d @ ?new))"
    using db_okD(12) [OF d] by (fastforce simp: distinct_map inj_on_Un)
  show "sir_script ` set (script_inputs d @ ?new) \<subseteq> scr_id ` set (scripts d)"
    using db_okD(18) [OF d] assms(4) new by (cases "is") auto
qed

subsection \<open>Writing a script\<close>

lemma get_script_row:
  "get_script d k = Inr sc \<longleftrightarrow> (\<exists>r. script_row_of d k = Some r \<and>
     sc = \<lparr>s_id = scr_id r, s_name = scr_name r, s_body = scr_body r, s_updated_at = scr_updated_at r,
           s_inputs = load_inputs d (scr_id r)\<rparr>)"
  by (auto simp: get_script_def and_then_Inr ok_or_Inr)

lemma get_script_cong:
  assumes "script_row_of d' k = script_row_of d k" "load_inputs d' k = load_inputs d k"
  shows "get_script d' k = get_script d k"
proof (cases "script_row_of d k")
  case (Some r)
  then have "scr_id r = k" unfolding script_row_of_def by (auto dest: find_member)
  with Some assms show ?thesis by (simp add: get_script_def)
qed (simp add: get_script_def assms)

lemma script_row_update:
  "script_row_of (d\<lparr>scripts := update_where (\<lambda>r. scr_id r = sid) f (scripts d)\<rparr>) k =
   (if k = sid then map_option f (script_row_of d sid) else script_row_of d k)"
  if "\<And>r. scr_id (f r) = scr_id r"
proof -
  have "List.find (\<lambda>r. scr_id r = k) (update_where (\<lambda>r. scr_id r = sid) f rs) =
      (if k = sid then map_option f (List.find (\<lambda>r. scr_id r = sid) rs) else List.find (\<lambda>r. scr_id r = k) rs)" for rs
    by (induction rs) (auto simp: that)
  then show ?thesis by (simp add: script_row_of_def)
qed

lemma script_row_of_Some: "(\<exists>r. script_row_of d k = Some r) \<longleftrightarrow> k \<in> scr_id ` set (scripts d)"
  by (cases "script_row_of d k") (auto simp: script_row_of_def find_None_iff dest!: find_member)

text \<open>The rows the write starts from: the new or rewritten script, without inputs yet.\<close>

definition script_base :: "int option \<Rightarrow> string \<Rightarrow> new_script \<Rightarrow> time \<Rightarrow> db \<Rightarrow> db" where
  "script_base k name s now d =
     (case k of
        None \<Rightarrow> d\<lparr>scripts := scripts d @ [\<lparr>scr_id = next_script d, scr_name = name, scr_body = ns_body s,
                  scr_updated_at = now\<rparr>], next_script := next_script d + 1\<rparr>
      | Some sid \<Rightarrow> d\<lparr>scripts := update_where (\<lambda>r. scr_id r = sid)
                  (\<lambda>r. r\<lparr>scr_name := name, scr_body := ns_body s, scr_updated_at := now\<rparr>) (scripts d),
                script_inputs := delete_where (\<lambda>r. sir_script r = sid) (script_inputs d)\<rparr>)"

definition script_target :: "int option \<Rightarrow> db \<Rightarrow> int" where
  "script_target k d = (case k of None \<Rightarrow> next_script d | Some sid \<Rightarrow> sid)"

definition writable :: "int option \<Rightarrow> string \<Rightarrow> db \<Rightarrow> bool" where
  "writable k name d \<longleftrightarrow>
     (case k of
        None \<Rightarrow> name \<notin> scr_name ` set (scripts d)
      | Some sid \<Rightarrow> sid \<in> scr_id ` set (scripts d) \<and> (\<forall>r \<in> set (scripts d). scr_name r = name \<longrightarrow> scr_id r = sid))"

lemma script_base_tables [simp]:
  "images (script_base k name s now d) = images d" "image_scripts (script_base k name s now d) = image_scripts d"
  by (simp_all add: script_base_def split: option.splits)

lemma script_base_clear:
  "db_ok d \<Longrightarrow> \<forall>r \<in> set (script_inputs (script_base k name s now d)). sir_script r \<noteq> script_target k d"
  using db_okD(18,25) [of d] by (fastforce simp: script_base_def script_target_def split: option.splits)

lemma script_base_row:
  assumes "db_ok d" "writable k name d"
  shows "script_row_of (script_base k name s now d) j =
    (if j = script_target k d
     then Some \<lparr>scr_id = j, scr_name = name, scr_body = ns_body s, scr_updated_at = now\<rparr> else script_row_of d j)"
proof (cases k)
  case None
  have "script_row_of d (next_script d) = None"
    using db_okD(25) [OF assms(1)] by (force simp: script_row_of_def find_None_iff)
  then show ?thesis
    by (auto simp: None script_base_def script_target_def script_row_of_def find_append split: option.splits)
next
  case (Some sid)
  then obtain r where r: "script_row_of d sid = Some r"
    using assms(2) by (auto simp: writable_def script_row_of_Some [symmetric])
  then have "scr_id r = sid" unfolding script_row_of_def by (auto dest: find_member)
  moreover have "script_row_of (d\<lparr>scripts := ss, script_inputs := is\<rparr>) j = script_row_of (d\<lparr>scripts := ss\<rparr>) j" for ss "is"
    by (simp add: script_row_of_def)
  ultimately show ?thesis
    using r by (simp add: Some script_base_def script_target_def script_row_update)
qed

lemma script_base_inputs: "j \<noteq> script_target k d \<Longrightarrow> load_inputs (script_base k name s now d) j = load_inputs d j"
proof -
  assume j: "j \<noteq> script_target k d"
  have "filter (\<lambda>r. sir_script r = j) (script_inputs (script_base k name s now d)) =
      filter (\<lambda>r. sir_script r = j) (script_inputs d)"
    using j by (auto simp: script_base_def script_target_def delete_where_def split: option.splits intro!: filter_cong)
  then show ?thesis by (simp add: load_inputs_def)
qed

lemma distinct_rename:
  assumes "distinct (map key rs)" "distinct (map n rs)" "\<And>r. n (f r) = v" "\<forall>r \<in> set rs. n r = v \<longrightarrow> key r = k"
  shows "distinct (map n (update_where (\<lambda>r. key r = k) f rs))"
  using assms(1,2,4)
proof (induction rs)
  case (Cons r rs)
  then have ih: "distinct (map n (update_where (\<lambda>r. key r = k) f rs))" by simp
  have mem: "x \<in> n ` set (update_where (\<lambda>r. key r = k) f rs) \<Longrightarrow> x \<in> n ` set rs \<or> x = v \<and> k \<in> key ` set rs" for x
    by (auto simp: set_update_where assms(3))
  show ?case
  proof (cases "key r = k")
    case True
    then have k: "k \<notin> key ` set rs" using Cons.prems(1) by auto
    have v: "v \<notin> n ` set rs"
    proof
      assume "v \<in> n ` set rs"
      then obtain x where x: "x \<in> set rs" "n x = v" by auto
      then have "key x = k" using Cons.prems(3) by simp
      with x(1) k show False by blast
    qed
    from k v have "v \<notin> n ` set (update_where (\<lambda>r. key r = k) f rs)" using mem [of v] by blast
    with True ih show ?thesis by (simp add: assms(3))
  next
    case False
    then have "n r \<noteq> v" using Cons.prems(3) by auto
    moreover have "n r \<notin> n ` set rs" using Cons.prems(2) by simp
    ultimately have "n r \<notin> n ` set (update_where (\<lambda>r. key r = k) f rs)" using mem [of "n r"] by blast
    with False ih show ?thesis by simp
  qed
qed simp

lemma script_base_db_ok:
  assumes d: "db_ok d" and w: "writable k name d"
  shows "db_ok (script_base k name s now d)"
proof (cases k)
  case None
  have "next_script d \<notin> scr_id ` set (scripts d)" using db_okD(25) [OF d] by force
  then show ?thesis
    using w db_okD(9,10,25) [OF d] unfolding None script_base_def option.case
    by (intro db_ok_set_scripts [OF d]) (auto simp: writable_def None less_add_one intro: less_trans)
next
  case (Some sid)
  let ?f = "\<lambda>r. r\<lparr>scr_name := name, scr_body := ns_body s, scr_updated_at := now\<rparr>"
  let ?rows = "update_where (\<lambda>r. scr_id r = sid) ?f (scripts d)"
  have ids: "map scr_id ?rows = map scr_id (scripts d)" "scr_id ` set ?rows = scr_id ` set (scripts d)"
    by (rule update_where_keys, simp)+
  have "distinct (map scr_name ?rows)"
    by (rule distinct_rename [OF db_okD(9,10) [OF d], where v = name])
       (use w in \<open>auto simp: Some writable_def\<close>)
  moreover have "\<forall>r \<in> set ?rows. scr_id r < next_script d"
    using db_okD(25) [OF d] by (auto simp: ball_update_where)
  ultimately have "db_ok (d\<lparr>scripts := ?rows, next_script := next_script d\<rparr>)"
    using ids db_okD(9) [OF d] by (intro db_ok_set_scripts [OF d]) simp_all
  then have e: "db_ok (d\<lparr>scripts := ?rows\<rparr>)" by simp
  have "db_ok (d\<lparr>scripts := ?rows, script_inputs := delete_where (\<lambda>r. sir_script r = sid) (script_inputs d)\<rparr>)"
    using db_ok_set_script_inputs [OF e, of "delete_where (\<lambda>r. sir_script r = sid) (script_inputs d)"]
      db_okD(11,12,18) [OF e] by (simp add: distinct_map_delete_where) blast
  then show ?thesis by (simp add: Some script_base_def)
qed

lemma write_script_Inr:
  assumes d: "db_ok d"
  shows "write_script k name s now d = Inr (sid, d') \<longleftrightarrow>
    writable k name d \<and> distinct (map in_name (ns_inputs s)) \<and> sid = script_target k d \<and>
    d' = (script_base k name s now d)\<lparr>script_inputs :=
           script_inputs (script_base k name s now d) @ input_rows sid 0 (ns_inputs s)\<rparr>"
proof -
  let ?b = "script_base k name s now d" and ?t = "script_target k d"
  have clear: "\<forall>r \<in> set (script_inputs ?b). sir_script r \<noteq> ?t" by (rule script_base_clear [OF d])
  have ins: "insert_inputs ?t s ?b = Inr x \<longleftrightarrow> distinct (map in_name (ns_inputs s)) \<and>
      x = ?b\<lparr>script_inputs := script_inputs ?b @ input_rows ?t 0 (ns_inputs s)\<rparr>" if "writable k name d" for x
  proof -
    have "?t \<in> scr_id ` set (scripts ?b)"
      using script_base_row [OF d that, of s now ?t] script_row_of_Some [of ?b ?t] by auto
    with clear show ?thesis unfolding insert_inputs_def
      by (subst insert_inputs_Inr) auto
  qed
  have "write_script k name s now d =
      (if writable k name d then and_then (insert_inputs ?t s ?b) (\<lambda>d. Inr (?t, d)) else write_script k name s now d)"
    by (auto simp: write_script_def writable_def script_base_def script_target_def split: option.splits)
  moreover have "\<not> writable k name d \<Longrightarrow> write_script k name s now d \<noteq> Inr (sid, d')"
    by (auto simp: write_script_def writable_def split: option.splits if_splits)
  ultimately show ?thesis using ins by (cases "writable k name d") (auto simp: and_then_Inr)
qed

lemma write_script_effect:
  assumes d: "db_ok d" and w: "write_script k name s now d = Inr (sid, d')"
  shows "db_ok d'" "images d' = images d" "image_scripts d' = image_scripts d" "sid = script_target k d"
    "get_script d' sid = Inr \<lparr>s_id = sid, s_name = name, s_body = ns_body s, s_updated_at = now, s_inputs = ns_inputs s\<rparr>"
    "j \<noteq> sid \<Longrightarrow> get_script d' j = get_script d j"
    "scr_id ` set (scripts d) \<subseteq> scr_id ` set (scripts d')" "sid \<in> scr_id ` set (scripts d')"
proof -
  let ?b = "script_base k name s now d"
  note w' = w [unfolded write_script_Inr [OF d]]
  then have wr: "writable k name d" and sid: "sid = script_target k d"
    and d': "d' = ?b\<lparr>script_inputs := script_inputs ?b @ input_rows sid 0 (ns_inputs s)\<rparr>" by simp_all
  have clear: "\<forall>r \<in> set (script_inputs ?b). sir_script r \<noteq> sid" unfolding sid by (rule script_base_clear [OF d])
  have row: "script_row_of d' j = script_row_of ?b j" for j by (simp add: d' script_row_of_def)
  have own: "script_row_of d' sid = Some \<lparr>scr_id = sid, scr_name = name, scr_body = ns_body s, scr_updated_at = now\<rparr>"
    by (simp add: row script_base_row [OF d wr] sid)
  have inputs: "load_inputs d' sid = ns_inputs s" "j \<noteq> sid \<Longrightarrow> load_inputs d' j = load_inputs ?b j" for j
    by (rule load_inputs_new [OF clear, where n = 0]; simp add: d')+
  show "images d' = images d" "image_scripts d' = image_scripts d" by (simp_all add: d')
  show "sid = script_target k d" by (rule sid)
  show "get_script d' sid = Inr \<lparr>s_id = sid, s_name = name, s_body = ns_body s, s_updated_at = now, s_inputs = ns_inputs s\<rparr>"
    by (simp add: get_script_row own inputs(1))
  show "get_script d' j = get_script d j" if "j \<noteq> sid"
    by (rule get_script_cong)
       (use that in \<open>simp_all add: row script_base_row [OF d wr] inputs(2) script_base_inputs sid\<close>)
  show "sid \<in> scr_id ` set (scripts d')" using own script_row_of_Some by blast
  show "scr_id ` set (scripts d) \<subseteq> scr_id ` set (scripts d')"
  proof
    fix j assume "j \<in> scr_id ` set (scripts d)"
    then have "\<exists>r. script_row_of d' j = Some r"
      using row script_base_row [OF d wr, of s now j] script_row_of_Some [of d j] by auto
    then show "j \<in> scr_id ` set (scripts d')" by (simp add: script_row_of_Some)
  qed
  show "db_ok d'" unfolding d'
  proof (rule new_inputs_db_ok [OF script_base_db_ok [OF d wr] clear])
    show "distinct (map in_name (ns_inputs s))" using w' by simp
    have "\<exists>r. script_row_of ?b sid = Some r" using own by (simp add: row)
    then show "ns_inputs s = [] \<or> sid \<in> scr_id ` set (scripts ?b)" by (simp add: script_row_of_Some)
  qed
qed

subsection \<open>Importing a script\<close>

lemma name_row:
  assumes "db_ok d" "List.find (\<lambda>r. scr_name r = name) (scripts d) = Some r"
  shows "script_row_of d (scr_id r) = Some r" "scr_name r = name"
  using find_member [OF assms(2)] find_unique [OF db_okD(9) [OF assms(1)]]
  by (auto simp: script_row_of_def)

lemma import_from_effect:
  assumes "db_ok d" "import_from im s now d a = Inr (sid, d')"
  shows "db_ok d' \<and> images d' = images d \<and> image_scripts d' = image_scripts d \<and>
    scr_id ` set (scripts d) \<subseteq> scr_id ` set (scripts d') \<and> sid \<in> scr_id ` set (scripts d') \<and>
    (\<exists>sc. get_script d' sid = Inr sc \<and> s_body sc = ns_body s \<and> s_inputs sc = ns_inputs s \<and>
      (\<exists>k. s_name sc = import_name (ns_name s) k)) \<and>
    (\<forall>j. j \<noteq> sid \<longrightarrow> get_script d' j = get_script d j) \<and>
    (\<forall>j. used_by_other_images d j im \<longrightarrow> get_script d' j = get_script d j)"
  using assms
proof (induction im s now d a rule: import_from.induct)
  case (1 im s now d a)
  note d = "1.prems"(1)
  let ?name = "import_name (ns_name s) a"
  have wrote: ?case if w: "write_script k ?name s now d = Inr (sid, d')"
    and free: "\<not> used_by_other_images d sid im" for k
  proof -
    note e = write_script_effect [OF d w]
    have "\<forall>j. used_by_other_images d j im \<longrightarrow> get_script d' j = get_script d j"
      using e(6) free by metis
    moreover have "\<exists>sc. get_script d' sid = Inr sc \<and> s_body sc = ns_body s \<and> s_inputs sc = ns_inputs s \<and>
      (\<exists>k. s_name sc = import_name (ns_name s) k)"
      unfolding e(5) by (intro exI conjI, rule refl) auto
    ultimately show ?thesis using e by blast
  qed
  show ?case
  proof (cases "List.find (\<lambda>r. scr_name r = ?name) (scripts d)")
    case None
    then have w: "write_script None ?name s now d = Inr (sid, d')"
      using "1.prems"(2) by (subst (asm) import_from.simps) (simp add: Let_def)
    have "sid = next_script d" using write_script_effect(4) [OF d w] by (simp add: script_target_def)
    then have "\<not> used_by_other_images d sid im"
      using db_okD(20,25) [OF d] by (force simp: used_by_other_images_def)
    with w show ?thesis by (rule wrote)
  next
    case (Some r)
    note row = name_row [OF d Some]
    consider (same) "scr_body r = ns_body s \<and> load_inputs d (scr_id r) = ns_inputs s"
      | (over) "\<not> (scr_body r = ns_body s \<and> load_inputs d (scr_id r) = ns_inputs s)"
          "a = 1 \<and> \<not> used_by_other_images d (scr_id r) im"
      | (again) "\<not> (scr_body r = ns_body s \<and> load_inputs d (scr_id r) = ns_inputs s)"
          "\<not> (a = 1 \<and> \<not> used_by_other_images d (scr_id r) im)" by blast
    then show ?thesis
    proof cases
      case same
      then have "import_from im s now d a = Inr (scr_id r, d)"
        by (subst import_from.simps) (simp add: Some Let_def)
      then have "sid = scr_id r" "d' = d" using "1.prems"(2) by simp_all
      moreover have "sid \<in> scr_id ` set (scripts d)" using row(1) script_row_of_Some calculation(1) by blast
      moreover have "\<exists>sc. get_script d sid = Inr sc \<and> s_body sc = ns_body s \<and> s_inputs sc = ns_inputs s \<and>
        (\<exists>k. s_name sc = import_name (ns_name s) k)"
        using row same \<open>sid = scr_id r\<close> by (auto simp: get_script_row)
      ultimately show ?thesis using d by simp
    next
      case over
      have "import_from im s now d a = write_script (Some (scr_id r)) ?name s now d"
        unfolding import_from.simps [of im s now d a] Let_def Some option.case if_not_P [OF over(1)] if_P [OF over(2)]
        by (rule refl)
      with "1.prems"(2) have w: "write_script (Some (scr_id r)) ?name s now d = Inr (sid, d')" by simp
      moreover have "sid = scr_id r" using write_script_effect(4) [OF d w] by (simp add: script_target_def)
      ultimately show ?thesis using wrote over(2) by blast
    next
      case again
      have "import_from im s now d a = import_from im s now d (a + 1)"
        unfolding import_from.simps [of im s now d a] Let_def Some option.case if_not_P [OF again(1)] if_not_P [OF again(2)]
        by (rule refl)
      with "1.prems"(2) have "import_from im s now d (a + 1) = Inr (sid, d')" by simp
      with "1.IH" [OF refl Some] again d show ?thesis by blast
    qed
  qed
qed

lemma used_by_other_cong: "image_scripts d' = image_scripts d \<Longrightarrow> used_by_other_images d' j im = used_by_other_images d j im"
  by (simp add: used_by_other_images_def)

lemma import_all_effect:
  assumes "db_ok d" "import_all im ss now d = Inr (linked, d')"
  shows "db_ok d' \<and> images d' = images d \<and> image_scripts d' = image_scripts d \<and>
    scr_id ` set (scripts d) \<subseteq> scr_id ` set (scripts d') \<and>
    (\<forall>j. j \<notin> set (map fst linked) \<longrightarrow> get_script d' j = get_script d j) \<and>
    (\<forall>j. used_by_other_images d j im \<longrightarrow> get_script d' j = get_script d j) \<and>
    (distinct (map fst linked) \<longrightarrow> list_all2 (\<lambda>s l. snd l = nis_root_partition s \<and>
      (\<exists>sc. get_script d' (fst l) = Inr sc \<and> s_body sc = ns_body (nis_script s) \<and>
         s_inputs sc = ns_inputs (nis_script s) \<and> (\<exists>k. s_name sc = import_name (ns_name (nis_script s)) k))) ss linked)"
  using assms
proof (induction ss arbitrary: d linked)
  case Nil
  then show ?case by simp
next
  case (Cons s ss)
  from Cons.prems(2) obtain sid d1 rest where s1: "import_script im (nis_script s) now d = Inr (sid, d1)"
    and r1: "import_all im ss now d1 = Inr (rest, d')" and linked: "linked = (sid, nis_root_partition s) # rest"
    by (auto simp: and_then_Inr)
  note e = import_from_effect [OF Cons.prems(1) s1 [unfolded import_script_def]]
  then have "db_ok d1" by blast
  note ih = Cons.IH [OF this r1]
  have used: "used_by_other_images d1 j im = used_by_other_images d j im" for j
    by (rule used_by_other_cong) (use e in blast)
  have all2: "list_all2 (\<lambda>s l. snd l = nis_root_partition s \<and>
      (\<exists>sc. get_script d' (fst l) = Inr sc \<and> s_body sc = ns_body (nis_script s) \<and>
         s_inputs sc = ns_inputs (nis_script s) \<and> (\<exists>k. s_name sc = import_name (ns_name (nis_script s)) k)))
      (s # ss) linked" if "distinct (map fst linked)"
  proof -
    have "sid \<notin> set (map fst rest)" "distinct (map fst rest)" using that by (simp_all add: linked)
    moreover from this(1) have "get_script d' sid = get_script d1 sid" using ih by blast
    ultimately show ?thesis using e ih unfolding linked list_all2_Cons fst_conv snd_conv by metis
  qed
  show ?case
  proof (intro conjI allI impI)
    fix j
    show "get_script d' j = get_script d j" if "j \<notin> set (map fst linked)"
    proof -
      have "j \<noteq> sid" "j \<notin> set (map fst rest)" using that by (simp_all add: linked)
      then have "get_script d' j = get_script d1 j" "get_script d1 j = get_script d j" using ih e by blast+
      then show ?thesis by (rule trans)
    qed
    show "get_script d' j = get_script d j" if "used_by_other_images d j im"
    proof -
      have "get_script d' j = get_script d1 j" "get_script d1 j = get_script d j"
        using ih e used that by blast+
      then show ?thesis by (rule trans)
    qed
  next
    show "scr_id ` set (scripts d) \<subseteq> scr_id ` set (scripts d')" using ih e by (meson subset_trans)
    show "images d' = images d" "image_scripts d' = image_scripts d" using ih e by metis+
    show "db_ok d'" using ih by blast
  qed (rule all2)
qed

subsection \<open>Linking\<close>

definition link_rows :: "int \<Rightarrow> nat \<Rightarrow> (int \<times> int option) list \<Rightarrow> image_script_row list" where
  "link_rows im n xs = map (\<lambda>(p, sid, root). \<lparr>isr_image = im, isr_position = int p, isr_script = sid, isr_root = root\<rparr>)
     (enumerate n xs)"

lemma link_rows_simps [simp]:
  "link_rows im n [] = []"
  "link_rows im n (x # xs) =
     \<lparr>isr_image = im, isr_position = int n, isr_script = fst x, isr_root = snd x\<rparr> # link_rows im (Suc n) xs"
  by (simp_all add: link_rows_def split_def)

lemma link_rows_member: "l \<in> set (link_rows im n xs) \<Longrightarrow> isr_image l = im \<and> int n \<le> isr_position l"
proof (induction xs arbitrary: n)
  case (Cons x xs)
  then show ?case
  proof (cases "l \<in> set (link_rows im (Suc n) xs)")
    case True
    from Cons.IH [OF this] show ?thesis by simp
  qed simp
qed simp

lemma link_rows_sorted: "sorted_wrt (<) (map isr_position (link_rows im n xs))"
proof (induction xs arbitrary: n)
  case (Cons x xs)
  have "int n < isr_position l" if "l \<in> set (link_rows im (Suc n) xs)" for l
    using link_rows_member [OF that] by simp
  then show ?case using Cons by simp
qed simp

lemma link_rows_pairs: "map (\<lambda>l. (isr_script l, isr_root l)) (link_rows im n xs) = xs"
  by (induction xs arbitrary: n) simp_all

lemma link_each:
  assumes "linked = us @ xs" and "\<forall>l \<in> set (image_scripts d). isr_image l = im \<longrightarrow> isr_position l < int (length us)"
    and "distinct (map fst us)"
  shows "try_fold (link_one im linked) d (enumerate (length us) xs) = Inr d' \<longleftrightarrow>
    distinct (map fst linked) \<and> fst ` set xs \<subseteq> scr_id ` set (scripts d) \<and>
    d' = d\<lparr>image_scripts := image_scripts d @ link_rows im (length us) xs\<rparr>"
  using assms
proof (induction xs arbitrary: us d)
  case Nil
  then show ?case by auto
next
  case (Cons x xs)
  obtain sid root where x: "x = (sid, root)" by (cases x)
  let ?r = "\<lparr>isr_image = im, isr_position = int (length us), isr_script = sid, isr_root = root\<rparr>"
  let ?d = "d\<lparr>image_scripts := image_scripts d @ [?r]\<rparr>"
  have pos: "(im, int (length us)) \<notin> (\<lambda>l. (isr_image l, isr_position l)) ` set (image_scripts d)"
    using Cons.prems(2) by force
  have none: "script_row_of d sid = None \<longleftrightarrow> sid \<notin> scr_id ` set (scripts d)"
    using script_row_of_Some [of d sid] by (cases "script_row_of d sid") auto
  have one: "link_one im linked d (length us, x) = Inr y \<longleftrightarrow>
      sid \<notin> set (map fst us) \<and> sid \<in> scr_id ` set (scripts d) \<and> y = ?d" for y
    using pos by (auto simp: link_one_def x Cons.prems(1) none)
  have step: "try_fold (link_one im linked) d (enumerate (length us) (x # xs)) = Inr d' \<longleftrightarrow>
      sid \<notin> set (map fst us) \<and> sid \<in> scr_id ` set (scripts d) \<and>
      try_fold (link_one im linked) ?d (enumerate (Suc (length us)) xs) = Inr d'"
    using one by (auto simp: and_then_Inr)
  show ?case
  proof (cases "sid \<in> set (map fst us)")
    case True
    then have "\<not> distinct (map fst linked)" by (auto simp: Cons.prems(1) x)
    with True step show ?thesis by blast
  next
    case False
    have "try_fold (link_one im linked) ?d (enumerate (length (us @ [x])) xs) = Inr d' \<longleftrightarrow>
        distinct (map fst linked) \<and> fst ` set xs \<subseteq> scr_id ` set (scripts ?d) \<and>
        d' = ?d\<lparr>image_scripts := image_scripts ?d @ link_rows im (length (us @ [x])) xs\<rparr>"
      by (rule Cons.IH) (use Cons.prems False in \<open>auto simp: x\<close>)
    then have "try_fold (link_one im linked) ?d (enumerate (Suc (length us)) xs) = Inr d' \<longleftrightarrow>
        distinct (map fst linked) \<and> fst ` set xs \<subseteq> scr_id ` set (scripts d) \<and>
        d' = d\<lparr>image_scripts := image_scripts d @ link_rows im (length us) (x # xs)\<rparr>"
      by (simp add: x)
    with step False show ?thesis by (simp add: x) blast
  qed
qed

lemma link_scripts_Inr:
  "link_scripts im linked d = Inr d' \<longleftrightarrow>
   (\<exists>r \<in> set (images d). ir_id r = im \<and> ir_deleted_at r = None) \<and> distinct (map fst linked) \<and>
   fst ` set linked \<subseteq> scr_id ` set (scripts d) \<and>
   d' = d\<lparr>image_scripts := delete_where (\<lambda>l. isr_image l = im) (image_scripts d) @ link_rows im 0 linked\<rparr>"
proof -
  let ?d = "d\<lparr>image_scripts := delete_where (\<lambda>l. isr_image l = im) (image_scripts d)\<rparr>"
  have "try_fold (link_one im linked) ?d (enumerate (length ([] :: (int \<times> int option) list)) linked) = Inr d' \<longleftrightarrow>
    distinct (map fst linked) \<and> fst ` set linked \<subseteq> scr_id ` set (scripts ?d) \<and>
    d' = ?d\<lparr>image_scripts := image_scripts ?d @ link_rows im (length ([] :: (int \<times> int option) list)) linked\<rparr>"
    by (rule link_each) auto
  then show ?thesis by (auto simp: link_scripts_def)
qed

lemma link_scripts_db_ok:
  assumes d: "db_ok d" and l: "link_scripts im linked d = Inr d'"
  shows "db_ok d'"
proof -
  note l' = l [unfolded link_scripts_Inr]
  let ?old = "delete_where (\<lambda>l. isr_image l = im) (image_scripts d)" and ?new = "link_rows im 0 linked"
  have "inj_on isr_position (set ?new)" "distinct ?new"
    using link_rows_sorted [of im 0 linked] by (auto simp: strict_sorted_iff distinct_map)
  moreover have "inj_on (\<lambda>l. (isr_image l, isr_position l)) (set ?old)" "distinct ?old"
    using distinct_map_delete_where [OF db_okD(13) [OF d], of "\<lambda>l. isr_image l = im"] by (simp_all add: distinct_map)
  moreover have new: "isr_image l = im" if "l \<in> set ?new" for l using link_rows_member [OF that] by blast
  ultimately have D: "distinct (map (\<lambda>l. (isr_image l, isr_position l)) (?old @ ?new))"
    by (fastforce simp: distinct_map inj_on_def)
  have I: "isr_image ` set (?old @ ?new) \<subseteq> ir_id ` set (images d)"
    using db_okD(19) [OF d] l' link_rows_member [of _ im 0 linked] by auto
  have "isr_script ` set ?new = fst ` set linked"
    using arg_cong [OF link_rows_pairs [of im 0 linked], of "\<lambda>xs. set (map fst xs)"] by (simp add: image_image)
  then have S: "isr_script ` set (?old @ ?new) \<subseteq> scr_id ` set (scripts d)"
    using subset_delete_where [OF db_okD(20) [OF d], of "\<lambda>l. isr_image l = im"] l' by (simp add: image_Un)
  have "d' = d\<lparr>image_scripts := ?old @ ?new\<rparr>" using l' by blast
  then show ?thesis using db_ok_set_image_scripts [OF d D I S] by simp
qed

lemma assemble_distinct:
  "distinct (map scr_id rs) \<Longrightarrow> set (map scr_id rs) \<inter> set taken = {} \<Longrightarrow>
   assemble_scripts d taken rs = map (\<lambda>r. \<lparr>s_id = scr_id r, s_name = scr_name r, s_body = scr_body r,
     s_updated_at = scr_updated_at r, s_inputs = load_inputs d (scr_id r)\<rparr>) rs"
  by (induction rs arbitrary: taken) auto

lemma linked_rows_of:
  assumes "db_ok d" "sid \<in> scr_id ` set (scripts d)"
  shows "\<exists>r. script_row_of d sid = Some r \<and> filter (\<lambda>r. scr_id r = sid) (scripts d) = [r] \<and> scr_id r = sid"
proof -
  obtain r where r: "script_row_of d sid = Some r" using assms(2) script_row_of_Some by blast
  have "filter (\<lambda>r. scr_id r = sid) rs = [r]"
    if "distinct (map scr_id rs)" "List.find (\<lambda>r. scr_id r = sid) rs = Some r" for rs
    using that
  proof (induction rs)
    case (Cons x xs)
    show ?case
    proof (cases "scr_id x = sid")
      case True
      then have "sid \<notin> scr_id ` set xs" using Cons.prems(1) by simp
      then have "filter (\<lambda>r. scr_id r = sid) xs = []" by (auto simp: filter_empty_conv)
      with True Cons.prems(2) show ?thesis by simp
    qed (use Cons in simp)
  qed simp
  with r db_okD(9) [OF assms(1)] show ?thesis
    unfolding script_row_of_def by (auto dest: find_member)
qed

text \<open>The attached scripts of an image whose links were just written.\<close>

lemma get_for_image_linked:
  assumes d: "db_ok d" and links: "filter (\<lambda>l. isr_image l = im) (image_scripts d) = link_rows im 0 linked"
    and dist: "distinct (map fst linked)" and ex: "fst ` set linked \<subseteq> scr_id ` set (scripts d)"
  shows "get_for_image d im = map (\<lambda>(sid, root). \<lparr>is_script = projr (get_script d sid), is_root_partition = root\<rparr>) linked"
proof -
  let ?pairs = "\<lambda>xs. concat (map (\<lambda>l. map (\<lambda>r. (r, isr_root l)) (filter (\<lambda>r. scr_id r = isr_script l) (scripts d))) xs)"
  have sorted: "sort_key isr_position (link_rows im 0 linked) = link_rows im 0 linked"
    by (rule sort_key_id_if_sorted) (use link_rows_sorted [of im 0 linked] in \<open>simp add: strict_sorted_iff\<close>)
  have pairs: "?pairs (link_rows im n xs) = map (\<lambda>(sid, root). (the (script_row_of d sid), root)) xs"
    if "fst ` set xs \<subseteq> scr_id ` set (scripts d)" for xs n
    using that
  proof (induction xs arbitrary: n)
    case (Cons x xs)
    then obtain r where "script_row_of d (fst x) = Some r" "filter (\<lambda>r. scr_id r = fst x) (scripts d) = [r]"
      using linked_rows_of [OF d, of "fst x"] by auto
    with Cons show ?case by (simp add: split_def)
  qed simp
  have row: "\<exists>r. script_row_of d sid = Some r \<and> scr_id r = sid" if "sid \<in> fst ` set linked" for sid
    using linked_rows_of [OF d] ex that by blast
  have ids: "map scr_id (map fst (map (\<lambda>(sid, root). (the (script_row_of d sid), root)) linked)) = map fst linked"
    using row by (auto simp: split_def) (metis fst_conv image_eqI option.sel)
  have asm: "assemble_scripts d [] (map fst (map (\<lambda>(sid, root). (the (script_row_of d sid), root)) linked)) =
      map (\<lambda>(sid, root). projr (get_script d sid)) linked"
  proof (subst assemble_distinct)
    show "distinct (map scr_id (map fst (map (\<lambda>(sid, root). (the (script_row_of d sid), root)) linked)))"
      unfolding ids by (rule dist)
    have "\<lparr>s_id = scr_id (the (script_row_of d (fst x))), s_name = scr_name (the (script_row_of d (fst x))),
        s_body = scr_body (the (script_row_of d (fst x))), s_updated_at = scr_updated_at (the (script_row_of d (fst x))),
        s_inputs = load_inputs d (scr_id (the (script_row_of d (fst x))))\<rparr> = projr (get_script d (fst x))"
      if "x \<in> set linked" for x
      using row [of "fst x"] that by (auto simp: get_script_def)
    then show "map (\<lambda>r. \<lparr>s_id = scr_id r, s_name = scr_name r, s_body = scr_body r,
         s_updated_at = scr_updated_at r, s_inputs = load_inputs d (scr_id r)\<rparr>)
         (map fst (map (\<lambda>(sid, root). (the (script_row_of d sid), root)) linked)) =
       map (\<lambda>(sid, root). projr (get_script d sid)) linked"
      by (simp add: split_def)
  qed simp
  have "get_for_image d im = map (\<lambda>(s, root). \<lparr>is_script = s, is_root_partition = root\<rparr>)
      (zip (map (\<lambda>(sid, root). projr (get_script d sid)) linked) (map snd linked))"
    unfolding get_for_image_def links sorted pairs [OF ex] Let_def asm by (simp add: split_def o_def)
  also have "\<dots> = map (\<lambda>(sid, root). \<lparr>is_script = projr (get_script d sid), is_root_partition = root\<rparr>) linked"
    by (induction linked) (simp_all add: split_def)
  finally show ?thesis .
qed

subsection \<open>Properties\<close>

lemma validate_script_distinct: "validate_script n b is = Inr u \<Longrightarrow> distinct (map in_name is)"
  by (auto simp: validate_script_def and_then_Inr first_duplicate_def first_repeat_None split: if_splits option.splits)

lemma validated_inputs_distinct: "validate_new_script s = Inr u \<Longrightarrow> distinct (map in_name (ns_inputs s))"
  unfolding validate_new_script_def by (rule validate_script_distinct)

lemma write_script_ok:
  assumes d: "db_ok d" and v: "validate_new_script s = Inr ()"
  shows "(\<exists>r. write_script k name s now d = Inr r) \<longleftrightarrow> writable k name d"
  using write_script_Inr [OF d, of k name s now] validated_inputs_distinct [OF v] by auto

text \<open>a script is stored exactly as given. Creating succeeds exactly for a valid script with a free name,
  updating exactly for a valid script whose id exists and whose name no other script has; what is returned
  is what is read back, with the inputs in the order given, and every other script stays.\<close>

theorem scripts_round_trip:
  assumes d: "db_ok d"
  shows "((\<exists>r. create_script s now d = Inr r) \<longleftrightarrow> validate_new_script s = Inr () \<and> ns_name s \<notin> scr_name ` set (scripts d)) \<and>
    ((\<exists>r. update_script k s now d = Inr r) \<longleftrightarrow> validate_new_script s = Inr () \<and> k \<in> scr_id ` set (scripts d) \<and>
      (\<forall>r \<in> set (scripts d). scr_name r = ns_name s \<longrightarrow> scr_id r = k)) \<and>
    (\<forall>sc d'. create_script s now d = Inr (sc, d') \<or> update_script k s now d = Inr (sc, d') \<longrightarrow>
      get_script d' (s_id sc) = Inr sc \<and> s_name sc = ns_name s \<and> s_body sc = ns_body s \<and>
      s_inputs sc = ns_inputs s \<and> s_updated_at sc = now \<and>
      (\<forall>j. j \<noteq> s_id sc \<longrightarrow> get_script d' j = get_script d j))"
proof -
  have stored: "and_then (write_script j (ns_name s) s now d) (\<lambda>(sid, d). and_then (get_script d sid) (\<lambda>sc. Inr (sc, d))) = Inr (sc, d') \<longleftrightarrow>
      (\<exists>sid. write_script j (ns_name s) s now d = Inr (sid, d') \<and>
        sc = \<lparr>s_id = sid, s_name = ns_name s, s_body = ns_body s, s_updated_at = now, s_inputs = ns_inputs s\<rparr>)" for j sc d'
    by (auto simp: and_then_Inr write_script_effect(5) [OF d])
  have create: "create_script s now d = Inr (sc, d') \<longleftrightarrow> validate_new_script s = Inr () \<and>
      (\<exists>sid. write_script None (ns_name s) s now d = Inr (sid, d') \<and>
        sc = \<lparr>s_id = sid, s_name = ns_name s, s_body = ns_body s, s_updated_at = now, s_inputs = ns_inputs s\<rparr>)" for sc d'
    unfolding create_script_def stored [symmetric] by (cases "validate_new_script s") auto
  have same: "and_then (write_script (Some k) (ns_name s) s now d) (\<lambda>(_, d). and_then (get_script d k) (\<lambda>sc. Inr (sc, d))) =
      and_then (write_script (Some k) (ns_name s) s now d) (\<lambda>(sid, d). and_then (get_script d sid) (\<lambda>sc. Inr (sc, d)))"
  proof (cases "write_script (Some k) (ns_name s) s now d")
    case (Inr x)
    then have "fst x = k" using write_script_effect(4) [OF d, of "Some k" "ns_name s" s now "fst x" "snd x"]
      by (simp add: script_target_def)
    with Inr show ?thesis by (simp add: split_def)
  qed simp
  have update: "update_script k s now d = Inr (sc, d') \<longleftrightarrow> validate_new_script s = Inr () \<and>
      (\<exists>sid. write_script (Some k) (ns_name s) s now d = Inr (sid, d') \<and>
        sc = \<lparr>s_id = sid, s_name = ns_name s, s_body = ns_body s, s_updated_at = now, s_inputs = ns_inputs s\<rparr>)" for sc d'
    unfolding update_script_def same stored [symmetric] by (cases "validate_new_script s") auto
  have ok: "(\<exists>r. create_script s now d = Inr r) \<longleftrightarrow> validate_new_script s = Inr () \<and> (\<exists>r. write_script None (ns_name s) s now d = Inr r)"
    "(\<exists>r. update_script k s now d = Inr r) \<longleftrightarrow> validate_new_script s = Inr () \<and> (\<exists>r. write_script (Some k) (ns_name s) s now d = Inr r)"
    unfolding split_paired_Ex create update by blast+
  have "get_script d' (s_id sc) = Inr sc \<and> s_name sc = ns_name s \<and> s_body sc = ns_body s \<and>
      s_inputs sc = ns_inputs s \<and> s_updated_at sc = now \<and> (\<forall>j. j \<noteq> s_id sc \<longrightarrow> get_script d' j = get_script d j)"
    if made: "create_script s now d = Inr (sc, d') \<or> update_script k s now d = Inr (sc, d')" for sc d'
  proof -
    obtain j sid where w: "write_script j (ns_name s) s now d = Inr (sid, d')"
      and sc: "sc = \<lparr>s_id = sid, s_name = ns_name s, s_body = ns_body s, s_updated_at = now, s_inputs = ns_inputs s\<rparr>"
      using made unfolding create update by blast
    from write_script_effect(5,6) [OF d w] show ?thesis by (simp add: sc)
  qed
  moreover have "(validate_new_script s = Inr () \<and> (\<exists>r. write_script None (ns_name s) s now d = Inr r)) \<longleftrightarrow>
      (validate_new_script s = Inr () \<and> ns_name s \<notin> scr_name ` set (scripts d))"
    "(validate_new_script s = Inr () \<and> (\<exists>r. write_script (Some k) (ns_name s) s now d = Inr r)) \<longleftrightarrow>
      (validate_new_script s = Inr () \<and> k \<in> scr_id ` set (scripts d) \<and>
        (\<forall>r \<in> set (scripts d). scr_name r = ns_name s \<longrightarrow> scr_id r = k))"
    using write_script_ok [OF d, of s None "ns_name s" now] write_script_ok [OF d, of s "Some k" "ns_name s" now]
    unfolding writable_def option.case by blast+
  ultimately show ?thesis unfolding ok by blast
qed

theorem scripts_round_trip_witness:
  "\<exists>sc d'. create_script \<lparr>ns_name = ''setup'', ns_body = ''#!/bin/sh'', ns_inputs = []\<rparr> 5 empty_db = Inr (sc, d') \<and>
     get_script d' (s_id sc) = Inr sc"
proof -
  let ?s = "\<lparr>ns_name = ''setup'', ns_body = ''#!/bin/sh'', ns_inputs = []\<rparr>"
  have "validate_new_script ?s = Inr ()" by code_simp
  moreover have "ns_name ?s \<notin> scr_name ` set (scripts empty_db)" by (simp add: empty_db_def)
  moreover note t = scripts_round_trip [OF empty_db_ok, of ?s 5 0]
  ultimately obtain r where "create_script ?s 5 empty_db = Inr r" using conjunct1 [OF t] by blast
  then obtain sc d' where "create_script ?s 5 empty_db = Inr (sc, d')" by (cases r) blast
  with conjunct2 [OF conjunct2 [OF t]] show ?thesis by blast
qed

lemma script_kept:
  assumes "get_script d' j = get_script d j" "j \<in> scr_id ` set (scripts d)"
  shows "script_row_of d' j = script_row_of d j" "load_inputs d' j = load_inputs d j"
proof -
  obtain r where r: "script_row_of d j = Some r" "scr_id r = j"
    using assms(2) script_row_of_Some [of d j] by (auto simp: script_row_of_def dest: find_member)
  then obtain sc where "get_script d j = Inr sc" by (auto simp: get_script_def)
  with assms(1) r obtain r' where r': "script_row_of d' j = Some r'" "scr_id r' = j"
    "scr_name r' = scr_name r" "scr_body r' = scr_body r" "scr_updated_at r' = scr_updated_at r"
    "load_inputs d' j = load_inputs d j"
    by (auto simp: get_script_row script_row_of_def dest: find_member)
  then show "script_row_of d' j = script_row_of d j" "load_inputs d' j = load_inputs d j"
    using r by (auto intro: script_row.equality)
qed

lemma assemble_cong:
  "(\<And>r. r \<in> set rs \<Longrightarrow> load_inputs d' (scr_id r) = load_inputs d (scr_id r)) \<Longrightarrow>
   assemble_scripts d' taken rs = assemble_scripts d taken rs"
  by (induction rs arbitrary: taken) auto

lemma get_for_image_cong:
  assumes d: "db_ok d" "db_ok d'"
    and links: "filter (\<lambda>l. isr_image l = k) (image_scripts d') = filter (\<lambda>l. isr_image l = k) (image_scripts d)"
    and kept: "\<And>l. l \<in> set (image_scripts d) \<Longrightarrow> isr_image l = k \<Longrightarrow> get_script d' (isr_script l) = get_script d (isr_script l)"
  shows "get_for_image d' k = get_for_image d k"
proof -
  let ?links = "sort_key isr_position (filter (\<lambda>l. isr_image l = k) (image_scripts d))"
  have l: "filter (\<lambda>r. scr_id r = isr_script l) (scripts d') = filter (\<lambda>r. scr_id r = isr_script l) (scripts d)"
    "load_inputs d' (isr_script l) = load_inputs d (isr_script l)" if "l \<in> set ?links" for l
  proof -
    have m: "l \<in> set (image_scripts d)" "isr_image l = k" using that by auto
    then have ex: "isr_script l \<in> scr_id ` set (scripts d)" using db_okD(20) [OF d(1)] by auto
    note kept' = script_kept [OF kept [OF m] ex]
    from ex kept'(1) have "isr_script l \<in> scr_id ` set (scripts d')" by (simp flip: script_row_of_Some)
    with linked_rows_of [OF d(1) ex] linked_rows_of [OF d(2) this] kept'(1)
    show "filter (\<lambda>r. scr_id r = isr_script l) (scripts d') = filter (\<lambda>r. scr_id r = isr_script l) (scripts d)" by auto
    show "load_inputs d' (isr_script l) = load_inputs d (isr_script l)" by (rule kept'(2))
  qed
  let ?rows = "\<lambda>d. concat (map (\<lambda>l. map (\<lambda>r. (r, isr_root l)) (filter (\<lambda>r. scr_id r = isr_script l) (scripts d))) ?links)"
  have rows: "?rows d' = ?rows d" using l(1) by (intro arg_cong [of _ _ concat] map_cong) simp_all
  have "assemble_scripts d' [] (map fst (?rows d)) = assemble_scripts d [] (map fst (?rows d))"
    by (rule assemble_cong) (use l(2) in auto)
  then show ?thesis by (simp add: get_for_image_def Let_def links rows)
qed

text \<open>C10: importing the scripts of an image archive leaves every script that another image uses, and what
  every other image runs, as it was; afterwards the image runs exactly the scripts of the archive, in
  order, with their bodies, inputs and root partitions, each under its name or that name with a number.\<close>

theorem import_correct:
  assumes d: "db_ok d" and i: "import_for_image im ss now d = Inr d'"
  shows "(\<forall>j. used_by_other_images d j im \<longrightarrow> get_script d' j = get_script d j) \<and>
    (\<forall>k. k \<noteq> im \<longrightarrow> get_for_image d' k = get_for_image d k) \<and>
    list_all2 (\<lambda>s l. s_body (is_script l) = ns_body (nis_script s) \<and> s_inputs (is_script l) = ns_inputs (nis_script s) \<and>
      is_root_partition l = nis_root_partition s \<and>
      (\<exists>k. s_name (is_script l) = import_name (ns_name (nis_script s)) k)) ss (get_for_image d' im)"
proof -
  obtain linked d1 where all: "import_all im ss now d = Inr (linked, d1)" and link: "link_scripts im linked d1 = Inr d'"
    using i by (auto simp: import_for_image_def and_then_Inr)
  note e = import_all_effect [OF d all]
  then have d1: "db_ok d1" by blast
  have d'_ok: "db_ok d'" by (rule link_scripts_db_ok [OF d1 link])
  from link [unfolded link_scripts_Inr] have dist: "distinct (map fst linked)"
    and ex: "fst ` set linked \<subseteq> scr_id ` set (scripts d1)"
    and d': "d' = d1\<lparr>image_scripts := delete_where (\<lambda>l. isr_image l = im) (image_scripts d1) @ link_rows im 0 linked\<rparr>"
    by blast+
  have same: "get_script d' j = get_script d1 j" for j
    by (rule get_script_cong) (simp_all add: d' script_row_of_def load_inputs_def)
  have used: "\<forall>j. used_by_other_images d j im \<longrightarrow> get_script d' j = get_script d j" using e same by simp
  have "get_for_image d' k = get_for_image d k" if k: "k \<noteq> im" for k
  proof (rule get_for_image_cong [OF d d'_ok])
    have "filter (\<lambda>l. isr_image l = k) (link_rows im 0 linked) = []"
      using k link_rows_member [of _ im 0 linked] by (auto simp: filter_empty_conv)
    moreover have "filter (\<lambda>l. isr_image l = k) (delete_where (\<lambda>l. isr_image l = im) ls) = filter (\<lambda>l. isr_image l = k) ls" for ls
      using k by (auto simp: delete_where_def intro!: filter_cong)
    ultimately show "filter (\<lambda>l. isr_image l = k) (image_scripts d') = filter (\<lambda>l. isr_image l = k) (image_scripts d)"
      using e by (simp add: d')
    show "get_script d' (isr_script l) = get_script d (isr_script l)" if "l \<in> set (image_scripts d)" "isr_image l = k" for l
      using used that k by (auto simp: used_by_other_images_def)
  qed
  moreover have "get_for_image d' im = map (\<lambda>(sid, root). \<lparr>is_script = projr (get_script d' sid), is_root_partition = root\<rparr>) linked"
  proof (rule get_for_image_linked [OF d'_ok _ dist])
    have "filter (\<lambda>l. isr_image l = im) (link_rows im 0 linked) = link_rows im 0 linked"
      unfolding filter_id_conv using link_rows_member by blast
    moreover have "filter (\<lambda>l. isr_image l = im) (delete_where (\<lambda>l. isr_image l = im) ls) = []" for ls
      by (auto simp: filter_empty_conv)
    ultimately show "filter (\<lambda>l. isr_image l = im) (image_scripts d') = link_rows im 0 linked" by (simp add: d')
    show "fst ` set linked \<subseteq> scr_id ` set (scripts d')" using ex by (simp add: d')
  qed
  moreover have "list_all2 (\<lambda>s l. snd l = nis_root_partition s \<and>
      (\<exists>sc. get_script d1 (fst l) = Inr sc \<and> s_body sc = ns_body (nis_script s) \<and>
         s_inputs sc = ns_inputs (nis_script s) \<and> (\<exists>k. s_name sc = import_name (ns_name (nis_script s)) k))) ss linked"
    using e dist by blast
  then have "list_all2 (\<lambda>s l. s_body (is_script l) = ns_body (nis_script s) \<and> s_inputs (is_script l) = ns_inputs (nis_script s) \<and>
      is_root_partition l = nis_root_partition s \<and>
      (\<exists>k. s_name (is_script l) = import_name (ns_name (nis_script s)) k)) ss
      (map (\<lambda>(sid, root). \<lparr>is_script = projr (get_script d' sid), is_root_partition = root\<rparr>) linked)"
    unfolding list_all2_map2 by (rule list_all2_mono) (auto simp: same)
  ultimately show ?thesis using used by simp
qed

theorem import_correct_witness:
  "\<exists>d'. import_for_image 1 [\<lparr>nis_script = \<lparr>ns_name = ''setup'', ns_body = ''#!/bin/sh'', ns_inputs = []\<rparr>,
      nis_root_partition = Some 2\<rparr>] 5
      (empty_db\<lparr>images := [\<lparr>ir_id = 1, ir_name = ''lab'', ir_kind = Disk, ir_captured_at = None,
        ir_status = Ready, ir_error = None, ir_deleted_at = None, ir_root = None, ir_sector = 512\<rparr>], next_image := 2\<rparr>) = Inr d' \<and>
    map is_root_partition (get_for_image d' 1) = [Some 2]"
proof -
  let ?s = "\<lparr>ns_name = ''setup'', ns_body = ''#!/bin/sh'', ns_inputs = []\<rparr>"
  let ?ss = "[\<lparr>nis_script = ?s, nis_root_partition = Some 2\<rparr>]"
  let ?d = "empty_db\<lparr>images := [\<lparr>ir_id = 1, ir_name = ''lab'', ir_kind = Disk, ir_captured_at = None,
        ir_status = Ready, ir_error = None, ir_deleted_at = None, ir_root = None, ir_sector = 512\<rparr>], next_image := 2\<rparr>"
  have ok: "db_ok ?d" by (simp add: db_ok_defs empty_db_def)
  have "is_ok (import_for_image 1 ?ss 5 ?d)" by code_simp
  then obtain d' where d': "import_for_image 1 ?ss 5 ?d = Inr d'" unfolding is_ok_iff by blast
  have "list_all2 (\<lambda>s l. is_root_partition l = nis_root_partition s) ?ss (get_for_image d' 1)"
    using import_correct [OF ok d'] by (auto elim: list_all2_mono)
  then have "map is_root_partition (get_for_image d' 1) = [Some 2]"
    by (auto simp: list_all2_Cons1)
  from conjI [OF d' this] show ?thesis by (rule exI)
qed

text \<open>setting the scripts of an image takes exactly a list of distinct existing scripts of a live image, and
  replaces the image's list as a whole: the image then runs them in that order, a script that was
  attached before keeps its root partition, a new one has none, and what other images run stays.\<close>

theorem set_for_image_correct:
  assumes d: "db_ok d"
  shows "((\<exists>d'. set_for_image im ids d = Inr d') \<longleftrightarrow>
      (\<exists>r \<in> set (images d). ir_id r = im \<and> ir_deleted_at r = None) \<and> distinct ids \<and> set ids \<subseteq> scr_id ` set (scripts d)) \<and>
    (\<forall>d'. set_for_image im ids d = Inr d' \<longrightarrow>
      map (\<lambda>l. s_id (is_script l)) (get_for_image d' im) = ids \<and>
      (\<forall>l \<in> set (get_for_image d' im). get_script d (s_id (is_script l)) = Inr (is_script l) \<and>
        is_root_partition l = (case map_of (rev (map (\<lambda>l. (isr_script l, isr_root l))
            (filter (\<lambda>l. isr_image l = im) (image_scripts d)))) (s_id (is_script l)) of None \<Rightarrow> None | Some root \<Rightarrow> root)) \<and>
      (\<forall>k. k \<noteq> im \<longrightarrow> get_for_image d' k = get_for_image d k))"
proof -
  define root where "root = (\<lambda>sid. case map_of (rev (map (\<lambda>l. (isr_script l, isr_root l))
            (filter (\<lambda>l. isr_image l = im) (image_scripts d)))) sid of None \<Rightarrow> None | Some root \<Rightarrow> root)"
  let ?linked = "map (\<lambda>sid. (sid, root sid)) ids"
  have link: "set_for_image im ids d = link_scripts im ?linked d"
    by (simp add: set_for_image_def root_def Let_def)
  have fst: "map fst ?linked = ids" "fst ` set ?linked = set ids" by (simp_all add: o_def image_image)
  have "map (\<lambda>l. s_id (is_script l)) (get_for_image d' im) = ids \<and>
      (\<forall>l \<in> set (get_for_image d' im). get_script d (s_id (is_script l)) = Inr (is_script l) \<and>
        is_root_partition l = root (s_id (is_script l))) \<and>
      (\<forall>k. k \<noteq> im \<longrightarrow> get_for_image d' k = get_for_image d k)"
    if set: "link_scripts im ?linked d = Inr d'" for d'
  proof -
    have d'_ok: "db_ok d'" by (rule link_scripts_db_ok [OF d set])
    from set [unfolded link_scripts_Inr fst] have dist: "distinct (map fst ?linked)" and ex: "set ids \<subseteq> scr_id ` set (scripts d)"
      and d': "d' = d\<lparr>image_scripts := delete_where (\<lambda>l. isr_image l = im) (image_scripts d) @ link_rows im 0 ?linked\<rparr>"
      unfolding fst by blast+
    have same: "get_script d' j = get_script d j" for j
      by (rule get_script_cong) (simp_all add: d' script_row_of_def load_inputs_def)
    have got: "get_for_image d' im = map (\<lambda>(sid, root). \<lparr>is_script = projr (get_script d' sid), is_root_partition = root\<rparr>) ?linked"
    proof (rule get_for_image_linked [OF d'_ok _ dist])
      have "filter (\<lambda>l. isr_image l = im) (link_rows im 0 ?linked) = link_rows im 0 ?linked"
        unfolding filter_id_conv using link_rows_member by blast
      moreover have "filter (\<lambda>l. isr_image l = im) (delete_where (\<lambda>l. isr_image l = im) ls) = []" for ls
        by (auto simp: filter_empty_conv)
      ultimately show "filter (\<lambda>l. isr_image l = im) (image_scripts d') = link_rows im 0 ?linked" by (simp add: d')
      show "fst ` set ?linked \<subseteq> scr_id ` set (scripts d')" unfolding fst using ex by (simp add: d')
    qed
    have script: "\<exists>sc. get_script d sid = Inr sc \<and> s_id sc = sid" if "sid \<in> set ids" for sid
    proof -
      have "sid \<in> scr_id ` set (scripts d)" using ex that by blast
      from linked_rows_of [OF d this] obtain r where "script_row_of d sid = Some r" "scr_id r = sid" by blast
      then show ?thesis by (auto simp: get_script_row)
    qed
    have ids: "map (\<lambda>l. s_id (is_script l)) (get_for_image d' im) = ids"
      unfolding got same by (simp add: o_def) (rule map_idI, use script in force)
    have "get_for_image d' k = get_for_image d k" if k: "k \<noteq> im" for k
    proof (rule get_for_image_cong [OF d d'_ok])
      have "filter (\<lambda>l. isr_image l = k) (link_rows im 0 ?linked) = []"
        using k link_rows_member [of _ im 0 ?linked] by (auto simp: filter_empty_conv)
      moreover have "filter (\<lambda>l. isr_image l = k) (delete_where (\<lambda>l. isr_image l = im) ls) = filter (\<lambda>l. isr_image l = k) ls" for ls
        using k by (auto simp: delete_where_def intro!: filter_cong)
      ultimately show "filter (\<lambda>l. isr_image l = k) (image_scripts d') = filter (\<lambda>l. isr_image l = k) (image_scripts d)"
        by (simp add: d')
    qed (rule same)
    moreover have "\<forall>l \<in> set (get_for_image d' im). get_script d (s_id (is_script l)) = Inr (is_script l) \<and>
        is_root_partition l = root (s_id (is_script l))"
      unfolding got same using script by fastforce
    ultimately show ?thesis using ids by blast
  qed
  moreover have "(\<exists>d'. link_scripts im ?linked d = Inr d') \<longleftrightarrow>
      (\<exists>r \<in> set (images d). ir_id r = im \<and> ir_deleted_at r = None) \<and> distinct ids \<and> set ids \<subseteq> scr_id ` set (scripts d)"
    unfolding link_scripts_Inr fst by blast
  ultimately show ?thesis unfolding link root_def by blast
qed

theorem set_for_image_correct_witness:
  "\<exists>d'. set_for_image 1 [] (empty_db\<lparr>images := [\<lparr>ir_id = 1, ir_name = ''lab'', ir_kind = Disk, ir_captured_at = None,
        ir_status = Ready, ir_error = None, ir_deleted_at = None, ir_root = None, ir_sector = 512\<rparr>], next_image := 2\<rparr>) = Inr d' \<and>
     get_for_image d' 1 = []"
proof -
  let ?d = "empty_db\<lparr>images := [\<lparr>ir_id = 1, ir_name = ''lab'', ir_kind = Disk, ir_captured_at = None,
        ir_status = Ready, ir_error = None, ir_deleted_at = None, ir_root = None, ir_sector = 512\<rparr>], next_image := 2\<rparr>"
  have ok: "db_ok ?d" by (simp add: db_ok_defs empty_db_def)
  note t = set_for_image_correct [OF ok, of 1 "[]"]
  have "\<exists>d'. set_for_image 1 [] ?d = Inr d'" unfolding conjunct1 [OF t] by simp
  then obtain d' where d': "set_for_image 1 [] ?d = Inr d'" by blast
  with conjunct2 [OF t] have "map (\<lambda>l. s_id (is_script l)) (get_for_image d' 1) = []" by blast
  then have "get_for_image d' 1 = []" by simp
  from conjI [OF d' this] show ?thesis by (rule exI)
qed

text \<open>An archive with the scripts \<open>a\<close> and \<open>a-2\<close>, imported where another image uses a different \<open>a\<close>, is
  refused: the first is stored as \<open>a-2\<close>, the second overwrites it, and the image would list it twice.\<close>

theorem numbered_import_collides:
  "\<exists>d. db_ok d \<and>
     (\<forall>s \<in> {\<lparr>ns_name = ''a'', ns_body = ''one'', ns_inputs = []\<rparr>, \<lparr>ns_name = ''a-2'', ns_body = ''two'', ns_inputs = []\<rparr>}.
        validate_new_script s = Inr ()) \<and>
     import_for_image 2 [\<lparr>nis_script = \<lparr>ns_name = ''a'', ns_body = ''one'', ns_inputs = []\<rparr>, nis_root_partition = None\<rparr>,
       \<lparr>nis_script = \<lparr>ns_name = ''a-2'', ns_body = ''two'', ns_inputs = []\<rparr>, nis_root_partition = None\<rparr>] 5 d =
     Inl (InvalidArgument ''script 2 is listed twice'')"
proof -
  let ?i = "\<lambda>k. \<lparr>ir_id = k, ir_name = ''lab'', ir_kind = Disk, ir_captured_at = None, ir_status = Ready,
      ir_error = None, ir_deleted_at = None, ir_root = None, ir_sector = 512\<rparr>"
  let ?d = "empty_db\<lparr>images := [?i 1, ?i 2], next_image := 3,
      scripts := [\<lparr>scr_id = 1, scr_name = ''a'', scr_body = ''other'', scr_updated_at = 0\<rparr>], next_script := 2,
      image_scripts := [\<lparr>isr_image = 1, isr_position = 0, isr_script = 1, isr_root = None\<rparr>]\<rparr>"
  have "db_ok ?d" by (simp add: db_ok_defs empty_db_def)
  moreover have "\<forall>s \<in> {\<lparr>ns_name = ''a'', ns_body = ''one'', ns_inputs = []\<rparr>, \<lparr>ns_name = ''a-2'', ns_body = ''two'', ns_inputs = []\<rparr>}.
        validate_new_script s = Inr ()" by code_simp
  moreover have "import_for_image 2 [\<lparr>nis_script = \<lparr>ns_name = ''a'', ns_body = ''one'', ns_inputs = []\<rparr>, nis_root_partition = None\<rparr>,
       \<lparr>nis_script = \<lparr>ns_name = ''a-2'', ns_body = ''two'', ns_inputs = []\<rparr>, nis_root_partition = None\<rparr>] 5 ?d =
     Inl (InvalidArgument ''script 2 is listed twice'')" by code_simp
  ultimately show ?thesis by (intro exI conjI)
qed

subsection \<open>Integrity\<close>

lemma import_for_image_db_ok: "db_ok d \<Longrightarrow> import_for_image im ss now d = Inr d' \<Longrightarrow> db_ok d'"
proof -
  assume d: "db_ok d" and i: "import_for_image im ss now d = Inr d'"
  then obtain linked d1 where "import_all im ss now d = Inr (linked, d1)" "link_scripts im linked d1 = Inr d'"
    by (auto simp: import_for_image_def and_then_Inr)
  moreover from import_all_effect [OF d this(1)] have "db_ok d1" by blast
  ultimately show ?thesis using link_scripts_db_ok by blast
qed

lemma set_for_image_db_ok: "db_ok d \<Longrightarrow> set_for_image im ids d = Inr d' \<Longrightarrow> db_ok d'"
  unfolding set_for_image_def Let_def by (rule link_scripts_db_ok)

lemma set_root_for_image_db_ok: "db_ok d \<Longrightarrow> set_root_for_image im p n d = Inr d' \<Longrightarrow> db_ok d'"
  using set_script_roots_db_ok by (auto simp: set_root_for_image_def split: if_splits)

lemma create_script_db_ok: "db_ok d \<Longrightarrow> create_script s now d = Inr (sc, d') \<Longrightarrow> db_ok d'"
  by (auto simp: create_script_def and_then_Inr dest: write_script_effect(1))

lemma update_script_db_ok: "db_ok d \<Longrightarrow> update_script k s now d = Inr (sc, d') \<Longrightarrow> db_ok d'"
  by (auto simp: update_script_def and_then_Inr dest: write_script_effect(1))

lemma delete_script_db_ok:
  assumes d: "db_ok d" and del: "delete_script sid d = Inr d'"
  shows "db_ok d'"
proof -
  have unused: "\<forall>l \<in> set (image_scripts d). isr_script l \<noteq> sid"
    and d': "d' = d\<lparr>scripts := delete_where (\<lambda>r. scr_id r = sid) (scripts d),
                  script_inputs := delete_where (\<lambda>r. sir_script r = sid) (script_inputs d)\<rparr>"
    using del by (auto simp: delete_script_def split: if_splits)
  have keep: "x \<in> scr_id ` {r \<in> set (scripts d). scr_id r \<noteq> sid}" if "x \<in> scr_id ` set (scripts d)" "x \<noteq> sid" for x
    using that by auto
  have "unique_keys d'" using d by (simp add: d' db_ok_def unique_keys_def distinct_map_delete_where)
  moreover have "foreign_keys d'" using d unused by (simp add: d' db_ok_def foreign_keys_def host_ids_def keep)
  moreover have "fresh_ids d'" using d by (simp add: d' db_ok_def fresh_ids_def)
  ultimately show ?thesis by (simp add: db_ok_def)
qed

end
