(* ===== verification/Progress.thy ===== *)
theory Progress
  imports Model_Types BTree_Map "HOL-Library.Multiset"
begin

text \<open>
  The live progress board, \<open>crates/core/src/progress.rs\<close>, with the reports it collects
  (\<open>crates/model/src/progress.rs\<close>, \<open>crates/model/src/multicast.rs\<close>, \<open>MulticastProgress\<close> of
  \<open>crates/core/src/multicast.rs\<close>). The board only stores and copies the \<open>f64\<close> values of a report, so their
  type is a type variable. The watch channel holds one snapshot that each method replaces. A \<open>HashMap\<close> is
  kept as its sorted list of pairs, and \<open>snapshot_tasks\<close> takes the order in which the map is iterated,
  which is unspecified, as an argument.
\<close>

subsection \<open>Reports\<close>

datatype 'f stage =
    PartitionTable
  | PartitionStage (st_number: int) (st_index: u64) (st_count: u64) (st_rate: 'f) (st_eta: "u64 option")
  | Finishing

record 'f host_progress =
  hp_task :: int
  hp_fraction :: 'f
  hp_stage :: "'f stage"

datatype transfer_phase = Gathering | Sending | Draining

record 'f receiver_progress =
  rp_host :: int
  rp_name :: string
  rp_joined :: bool
  rp_limiting :: bool
  rp_slices_behind :: u32
  rp_loss :: 'f
  rp_naks :: u64
  rp_sink_stall_ms :: u32

record 'f multicast_progress =
  mp_task :: int
  mp_phase :: transfer_phase
  mp_rate :: 'f
  mp_step :: u64
  mp_steps :: u64
  mp_eta :: "nat option"
  mp_receivers :: "'f receiver_progress list"

subsection \<open>The board\<close>

record 'f task_progress =
  tp_task :: int
  tp_hosts :: "(int, 'f host_progress) btree_map"
  tp_multicast :: "'f multicast_progress option"

definition new_task_progress :: "int \<Rightarrow> 'f task_progress" where
  "new_task_progress task = \<lparr>tp_task = task, tp_hosts = [], tp_multicast = None\<rparr>"

record 'f snapshot =
  sn_hosts :: "(int, 'f host_progress) btree_map"
  sn_multicast :: "'f multicast_progress option"

definition empty_snapshot :: "'f snapshot" where
  "empty_snapshot = \<lparr>sn_hosts = [], sn_multicast = None\<rparr>"

definition task_entry ::
  "int \<Rightarrow> ('f task_progress \<Rightarrow> 'f task_progress) \<Rightarrow> (int, 'f task_progress) btree_map \<Rightarrow>
   (int, 'f task_progress) btree_map" where
  "task_entry task f m =
     bt_insert task (f (case bt_lookup m task of None \<Rightarrow> new_task_progress task | Some t \<Rightarrow> t)) m"

definition add_host ::
  "int \<times> 'f host_progress \<Rightarrow> (int, 'f task_progress) btree_map \<Rightarrow> (int, 'f task_progress) btree_map" where
  "add_host hp = task_entry (hp_task (snd hp)) (\<lambda>t. t\<lparr>tp_hosts := bt_insert (fst hp) (snd hp) (tp_hosts t)\<rparr>)"

definition add_multicast ::
  "'f multicast_progress option \<Rightarrow> (int, 'f task_progress) btree_map \<Rightarrow> (int, 'f task_progress) btree_map" where
  "add_multicast mc m =
     (case mc of None \<Rightarrow> m | Some p \<Rightarrow> task_entry (mp_task p) (\<lambda>t. t\<lparr>tp_multicast := Some p\<rparr>) m)"

definition snapshot_tasks :: "(int \<times> 'f host_progress) list \<Rightarrow> 'f snapshot \<Rightarrow> 'f task_progress list" where
  "snapshot_tasks order s = map snd (add_multicast (sn_multicast s) (fold add_host order []))"

definition report :: "int \<Rightarrow> 'f host_progress \<Rightarrow> 'f snapshot \<Rightarrow> 'f snapshot" where
  "report host p s = s\<lparr>sn_hosts := bt_insert host p (sn_hosts s)\<rparr>"

definition forget :: "int \<Rightarrow> 'f snapshot \<Rightarrow> 'f snapshot" where
  "forget host s = s\<lparr>sn_hosts := bt_remove host (sn_hosts s)\<rparr>"

definition report_multicast :: "'f multicast_progress \<Rightarrow> 'f snapshot \<Rightarrow> 'f snapshot" where
  "report_multicast p s = s\<lparr>sn_multicast := Some p\<rparr>"

definition end_multicast :: "'f snapshot \<Rightarrow> 'f snapshot" where
  "end_multicast s = s\<lparr>sn_multicast := None\<rparr>"

datatype 'f board_op =
    Report int "'f host_progress"
  | Forget int
  | Report_multicast "'f multicast_progress"
  | End_multicast

fun board_step :: "'f board_op \<Rightarrow> 'f snapshot \<Rightarrow> 'f snapshot" where
  "board_step (Report host p) = report host p"
| "board_step (Forget host) = forget host"
| "board_step (Report_multicast p) = report_multicast p"
| "board_step End_multicast = end_multicast"

definition board :: "'f board_op list \<Rightarrow> 'f snapshot" where
  "board ops = fold board_step ops empty_snapshot"

subsection \<open>What the board should show\<close>

text \<open>The last report of a host that was not followed by forgetting the host, and likewise for the
  multicast session; the most recent operation is the head of the list.\<close>

fun reported :: "'f board_op list \<Rightarrow> int \<Rightarrow> 'f host_progress option" where
  "reported [] h = None"
| "reported (Report h' p # ops) h = (if h' = h then Some p else reported ops h)"
| "reported (Forget h' # ops) h = (if h' = h then None else reported ops h)"
| "reported (_ # ops) h = reported ops h"

fun session :: "'f board_op list \<Rightarrow> 'f multicast_progress option" where
  "session [] = None"
| "session (Report_multicast p # ops) = Some p"
| "session (End_multicast # ops) = None"
| "session (_ # ops) = session ops"

lemma bt_lookup_remove: "bt_inv m \<Longrightarrow> bt_lookup (bt_remove k m) = (bt_lookup m)(k := None)"
  by (simp add: bt_lookup_def [abs_def] bt_remove_lookup bt_inv_def)

lemma board_snoc: "board (ops @ [x]) = board_step x (board ops)"
  by (simp add: board_def)

lemma board_inv: "bt_inv (sn_hosts (board ops))"
proof (induction ops rule: rev_induct)
  case Nil
  then show ?case by (simp add: board_def empty_snapshot_def)
next
  case (snoc x ops)
  then show ?case
    by (cases x) (simp_all add: board_snoc report_def forget_def report_multicast_def end_multicast_def
      bt.inv_insert bt_remove_inv)
qed

lemma board_reported:
  "bt_lookup (sn_hosts (board ops)) h = reported (rev ops) h" "sn_multicast (board ops) = session (rev ops)"
proof (induction ops rule: rev_induct)
  case Nil
  { case 1 show ?case by (simp add: board_def empty_snapshot_def bt_lookup_def) }
  { case 2 show ?case by (simp add: board_def empty_snapshot_def) }
next
  case (snoc x ops)
  { case 1 show ?case
      using snoc.IH(1) board_inv [of ops]
      by (cases x) (simp_all add: board_snoc report_def forget_def report_multicast_def end_multicast_def
        bt.lookup_insert bt_lookup_remove) }
  { case 2 show ?case
      using snoc.IH(2)
      by (cases x) (simp_all add: board_snoc report_def forget_def report_multicast_def end_multicast_def) }
qed

subsection \<open>Grouping by task\<close>

text \<open>What the loop has built after the reports \<open>kvs\<close>: an entry per task, each with its own hosts.\<close>

definition groups_of ::
  "(int \<times> 'f host_progress) list \<Rightarrow> (int, 'f task_progress) btree_map \<Rightarrow> bool" where
  "groups_of kvs m \<longleftrightarrow> bt_inv m \<and>
     dom (bt_lookup m) = (\<lambda>kv. hp_task (snd kv)) ` set kvs \<and>
     (\<forall>t e. bt_lookup m t = Some e \<longrightarrow>
        tp_task e = t \<and> tp_multicast e = None \<and> bt_inv (tp_hosts e) \<and>
        bt_lookup (tp_hosts e) = map_of (filter (\<lambda>kv. hp_task (snd kv) = t) kvs))"

lemma groups_of_Nil: "groups_of [] []"
  by (simp add: groups_of_def bt_lookup_def [abs_def])

lemma groups_of_add:
  assumes "groups_of kvs m"
  shows "groups_of (kv # kvs) (add_host kv m)"
proof -
  obtain h p where kv: "kv = (h, p)" by (cases kv)
  have m: "bt_inv m" and d: "dom (bt_lookup m) = (\<lambda>kv. hp_task (snd kv)) ` set kvs"
    using assms by (simp_all add: groups_of_def)
  define e0 where "e0 = (case bt_lookup m (hp_task p) of None \<Rightarrow> new_task_progress (hp_task p) | Some t \<Rightarrow> t)"
  have none: "filter (\<lambda>kv. hp_task (snd kv) = hp_task p) kvs = []" if "bt_lookup m (hp_task p) = None"
    using that d by (force simp: filter_empty_conv)
  have e0: "tp_task e0 = hp_task p" "tp_multicast e0 = None" "bt_inv (tp_hosts e0)"
    "bt_lookup (tp_hosts e0) = map_of (filter (\<lambda>kv. hp_task (snd kv) = hp_task p) kvs)"
    using assms none
    by (auto simp: e0_def groups_of_def new_task_progress_def bt_lookup_def [abs_def] split: option.splits)
  have eq: "add_host kv m = bt_insert (hp_task p) (e0\<lparr>tp_hosts := bt_insert h p (tp_hosts e0)\<rparr>) m"
    by (simp add: add_host_def task_entry_def kv e0_def)
  have l: "bt_lookup (add_host kv m) = (bt_lookup m)(hp_task p \<mapsto> e0\<lparr>tp_hosts := bt_insert h p (tp_hosts e0)\<rparr>)"
    unfolding eq using m by (rule bt.lookup_insert)
  show ?thesis
    unfolding groups_of_def l
  proof (intro conjI allI impI)
    show "bt_inv (add_host kv m)" unfolding eq using m by (rule bt.inv_insert)
    show "dom ((bt_lookup m)(hp_task p \<mapsto> e0\<lparr>tp_hosts := bt_insert h p (tp_hosts e0)\<rparr>)) =
      (\<lambda>kv. hp_task (snd kv)) ` set (kv # kvs)"
      using d by (simp add: kv)
  next
    fix t e
    assume e: "((bt_lookup m)(hp_task p \<mapsto> e0\<lparr>tp_hosts := bt_insert h p (tp_hosts e0)\<rparr>)) t = Some e"
    have "tp_task e = t \<and> tp_multicast e = None \<and> bt_inv (tp_hosts e) \<and>
      bt_lookup (tp_hosts e) = map_of (filter (\<lambda>kv. hp_task (snd kv) = t) (kv # kvs))"
    proof (cases "t = hp_task p")
      case True
      then have "e = e0\<lparr>tp_hosts := bt_insert h p (tp_hosts e0)\<rparr>" using e by simp
      then show ?thesis using e0 True by (simp add: kv bt.inv_insert bt.lookup_insert)
    next
      case False
      then have "bt_lookup m t = Some e" using e by simp
      then show ?thesis using assms False by (auto simp: groups_of_def kv)
    qed
    then show "tp_task e = t" "tp_multicast e = None" "bt_inv (tp_hosts e)"
      "bt_lookup (tp_hosts e) = map_of (filter (\<lambda>kv. hp_task (snd kv) = t) (kv # kvs))" by blast+
  qed
qed

lemma groups_of_fold: "groups_of kvs m \<Longrightarrow> groups_of (rev kvs' @ kvs) (fold add_host kvs' m)"
  by (induction kvs' arbitrary: kvs m) (simp_all add: groups_of_add)

lemma map_of_filter_distinct:
  "distinct (map fst kvs) \<Longrightarrow>
   map_of (filter (\<lambda>kv. P (snd kv)) kvs) h =
   (case map_of kvs h of None \<Rightarrow> None | Some p \<Rightarrow> if P p then Some p else None)"
proof (induction kvs)
  case Nil
  then show ?case by simp
next
  case (Cons kv kvs)
  obtain k v where kv: "kv = (k, v)" by (cases kv)
  have "map_of kvs k = None" using Cons.prems by (simp add: kv map_of_eq_None_iff)
  moreover from this have "map_of (filter (\<lambda>kv. P (snd kv)) kvs) k = None"
    by (force simp: map_of_eq_None_iff)
  ultimately show ?case using Cons by (simp add: kv)
qed

text \<open>The finished map, with the multicast session merged in.\<close>

lemma add_multicast_entries:
  assumes "groups_of kvs m"
  shows "bt_inv (add_multicast mc m)"
    "dom (bt_lookup (add_multicast mc m)) = (\<lambda>kv. hp_task (snd kv)) ` set kvs \<union> mp_task ` set_option mc"
    "bt_lookup (add_multicast mc m) t = Some e \<Longrightarrow>
       tp_task e = t \<and> bt_inv (tp_hosts e) \<and>
       bt_lookup (tp_hosts e) = map_of (filter (\<lambda>kv. hp_task (snd kv) = t) kvs) \<and>
       tp_multicast e = (case mc of None \<Rightarrow> None | Some p \<Rightarrow> if mp_task p = t then Some p else None)"
proof -
  have m: "bt_inv m" using assms by (simp add: groups_of_def)
  have all: "bt_inv (add_multicast mc m) \<and>
    dom (bt_lookup (add_multicast mc m)) = (\<lambda>kv. hp_task (snd kv)) ` set kvs \<union> mp_task ` set_option mc \<and>
    (bt_lookup (add_multicast mc m) t = Some e \<longrightarrow>
       tp_task e = t \<and> bt_inv (tp_hosts e) \<and>
       bt_lookup (tp_hosts e) = map_of (filter (\<lambda>kv. hp_task (snd kv) = t) kvs) \<and>
       tp_multicast e = (case mc of None \<Rightarrow> None | Some p \<Rightarrow> if mp_task p = t then Some p else None))" for t e
  proof (cases mc)
    case None
    then show ?thesis using assms by (simp add: add_multicast_def groups_of_def)
  next
    case (Some p)
    define e0 where "e0 = (case bt_lookup m (mp_task p) of None \<Rightarrow> new_task_progress (mp_task p) | Some t \<Rightarrow> t)"
    have none: "filter (\<lambda>kv. hp_task (snd kv) = mp_task p) kvs = []" if "bt_lookup m (mp_task p) = None"
      using that assms by (force simp: filter_empty_conv groups_of_def)
    have e0: "tp_task e0 = mp_task p" "bt_inv (tp_hosts e0)"
      "bt_lookup (tp_hosts e0) = map_of (filter (\<lambda>kv. hp_task (snd kv) = mp_task p) kvs)"
      using assms none
      by (auto simp: e0_def groups_of_def new_task_progress_def bt_lookup_def [abs_def] split: option.splits)
    have eq: "add_multicast mc m = bt_insert (mp_task p) (e0\<lparr>tp_multicast := Some p\<rparr>) m"
      by (simp add: add_multicast_def task_entry_def Some e0_def)
    have l: "bt_lookup (add_multicast mc m) = (bt_lookup m)(mp_task p \<mapsto> e0\<lparr>tp_multicast := Some p\<rparr>)"
      unfolding eq using m by (rule bt.lookup_insert)
    have inv: "bt_inv (add_multicast mc m)" unfolding eq using m by (rule bt.inv_insert)
    show ?thesis
      using inv e0 assms unfolding l groups_of_def by (auto simp: Some split: if_splits)
  qed
  show "bt_inv (add_multicast mc m)" using all by blast
  show "dom (bt_lookup (add_multicast mc m)) = (\<lambda>kv. hp_task (snd kv)) ` set kvs \<union> mp_task ` set_option mc"
    using all by blast
  show "tp_task e = t \<and> bt_inv (tp_hosts e) \<and>
       bt_lookup (tp_hosts e) = map_of (filter (\<lambda>kv. hp_task (snd kv) = t) kvs) \<and>
       tp_multicast e = (case mc of None \<Rightarrow> None | Some p \<Rightarrow> if mp_task p = t then Some p else None)"
    if "bt_lookup (add_multicast mc m) t = Some e" using all that by blast
qed

lemma bt_entries: "bt_inv m \<Longrightarrow> (k, v) \<in> set m \<longleftrightarrow> bt_lookup m k = Some v"
  by (simp add: bt_lookup_def bt_inv_def strict_sorted_iff)

text \<open>C26: whatever the order in which the hash map is iterated, the board shows one entry per task that a host
  or the multicast session last reported on, in increasing order of the task ids; each entry holds exactly the hosts whose last
  report, not followed by a \<open>forget\<close>, is about that task, and the session if it is about it.\<close>

theorem progress_shows_last_reports:
  assumes "mset order = mset (sn_hosts (board ops))"
  shows "let shown = snapshot_tasks order (board ops); last = reported (rev ops); mc = session (rev ops)
    in sorted_wrt (<) (map tp_task shown) \<and>
       set (map tp_task shown) = {hp_task p | h p. last h = Some p} \<union> mp_task ` set_option mc \<and>
       (\<forall>t \<in> set shown. bt_inv (tp_hosts t) \<and>
          (\<forall>h. bt_lookup (tp_hosts t) h =
             (case last h of None \<Rightarrow> None | Some p \<Rightarrow> if hp_task p = tp_task t then Some p else None)) \<and>
          tp_multicast t = (case mc of None \<Rightarrow> None | Some p \<Rightarrow> if mp_task p = tp_task t then Some p else None))"
proof -
  define m where "m = fold add_host order []"
  define mc where "mc = session (rev ops)"
  define f where "f = add_multicast mc m"
  have g: "groups_of (rev order) m"
    unfolding m_def using groups_of_fold [OF groups_of_Nil, of order] by simp
  note e = add_multicast_entries [OF g, of mc, folded f_def]
  have keys: "distinct (map fst order)"
  proof -
    have "mset (map fst order) = mset (map fst (sn_hosts (board ops)))" using assms by simp
    from mset_eq_imp_distinct_iff [OF this] show ?thesis
      using board_inv [of ops] by (simp add: bt_inv_def strict_sorted_iff)
  qed
  have look: "map_of order h = reported (rev ops) h" for h
  proof -
    have "set order = set (sn_hosts (board ops))" using assms by (rule mset_eq_setD)
    then have "map_of order = map_of (sn_hosts (board ops))"
      using keys board_inv [of ops] by (intro map_of_inject_set [THEN iffD2]) (simp_all add: bt_inv_def strict_sorted_iff)
    then show ?thesis using board_reported(1) [of ops h] by (simp add: bt_lookup_def)
  qed
  have rev_look: "map_of (filter (\<lambda>kv. hp_task (snd kv) = t) (rev order)) h =
      (case reported (rev ops) h of None \<Rightarrow> None | Some p \<Rightarrow> if hp_task p = t then Some p else None)" for t h
  proof -
    have "map_of (rev order) = map_of order"
      using keys by (intro map_of_inject_set [THEN iffD2]) (simp_all add: rev_map [symmetric])
    then show ?thesis
      using map_of_filter_distinct [of "rev order" "\<lambda>p. hp_task p = t" h] keys look [of h] by (simp add: rev_map [symmetric])
  qed
  have shown: "snapshot_tasks order (board ops) = map snd f"
    by (simp add: snapshot_tasks_def f_def m_def mc_def board_reported(2))
  have entry: "tp_task v = k" if "(k, v) \<in> set f" for k v
    using e(3) [of k v] that e(1) by (simp add: bt_entries)
  have names: "map tp_task (map snd f) = map fst f"
    using entry by auto
  have tasks: "(\<lambda>kv. hp_task (snd kv)) ` set (rev order) = {hp_task p | h p. reported (rev ops) h = Some p}"
    using keys by (force simp: look [symmetric])
  have dom: "set (map fst f) = dom (bt_lookup f)"
    using bt.keys_dom [OF e(1)] by (simp add: bt_keys_def)
  have each: "bt_inv (tp_hosts t) \<and>
      (\<forall>h. bt_lookup (tp_hosts t) h =
        (case reported (rev ops) h of None \<Rightarrow> None | Some p \<Rightarrow> if hp_task p = tp_task t then Some p else None)) \<and>
      tp_multicast t = (case mc of None \<Rightarrow> None | Some p \<Rightarrow> if mp_task p = tp_task t then Some p else None)"
    if "t \<in> set (map snd f)" for t
  proof -
    from that obtain k where k: "(k, t) \<in> set f" by auto
    have "bt_lookup f k = Some t" using k e(1) by (simp add: bt_entries)
    from e(3) [OF this] show ?thesis by (simp only: entry [OF k] rev_look simp_thms)
  qed
  show ?thesis
    unfolding Let_def shown mc_def [symmetric] names dom e(2) tasks
    using e(1) each by (auto simp: bt_inv_def)
qed

theorem progress_shows_last_reports_witness:
  "map tp_task (snapshot_tasks
     [(2, \<lparr>hp_task = 9, hp_fraction = (1 :: nat), hp_stage = Finishing\<rparr>)]
     (board [Report 5 \<lparr>hp_task = 3, hp_fraction = 0, hp_stage = Finishing\<rparr>,
       Report 2 \<lparr>hp_task = 9, hp_fraction = 1, hp_stage = Finishing\<rparr>, Forget 5])) = [9]"
proof -
  let ?p = "\<lparr>hp_task = 9, hp_fraction = (1 :: nat), hp_stage = Finishing\<rparr>"
  let ?ops = "[Report 5 \<lparr>hp_task = 3, hp_fraction = 0, hp_stage = Finishing\<rparr>, Report 2 ?p, Forget 5]"
  have m: "mset [(2, ?p)] = mset (sn_hosts (board ?ops))"
    by (simp add: board_def report_def forget_def empty_snapshot_def)
  have "set (map tp_task (snapshot_tasks [(2, ?p)] (board ?ops))) = {hp_task p | h p. reported (rev ?ops) h = Some p} \<union> {}"
    using progress_shows_last_reports [OF m] by (simp add: Let_def)
  moreover have "{hp_task p | h p. reported (rev ?ops) h = Some p} = {9}" by auto
  moreover have "sorted_wrt (<) (map tp_task (snapshot_tasks [(2, ?p)] (board ?ops)))"
    using progress_shows_last_reports [OF m] unfolding Let_def by blast
  ultimately show ?thesis
    using strict_sorted_equal [of "map tp_task (snapshot_tasks [(2, ?p)] (board ?ops))" "[9]"] by simp
qed

end
