(* ===== verification/Multicast_Ports.thy ===== *)
theory Multicast_Ports
  imports Prelude
begin

text \<open>
  \<open>crates/model/src/multicast.rs\<close>: the port of a file and the group of a task, which server and agents
  compute on their own and have to agree on. Ports and addresses are machine words. A file occupies two ports:
  the sender binds the port itself and the group's traffic goes to the next one.
\<close>

definition MULTICAST_PORT_BASE :: u16 where
  "MULTICAST_PORT_BASE = 50000"

definition MAX_MULTICAST_SLOT :: int where
  "MAX_MULTICAST_SLOT = (65535 - uint MULTICAST_PORT_BASE - 2) div 2"

text \<open>\<open>slot as u16\<close> keeps the low 16 bits.\<close>

definition get_multicast_port :: "int \<Rightarrow> u16" where
  "get_multicast_port slot =
     (if 0 \<le> slot \<and> slot \<le> MAX_MULTICAST_SLOT then MULTICAST_PORT_BASE + word_of_int slot * 2 else 65535)"

definition ORGANIZATION_LOCAL_SCOPE :: u32 where
  "ORGANIZATION_LOCAL_SCOPE = 239 * 2 ^ 24 + 192 * 2 ^ 16"

definition GROUPS_IN_SCOPE :: u32 where
  "GROUPS_IN_SCOPE = push_bit 18 1"

definition multicast_group :: "int \<Rightarrow> u32" where
  "multicast_group task_id = or ORGANIZATION_LOCAL_SCOPE (word_of_int task_id mod GROUPS_IN_SCOPE)"

lemma MAX_MULTICAST_SLOT: "MAX_MULTICAST_SLOT = 7766"
  by (simp add: MAX_MULTICAST_SLOT_def MULTICAST_PORT_BASE_def)

lemma word_succ: "uint (x + 1 :: u16) = (uint x + 1) mod 2 ^ 16"
  by (simp add: uint_word_ariths)

lemma port_value:
  assumes "0 \<le> slot" "slot \<le> MAX_MULTICAST_SLOT"
  shows "uint (get_multicast_port slot) = 50000 + 2 * slot"
proof -
  have s: "slot \<le> 7766" using assms(2) by (simp add: MAX_MULTICAST_SLOT)
  have "uint (word_of_int slot :: u16) = slot"
    using assms(1) s by (simp add: uint_word_of_int)
  then have "uint (word_of_int slot * 2 :: u16) = 2 * slot"
    using assms(1) s by (simp add: uint_word_ariths)
  then show ?thesis
    using assms s by (simp add: get_multicast_port_def MULTICAST_PORT_BASE_def uint_word_ariths)
qed

text \<open>The two ports of a file.\<close>

definition file_ports :: "int \<Rightarrow> u16 set" where
  "file_ports slot = {get_multicast_port slot, get_multicast_port slot + 1}"

text \<open>C27: within a transfer no two files share a port: the pairs (sender port, group port) of distinct slots are disjoint, every valid
  slot's pair lies in 50000..=65533 with an even sender port, and every slot out of the domain gets the port 65535, which is
  in no valid slot's pair.\<close>

theorem file_ports_disjoint:
  "(0 \<le> a \<and> a \<le> MAX_MULTICAST_SLOT \<longrightarrow>
      even (unat (get_multicast_port a)) \<and> (\<forall>p \<in> file_ports a. 50000 \<le> unat p \<and> unat p \<le> 65533)) \<and>
   (\<not> (0 \<le> a \<and> a \<le> MAX_MULTICAST_SLOT) \<longrightarrow> unat (get_multicast_port a) = 65535) \<and>
   (0 \<le> a \<and> a \<le> MAX_MULTICAST_SLOT \<and> 0 \<le> b \<and> b \<le> MAX_MULTICAST_SLOT \<and> a \<noteq> b \<longrightarrow>
      file_ports a \<inter> file_ports b = {}) \<and>
   (0 \<le> a \<and> a \<le> MAX_MULTICAST_SLOT \<and> \<not> (0 \<le> b \<and> b \<le> MAX_MULTICAST_SLOT) \<longrightarrow> get_multicast_port b \<notin> file_ports a)"
proof -
  have pair: "uint p = 50000 + 2 * s \<or> uint p = 50000 + 2 * s + 1"
    if "p \<in> file_ports s" "0 \<le> s" "s \<le> MAX_MULTICAST_SLOT" for p s
  proof -
    have v: "uint (get_multicast_port s) = 50000 + 2 * s" using that(2,3) by (rule port_value)
    have "uint (get_multicast_port s + 1) = (uint (get_multicast_port s) + 1) mod 2 ^ 16"
      by (rule word_succ)
    also have "\<dots> = 50000 + 2 * s + 1"
      unfolding v using that(2,3) by (simp add: MAX_MULTICAST_SLOT)
    finally show ?thesis using that(1) v by (auto simp: file_ports_def)
  qed
  have 1: "even (unat (get_multicast_port a)) \<and> (\<forall>p \<in> file_ports a. 50000 \<le> unat p \<and> unat p \<le> 65533)"
    if a: "0 \<le> a" "a \<le> MAX_MULTICAST_SLOT"
  proof -
    have "int (unat (get_multicast_port a)) = 2 * (25000 + a)"
      using port_value [OF a] by (simp add: uint_nat [symmetric] distrib_left)
    then have "even (unat (get_multicast_port a))" by presburger
    moreover have "50000 \<le> unat p \<and> unat p \<le> 65533" if "p \<in> file_ports a" for p
      using pair [OF that a] a unfolding uint_nat MAX_MULTICAST_SLOT by linarith
    ultimately show ?thesis by simp
  qed
  have 2: "unat (get_multicast_port s) = 65535" if "\<not> (0 \<le> s \<and> s \<le> MAX_MULTICAST_SLOT)" for s
    using that by (auto simp: get_multicast_port_def)
  have 3: "file_ports a \<inter> file_ports b = {}"
    if "0 \<le> a" "a \<le> MAX_MULTICAST_SLOT" "0 \<le> b" "b \<le> MAX_MULTICAST_SLOT" "a \<noteq> b"
  proof (rule ccontr)
    assume "file_ports a \<inter> file_ports b \<noteq> {}"
    then obtain p where "p \<in> file_ports a" "p \<in> file_ports b" by blast
    then have "uint p = 50000 + 2 * a \<or> uint p = 50000 + 2 * a + 1" "uint p = 50000 + 2 * b \<or> uint p = 50000 + 2 * b + 1"
      using pair that by blast+
    with that(5) show False by presburger
  qed
  have 4: "get_multicast_port b \<notin> file_ports a"
    if "0 \<le> a" "a \<le> MAX_MULTICAST_SLOT" "\<not> (0 \<le> b \<and> b \<le> MAX_MULTICAST_SLOT)"
    using 1 [OF that(1,2)] 2 [OF that(3)] by auto
  from 1 2 3 4 show ?thesis by blast
qed

theorem file_ports_disjoint_witness: "file_ports 0 \<inter> file_ports 3 = {}"
  using file_ports_disjoint [of 0 3] by (simp add: MAX_MULTICAST_SLOT)

text \<open>The group of a task lies in the organization-local scope 239.192.0.0/14, and two tasks share a group exactly
  when their ids agree modulo 2 to the 18.\<close>

theorem multicast_group_correct:
  "take_bit 14 (drop_bit 18 (multicast_group a)) = take_bit 14 (drop_bit 18 ORGANIZATION_LOCAL_SCOPE) \<and>
   (multicast_group a = multicast_group b \<longleftrightarrow> a mod 2 ^ 18 = b mod 2 ^ 18)"
proof -
  have g: "GROUPS_IN_SCOPE = 2 ^ 18" by (simp add: GROUPS_IN_SCOPE_def)
  have low: "x mod GROUPS_IN_SCOPE = take_bit 18 x" for x :: u32
    by (simp add: g take_bit_eq_mod)
  have scope: "take_bit 18 ORGANIZATION_LOCAL_SCOPE = 0"
    by (simp add: ORGANIZATION_LOCAL_SCOPE_def take_bit_eq_mod)
  have m: "multicast_group x = or ORGANIZATION_LOCAL_SCOPE (take_bit 18 (word_of_int x))" for x
    by (simp add: multicast_group_def low)
  have d: "drop_bit 18 (multicast_group x) = drop_bit 18 ORGANIZATION_LOCAL_SCOPE" for x
    unfolding m by (simp add: drop_bit_or drop_bit_take_bit)
  have t: "take_bit 18 (multicast_group x) = take_bit 18 (word_of_int x)" for x
    unfolding m by (simp add: take_bit_or scope)
  have u: "uint (take_bit 18 (word_of_int x :: u32)) = x mod 2 ^ 18" for x
    by (simp add: unsigned_take_bit_eq unsigned_of_int take_bit_take_bit) (simp add: take_bit_eq_mod)
  have "multicast_group a = multicast_group b \<longleftrightarrow> take_bit 18 (word_of_int a :: u32) = take_bit 18 (word_of_int b)"
  proof
    assume "multicast_group a = multicast_group b"
    then show "take_bit 18 (word_of_int a :: u32) = take_bit 18 (word_of_int b)"
      using t [of a] t [of b] by simp
  qed (simp add: m)
  also have "\<dots> \<longleftrightarrow> a mod 2 ^ 18 = b mod 2 ^ 18"
    using u [of a] u [of b] by (metis word_uint_eqI)
  finally show ?thesis using d [of a] by simp
qed

end
