(* ===== verification/Multicast_Worker.thy ===== *)
theory Multicast_Worker
  imports Task_Queue Registry Progress Multicast_Ports Host_Repo
begin

text \<open>
  The multicast worker, \<open>crates/core/src/multicast.rs\<close> and \<open>crates/core/src/multicast/session.rs\<close>: it
  claims the pending hosts of a task, sends the image's files one after the other, and settles the hosts
  that are still running when the session is over. Sending itself is the crate \<open>scuttlecast\<close>: what one transfer ends
  with is an argument of \<open>send_files\<close>, and what a whole session does to the program's state, together with
  everything other tasks of the server do meanwhile, is the argument \<open>during\<close> of \<open>run_session\<close>. \<open>retrying\<close>
  repeats an attempt while it fails: the attempts here fail only for a task that does not exist.
\<close>

definition ORPHANED :: string where
  "ORPHANED = ''Server stopped while task was running''"

definition DISCONNECTED :: string where
  "DISCONNECTED = ''Host disconnected before reporting the multicast result''"

subsection \<open>The worker\<close>

definition fail_orphans :: "time \<Rightarrow> db \<Rightarrow> db" where
  "fail_orphans now d = fold (\<lambda>ty. fail_running ty ORPHANED now) [Multicast, MulticastPartition] d"

definition claim_host :: "int \<Rightarrow> time \<Rightarrow> int \<Rightarrow> db \<Rightarrow> db" where
  "claim_host tid now host d =
     (case get_next d host of
        Some nt \<Rightarrow>
          if t_id nt \<noteq> tid
          then mark_failed tid host (''Host was busy with task '' @ int_str (t_id nt)) now d
          else start tid host now d
      | None \<Rightarrow> start tid host now d)"

definition claim :: "task \<Rightarrow> time \<Rightarrow> db \<Rightarrow> db" where
  "claim t now d = fold (claim_host (t_id t) now) (hosts_in Pending t) d"

definition running_hosts :: "db \<Rightarrow> int \<Rightarrow> int list result" where
  "running_hosts d tid = and_then (get d tid) (\<lambda>t. Inr (hosts_in Running t))"

definition settle_host ::
  "int \<Rightarrow> app_error option \<Rightarrow> int list \<Rightarrow> time \<Rightarrow> int \<Rightarrow> db \<times> registry \<Rightarrow> db \<times> registry" where
  "settle_host tid failure connected now host s =
     (case failure of
        Some e \<Rightarrow> (mark_failed tid host (app_error_display e) now (fst s), dispatch host (snd s))
      | None \<Rightarrow>
          if host \<notin> set connected then (mark_failed tid host DISCONNECTED now (fst s), snd s) else s)"

definition settle :: "int \<Rightarrow> app_error option \<Rightarrow> time \<Rightarrow> db \<times> registry \<Rightarrow> (db \<times> registry) result" where
  "settle tid failure now s =
     (let connected = connected_hosts (snd s) in
      and_then (running_hosts (fst s) tid) (\<lambda>running.
        Inr (fold (settle_host tid failure connected now) running s)))"

text \<open>The program's state as far as the worker touches it.\<close>

record 'f worker_state =
  wk_db :: db
  wk_registry :: registry
  wk_board :: "'f snapshot"

definition run_session ::
  "task \<Rightarrow> ('f worker_state \<Rightarrow> unit result \<times> 'f worker_state) \<Rightarrow> time \<Rightarrow> time \<Rightarrow> 'f worker_state \<Rightarrow>
   'f worker_state result" where
  "run_session t during claimed_at settled_at w =
     (let w = w\<lparr>wk_db := claim t claimed_at (wk_db w)\<rparr>;
          (outcome, w) = during w;
          w = w\<lparr>wk_board := end_multicast (wk_board w)\<rparr>
      in and_then (settle (t_id t) (case outcome of Inl e \<Rightarrow> Some e | Inr _ \<Rightarrow> None) settled_at (wk_db w, wk_registry w))
           (\<lambda>(d, r). Inr (w\<lparr>wk_db := d, wk_registry := r\<rparr>)))"

subsection \<open>The files of a session\<close>

text \<open>The slots of a task's files: slot 0 is the partition table, which a partition transfer leaves out.\<close>

definition file_slots :: "image_partition list \<Rightarrow> bool \<Rightarrow> int list" where
  "file_slots partitions single_partition =
     (if single_partition then [] else [0]) @ map partition_number partitions"

record sent_file =
  sf_port :: u16
  sf_expected :: nat
  sf_step :: nat
  sf_steps :: nat
  sf_bytes_before :: nat
  sf_size :: nat

text \<open>The loop of \<open>session\<close>. For each file the environment gives the number of hosts running when its turn comes and how
  its transfer ended: an error, nothing left to send to (\<open>None\<close>), or the number of receivers that
  completed it. The result lists the transfers that were begun.\<close>

fun send_files ::
  "nat \<Rightarrow> nat \<Rightarrow> nat \<Rightarrow> nat \<Rightarrow> (u16 \<times> nat) list \<Rightarrow> (nat \<times> (app_error + nat option)) list \<Rightarrow>
   unit result \<times> sent_file list" where
  "send_files steps index expected bytes_before [] env = (Inr (), [])"
| "send_files steps index expected bytes_before (file # files) [] = (Inr (), [])"
| "send_files steps index expected bytes_before (file # files) ((running, followed) # env) =
     (if running = 0 then (Inr (), [])
      else
        let expected = min expected running;
            this = \<lparr>sf_port = fst file, sf_expected = expected, sf_step = index + 1, sf_steps = steps,
                    sf_bytes_before = bytes_before, sf_size = snd file\<rparr>
        in case followed of
             Inl e \<Rightarrow> (Inl e, [this])
           | Inr None \<Rightarrow> (Inr (), [this])
           | Inr (Some joined) \<Rightarrow>
               apsnd (Cons this) (send_files steps (index + 1) joined (bytes_before + snd file) files env))"

subsection \<open>Who the receivers are\<close>

record target =
  tg_host :: int
  tg_name :: string

record 'a targets =
  tg_participants :: "target list"
  tg_by_ip :: "'a \<Rightarrow> nat option"

text \<open>The standard library's parser of an \<open>IpAddr\<close> is the parameter \<open>parse\<close>, its result the type \<^typ>\<open>'a\<close>.
  The map from addresses to participants first holds \<open>Some None\<close> for an address that two of them share.\<close>

definition add_ip :: "(string \<Rightarrow> 'a option) \<Rightarrow> nat \<times> host \<Rightarrow> ('a \<Rightarrow> nat option option) \<Rightarrow> 'a \<Rightarrow> nat option option" where
  "add_ip parse ih m =
     (case Option.bind (h_ip (snd ih)) parse of
        None \<Rightarrow> m
      | Some a \<Rightarrow> m(a \<mapsto> (case m a of None \<Rightarrow> Some (fst ih) | Some _ \<Rightarrow> None)))"

definition new_targets :: "(string \<Rightarrow> 'a option) \<Rightarrow> host list \<Rightarrow> int list \<Rightarrow> 'a targets" where
  "new_targets parse all participants =
     (let hs = filter (\<lambda>h. h_id h \<in> set participants) all;
          by_ip = fold (add_ip parse) (enumerate 0 hs) Map.empty
      in \<lparr>tg_participants = map (\<lambda>h. \<lparr>tg_host = h_id h, tg_name = h_name h @ '' (#'' @ int_str (h_id h) @ '')''\<rparr>) hs,
          tg_by_ip = (\<lambda>a. Option.bind (by_ip a) (\<lambda>index. index))\<rparr>)"

definition host_at :: "'a targets \<Rightarrow> 'a \<Rightarrow> target option" where
  "host_at ts a = map_option (\<lambda>index. tg_participants ts ! index) (tg_by_ip ts a)"

text \<open>What the code reads of a \<open>scuttlecast\<close> transfer; \<open>ts_limiting\<close> is the receiver that the limiting factor names.\<close>

record ('a, 'f) receiver_state =
  rs_id :: u64
  rs_ip :: 'a
  rs_slices_behind :: u32
  rs_loss :: 'f
  rs_naks :: u64
  rs_sink_stall_ms :: u32

record ('a, 'f) transfer_state =
  ts_phase :: transfer_phase
  ts_bytes_sent :: u64
  ts_rate :: 'f
  ts_limiting :: "u64 option"
  ts_receivers :: "('a, 'f) receiver_state list"

definition limiting_receiver :: "('a, 'f) transfer_state \<Rightarrow> ('a, 'f) receiver_state option" where
  "limiting_receiver s =
     Option.bind (ts_limiting s) (\<lambda>i. List.find (\<lambda>r. rs_id r = i) (ts_receivers s))"

definition receiver_of :: "'a targets \<Rightarrow> ('a, 'f) transfer_state \<Rightarrow> target \<Rightarrow> ('a, 'f) receiver_state option" where
  "receiver_of ts s t =
     List.find (\<lambda>r. case host_at ts (rs_ip r) of None \<Rightarrow> False | Some t' \<Rightarrow> tg_host t' = tg_host t) (ts_receivers s)"

definition receivers :: "'f \<Rightarrow> 'a targets \<Rightarrow> ('a, 'f) transfer_state \<Rightarrow> 'f receiver_progress list" where
  "receivers zero ts s =
     (let culprit = map_option rs_id (limiting_receiver s) in
      map (\<lambda>t. let r = receiver_of ts s t in
          \<lparr>rp_host = tg_host t, rp_name = tg_name t, rp_joined = (r \<noteq> None),
           rp_limiting = (case r of None \<Rightarrow> False | Some r \<Rightarrow> Some (rs_id r) = culprit),
           rp_slices_behind = (case r of None \<Rightarrow> 0 | Some r \<Rightarrow> rs_slices_behind r),
           rp_loss = (case r of None \<Rightarrow> zero | Some r \<Rightarrow> rs_loss r),
           rp_naks = (case r of None \<Rightarrow> 0 | Some r \<Rightarrow> rs_naks r),
           rp_sink_stall_ms = (case r of None \<Rightarrow> 0 | Some r \<Rightarrow> rs_sink_stall_ms r)\<rparr>)
        (tg_participants ts))"

text \<open>\<open>eta\<close> is the conversion \<open>Duration::try_from_secs_f64(left as f64 / bytes_per_second).ok()\<close>.\<close>

definition step_progress ::
  "'f \<Rightarrow> (u64 \<Rightarrow> 'f \<Rightarrow> nat option) \<Rightarrow> int \<Rightarrow> u64 \<Rightarrow> u64 \<Rightarrow> u64 \<Rightarrow> u64 \<Rightarrow> ('a, 'f) transfer_state \<Rightarrow> 'a targets \<Rightarrow>
   'f multicast_progress" where
  "step_progress zero eta tid step steps bytes_before total_bytes s ts =
     (let sent = bytes_before + ts_bytes_sent s;
          left = (if total_bytes \<le> sent then 0 else total_bytes - sent)
      in \<lparr>mp_task = tid, mp_phase = ts_phase s, mp_rate = ts_rate s, mp_step = step, mp_steps = steps,
          mp_eta = eta left (ts_rate s), mp_receivers = receivers zero ts s\<rparr>)"

text \<open>Which receivers a wake-up kicks: those whose host is known and no longer running the task.\<close>

definition kicked :: "'a targets \<Rightarrow> int list \<Rightarrow> ('a, 'f) transfer_state \<Rightarrow> u64 list" where
  "kicked ts running s =
     map rs_id (filter (\<lambda>r. case host_at ts (rs_ip r) of None \<Rightarrow> False | Some t \<Rightarrow> tg_host t \<notin> set running) (ts_receivers s))"

subsection \<open>Claiming\<close>

lemma host_queue_rows:
  "host_queue d h =
     sort_key (\<lambda>(t, r). (queue_rank r, tr_created_at t))
       (concat (map (\<lambda>t. map (Pair t)
          (filter (\<lambda>r. thr_task r = tr_id t \<and> (thr_state r = Running \<or> thr_state r = Pending))
             (filter (\<lambda>r. thr_host r = h) (task_hosts d)))) (tasks d)))"
  by (simp add: host_queue_def rows_of_task_def conj_ac)

lemma get_next_frame:
  assumes "tasks d' = tasks d"
    and "filter (\<lambda>r. thr_host r = h) (task_hosts d') = filter (\<lambda>r. thr_host r = h) (task_hosts d)"
  shows "map_option t_id (get_next d' h) = map_option t_id (get_next d h)"
proof -
  have "host_queue d' h = host_queue d h" by (simp only: host_queue_rows assms)
  then show ?thesis by (simp add: get_next_def task_of_row_def split: list.split)
qed

lemma filter_update_other:
  "(\<And>r. P r \<Longrightarrow> \<not> Q r) \<Longrightarrow> (\<And>r. P r \<Longrightarrow> \<not> Q (f r)) \<Longrightarrow> filter Q (update_where P f rs) = filter Q rs"
  by (induction rs) auto

text \<open>Claiming a host touches no row of another host.\<close>

lemma claim_host_frame:
  "tasks (claim_host tid now h d) = tasks d"
  "h' \<noteq> h \<Longrightarrow> filter (\<lambda>r. thr_host r = h') (task_hosts (claim_host tid now h d)) =
     filter (\<lambda>r. thr_host r = h') (task_hosts d)"
  by (auto simp: claim_host_def start_def mark_failed_def update_task_hosts_def Let_def is_row_def
      intro!: filter_update_other split: option.split)

definition claimed_row :: "int \<Rightarrow> time \<Rightarrow> int option \<Rightarrow> task_host_row \<Rightarrow> task_host_row" where
  "claimed_row tid now next_id r =
     (case next_id of
        Some n \<Rightarrow>
          if n \<noteq> tid
          then r\<lparr>thr_state := Failed, thr_finished_at := Some now,
                 thr_error := Some (''Host was busy with task '' @ int_str n)\<rparr>
          else r\<lparr>thr_state := Running, thr_started_at := Some now\<rparr>
      | None \<Rightarrow> r\<lparr>thr_state := Running, thr_started_at := Some now\<rparr>)"

lemma row_at_claim_host:
  "row_at (claim_host tid now h d) t' h' =
   map_option (\<lambda>r. if t' = tid \<and> h' = h \<and> active (thr_state r)
     then claimed_row tid now (map_option t_id (get_next d h)) r else r) (row_at d t' h')"
  by (cases "get_next d h") (auto simp: claim_host_def row_at_start row_at_mark_failed claimed_row_def intro!: option.map_cong)

lemma row_at_claim_hosts:
  "distinct hs \<Longrightarrow>
   row_at (fold (claim_host tid now) hs d) t' h' =
   map_option (\<lambda>r. if t' = tid \<and> h' \<in> set hs \<and> active (thr_state r)
     then claimed_row tid now (map_option t_id (get_next d h')) r else r) (row_at d t' h')"
proof (induction hs arbitrary: d)
  case Nil
  then show ?case by (cases "row_at d t' h'") simp_all
next
  case (Cons h hs)
  have IH: "row_at (fold (claim_host tid now) (h # hs) d) t' h' =
    map_option (\<lambda>r. if t' = tid \<and> h' \<in> set hs \<and> active (thr_state r)
      then claimed_row tid now (map_option t_id (get_next (claim_host tid now h d) h')) r else r)
      (row_at (claim_host tid now h d) t' h')"
    using Cons.IH [of "claim_host tid now h d"] Cons.prems by simp
  show ?case
  proof (cases "h' = h")
    case True
    then show ?thesis
      using IH Cons.prems by (cases "row_at d t' h'") (simp_all add: row_at_claim_host)
  next
    case False
    have "map_option t_id (get_next (claim_host tid now h d) h') = map_option t_id (get_next d h')"
      by (rule get_next_frame) (simp_all add: claim_host_frame False)
    with IH False show ?thesis
      by (cases "row_at d t' h'") (simp_all add: row_at_claim_host)
  qed
qed

text \<open>C25: claiming a multicast task starts it on exactly those pending hosts whose next task it is, fails it on
  the other pending hosts with the id of the task they are busy with, and changes no other host of the task and no other task.\<close>

theorem claim_correct:
  assumes "db_ok d" and "get d tid = Inr t"
  shows "row_at (claim t now d) t' h =
    (if t' = tid \<and> state_at d tid h = Some Pending
     then map_option (claimed_row tid now (map_option t_id (get_next d h))) (row_at d tid h)
     else row_at d t' h)"
proof -
  have "row_at (claim t now d) t' h =
    map_option (\<lambda>r. if t' = tid \<and> h \<in> set (hosts_in Pending t) \<and> active (thr_state r)
     then claimed_row tid now (map_option t_id (get_next d h)) r else r) (row_at d t' h)"
    unfolding claim_def get_task_id [OF assms(2)] by (rule row_at_claim_hosts) (rule hosts_in_distinct [OF assms])
  then show ?thesis
    by (cases "row_at d t' h") (auto simp: set_hosts_in [OF assms] state_at_def)
qed

theorem claim_correct_witness:
  "\<exists>t. get demo_db 1 = Inr t \<and> state_at (claim t 9 demo_db) 1 2 = Some Running"
proof -
  have ok: "db_ok demo_db" using demo_db_inv by (simp add: repo_inv_def)
  obtain t where t: "get demo_db 1 = Inr t"
    by (simp add: get_def demo_db_def)
  have "row_at (claim t 9 demo_db) 1 2 =
    (if state_at demo_db 1 2 = Some Pending
     then map_option (claimed_row 1 9 (map_option t_id (get_next demo_db 2))) (row_at demo_db 1 2) else row_at demo_db 1 2)"
    using claim_correct [OF ok t, of 9 1 2] by simp
  moreover have "map_option t_id (get_next demo_db 2) = Some 1"
    by (simp add: get_next_def host_queue_def demo_db_def empty_db_def rows_of_task_def new_row_def task_of_row_def)
  moreover have "row_at demo_db 1 2 = Some (new_row 1 [] 2)" "state_at demo_db 1 2 = Some Pending"
    by (simp_all add: state_at_def row_at_def demo_db_def is_row_def new_row_def)
  ultimately have "row_at (claim t 9 demo_db) 1 2 = Some (claimed_row 1 9 (Some 1) (new_row 1 [] 2))" by simp
  then have "state_at (claim t 9 demo_db) 1 2 = Some Running" by (simp add: state_at_def claimed_row_def)
  with t show ?thesis by blast
qed

subsection \<open>Settling\<close>

lemma settle_host_simps:
  "fst (settle_host tid failure connected now h s) =
     (case failure of
        Some e \<Rightarrow> mark_failed tid h (app_error_display e) now (fst s)
      | None \<Rightarrow> if h \<notin> set connected then mark_failed tid h DISCONNECTED now (fst s) else fst s)"
  "snd (settle_host tid failure connected now h s) = (if failure = None then snd s else dispatch h (snd s))"
  by (auto simp: settle_host_def split: option.split)

lemma fold_settle_snd:
  "snd (fold (settle_host tid failure connected now) hs s) =
     (if failure = None then snd s else fold dispatch hs (snd s))"
  by (induction hs arbitrary: s) (simp_all add: settle_host_simps)

definition settled_row :: "app_error option \<Rightarrow> time \<Rightarrow> task_host_row \<Rightarrow> task_host_row" where
  "settled_row failure now r =
     r\<lparr>thr_state := Failed, thr_finished_at := Some now,
       thr_error := Some (case failure of Some e \<Rightarrow> app_error_display e | None \<Rightarrow> DISCONNECTED)\<rparr>"

lemma row_at_settle_hosts:
  "row_at (fst (fold (settle_host tid failure connected now) hs s)) t' h' =
   map_option (\<lambda>r. if t' = tid \<and> h' \<in> set hs \<and> active (thr_state r) \<and> (failure = None \<longrightarrow> h' \<notin> set connected)
     then settled_row failure now r else r) (row_at (fst s) t' h')"
proof (induction hs arbitrary: s)
  case Nil
  then show ?case by (cases "row_at (fst s) t' h'") simp_all
next
  case (Cons h hs)
  then show ?case
    by (cases "row_at (fst s) t' h'"; cases failure)
      (auto simp: settle_host_simps row_at_mark_failed settled_row_def)
qed

definition has_mail :: "registry \<Rightarrow> int \<Rightarrow> bool" where
  "has_mail r h \<longleftrightarrow> (\<forall>e. bt_lookup (rg_map r) h = Some e \<longrightarrow> generation e \<in> set (rg_mail r))"

lemma dispatch_mail:
  "rg_map (dispatch h r) = rg_map r" "set (rg_mail r) \<subseteq> set (rg_mail (dispatch h r))" "has_mail (dispatch h r) h"
  by (auto simp: dispatch_def has_mail_def split: option.splits)

lemma fold_dispatch_mail:
  "rg_map (fold dispatch hs r) = rg_map r \<and> set (rg_mail r) \<subseteq> set (rg_mail (fold dispatch hs r)) \<and>
   (\<forall>h \<in> set hs. has_mail (fold dispatch hs r) h)"
proof (induction hs arbitrary: r)
  case Nil
  then show ?case by simp
next
  case (Cons h hs)
  have "has_mail (fold dispatch hs (dispatch h r)) h"
    using Cons.IH [of "dispatch h r"] dispatch_mail(3) [where h = h and r = r] by (auto simp: has_mail_def)
  then show ?case using Cons.IH [of "dispatch h r"] dispatch_mail(1,2) [where h = h and r = r] by auto
qed

text \<open>C24: a session of an existing task always settles, whatever happened while it ran: afterwards a host is running the task only
  if the session succeeded, the host was running it when the session ended and it holds a connection; every other host that was running it has failed with the
  session's error or as disconnected, no other row has changed, the session is gone from the progress board, and
  after a failed session every connected host it failed has a wake-up waiting.\<close>

theorem session_settles:
  assumes w: "during (w\<lparr>wk_db := claim t now1 (wk_db w)\<rparr>) = (outcome, w1)"
    and ok: "db_ok (wk_db w1)" and t: "get (wk_db w1) (t_id t) = Inr t1"
  shows "\<exists>w2. run_session t during now1 now2 w = Inr w2 \<and>
    sn_multicast (wk_board w2) = None \<and>
    (\<forall>t' h. row_at (wk_db w2) t' h =
       (if t' = t_id t \<and> state_at (wk_db w1) t' h = Some Running \<and>
           \<not> (is_ok outcome \<and> h \<in> set (connected_hosts (wk_registry w1)))
        then map_option (settled_row (case outcome of Inl e \<Rightarrow> Some e | Inr _ \<Rightarrow> None) now2) (row_at (wk_db w1) t' h)
        else row_at (wk_db w1) t' h)) \<and>
    (\<forall>h. \<not> is_ok outcome \<and> state_at (wk_db w1) (t_id t) h = Some Running \<longrightarrow> has_mail (wk_registry w2) h)"
proof -
  define failure where "failure = (case outcome of Inl e \<Rightarrow> Some e | Inr _ \<Rightarrow> None)"
  define conn where "conn = connected_hosts (wk_registry w1)"
  define s where "s = fold (settle_host (t_id t) failure conn now2) (hosts_in Running t1) (wk_db w1, wk_registry w1)"
  define w2 where "w2 = w1\<lparr>wk_board := end_multicast (wk_board w1), wk_db := fst s, wk_registry := snd s\<rparr>"
  have f: "failure = None \<longleftrightarrow> is_ok outcome" by (cases outcome) (simp_all add: failure_def)
  have "settle (t_id t) failure now2 (wk_db w1, wk_registry w1) = Inr s"
    by (simp add: settle_def running_hosts_def t s_def conn_def)
  then have run: "run_session t during now1 now2 w = Inr w2"
    by (simp add: run_session_def w failure_def w2_def split: prod.split)
  have rows: "row_at (fst s) t' h =
      (if t' = t_id t \<and> state_at (wk_db w1) t' h = Some Running \<and> \<not> (is_ok outcome \<and> h \<in> set conn)
       then map_option (settled_row failure now2) (row_at (wk_db w1) t' h) else row_at (wk_db w1) t' h)" for t' h
    unfolding s_def row_at_settle_hosts f set_hosts_in [OF ok t]
    by (cases "row_at (wk_db w1) t' h") (auto simp: state_at_def)
  have mail: "has_mail (snd s) h" if "\<not> is_ok outcome" "state_at (wk_db w1) (t_id t) h = Some Running" for h
  proof -
    have "snd s = fold dispatch (hosts_in Running t1) (wk_registry w1)"
      unfolding s_def fold_settle_snd f using that(1) by simp
    then show ?thesis using fold_dispatch_mail that(2) set_hosts_in [OF ok t] by simp
  qed
  show ?thesis
    using run rows mail unfolding failure_def conn_def
    by (intro exI [of _ w2]) (simp add: w2_def end_multicast_def)
qed

theorem session_settles_witness:
  "\<exists>w2. run_session (task_of_row demo_db (hd (tasks demo_db))) (\<lambda>w. (Inl (Internal ''send''), w)) 3 4
      \<lparr>wk_db = demo_db, wk_registry = new_registry, wk_board = (empty_snapshot :: nat snapshot)\<rparr> = Inr w2 \<and>
    sn_multicast (wk_board w2) = None"
proof -
  let ?t = "task_of_row demo_db (hd (tasks demo_db))"
  let ?w = "\<lparr>wk_db = demo_db, wk_registry = new_registry, wk_board = (empty_snapshot :: nat snapshot)\<rparr>"
  let ?w1 = "?w\<lparr>wk_db := claim ?t 3 demo_db\<rparr>"
  have inv: "repo_inv (claim_host tid now h d)" if "repo_inv d" for tid now h d
    using that repo_step_inv by (auto simp: claim_host_def intro: repo_step.intros split: option.split)
  have "repo_inv (fold (claim_host tid now) hs d)" if "repo_inv d" for tid now hs d
    using that inv by (induction hs arbitrary: d) auto
  then have "repo_inv (claim ?t 3 demo_db)" unfolding claim_def using demo_db_inv by blast
  then have ok: "db_ok (claim ?t 3 demo_db)" by (simp add: repo_inv_def)
  have "tasks (fold (claim_host tid now) hs d) = tasks d" for tid now hs d
    by (induction hs arbitrary: d) (simp_all add: claim_host_frame)
  then have "tasks (claim ?t 3 demo_db) = tasks demo_db" by (simp add: claim_def)
  then obtain t1 where t1: "get (wk_db ?w1) (t_id ?t) = Inr t1"
    by (simp add: get_def demo_db_def task_of_row_def)
  from session_settles [where during = "\<lambda>w. (Inl (Internal ''send''), w)" and w = ?w and t = ?t and ?now1.0 = 3
      and outcome = "Inl (Internal ''send'')" and ?w1.0 = ?w1 and ?t1.0 = t1 and ?now2.0 = 4] ok t1
  show ?thesis by auto
qed

subsection \<open>Receivers and files\<close>

definition at_ip :: "(string \<Rightarrow> 'a option) \<Rightarrow> 'a \<Rightarrow> host \<Rightarrow> bool" where
  "at_ip parse a h \<longleftrightarrow> Option.bind (h_ip h) parse = Some a"

lemma add_ip_at:
  "add_ip parse ih m a = (if at_ip parse a (snd ih) then Some (if m a = None then Some (fst ih) else None) else m a)"
  by (auto simp: add_ip_def at_ip_def split: option.splits)

lemma add_ips:
  "fold (add_ip parse) (enumerate n hs) m a =
     (case filter (\<lambda>ih. at_ip parse a (snd ih)) (enumerate n hs) of
        [] \<Rightarrow> m a
      | ih # rest \<Rightarrow> Some (if rest = [] \<and> m a = None then Some (fst ih) else None))"
proof (induction hs arbitrary: n m)
  case Nil
  then show ?case by simp
next
  case (Cons h hs)
  show ?case
    using Cons [of "Suc n" "add_ip parse (n, h) m"]
    by (cases "filter (\<lambda>ih. at_ip parse a (snd ih)) (enumerate (Suc n) hs)") (simp_all add: add_ip_at)
qed

lemma enumerate_filter_single:
  "filter (\<lambda>ih. P (snd ih)) (enumerate n hs) = [(k, h)] \<Longrightarrow> n \<le> k \<and> k < n + length hs \<and> hs ! (k - n) = h \<and> filter P hs = [h]"
proof (induction hs arbitrary: n)
  case Nil
  then show ?case by simp
next
  case (Cons x hs)
  show ?case
  proof (cases "P x")
    case True
    with Cons.prems have "(n, x) # filter (\<lambda>ih. P (snd ih)) (enumerate (Suc n) hs) = [(k, h)]"
      by (simp only: enumerate_simps filter.simps snd_conv if_True)
    then have e: "k = n" "h = x" "filter (\<lambda>ih. P (snd ih)) (enumerate (Suc n) hs) = []" by blast+
    from e(3) have "map snd (filter (\<lambda>ih. P (snd ih)) (enumerate (Suc n) hs)) = []" by simp
    then have "filter P hs = []"
      using filter_map [of P snd "enumerate (Suc n) hs"] by (simp add: o_def)
    with True e(1,2) show ?thesis by simp
  next
    case False
    then have "filter (\<lambda>ih. P (snd ih)) (enumerate (Suc n) hs) = [(k, h)]" using Cons.prems by simp
    note IH = Cons.IH [OF this]
    then have "k - n = Suc (k - Suc n)" by arith
    with IH False show ?thesis by auto
  qed
qed

text \<open>A receiver's address names a host exactly if one participant alone has it.\<close>

lemma host_at_correct:
  "host_at (new_targets parse all ps) a =
     (case filter (at_ip parse a) (filter (\<lambda>h. h_id h \<in> set ps) all) of
        [h] \<Rightarrow> Some \<lparr>tg_host = h_id h, tg_name = h_name h @ '' (#'' @ int_str (h_id h) @ '')''\<rparr>
      | _ \<Rightarrow> None)"
proof -
  define hs where "hs = filter (\<lambda>h. h_id h \<in> set ps) all"
  define fs where "fs = filter (\<lambda>ih. at_ip parse a (snd ih)) (enumerate 0 hs)"
  have m: "map snd fs = filter (at_ip parse a) hs"
    using filter_map [of "at_ip parse a" snd "enumerate 0 hs"] by (simp add: fs_def o_def)
  consider "fs = []" | k h where "fs = [(k, h)]" | x y zs where "fs = x # y # zs"
    by (metis list.exhaust old.prod.exhaust)
  then show ?thesis
  proof cases
    case 1
    then have "filter (at_ip parse a) hs = []" using m by simp
    with 1 show ?thesis
      by (simp add: host_at_def new_targets_def Let_def hs_def [symmetric] add_ips fs_def [symmetric])
  next
    case 2
    then have "filter (at_ip parse a) hs = [h]" "k < length hs" "hs ! k = h"
      using enumerate_filter_single [of "at_ip parse a" 0 hs k h] by (simp_all add: fs_def)
    with 2 show ?thesis
      by (simp add: host_at_def new_targets_def Let_def hs_def [symmetric] add_ips fs_def [symmetric])
  next
    case 3
    then have "filter (at_ip parse a) hs = snd x # snd y # map snd zs" using m by simp
    with 3 show ?thesis
      by (simp add: host_at_def new_targets_def Let_def hs_def [symmetric] add_ips fs_def [symmetric])
  qed
qed

text \<open>The transfers of a session are those of the first files, in order, numbered from one, each with the bytes before it.\<close>

lemma send_files_prefix:
  "send_files steps index expected before files env = (r, sent) \<Longrightarrow>
   \<exists>n. map (\<lambda>s. (sf_port s, sf_size s)) sent = take n files \<and> n \<le> length files \<and>
     (\<forall>k < length sent. sf_step (sent ! k) = index + k + 1 \<and> sf_steps (sent ! k) = steps \<and>
        sf_bytes_before (sent ! k) = before + sum_list (map snd (take k files)))"
proof (induction steps index expected before files env arbitrary: r sent rule: send_files.induct)
  case (3 steps index expected before pf files running followed env)
  show ?case
  proof (cases "running = 0")
    case True
    then show ?thesis using "3.prems" by (auto intro: exI [of _ 0])
  next
    case False
    define this where "this = \<lparr>sf_port = fst pf, sf_expected = min expected running, sf_step = index + 1,
      sf_steps = steps, sf_bytes_before = before, sf_size = snd pf\<rparr>"
    show ?thesis
    proof (cases "\<exists>joined. followed = Inr (Some joined)")
      case True
      then obtain joined where j: "followed = Inr (Some joined)" by blast
      obtain r' sent' where rest: "send_files steps (index + 1) joined (before + snd pf) files env = (r', sent')"
        by fastforce
      have s: "sent = this # sent'" using "3.prems" False j rest by (simp add: this_def Let_def)
      have "\<exists>n. map (\<lambda>s. (sf_port s, sf_size s)) sent' = take n files \<and> n \<le> length files \<and>
        (\<forall>k < length sent'. sf_step (sent' ! k) = index + 1 + k + 1 \<and> sf_steps (sent' ! k) = steps \<and>
        sf_bytes_before (sent' ! k) = before + snd pf + sum_list (map snd (take k files)))"
        by (rule "3.IH" [OF False refl refl j refl rest])
      then obtain n where n: "map (\<lambda>s. (sf_port s, sf_size s)) sent' = take n files" "n \<le> length files"
        "\<forall>k < length sent'. sf_step (sent' ! k) = index + 1 + k + 1 \<and> sf_steps (sent' ! k) = steps \<and>
        sf_bytes_before (sent' ! k) = before + snd pf + sum_list (map snd (take k files))" by blast
      have "sf_step (sent ! k) = index + k + 1 \<and> sf_steps (sent ! k) = steps \<and>
        sf_bytes_before (sent ! k) = before + sum_list (map snd (take k (pf # files)))" if "k < length sent" for k
        using that n(3) by (cases k) (auto simp: s this_def)
      then show ?thesis using n(1,2) by (intro exI [of _ "Suc n"]) (simp add: s this_def)
    next
      case False
      then have "sent = [this]" using "3.prems" \<open>running \<noteq> 0\<close>
        by (auto simp: this_def Let_def split: sum.splits option.splits)
      then show ?thesis by (intro exI [of _ 1]) (simp add: this_def)
    qed
  qed
qed (auto intro: exI [of _ 0])

end
