(* ===== verification/Disk_Io.thy ===== *)
theory Disk_Io
  imports App_Error
begin

text \<open>
  The file system under the images directory, as \<open>crates/core/src/service/image.rs\<close> and the archive reader
  use it through \<open>tokio::fs\<close>. The images directory holds one level of directories, each with its files;
  a file is its bytes. Every call first takes the next element of \<open>dk_faults\<close>: the call works, or it fails with a message
  after a part of its work, or the task stops there (the process is killed, or its future is dropped because
  the client went away) and nothing after it runs. So a statement for all fault lists covers every I/O error at every point and every
  cut. What \<open>fsync\<close> makes durable is not modelled. The order in which \<open>read_dir\<close> lists a directory is
  unspecified: the operations that list one take it as the argument \<open>listing\<close>.
\<close>

datatype io_error = NotFoundIo | OtherIo string

fun io_message :: "io_error \<Rightarrow> string" where
  "io_message NotFoundIo = ''No such file or directory (os error 2)''"
| "io_message (OtherIo m) = m"

datatype fault = Works | Fails string nat | Stops nat

type_synonym files = "string \<rightharpoonup> string"

record disk =
  dk_base :: bool
  dk_dirs :: "string \<rightharpoonup> files"
  dk_seq :: u64
  dk_faults :: "fault list"

text \<open>\<open>None\<close> is a task that stopped.\<close>

type_synonym ('e, 'a) io = "disk \<Rightarrow> ('e + 'a) option \<times> disk"

definition io_return :: "'a \<Rightarrow> ('e, 'a) io" where
  "io_return x d = (Some (Inr x), d)"

definition io_throw :: "'e \<Rightarrow> ('e, 'a) io" where
  "io_throw e d = (Some (Inl e), d)"

definition io_bind :: "('e, 'a) io \<Rightarrow> ('a \<Rightarrow> ('e, 'b) io) \<Rightarrow> ('e, 'b) io" where
  "io_bind m f d =
     (case m d of
        (None, d') \<Rightarrow> (None, d')
      | (Some (Inl e), d') \<Rightarrow> (Some (Inl e), d')
      | (Some (Inr x), d') \<Rightarrow> f x d')"

definition io_map_err :: "('e \<Rightarrow> 'f) \<Rightarrow> ('e, 'a) io \<Rightarrow> ('f, 'a) io" where
  "io_map_err f m d = apfst (map_option (map_err f)) (m d)"

text \<open>The outcome of \<open>m\<close> as a value, for the code that inspects a \<open>Result\<close>.\<close>

definition io_try :: "('e, 'a) io \<Rightarrow> ('f, 'e + 'a) io" where
  "io_try m d = (case m d of (None, d') \<Rightarrow> (None, d') | (Some r, d') \<Rightarrow> (Some (Inr r), d'))"

fun io_each :: "('a \<Rightarrow> ('e, unit) io) \<Rightarrow> 'a list \<Rightarrow> ('e, unit) io" where
  "io_each f [] = io_return ()"
| "io_each f (x # xs) = io_bind (f x) (\<lambda>_. io_each f xs)"

subsection \<open>Calls\<close>

definition next_fault :: "disk \<Rightarrow> fault \<times> disk" where
  "next_fault d = (case dk_faults d of [] \<Rightarrow> (Works, d) | f # fs \<Rightarrow> (f, d\<lparr>dk_faults := fs\<rparr>))"

definition io_call :: "(nat \<Rightarrow> disk \<Rightarrow> disk) \<Rightarrow> (disk \<Rightarrow> (io_error + 'a) \<times> disk) \<Rightarrow> (io_error, 'a) io" where
  "io_call part act d =
     (case next_fault d of
        (Works, d) \<Rightarrow> apfst Some (act d)
      | (Fails e n, d) \<Rightarrow> (Some (Inl (OtherIo e)), part n d)
      | (Stops n, d) \<Rightarrow> (None, part n d))"

definition io_stop :: "('e, 'a) io" where
  "io_stop d = (None, d)"

definition set_dir :: "string \<Rightarrow> files option \<Rightarrow> disk \<Rightarrow> disk" where
  "set_dir p fs d = d\<lparr>dk_dirs := (dk_dirs d)(p := fs)\<rparr>"

definition set_file :: "string \<Rightarrow> string \<Rightarrow> string option \<Rightarrow> disk \<Rightarrow> disk" where
  "set_file p name x d = (case dk_dirs d p of None \<Rightarrow> d | Some fs \<Rightarrow> set_dir p (Some (fs(name := x))) d)"

definition file_at :: "disk \<Rightarrow> string \<Rightarrow> string \<Rightarrow> string option" where
  "file_at d p name = (case dk_dirs d p of None \<Rightarrow> None | Some fs \<Rightarrow> fs name)"

definition create_dir_all :: "string \<Rightarrow> (io_error, unit) io" where
  "create_dir_all p =
     io_call (\<lambda>n d. if n = 0 then d else d\<lparr>dk_base := True\<rparr>)
       (\<lambda>d. (Inr (), (case dk_dirs d p of None \<Rightarrow> set_dir p (Some Map.empty) d | Some _ \<Rightarrow> d)\<lparr>dk_base := True\<rparr>))"

text \<open>Opening a directory to sync it.\<close>

definition sync_path :: "string \<Rightarrow> string \<Rightarrow> (io_error, unit) io" where
  "sync_path base p =
     io_call (\<lambda>_ d. d)
       (\<lambda>d. (if (p = base \<and> dk_base d) \<or> dk_dirs d p \<noteq> None then Inr () else Inl NotFoundIo, d))"

definition create_file :: "string \<Rightarrow> string \<Rightarrow> (io_error, unit) io" where
  "create_file p name =
     io_call (\<lambda>n d. if n = 0 then d else set_file p name (Some []) d)
       (\<lambda>d. if dk_dirs d p = None then (Inl NotFoundIo, d) else (Inr (), set_file p name (Some []) d))"

definition append_file :: "string \<Rightarrow> string \<Rightarrow> string \<Rightarrow> disk \<Rightarrow> disk" where
  "append_file p name data d =
     (case file_at d p name of None \<Rightarrow> d | Some old \<Rightarrow> set_file p name (Some (old @ data)) d)"

definition write_file :: "string \<Rightarrow> string \<Rightarrow> string \<Rightarrow> (io_error, unit) io" where
  "write_file p name data =
     io_call (\<lambda>n. append_file p name (take n data)) (\<lambda>d. (Inr (), append_file p name data d))"

definition sync_file :: "string \<Rightarrow> string \<Rightarrow> (io_error, unit) io" where
  "sync_file p name =
     io_call (\<lambda>_ d. d) (\<lambda>d. (if file_at d p name = None then Inl NotFoundIo else Inr (), d))"

definition remove_file :: "string \<Rightarrow> string \<Rightarrow> (io_error, unit) io" where
  "remove_file p name =
     io_call (\<lambda>_ d. d)
       (\<lambda>d. if file_at d p name = None then (Inl NotFoundIo, d) else (Inr (), set_file p name None d))"

text \<open>Replaces the file of the new name at once.\<close>

definition rename_file :: "string \<Rightarrow> string \<Rightarrow> string \<Rightarrow> (io_error, unit) io" where
  "rename_file p from_name to_name =
     io_call (\<lambda>_ d. d)
       (\<lambda>d. if file_at d p from_name = None then (Inl NotFoundIo, d)
            else (Inr (), set_file p to_name (file_at d p from_name) (set_file p from_name None d)))"

text \<open>Renaming a directory replaces one of the new name only if that is empty.\<close>

definition rename_dir :: "(files \<Rightarrow> string list) \<Rightarrow> string \<Rightarrow> string \<Rightarrow> (io_error, unit) io" where
  "rename_dir listing p q =
     io_call (\<lambda>_ d. d)
       (\<lambda>d. case dk_dirs d p of
              None \<Rightarrow> (Inl NotFoundIo, d)
            | Some fs \<Rightarrow>
                if (case dk_dirs d q of None \<Rightarrow> True | Some old \<Rightarrow> listing old = [])
                then (Inr (), set_dir q (Some fs) (set_dir p None d))
                else (Inl (OtherIo ''Directory not empty (os error 39)''), d))"

text \<open>A removal that fails or is cut may have removed some of the files: those of the first names listed.\<close>

definition remove_dir_all :: "(files \<Rightarrow> string list) \<Rightarrow> string \<Rightarrow> (io_error, unit) io" where
  "remove_dir_all listing p =
     io_call
       (\<lambda>n d. case dk_dirs d p of
                None \<Rightarrow> d
              | Some fs \<Rightarrow> set_dir p (Some (\<lambda>name. if name \<in> set (take n (listing fs)) then None else fs name)) d)
       (\<lambda>d. if dk_dirs d p = None then (Inl NotFoundIo, d) else (Inr (), set_dir p None d))"

definition read_file :: "string \<Rightarrow> string \<Rightarrow> (io_error, string) io" where
  "read_file p name =
     io_call (\<lambda>_ d. d)
       (\<lambda>d. (case file_at d p name of None \<Rightarrow> Inl NotFoundIo | Some data \<Rightarrow> Inr data, d))"

definition read_dir :: "(files \<Rightarrow> string list) \<Rightarrow> string \<Rightarrow> (io_error, string list) io" where
  "read_dir listing p =
     io_call (\<lambda>_ d. d)
       (\<lambda>d. (case dk_dirs d p of None \<Rightarrow> Inl NotFoundIo | Some fs \<Rightarrow> Inr (listing fs), d))"

subsection \<open>Following the disk through a program\<close>

text \<open>A relation between the disk before and after that every call respects is respected by the whole program.\<close>

definition io_keeps :: "(disk \<Rightarrow> disk \<Rightarrow> bool) \<Rightarrow> ('e, 'a) io \<Rightarrow> bool" where
  "io_keeps R m \<longleftrightarrow> (\<forall>d r d'. m d = (r, d') \<longrightarrow> R d d')"

lemma io_keepsD: "io_keeps R m \<Longrightarrow> m d = (r, d') \<Longrightarrow> R d d'"
  by (auto simp: io_keeps_def)

lemma io_keeps_return: "reflp R \<Longrightarrow> io_keeps R (io_return x)"
  by (auto simp: io_keeps_def io_return_def reflp_def)

lemma io_keeps_throw: "reflp R \<Longrightarrow> io_keeps R (io_throw x)"
  by (auto simp: io_keeps_def io_throw_def reflp_def)

lemma io_keeps_stop: "reflp R \<Longrightarrow> io_keeps R io_stop"
  by (auto simp: io_keeps_def io_stop_def reflp_def)

lemma io_keeps_bind:
  assumes "transp R" "io_keeps R m" "\<And>x. io_keeps R (f x)"
  shows "io_keeps R (io_bind m f)"
  unfolding io_keeps_def
proof (intro allI impI)
  fix d r d'
  assume b: "io_bind m f d = (r, d')"
  obtain r1 d1 where m: "m d = (r1, d1)" by (cases "m d")
  then have R1: "R d d1" using assms(2) by (auto simp: io_keeps_def)
  show "R d d'"
  proof (cases "\<exists>x. r1 = Some (Inr x)")
    case True
    then obtain x where "r1 = Some (Inr x)" ..
    then have "f x d1 = (r, d')" using b m by (simp add: io_bind_def)
    then have "R d1 d'" using assms(3) by (auto simp: io_keeps_def)
    with R1 assms(1) show ?thesis by (auto dest: transpD)
  next
    case False
    then have "d' = d1" using b m by (auto simp: io_bind_def split: option.splits sum.splits)
    with R1 show ?thesis by simp
  qed
qed

lemma io_keeps_map_err: "io_keeps R m \<Longrightarrow> io_keeps R (io_map_err f m)"
  unfolding io_keeps_def io_map_err_def by (metis apfst_conv old.prod.exhaust prod.inject)

lemma io_keeps_try: "io_keeps R m \<Longrightarrow> io_keeps R (io_try m)"
  unfolding io_keeps_def io_try_def
  by (auto split: prod.splits option.splits)

lemma io_keeps_each: "reflp R \<Longrightarrow> transp R \<Longrightarrow> (\<And>x. io_keeps R (f x)) \<Longrightarrow> io_keeps R (io_each f xs)"
  by (induction xs) (simp_all add: io_keeps_return io_keeps_bind)

lemmas io_keeps_intros = io_keeps_return io_keeps_throw io_keeps_stop io_keeps_bind io_keeps_map_err io_keeps_try io_keeps_each

lemma io_bind_Inr:
  "io_bind m f d = (Some (Inr y), d') \<longleftrightarrow> (\<exists>x d1. m d = (Some (Inr x), d1) \<and> f x d1 = (Some (Inr y), d'))"
  by (auto simp: io_bind_def split: prod.splits option.splits sum.splits)

lemma io_map_err_Inr: "io_map_err f m d = (Some (Inr y), d') \<longleftrightarrow> m d = (Some (Inr y), d')"
  by (cases "m d") (auto simp: io_map_err_def map_err_Inr)

end
