(* ===== verification/Image_Store.thy ===== *)
theory Image_Store
  imports Disk_Io "HOL-Library.Sublist"
begin

text \<open>
  \<open>crates/core/src/service/image.rs\<close>: where an image's files lie on the disk and how they get there. An
  upload goes to a temporary file of its own that is renamed over the final one when it is complete. The names of the
  files come from \<open>crates/archive/src/manifest.rs\<close>. A body is the list of what its stream yields.
\<close>

subsection \<open>Names\<close>

definition PARTITION_TABLE_FILE :: string where
  "PARTITION_TABLE_FILE = ''parttable.bin''"

definition partition_file :: "int \<Rightarrow> string" where
  "partition_file number = ''p-'' @ int_str number @ ''.pcl''"

definition IMPORT_DIR_PREFIX :: string where
  "IMPORT_DIR_PREFIX = ''.import-''"

definition image_dir :: "string \<Rightarrow> int \<Rightarrow> string" where
  "image_dir base i = base @ ''/img-'' @ int_str i"

definition import_dir :: "string \<Rightarrow> int \<Rightarrow> string" where
  "import_dir base i = base @ ''/'' @ IMPORT_DIR_PREFIX @ int_str i"

definition get_partition_table_path :: "string \<Rightarrow> int \<Rightarrow> string" where
  "get_partition_table_path base i = base @ ''/img-'' @ int_str i @ ''/'' @ PARTITION_TABLE_FILE"

definition get_partition_path :: "string \<Rightarrow> int \<Rightarrow> int \<Rightarrow> string" where
  "get_partition_path base i number = base @ ''/img-'' @ int_str i @ ''/'' @ partition_file number"

text \<open>The model addresses a file by its directory and its name; the paths are those of the code.\<close>

lemma paths_in_dir:
  "get_partition_table_path base i = image_dir base i @ ''/'' @ PARTITION_TABLE_FILE"
  "get_partition_path base i n = image_dir base i @ ''/'' @ partition_file n"
  by (simp_all add: get_partition_table_path_def get_partition_path_def image_dir_def)

subsection \<open>Storing\<close>

datatype stream_item = Chunk string | Broken app_error | Dropped

definition storage_error :: "string \<Rightarrow> io_error \<Rightarrow> app_error" where
  "storage_error path e = Internal (''failed to store '' @ path @ '': '' @ io_message e)"

definition sync_dir :: "string \<Rightarrow> string \<Rightarrow> (app_error, unit) io" where
  "sync_dir base p = io_map_err (storage_error p) (sync_path base p)"

definition fetch_add :: "('e, u64) io" where
  "fetch_add d = (Some (Inr (dk_seq d)), d\<lparr>dk_seq := dk_seq d + 1\<rparr>)"

definition tmp_name :: "nat \<Rightarrow> u64 \<Rightarrow> string \<Rightarrow> string" where
  "tmp_name pid seq name = ''.'' @ name @ ''.tmp.'' @ nat_str pid @ ''.'' @ nat_str (unat seq)"

fun write_stream :: "string \<Rightarrow> string \<Rightarrow> stream_item list \<Rightarrow> (app_error, unit) io" where
  "write_stream p tmp [] = io_return ()"
| "write_stream p tmp (Chunk c # items) =
     io_bind (io_map_err (storage_error (p @ ''/'' @ tmp)) (write_file p tmp c)) (\<lambda>_. write_stream p tmp items)"
| "write_stream p tmp (Broken e # items) =
     io_throw (InvalidArgument (''error reading stream: '' @ app_error_display e))"
| "write_stream p tmp (Dropped # items) = io_stop"

definition write_tmp :: "string \<Rightarrow> string \<Rightarrow> stream_item list \<Rightarrow> (app_error, unit) io" where
  "write_tmp p tmp items =
     io_bind (io_map_err (storage_error (p @ ''/'' @ tmp)) (create_file p tmp)) (\<lambda>_.
     io_bind (write_stream p tmp items) (\<lambda>_.
     io_map_err (storage_error (p @ ''/'' @ tmp)) (sync_file p tmp)))"

definition store :: "string \<Rightarrow> nat \<Rightarrow> int \<Rightarrow> string \<Rightarrow> stream_item list \<Rightarrow> (app_error, unit) io" where
  "store base pid i name items =
     (let p = image_dir base i in
      io_bind (io_map_err (storage_error p) (create_dir_all p)) (\<lambda>_.
      io_bind (sync_dir base base) (\<lambda>_.
      io_bind fetch_add (\<lambda>seq.
      let tmp = tmp_name pid seq name in
      io_bind (io_try (write_tmp p tmp items)) (\<lambda>write_result.
        case write_result of
          Inl e \<Rightarrow> io_bind (io_try (remove_file p tmp)) (\<lambda>_ :: io_error + unit. io_throw e)
        | Inr _ \<Rightarrow>
            io_bind (io_try (rename_file p tmp name)) (\<lambda>renamed.
              case renamed of
                Inl e \<Rightarrow> io_bind (io_try (remove_file p tmp)) (\<lambda>_ :: io_error + unit. io_throw (storage_error (p @ ''/'' @ name) e))
              | Inr _ \<Rightarrow> sync_dir base p))))))"

definition save_partition_table :: "string \<Rightarrow> nat \<Rightarrow> int \<Rightarrow> string \<Rightarrow> (app_error, unit) io" where
  "save_partition_table base pid i data = store base pid i PARTITION_TABLE_FILE [Chunk data]"

definition save_partition_data :: "string \<Rightarrow> nat \<Rightarrow> int \<Rightarrow> int \<Rightarrow> stream_item list \<Rightarrow> (app_error, unit) io" where
  "save_partition_data base pid i number items = store base pid i (partition_file number) items"

subsection \<open>Reading\<close>

definition read_partition_table :: "string \<Rightarrow> int \<Rightarrow> (app_error, string) io" where
  "read_partition_table base i =
     io_map_err (\<lambda>e. Internal (io_message e)) (read_file (image_dir base i) PARTITION_TABLE_FILE)"

text \<open>The stream of an open file yields its bytes; the file is opened, and so chosen, at once.\<close>

definition read_partition_data :: "string \<Rightarrow> int \<Rightarrow> int \<Rightarrow> (app_error, string) io" where
  "read_partition_data base i number =
     io_map_err (\<lambda>e. Internal (io_message e)) (read_file (image_dir base i) (partition_file number))"

subsection \<open>Removing and importing\<close>

definition remove_dir :: "(files \<Rightarrow> string list) \<Rightarrow> string \<Rightarrow> (app_error, unit) io" where
  "remove_dir listing p =
     io_bind (io_try (remove_dir_all listing p)) (\<lambda>r.
       case r of
         Inl (OtherIo m) \<Rightarrow> io_throw (Internal m)
       | _ \<Rightarrow> io_return ())"

definition clear_image_data :: "string \<Rightarrow> (files \<Rightarrow> string list) \<Rightarrow> int \<Rightarrow> (app_error, unit) io" where
  "clear_image_data base listing i =
     io_bind (io_try (remove_dir listing (image_dir base i))) (\<lambda>image.
     io_bind (io_try (remove_dir listing (import_dir base i))) (\<lambda>imported.
       case image of Inl e \<Rightarrow> io_throw e | Inr _ \<Rightarrow> (case imported of Inl e \<Rightarrow> io_throw e | Inr _ \<Rightarrow> io_return ())))"

text \<open>The entries of the images directory are handed out in the order \<open>entries\<close> gives their paths.\<close>

definition read_base :: "(disk \<Rightarrow> string list) \<Rightarrow> (io_error, string list) io" where
  "read_base entries =
     io_call (\<lambda>_ d. d) (\<lambda>d. (if dk_base d then Inr (entries d) else Inl NotFoundIo, d))"

definition clear_import_dirs ::
  "string \<Rightarrow> (disk \<Rightarrow> string list) \<Rightarrow> (files \<Rightarrow> string list) \<Rightarrow> (app_error, unit) io" where
  "clear_import_dirs base entries listing =
     io_bind (io_try (read_base entries)) (\<lambda>r.
       case r of
         Inl NotFoundIo \<Rightarrow> io_return ()
       | Inl (OtherIo m) \<Rightarrow> io_throw (Internal m)
       | Inr paths \<Rightarrow>
           io_each (\<lambda>p. if prefix IMPORT_DIR_PREFIX (drop (length base + 1) p) then remove_dir listing p else io_return ())
             paths)"

definition commit_import :: "string \<Rightarrow> (files \<Rightarrow> string list) \<Rightarrow> int \<Rightarrow> (app_error, unit) io" where
  "commit_import base listing i =
     (let p = import_dir base i; q = image_dir base i in
      io_bind (io_map_err (storage_error p) (read_dir listing p)) (\<lambda>names.
      io_bind (io_each (\<lambda>name. io_map_err (storage_error (p @ ''/'' @ name)) (sync_file p name)) names) (\<lambda>_.
      io_bind (sync_dir base p) (\<lambda>_.
      io_bind (io_map_err (storage_error q) (rename_dir listing p q)) (\<lambda>_.
      sync_dir base base)))))"

subsection \<open>What a store leaves behind\<close>

definition same_but :: "string \<Rightarrow> string set \<Rightarrow> disk \<Rightarrow> disk \<Rightarrow> bool" where
  "same_but p names d d' \<longleftrightarrow> (\<forall>q n. \<not> (q = p \<and> n \<in> names) \<longrightarrow> file_at d' q n = file_at d q n)"

lemma same_but_refl [simp]: "reflp (same_but p names)" and same_but_trans [simp]: "transp (same_but p names)"
  by (auto simp: same_but_def intro!: reflpI transpI)

lemma file_at_faults [simp]: "file_at (d\<lparr>dk_faults := fs\<rparr>) = file_at d" "file_at (d\<lparr>dk_base := b\<rparr>) = file_at d"
  "file_at (d\<lparr>dk_seq := s\<rparr>) = file_at d"
  by (simp_all add: file_at_def fun_eq_iff)

lemma next_fault_same: "next_fault d = (f, d') \<Longrightarrow> file_at d' = file_at d \<and> dk_seq d' = dk_seq d \<and> dk_dirs d' = dk_dirs d"
  by (auto simp: next_fault_def split: list.splits)

lemma io_keeps_call:
  assumes "\<And>d d'. file_at d = file_at d' \<Longrightarrow> same_but p names d d'"
    and "\<And>n d. same_but p names d (part n d)" and "\<And>d. same_but p names d (snd (act d))"
  shows "io_keeps (same_but p names) (io_call part act)"
  unfolding io_keeps_def
proof (intro allI impI)
  fix d r d'
  assume c: "io_call part act d = (r, d')"
  obtain f d1 where f: "next_fault d = (f, d1)" by (cases "next_fault d")
  have e: "file_at d1 = file_at d" using next_fault_same [OF f] by simp
  have "same_but p names d1 d'"
    using c f assms(2) [of d1] assms(3) [of d1]
    by (cases f) (auto simp: io_call_def apfst_def map_prod_def split: prod.splits)
  then show "same_but p names d d'" using e by (simp add: same_but_def)
qed

lemma same_but_file_at: "file_at d = file_at d' \<Longrightarrow> same_but p names d d'"
  by (simp add: same_but_def)

lemma file_at_set_file:
  "file_at (set_file p name x d) q n =
   (if q = p \<and> n = name \<and> dk_dirs d p \<noteq> None then x else file_at d q n)"
  by (auto simp: file_at_def set_file_def set_dir_def split: option.splits)

lemma file_at_some_dir: "file_at d p n = Some x \<Longrightarrow> dk_dirs d p \<noteq> None"
  by (auto simp: file_at_def split: option.splits)

lemma set_file_dirs: "dk_dirs (set_file p name x d) q = None \<longleftrightarrow> dk_dirs d q = None"
  by (auto simp: set_file_def set_dir_def split: option.splits)

lemma keeps_create_dir_all: "io_keeps (same_but p names) (create_dir_all q)"
  unfolding create_dir_all_def
  by (rule io_keeps_call) (auto simp: same_but_def file_at_def set_dir_def split: option.splits)

lemma keeps_sync_path: "io_keeps (same_but p names) (sync_path base q)"
  unfolding sync_path_def by (rule io_keeps_call) (auto simp: same_but_def)

lemma keeps_create_file: "name \<in> names \<Longrightarrow> io_keeps (same_but p names) (create_file p name)"
  unfolding create_file_def by (rule io_keeps_call) (auto simp: same_but_def file_at_set_file)

lemma keeps_write_file: "name \<in> names \<Longrightarrow> io_keeps (same_but p names) (write_file p name data)"
  unfolding write_file_def
  by (rule io_keeps_call) (auto simp: same_but_def append_file_def file_at_set_file split: option.splits)

lemma keeps_sync_file: "io_keeps (same_but p names) (sync_file q name)"
  unfolding sync_file_def by (rule io_keeps_call) (auto simp: same_but_def)

lemma keeps_remove_file: "name \<in> names \<Longrightarrow> io_keeps (same_but p names) (remove_file p name)"
  unfolding remove_file_def by (rule io_keeps_call) (auto simp: same_but_def file_at_set_file)

lemma keeps_write_stream: "tmp \<in> names \<Longrightarrow> io_keeps (same_but p names) (write_stream p tmp items)"
  by (induction p tmp items rule: write_stream.induct)
     (simp_all add: io_keeps_intros keeps_write_file)

lemma keeps_write_tmp: "tmp \<in> names \<Longrightarrow> io_keeps (same_but p names) (write_tmp p tmp items)"
  unfolding write_tmp_def
  by (simp add: io_keeps_intros keeps_create_file keeps_write_stream keeps_sync_file)

lemma keeps_sync_dir: "io_keeps (same_but p names) (sync_dir base q)"
  unfolding sync_dir_def by (simp add: io_keeps_intros keeps_sync_path)

lemma keeps_fetch_add: "io_keeps (same_but p names) fetch_add"
  by (auto simp: io_keeps_def fetch_add_def same_but_def)

lemma io_call_done:
  assumes "io_call part act d = (Some (Inr x), d')"
  shows "\<exists>d1. file_at d1 = file_at d \<and> dk_dirs d1 = dk_dirs d \<and> act d1 = (Inr x, d')"
proof -
  obtain f d1 where f: "next_fault d = (f, d1)" by (cases "next_fault d")
  have "act d1 = (Inr x, d')"
    using assms f by (cases f; cases "act d1") (auto simp: io_call_def)
  then show ?thesis using next_fault_same [OF f] by blast
qed

lemma write_stream_done:
  "write_stream p tmp items d = (Some (Inr ()), d') \<Longrightarrow> file_at d p tmp = Some old \<Longrightarrow>
   \<exists>chunks. items = map Chunk chunks \<and> file_at d' p tmp = Some (old @ concat chunks)"
proof (induction p tmp items arbitrary: d old rule: write_stream.induct)
  case (1 p tmp)
  then show ?case by (auto simp: io_return_def intro: exI [of _ "[]"])
next
  case (2 p tmp c items)
  from "2.prems"(1) obtain d1 where w: "write_file p tmp c d = (Some (Inr ()), d1)"
    and s: "write_stream p tmp items d1 = (Some (Inr ()), d')"
    by (auto simp: io_bind_Inr io_map_err_Inr)
  from io_call_done [OF w [unfolded write_file_def]] obtain d2
    where d2: "file_at d2 = file_at d" "append_file p tmp c d2 = d1" by auto
  then have "file_at d1 p tmp = Some (old @ c)"
    using "2.prems"(2) file_at_some_dir [of d2 p tmp old] by (auto simp: append_file_def file_at_set_file)
  from "2.IH" [OF s this] obtain chunks where "items = map Chunk chunks" "file_at d' p tmp = Some ((old @ c) @ concat chunks)"
    by blast
  then show ?case by (intro exI [of _ "c # chunks"]) simp
qed (simp_all add: io_throw_def io_stop_def)

lemma write_tmp_done:
  assumes "write_tmp p tmp items d = (Some (Inr ()), d')"
  shows "\<exists>chunks. items = map Chunk chunks \<and> file_at d' p tmp = Some (concat chunks)"
proof -
  from assms obtain d1 d2 where c: "create_file p tmp d = (Some (Inr ()), d1)"
    and s: "write_stream p tmp items d1 = (Some (Inr ()), d2)" and f: "sync_file p tmp d2 = (Some (Inr ()), d')"
    by (auto simp: write_tmp_def io_bind_Inr io_map_err_Inr)
  from io_call_done [OF c [unfolded create_file_def]] have "file_at d1 p tmp = Some []"
    by (auto simp: file_at_set_file split: if_splits)
  from write_stream_done [OF s this] obtain chunks
    where k: "items = map Chunk chunks" "file_at d2 p tmp = Some (concat chunks)" by auto
  moreover have "file_at d' = file_at d2"
    using io_call_done [OF f [unfolded sync_file_def]] by (auto split: if_splits)
  ultimately show ?thesis by auto
qed

lemma rename_file_cases:
  assumes "rename_file p a b d = (r, d')" "a \<noteq> b"
  shows "file_at d' = file_at d \<and> r \<noteq> Some (Inr ()) \<or>
    r = Some (Inr ()) \<and> file_at d p a \<noteq> None \<and> file_at d' p b = file_at d p a \<and> file_at d' p a = None \<and>
    same_but p {a, b} d d'"
proof -
  obtain f d1 where f: "next_fault d = (f, d1)" by (cases "next_fault d")
  note same = next_fault_same [OF f]
  show ?thesis
  proof (cases "f = Works \<and> file_at d1 p a \<noteq> None")
    case True
    then obtain x where x: "file_at d1 p a = Some x" by auto
    have "r = Some (Inr ())" "d' = set_file p b (Some x) (set_file p a None d1)"
      using assms(1) f True x by (auto simp: rename_file_def io_call_def)
    moreover have "dk_dirs d1 p \<noteq> None" using x by (rule file_at_some_dir)
    ultimately show ?thesis
      using same x assms(2) by (auto simp: file_at_set_file same_but_def set_file_dirs)
  next
    case False
    then show ?thesis
      using assms(1) f same by (cases f) (auto simp: rename_file_def io_call_def)
  qed
qed

lemma tmp_name_other: "tmp_name pid seq name \<noteq> name"
proof
  assume "tmp_name pid seq name = name"
  then have "length (tmp_name pid seq name) = length name" by simp
  then show False by (simp add: tmp_name_def)
qed

lemma call_seq:
  assumes "\<And>n d. dk_seq (part n d) = dk_seq d" "\<And>d. dk_seq (snd (act d)) = dk_seq d"
  shows "io_keeps (\<lambda>d d'. dk_seq d' = dk_seq d) (io_call part act)"
  unfolding io_keeps_def
proof (intro allI impI)
  fix d r d'
  assume c: "io_call part act d = (r, d')"
  obtain f d1 where f: "next_fault d = (f, d1)" by (cases "next_fault d")
  show "dk_seq d' = dk_seq d"
    using c f next_fault_same [OF f] assms(1) [of _ d1] assms(2) [of d1]
    by (cases f) (auto simp: io_call_def apfst_def map_prod_def split: prod.splits)
qed

lemma seq_prelude:
  "io_keeps (\<lambda>d d'. dk_seq d' = dk_seq d) (io_map_err g (create_dir_all q))"
  "io_keeps (\<lambda>d d'. dk_seq d' = dk_seq d) (sync_dir base q)"
proof -
  show "io_keeps (\<lambda>d d'. dk_seq d' = dk_seq d) (io_map_err g (create_dir_all q))"
    unfolding create_dir_all_def
    by (rule io_keeps_map_err, rule call_seq) (auto simp: set_dir_def split: option.splits)
  show "io_keeps (\<lambda>d d'. dk_seq d' = dk_seq d) (sync_dir base q)"
    unfolding sync_dir_def sync_path_def by (rule io_keeps_map_err, rule call_seq) auto
qed

lemma io_bind_cases:
  assumes "io_bind m f d = (r, d')"
  obtains (stop) r1 where "m d = (r1, d')" "\<forall>x. r1 \<noteq> Some (Inr x)" "\<forall>x. r \<noteq> Some (Inr x)"
  | (go) x d1 where "m d = (Some (Inr x), d1)" "f x d1 = (r, d')"
  using assms by (auto simp: io_bind_def split: prod.splits option.splits sum.splits)

lemma io_try_Inr: "io_try m d = (Some (Inr r), d') \<longleftrightarrow> m d = (Some r, d')"
  by (auto simp: io_try_def split: prod.splits option.splits)

text \<open>From the temporary file on.\<close>

definition store_from :: "string \<Rightarrow> string \<Rightarrow> string \<Rightarrow> string \<Rightarrow> stream_item list \<Rightarrow> (app_error, unit) io" where
  "store_from base p tmp name items =
     io_bind (io_try (write_tmp p tmp items)) (\<lambda>write_result.
        case write_result of
          Inl e \<Rightarrow> io_bind (io_try (remove_file p tmp)) (\<lambda>_ :: io_error + unit. io_throw e)
        | Inr _ \<Rightarrow>
            io_bind (io_try (rename_file p tmp name)) (\<lambda>renamed.
              case renamed of
                Inl e \<Rightarrow> io_bind (io_try (remove_file p tmp)) (\<lambda>_ :: io_error + unit. io_throw (storage_error (p @ ''/'' @ name) e))
              | Inr _ \<Rightarrow> sync_dir base p))"

lemma store_unfold:
  "store base pid i name items =
     io_bind (io_map_err (storage_error (image_dir base i)) (create_dir_all (image_dir base i))) (\<lambda>_.
     io_bind (sync_dir base base) (\<lambda>_.
     io_bind fetch_add (\<lambda>seq. store_from base (image_dir base i) (tmp_name pid seq name) name items)))"
  by (simp only: store_def store_from_def Let_def)

definition stored :: "string \<Rightarrow> string \<Rightarrow> stream_item list \<Rightarrow> disk \<Rightarrow> bool" where
  "stored p name items d \<longleftrightarrow> (\<exists>chunks. items = map Chunk chunks \<and> file_at d p name = Some (concat chunks))"

lemma same_but_mono: "same_but p A d d' \<Longrightarrow> A \<subseteq> B \<Longrightarrow> same_but p B d d'"
  by (auto simp: same_but_def)

lemma same_but_chain: "same_but p A d d1 \<Longrightarrow> same_but p A d1 d2 \<Longrightarrow> same_but p A d d2"
  using same_but_trans [of p A] by (rule transpD)

lemma cleanup_tmp:
  assumes "io_bind (io_try (remove_file p tmp)) (\<lambda>_ :: io_error + unit. io_throw e) d = (r, d')"
  shows "same_but p {tmp} d d'" "\<forall>x. r \<noteq> Some (Inr x)"
proof -
  have "io_keeps (same_but p {tmp}) (io_bind (io_try (remove_file p tmp)) (\<lambda>_ :: io_error + unit. io_throw e))"
    by (simp add: io_keeps_intros keeps_remove_file)
  with assms show "same_but p {tmp} d d'" by (auto simp: io_keeps_def)
  show "\<forall>x. r \<noteq> Some (Inr x)" using assms by (auto simp: io_bind_def io_throw_def split: prod.splits option.splits sum.splits)
qed

lemma store_from_cases:
  assumes s: "store_from base p tmp name items d = (r, d')" and ne: "tmp \<noteq> name"
  shows "same_but p {tmp} d d' \<and> (\<forall>x. r \<noteq> Some (Inr x)) \<or>
    same_but p {name, tmp} d d' \<and> stored p name items d' \<and> file_at d' p tmp = None"
proof -
  have ktmp: "io_keeps (same_but p {tmp}) (io_try (write_tmp p tmp items))"
    by (simp add: io_keeps_intros keeps_write_tmp)
  show ?thesis
    using s unfolding store_from_def
  proof (cases rule: io_bind_cases)
    case (stop r1)
    then show ?thesis using ktmp by (auto simp: io_keeps_def)
  next
    case (go wr d1)
    have k1: "same_but p {tmp} d d1" using ktmp go(1) by (auto simp: io_keeps_def)
    show ?thesis
    proof (cases wr)
      case (Inl e)
      then have "same_but p {tmp} d1 d' \<and> (\<forall>x. r \<noteq> Some (Inr x))" using go(2) cleanup_tmp by fastforce
      with k1 show ?thesis using same_but_chain by blast
    next
      case (Inr u)
      have "write_tmp p tmp items d = (Some (Inr ()), d1)" using go(1) Inr by (simp add: io_try_Inr)
      from write_tmp_done [OF this] obtain chunks
        where k: "items = map Chunk chunks" "file_at d1 p tmp = Some (concat chunks)" by blast
      from go(2) have "io_bind (io_try (rename_file p tmp name)) (\<lambda>renamed.
          case renamed of
            Inl e \<Rightarrow> io_bind (io_try (remove_file p tmp)) (\<lambda>_ :: io_error + unit. io_throw (storage_error (p @ ''/'' @ name) e))
          | Inr _ \<Rightarrow> sync_dir base p) d1 = (r, d')" by (simp only: Inr sum.case)
      then show ?thesis
      proof (cases rule: io_bind_cases)
        case (stop r1)
        then have "rename_file p tmp name d1 = (None, d')" by (auto simp: io_try_def split: prod.splits option.splits)
        from rename_file_cases [OF this ne] have "same_but p {tmp} d1 d'" by (auto simp: same_but_def)
        then show ?thesis using k1 stop same_but_chain by blast
      next
        case (go rn d2)
        then have rn: "rename_file p tmp name d1 = (Some rn, d2)" by (simp add: io_try_Inr)
        show ?thesis
        proof (cases rn)
          case (Inl e)
          then have "same_but p {tmp} d1 d2" using rename_file_cases [OF rn ne] by (auto simp: same_but_def)
          moreover have "same_but p {tmp} d2 d' \<and> (\<forall>x. r \<noteq> Some (Inr x))" using go(2) Inl cleanup_tmp by fastforce
          ultimately show ?thesis using k1 same_but_chain by blast
        next
          case (Inr u)
          then have m: "file_at d2 p name = Some (concat chunks)" "file_at d2 p tmp = None" "same_but p {name, tmp} d1 d2"
            using rename_file_cases [OF rn ne] k(2) by (auto simp: insert_commute)
          have "sync_dir base p d2 = (r, d')" using go(2) Inr by simp
          then have "same_but p {} d2 d'" using keeps_sync_dir by (auto simp: io_keeps_def)
          then have e: "file_at d' = file_at d2" by (auto simp: same_but_def fun_eq_iff)
          have "same_but p {name, tmp} d d'"
            using same_but_chain [OF same_but_mono [OF k1] m(3)] e by (auto simp: same_but_def)
          moreover have "stored p name items d'" unfolding stored_def using k(1) m(1) e by auto
          ultimately show ?thesis using m(2) e by auto
        qed
      qed
    qed
  qed
qed

lemma store_result:
  assumes "store base pid i name items d = (r, d')"
  shows "let p = image_dir base i; tmp = tmp_name pid (dk_seq d) name
    in same_but p {name, tmp} d d' \<and>
       (file_at d' p name = file_at d p name \<or> stored p name items d') \<and>
       (r = Some (Inr ()) \<longrightarrow> stored p name items d' \<and> file_at d' p tmp = None)"
proof -
  let ?p = "image_dir base i" and ?tmp = "tmp_name pid (dk_seq d) name"
  have early: ?thesis if "same_but ?p {} d d'" "\<forall>x. r \<noteq> Some (Inr x)"
    using that by (auto simp: same_but_def Let_def)
  have k1: "io_keeps (same_but ?p {}) (io_map_err (storage_error ?p) (create_dir_all ?p))"
    by (simp add: io_keeps_intros keeps_create_dir_all)
  from assms [unfolded store_unfold] show ?thesis
  proof (cases rule: io_bind_cases)
    case (stop r1)
    with k1 show ?thesis by (intro early) (auto simp: io_keeps_def)
  next
    case (go u d1)
    have s1: "same_but ?p {} d d1" "dk_seq d1 = dk_seq d"
      using go(1) k1 io_keepsD [OF seq_prelude(1)] by (auto simp: io_keeps_def)
    from go(2) show ?thesis
    proof (cases rule: io_bind_cases)
      case (stop r1)
      have "same_but ?p {} d1 d'" using io_keepsD [OF keeps_sync_dir stop(1)] .
      with stop(3) s1 show ?thesis by (intro early) (auto intro: same_but_chain)
    next
      case (go u d2)
      have "same_but ?p {} d1 d2" using io_keepsD [OF keeps_sync_dir go(1)] .
      then have s2: "file_at d2 = file_at d" "dk_seq d2 = dk_seq d"
        using s1 io_keepsD [OF seq_prelude(2) go(1)] by (auto simp: same_but_def fun_eq_iff)
      have "store_from base ?p ?tmp name items (d2\<lparr>dk_seq := dk_seq d2 + 1\<rparr>) = (r, d')"
        using go(2) s2(2) by (simp add: io_bind_def fetch_add_def)
      from store_from_cases [OF this tmp_name_other] s2(1) tmp_name_other [of pid "dk_seq d" name] show ?thesis
        by (auto simp: same_but_def Let_def)
    qed
  qed
qed

text \<open>C23: whatever I/O error happens, wherever the task is cut and whatever the stream does, storing a file of an
  image leaves every other file alone (only the upload's own temporary file may stay behind), and the file itself is either what it was or the complete
  body; success is reported only with the complete body in place and no temporary file left.\<close>

theorem store_atomic:
  assumes "store base pid i name items d = (r, d')"
  shows "let p = image_dir base i; tmp = tmp_name pid (dk_seq d) name
    in same_but p {name, tmp} d d' \<and>
       (file_at d' p name = file_at d p name \<or> stored p name items d') \<and>
       (r = Some (Inr ()) \<longrightarrow> stored p name items d' \<and> file_at d' p tmp = None)"
  by (rule store_result [OF assms])

theorem store_atomic_witness:
  "\<exists>r d'. store ''/i'' 12 4 ''p-1.pcl'' [Chunk ''ne'', Chunk ''w'']
      \<lparr>dk_base = True, dk_dirs = [''/i/img-4'' \<mapsto> [''p-1.pcl'' \<mapsto> ''old'']], dk_seq = 7,
       dk_faults = replicate 5 Works @ [Fails ''No space left on device (os error 28)'' 1]\<rparr> = (r, d') \<and>
     (file_at d' ''/i/img-4'' ''p-1.pcl'' = Some ''old'' \<or>
      stored ''/i/img-4'' ''p-1.pcl'' [Chunk ''ne'', Chunk ''w''] d')"
proof -
  define d :: disk where "d = \<lparr>dk_base = True, dk_dirs = [''/i/img-4'' \<mapsto> [''p-1.pcl'' \<mapsto> ''old'']], dk_seq = 7,
       dk_faults = replicate 5 Works @ [Fails ''No space left on device (os error 28)'' 1]\<rparr>"
  obtain r d' where rd: "store ''/i'' 12 4 ''p-1.pcl'' [Chunk ''ne'', Chunk ''w''] d = (r, d')" by fastforce
  have dir: "image_dir ''/i'' 4 = ''/i/img-4''" by code_simp
  have "file_at d ''/i/img-4'' ''p-1.pcl'' = Some ''old''" by (simp add: d_def file_at_def)
  then have "file_at d' ''/i/img-4'' ''p-1.pcl'' = Some ''old'' \<or>
      stored ''/i/img-4'' ''p-1.pcl'' [Chunk ''ne'', Chunk ''w''] d'"
    using store_atomic [OF rd] by (simp only: dir Let_def)
  with rd show ?thesis unfolding d_def by blast
qed

subsection \<open>Without faults\<close>

lemma io_call_works: "dk_faults d = [] \<Longrightarrow> io_call part act d = apfst Some (act d)"
  by (simp add: io_call_def next_fault_def)

lemma set_file_faults [simp]: "dk_faults (set_file p name x d) = dk_faults d" "dk_base (set_file p name x d) = dk_base d"
  by (simp_all add: set_file_def set_dir_def split: option.splits)

lemma write_stream_works:
  "dk_faults d = [] \<Longrightarrow> file_at d p tmp = Some old \<Longrightarrow>
   \<exists>d'. write_stream p tmp (map Chunk chunks) d = (Some (Inr ()), d') \<and> dk_faults d' = [] \<and>
        file_at d' p tmp = Some (old @ concat chunks)"
proof (induction chunks arbitrary: d old)
  case Nil
  then show ?case by (simp add: io_return_def)
next
  case (Cons c chunks)
  define d1 where "d1 = set_file p tmp (Some (old @ c)) d"
  have d1: "dk_faults d1 = []" "file_at d1 p tmp = Some (old @ c)"
    using Cons.prems file_at_some_dir [OF Cons.prems(2)] by (simp_all add: d1_def file_at_set_file)
  have "write_file p tmp c d = (Some (Inr ()), d1)"
    using Cons.prems by (simp add: write_file_def io_call_works append_file_def d1_def)
  then show ?case
    using Cons.IH [OF d1] by (simp add: io_bind_def io_map_err_def)
qed

text \<open>on a disk where no call fails, an upload whose stream ends is stored: \<open>save_partition_data\<close> returns success, and reading the
  partition back yields exactly the bytes of the stream, in order.\<close>

theorem uploads_complete:
  assumes "dk_faults d = []"
  shows "\<exists>d'. save_partition_data base pid i number (map Chunk chunks) d = (Some (Inr ()), d') \<and>
    read_partition_data base i number d' = (Some (Inr (concat chunks)), d')"
proof -
  let ?p = "image_dir base i" and ?name = "partition_file number"
  let ?tmp = "tmp_name pid (dk_seq d) ?name"
  define d1 where "d1 = (case dk_dirs d ?p of None \<Rightarrow> set_dir ?p (Some Map.empty) d | Some _ \<Rightarrow> d)\<lparr>dk_base := True\<rparr>"
  have d1: "dk_faults d1 = []" "dk_base d1" "dk_dirs d1 ?p \<noteq> None" "dk_seq d1 = dk_seq d"
    using assms by (auto simp: d1_def set_dir_def split: option.splits)
  have c: "create_dir_all ?p d = (Some (Inr ()), d1)"
    using assms by (simp add: create_dir_all_def io_call_works d1_def)
  have s: "sync_dir base base d1 = (Some (Inr ()), d1)"
    using d1 by (simp add: sync_dir_def sync_path_def io_map_err_def io_call_works)
  define d2 where "d2 = set_file ?p ?tmp (Some []) (d1\<lparr>dk_seq := dk_seq d1 + 1\<rparr>)"
  have d2: "dk_faults d2 = []" "file_at d2 ?p ?tmp = Some []"
    using d1 by (simp_all add: d2_def file_at_set_file)
  have f: "create_file ?p ?tmp (d1\<lparr>dk_seq := dk_seq d1 + 1\<rparr>) = (Some (Inr ()), d2)"
    using d1 by (simp add: create_file_def io_call_works d2_def)
  obtain d3 where d3: "write_stream ?p ?tmp (map Chunk chunks) d2 = (Some (Inr ()), d3)" "dk_faults d3 = []"
      "file_at d3 ?p ?tmp = Some (concat chunks)"
    using write_stream_works [OF d2, of chunks] by auto
  have "write_tmp ?p ?tmp (map Chunk chunks) (d1\<lparr>dk_seq := dk_seq d1 + 1\<rparr>) = (Some (Inr ()), d3)"
    using d3 by (simp add: write_tmp_def io_bind_def io_map_err_def f sync_file_def io_call_works)
  moreover define d4 where "d4 = set_file ?p ?name (Some (concat chunks)) (set_file ?p ?tmp None d3)"
  moreover have r: "rename_file ?p ?tmp ?name d3 = (Some (Inr ()), d4)"
    using d3 by (simp add: rename_file_def io_call_works d4_def)
  moreover have dir: "dk_dirs d4 ?p \<noteq> None" and d4: "dk_faults d4 = []"
    using file_at_some_dir [OF d3(3)] d3(2) by (simp_all add: d4_def set_file_dirs)
  moreover have "sync_dir base ?p d4 = (Some (Inr ()), d4)"
    using dir d4 by (simp add: sync_dir_def sync_path_def io_map_err_def io_call_works)
  ultimately have "store_from base ?p ?tmp ?name (map Chunk chunks) (d1\<lparr>dk_seq := dk_seq d1 + 1\<rparr>) = (Some (Inr ()), d4)"
    by (simp add: store_from_def io_bind_def io_try_def)
  then have "save_partition_data base pid i number (map Chunk chunks) d = (Some (Inr ()), d4)"
    by (simp add: save_partition_data_def store_unfold io_bind_def io_map_err_def c s fetch_add_def d1(4))
  moreover have "file_at d4 ?p ?name = Some (concat chunks)"
    using file_at_some_dir [OF d3(3)] by (simp add: d4_def file_at_set_file set_file_dirs)
  then have "read_partition_data base i number d4 = (Some (Inr (concat chunks)), d4)"
    using d4 by (simp add: read_partition_data_def io_map_err_def read_file_def io_call_works)
  ultimately show ?thesis by blast
qed

theorem uploads_complete_witness:
  "\<exists>d'. save_partition_data ''/i'' 1 4 2 (map Chunk [''ab'', '''', ''c''])
      \<lparr>dk_base = False, dk_dirs = Map.empty, dk_seq = 0, dk_faults = []\<rparr> = (Some (Inr ()), d') \<and>
    read_partition_data ''/i'' 4 2 d' = (Some (Inr ''abc''), d')"
  using uploads_complete [of "\<lparr>dk_base = False, dk_dirs = Map.empty, dk_seq = 0, dk_faults = []\<rparr>" "''/i''" 1 4 2
    "[''ab'', '''', ''c'']"] by simp

subsection \<open>Imports\<close>

lemma image_import_dirs_differ: "image_dir base i \<noteq> import_dir base k"
  by (simp add: image_dir_def import_dir_def IMPORT_DIR_PREFIX_def)

lemma dirs_inj:
  "image_dir base i = image_dir base k \<longleftrightarrow> i = k" "import_dir base i = import_dir base k \<longleftrightarrow> i = k"
  using int_str_inject by (auto simp: image_dir_def import_dir_def)

definition same_dirs :: "disk \<Rightarrow> disk \<Rightarrow> bool" where
  "same_dirs d d' \<longleftrightarrow> dk_dirs d' = dk_dirs d"

lemma same_dirs_refl [simp]: "reflp same_dirs" and same_dirs_trans [simp]: "transp same_dirs"
  by (auto simp: same_dirs_def intro!: reflpI transpI)

lemma same_dirs_call: "(\<And>d. snd (act d) = d) \<Longrightarrow> io_keeps same_dirs (io_call (\<lambda>_ d. d) act)"
  unfolding io_keeps_def
proof (intro allI impI)
  fix d r d'
  assume a: "\<And>d. snd (act d) = d" and c: "io_call (\<lambda>_ d. d) act d = (r, d')"
  obtain f d1 where f: "next_fault d = (f, d1)" by (cases "next_fault d")
  show "same_dirs d d'"
    using c f next_fault_same [OF f] a [of d1]
    by (cases f) (auto simp: io_call_def same_dirs_def apfst_def map_prod_def split: prod.splits)
qed

lemma same_dirs_calls:
  "io_keeps same_dirs (read_dir listing p)" "io_keeps same_dirs (sync_file p name)" "io_keeps same_dirs (sync_dir base p)"
  "io_keeps same_dirs (read_base entries)" "io_keeps same_dirs (read_file p name)"
  by (auto simp: read_dir_def sync_file_def sync_dir_def sync_path_def read_base_def read_file_def
      intro!: same_dirs_call io_keeps_map_err split: option.splits)

lemma rename_dir_cases:
  assumes "rename_dir listing p q d = (r, d')"
  shows "dk_dirs d' = dk_dirs d \<and> r \<noteq> Some (Inr ()) \<or>
    r = Some (Inr ()) \<and> (case dk_dirs d q of None \<Rightarrow> True | Some old \<Rightarrow> listing old = []) \<and>
    (\<exists>fs. dk_dirs d p = Some fs \<and> dk_dirs d' = (dk_dirs d)(p := None, q := Some fs))"
proof -
  obtain f d1 where f: "next_fault d = (f, d1)" by (cases "next_fault d")
  show ?thesis
    using assms f next_fault_same [OF f]
    by (cases f) (auto simp: rename_dir_def io_call_def set_dir_def split: option.splits if_splits)
qed

text \<open>An import's directory becomes the image's directory in one step, or stays as it is.\<close>

lemma commit_import_cases:
  assumes "commit_import base listing i d = (r, d')"
  shows "dk_dirs d' = dk_dirs d \<and> (\<forall>x. r \<noteq> Some (Inr x)) \<or>
    (case dk_dirs d (image_dir base i) of None \<Rightarrow> True | Some old \<Rightarrow> listing old = []) \<and>
    (\<exists>fs. dk_dirs d (import_dir base i) = Some fs \<and>
       dk_dirs d' = (dk_dirs d)(import_dir base i := None, image_dir base i := Some fs))"
proof -
  let ?p = "import_dir base i" and ?q = "image_dir base i"
  have k: "io_keeps same_dirs (io_map_err g (read_dir listing ?p))"
    "io_keeps same_dirs (io_each (\<lambda>name. io_map_err (g' name) (sync_file ?p name)) names)" for g g' names
    by (simp_all add: io_keeps_intros same_dirs_calls)
  from assms [unfolded commit_import_def Let_def] show ?thesis
  proof (cases rule: io_bind_cases)
    case (stop r1)
    then show ?thesis using io_keepsD [OF k(1) stop(1)] by (simp add: same_dirs_def)
  next
    case (go names d1)
    have 1: "dk_dirs d1 = dk_dirs d" using io_keepsD [OF k(1) go(1)] by (simp add: same_dirs_def)
    from go(2) show ?thesis
    proof (cases rule: io_bind_cases)
      case (stop r1)
      then show ?thesis using io_keepsD [OF k(2) stop(1)] 1 by (simp add: same_dirs_def)
    next
      case (go u d2)
      have 2: "dk_dirs d2 = dk_dirs d" using io_keepsD [OF k(2) go(1)] 1 by (simp add: same_dirs_def)
      from go(2) show ?thesis
      proof (cases rule: io_bind_cases)
        case (stop r1)
        then show ?thesis using io_keepsD [OF same_dirs_calls(3) stop(1)] 2 by (simp add: same_dirs_def)
      next
        case (go u d3)
        have 3: "dk_dirs d3 = dk_dirs d" using io_keepsD [OF same_dirs_calls(3) go(1)] 2 by (simp add: same_dirs_def)
        from go(2) show ?thesis
        proof (cases rule: io_bind_cases)
          case (stop r1)
          from stop(1) obtain r2 where rn: "rename_dir listing ?p ?q d3 = (r2, d')" "r1 = map_option (map_err (storage_error ?q)) r2"
            by (cases "rename_dir listing ?p ?q d3") (simp add: io_map_err_def)
          have "\<forall>x. r2 \<noteq> Some (Inr x)" using stop(2) rn(2) by auto
          then show ?thesis using rename_dir_cases [OF rn(1)] 3 stop(3) by auto
        next
          case (go u d4)
          then have rn: "rename_dir listing ?p ?q d3 = (Some (Inr u), d4)" by (simp add: io_map_err_Inr)
          have "dk_dirs d' = dk_dirs d4" using io_keepsD [OF same_dirs_calls(3) go(2)] by (simp add: same_dirs_def)
          then show ?thesis using rename_dir_cases [OF rn] 3 by auto
        qed
      qed
    qed
  qed
qed

end
