(* ===== verification/Server.thy ===== *)
theory Server
  imports Task_Queue Script_Import Registry Progress Image_Store
begin

text \<open>
  The state that the server's request handlers and services share (\<open>crates/core/src/di.rs\<close>): the database,
  the disk, the host registry, the progress board, and how often the multicast worker was woken. A handler runs its calls one after the
  other; one that returns an error keeps what its earlier calls have changed. \<open>None\<close> is a
  handler that was cut while it used the disk. The clock is read once per handler.
\<close>

record 'f server =
  sv_db :: db
  sv_disk :: disk
  sv_registry :: registry
  sv_board :: "'f snapshot"
  sv_wakes :: nat

text \<open>What the container holds besides state: where images are stored, the process id, the order in which
  directories are listed, the proxy and the variables of scripts.\<close>

record environment =
  en_base :: string
  en_pid :: nat
  en_listing :: "files \<Rightarrow> string list"
  en_proxy :: "string option"
  en_variables :: "(string, string) btree_map"

type_synonym ('f, 'a) handler = "'f server \<Rightarrow> 'a result option \<times> 'f server"

definition h_return :: "'a \<Rightarrow> ('f, 'a) handler" where
  "h_return x s = (Some (Inr x), s)"

definition h_throw :: "app_error \<Rightarrow> ('f, 'a) handler" where
  "h_throw e s = (Some (Inl e), s)"

definition h_bind :: "('f, 'a) handler \<Rightarrow> ('a \<Rightarrow> ('f, 'b) handler) \<Rightarrow> ('f, 'b) handler" where
  "h_bind m f s =
     (case m s of
        (None, s') \<Rightarrow> (None, s')
      | (Some (Inl e), s') \<Rightarrow> (Some (Inl e), s')
      | (Some (Inr x), s') \<Rightarrow> f x s')"

definition h_try :: "('f, 'a) handler \<Rightarrow> ('f, 'a result) handler" where
  "h_try m s = (case m s of (None, s') \<Rightarrow> (None, s') | (Some r, s') \<Rightarrow> (Some (Inr r), s'))"

definition h_of :: "'a result \<Rightarrow> ('f, 'a) handler" where
  "h_of r s = (Some r, s)"

text \<open>A repository call that reads, one that changes the database or fails and leaves it alone, and one that cannot fail.\<close>

definition h_read :: "(db \<Rightarrow> 'a result) \<Rightarrow> ('f, 'a) handler" where
  "h_read f s = (Some (f (sv_db s)), s)"

definition h_db :: "(db \<Rightarrow> ('a \<times> db) result) \<Rightarrow> ('f, 'a) handler" where
  "h_db f s =
     (case f (sv_db s) of Inl e \<Rightarrow> (Some (Inl e), s) | Inr (x, d) \<Rightarrow> (Some (Inr x), s\<lparr>sv_db := d\<rparr>))"

definition h_db_unit :: "(db \<Rightarrow> db result) \<Rightarrow> ('f, unit) handler" where
  "h_db_unit f = h_db (\<lambda>d. and_then (f d) (\<lambda>d'. Inr ((), d')))"

definition h_set_db :: "(db \<Rightarrow> db) \<Rightarrow> ('f, unit) handler" where
  "h_set_db f s = (Some (Inr ()), s\<lparr>sv_db := f (sv_db s)\<rparr>)"

definition h_disk :: "(app_error, 'a) io \<Rightarrow> ('f, 'a) handler" where
  "h_disk m s = (let (r, d) = m (sv_disk s) in (r, s\<lparr>sv_disk := d\<rparr>))"

definition h_board :: "('f snapshot \<Rightarrow> 'f snapshot) \<Rightarrow> ('f, unit) handler" where
  "h_board f s = (Some (Inr ()), s\<lparr>sv_board := f (sv_board s)\<rparr>)"

definition h_registry :: "(registry \<Rightarrow> registry) \<Rightarrow> ('f, unit) handler" where
  "h_registry f s = (Some (Inr ()), s\<lparr>sv_registry := f (sv_registry s)\<rparr>)"

definition h_wake :: "('f, unit) handler" where
  "h_wake s = (Some (Inr ()), s\<lparr>sv_wakes := sv_wakes s + 1\<rparr>)"

definition h_guard :: "bool \<Rightarrow> app_error \<Rightarrow> ('f, unit) handler" where
  "h_guard ok e = (if ok then h_return () else h_throw e)"

lemma h_bind_Inr:
  "h_bind m f s = (Some (Inr y), s') \<longleftrightarrow> (\<exists>x s1. m s = (Some (Inr x), s1) \<and> f x s1 = (Some (Inr y), s'))"
  by (auto simp: h_bind_def split: prod.splits option.splits sum.splits)

lemma h_bind_cases:
  assumes "h_bind m f s = (r, s')"
  obtains (stop) "m s = (None, s')" "r = None"
  | (fail) e where "m s = (Some (Inl e), s')" "r = Some (Inl e)"
  | (go) x s1 where "m s = (Some (Inr x), s1)" "f x s1 = (r, s')"
  using assms by (auto simp: h_bind_def split: prod.splits option.splits sum.splits)

lemma h_simps [simp]:
  "h_bind (h_return x) f = f x"
  "h_bind (h_throw e) f = h_throw e"
  "h_guard True e = h_return ()" "h_guard False e = h_throw e"
  "h_of (Inr x) = h_return x" "h_of (Inl e) = h_throw e"
  by (simp_all add: fun_eq_iff h_bind_def h_return_def h_throw_def h_guard_def h_of_def)

lemma h_return_Inr: "h_return x s = (r, s') \<longleftrightarrow> r = Some (Inr x) \<and> s' = s"
  by (auto simp: h_return_def)

lemma h_throw_Inl: "h_throw e s = (r, s') \<longleftrightarrow> r = Some (Inl e) \<and> s' = s"
  by (auto simp: h_throw_def)

lemma h_read_iff: "h_read f s = (r, s') \<longleftrightarrow> r = Some (f (sv_db s)) \<and> s' = s"
  by (auto simp: h_read_def)

lemma h_guard_Inr: "h_guard ok e s = (Some (Inr ()), s') \<longleftrightarrow> ok \<and> s' = s"
  by (auto simp: h_guard_def h_return_def h_throw_def)

lemma h_of_iff: "h_of r s = (r', s') \<longleftrightarrow> r' = Some r \<and> s' = s"
  by (auto simp: h_of_def)

text \<open>A relation between the states before and after that every call respects is respected by a handler.\<close>

definition h_keeps :: "('f server \<Rightarrow> 'f server \<Rightarrow> bool) \<Rightarrow> ('f, 'a) handler \<Rightarrow> bool" where
  "h_keeps R m \<longleftrightarrow> (\<forall>s r s'. m s = (r, s') \<longrightarrow> R s s')"

lemma h_keepsD: "h_keeps R m \<Longrightarrow> m s = (r, s') \<Longrightarrow> R s s'"
  by (auto simp: h_keeps_def)

lemma h_keeps_basic:
  "reflp R \<Longrightarrow> h_keeps R (h_return x)" "reflp R \<Longrightarrow> h_keeps R (h_throw e)" "reflp R \<Longrightarrow> h_keeps R (h_guard ok e)"
  "reflp R \<Longrightarrow> h_keeps R (h_of r)" "reflp R \<Longrightarrow> h_keeps R (h_read f)"
  by (auto simp: h_keeps_def h_return_def h_throw_def h_guard_def h_of_def h_read_def reflp_def split: if_splits)

lemma h_keeps_bind:
  assumes "transp R" "h_keeps R m" "\<And>x. h_keeps R (f x)"
  shows "h_keeps R (h_bind m f)"
  unfolding h_keeps_def
proof (intro allI impI)
  fix s r s'
  assume "h_bind m f s = (r, s')"
  then show "R s s'"
  proof (cases rule: h_bind_cases)
    case (go x s1)
    then have "R s s1" "R s1 s'" using assms(2,3) by (auto simp: h_keeps_def)
    then show ?thesis by (rule transpD [OF assms(1)])
  qed (use assms(2) in \<open>auto simp: h_keeps_def\<close>)
qed

lemma h_keeps_try: "h_keeps R m \<Longrightarrow> h_keeps R (h_try m)"
  unfolding h_keeps_def h_try_def by (auto split: prod.splits option.splits)

end
