(* ===== verification/Archive_Format.thy ===== *)
theory Archive_Format
  imports Script_Domain Image_Store
begin

text \<open>
  The archive format, \<open>crates/archive/src/manifest.rs\<close>: the manifest, the checks it has to pass, and the names of the
  archived files. The JSON encoding is \<open>serde_json\<close>: decoding is the parameters \<open>probe\<close> (the field
  \<open>format\<close> alone) and \<open>decode\<close>, with the message of a decoding error on the left.
\<close>

record archived_file =
  af_file :: string
  af_sha256 :: string

record archived_partition =
  ap_number :: int
  ap_fstype :: string
  ap_size_bytes :: u64
  ap_file :: string
  ap_sha256 :: string
  ap_fs_uuid :: "string option"
  ap_fs_label :: "string option"

record archived_script =
  as_name :: string
  as_file :: string
  as_sha256 :: string
  as_inputs :: "script_input list"
  as_root_partition :: "int option"

record manifest =
  mf_format :: u32
  mf_name :: string
  mf_kind :: image_kind
  mf_captured_at :: "time option"
  mf_sector_size :: u32
  mf_partition_table :: "archived_file option"
  mf_partitions :: "archived_partition list"
  mf_root_partition :: "int option"
  mf_scripts :: "archived_script list"

definition FORMAT :: u32 where "FORMAT = 3"

definition COMPATIBLE_FORMAT :: u32 where "COMPATIBLE_FORMAT = 2"

definition MANIFEST_FILE :: string where "MANIFEST_FILE = ''manifest.json''"

definition SCRIPTS_DIR :: string where "SCRIPTS_DIR = ''scripts''"

definition MAX_MANIFEST_BYTES :: nat where "MAX_MANIFEST_BYTES = 1024 * 1024"

definition MAX_PARTITION_TABLE_BYTES :: nat where "MAX_PARTITION_TABLE_BYTES = 1024 * 1024"

definition MAX_SCRIPT_BYTES :: nat where "MAX_SCRIPT_BYTES = 1024 * 1024"

subsection \<open>Parsing\<close>

definition invalid_manifest :: "string \<Rightarrow> app_error" where
  "invalid_manifest e = InvalidArgument (''invalid '' @ MANIFEST_FILE @ '': '' @ e)"

definition parse_manifest ::
  "(string \<Rightarrow> string + u32) \<Rightarrow> (string \<Rightarrow> string + manifest) \<Rightarrow> string \<Rightarrow> manifest result" where
  "parse_manifest probe decode json =
     (if MAX_MANIFEST_BYTES < length json
      then Inl (InvalidArgument (MANIFEST_FILE @ '' exceeds '' @ nat_str MAX_MANIFEST_BYTES @ '' bytes''))
      else and_then (map_err invalid_manifest (probe json)) (\<lambda>format.
        if \<not> (COMPATIBLE_FORMAT \<le> format \<and> format \<le> FORMAT)
        then Inl (InvalidArgument (''unsupported archive format '' @ nat_str (unat format) @ '', expected '' @
               nat_str (unat COMPATIBLE_FORMAT) @ '' or '' @ nat_str (unat FORMAT)))
        else map_err invalid_manifest (decode json)))"

definition required_format :: "manifest \<Rightarrow> u32" where
  "required_format m =
     (if mf_kind m = Partition \<or> list_ex (\<lambda>s. as_root_partition s \<noteq> None) (mf_scripts m)
      then FORMAT else COMPATIBLE_FORMAT)"

subsection \<open>Names\<close>

definition script_file :: "string \<Rightarrow> string" where
  "script_file name = SCRIPTS_DIR @ ''/'' @ name @ ''.sh''"

definition is_script_file :: "string \<Rightarrow> bool" where
  "is_script_file name \<longleftrightarrow>
     (case strip_prefix SCRIPTS_DIR name of None \<Rightarrow> False | Some rest \<Rightarrow> starts_with ''/'' rest)"

text \<open>A character of the image's name that is not ASCII becomes one underscore: its leading byte does, its
  continuation bytes vanish.\<close>

definition archive_file_name :: "string \<Rightarrow> string" where
  "archive_file_name image_name =
     (let stem = map (\<lambda>c. if is_alnum c \<or> c = CHR ''-'' \<or> c = CHR ''_'' \<or> c = CHR ''.'' then c else CHR ''_'')
            (filter (\<lambda>c. \<not> is_continuation c) image_name)
      in if stem = [] then ''image.imaged'' else stem @ ''.imaged'')"

subsection \<open>The checks\<close>

definition is_power_of_two :: "u32 \<Rightarrow> bool" where
  "is_power_of_two w \<longleftrightarrow> w \<noteq> 0 \<and> and w (w - 1) = 0"

definition archived :: "manifest \<Rightarrow> int \<Rightarrow> bool" where
  "archived m number \<longleftrightarrow> list_ex (\<lambda>p. ap_number p = number) (mf_partitions m)"

definition table_checksum :: "manifest \<Rightarrow> (string, string) btree_map result" where
  "table_checksum m =
     (case (mf_kind m, mf_partition_table m) of
        (Disk, None) \<Rightarrow> Inl (InvalidArgument ''a disk image archive must hold a partition table'')
      | (Disk, Some table) \<Rightarrow>
          if af_file table \<noteq> PARTITION_TABLE_FILE
          then Inl (InvalidArgument (''partition table must be stored as '' @ PARTITION_TABLE_FILE @ '', not `'' @
                 af_file table @ ''`''))
          else Inr (bt_insert PARTITION_TABLE_FILE (af_sha256 table) [])
      | (Partition, Some _) \<Rightarrow> Inl (InvalidArgument ''a partition image archive cannot hold a partition table'')
      | (Partition, None) \<Rightarrow> Inr [])"

definition partition_checksum ::
  "manifest \<Rightarrow> (string, string) btree_map \<Rightarrow> archived_partition \<Rightarrow> (string, string) btree_map result" where
  "partition_checksum m sums p =
     (if ap_number p < 1 then Inl (InvalidArgument (''invalid partition number '' @ int_str (ap_number p)))
      else if ap_fstype p \<notin> set (fstypes (mf_kind m))
      then Inl (InvalidArgument (''partition '' @ int_str (ap_number p) @ '' has unsupported fstype `'' @ ap_fstype p @
             ''`, expected one of '' @ join '', '' (fstypes (mf_kind m))))
      else if ap_file p \<noteq> partition_file (ap_number p)
      then Inl (InvalidArgument (''partition '' @ int_str (ap_number p) @ '' must be stored as '' @
             partition_file (ap_number p) @ '', not `'' @ ap_file p @ ''`''))
      else if bt_lookup sums (ap_file p) \<noteq> None
      then Inl (InvalidArgument (''partition '' @ int_str (ap_number p) @ '' is listed twice''))
      else Inr (bt_insert (ap_file p) (ap_sha256 p) sums))"

definition script_checksum ::
  "manifest \<Rightarrow> (string, string) btree_map \<Rightarrow> archived_script \<Rightarrow> (string, string) btree_map result" where
  "script_checksum m sums s =
     and_then (validate_script_name (as_name s)) (\<lambda>_.
     and_then (collect_map validate_input (as_inputs s)) (\<lambda>_.
       if \<exists>root \<in> set_option (as_root_partition s). \<not> archived m root
       then Inl (InvalidArgument (''script `'' @ as_name s @ ''` root partition '' @ int_str (the (as_root_partition s)) @
              '' is not one of the archived partitions''))
       else if as_file s \<noteq> script_file (as_name s)
       then Inl (InvalidArgument (''script `'' @ as_name s @ ''` must be stored as '' @ script_file (as_name s) @
              '', not `'' @ as_file s @ ''`''))
       else if bt_lookup sums (as_file s) \<noteq> None
       then Inl (InvalidArgument (''script `'' @ as_name s @ ''` is listed twice''))
       else Inr (bt_insert (as_file s) (as_sha256 s) sums)))"

definition checksums :: "manifest \<Rightarrow> (string, string) btree_map result" where
  "checksums m =
     (if mf_format m < required_format m
      then Inl (InvalidArgument (''archive format '' @ nat_str (unat (mf_format m)) @
             '' cannot hold partition images or per-script root partitions, expected format '' @ nat_str (unat FORMAT)))
      else if \<not> is_power_of_two (mf_sector_size m) \<or> \<not> (512 \<le> mf_sector_size m \<and> mf_sector_size m \<le> 65536)
      then Inl (InvalidArgument (''invalid sector size '' @ nat_str (unat (mf_sector_size m)) @
             '', expected a power of two from 512 to 65536''))
      else and_then (table_checksum m) (\<lambda>sums.
        if mf_partitions m = [] then Inl (InvalidArgument ''the manifest lists no partitions'')
        else if mf_kind m = Partition \<and> map ap_number (mf_partitions m) \<noteq> [1]
        then Inl (InvalidArgument ''a partition image archive must hold exactly partition 1'')
        else and_then (try_fold (partition_checksum m) sums (mf_partitions m)) (\<lambda>sums.
          if \<exists>root \<in> set_option (mf_root_partition m). \<not> archived m root
          then Inl (InvalidArgument (''root partition '' @ int_str (the (mf_root_partition m)) @
                 '' is not one of the archived partitions''))
          else try_fold (script_checksum m) sums (mf_scripts m))))"

subsection \<open>What the checks accept\<close>

lemma try_fold_insert:
  assumes step: "\<And>s x s'. f s x = Inr s' \<longleftrightarrow> P x \<and> bt_lookup s (k x) = None \<and> s' = bt_insert (k x) (v x) s"
  shows "bt_inv s \<Longrightarrow> try_fold f s xs = Inr s' \<longleftrightarrow>
    (\<forall>x \<in> set xs. P x) \<and> distinct (map k xs) \<and> k ` set xs \<inter> dom (bt_lookup s) = {} \<and>
    s' = fold (\<lambda>(a, b). bt_insert a b) (map (\<lambda>x. (k x, v x)) xs) s"
proof (induction xs arbitrary: s)
  case Nil
  then show ?case by auto
next
  case (Cons x xs)
  have "dom (bt_lookup (bt_insert (k x) (v x) s)) = insert (k x) (dom (bt_lookup s))"
    using Cons.prems by (simp add: bt.lookup_insert)
  with Cons.IH [OF bt.inv_insert [OF Cons.prems, of "k x" "v x"]] show ?case
    by (auto simp: and_then_Inr step)
qed

definition partition_ok :: "manifest \<Rightarrow> archived_partition \<Rightarrow> bool" where
  "partition_ok m p \<longleftrightarrow>
     1 \<le> ap_number p \<and> ap_fstype p \<in> set (fstypes (mf_kind m)) \<and> ap_file p = partition_file (ap_number p)"

definition archived_script_ok :: "manifest \<Rightarrow> archived_script \<Rightarrow> bool" where
  "archived_script_ok m s \<longleftrightarrow>
     is_script_name (as_name s) \<and> (\<forall>i \<in> set (as_inputs s). validate_input i = Inr ()) \<and>
     (\<forall>root \<in> set_option (as_root_partition s). archived m root) \<and> as_file s = script_file (as_name s)"

definition table_sums :: "manifest \<Rightarrow> (string \<times> string) list" where
  "table_sums m = (case mf_partition_table m of None \<Rightarrow> [] | Some t \<Rightarrow> [(af_file t, af_sha256 t)])"

text \<open>The files an archive holds after its manifest, with their checksums.\<close>

definition file_sums :: "manifest \<Rightarrow> (string \<times> string) list" where
  "file_sums m = table_sums m @ map (\<lambda>p. (ap_file p, ap_sha256 p)) (mf_partitions m) @
     map (\<lambda>s. (as_file s, as_sha256 s)) (mf_scripts m)"

definition manifest_ok :: "manifest \<Rightarrow> bool" where
  "manifest_ok m \<longleftrightarrow>
     required_format m \<le> mf_format m \<and>
     is_power_of_two (mf_sector_size m) \<and> 512 \<le> mf_sector_size m \<and> mf_sector_size m \<le> 65536 \<and>
     (case mf_kind m of
        Disk \<Rightarrow> (\<exists>t. mf_partition_table m = Some t \<and> af_file t = PARTITION_TABLE_FILE)
      | Partition \<Rightarrow> mf_partition_table m = None \<and> map ap_number (mf_partitions m) = [1]) \<and>
     mf_partitions m \<noteq> [] \<and> (\<forall>p \<in> set (mf_partitions m). partition_ok m p) \<and>
     (\<forall>root \<in> set_option (mf_root_partition m). archived m root) \<and>
     (\<forall>s \<in> set (mf_scripts m). archived_script_ok m s) \<and>
     distinct (map fst (file_sums m))"

lemma distinct_three:
  "distinct (map fst a) \<Longrightarrow> distinct (map fst (a @ b @ c)) \<longleftrightarrow>
   distinct (map fst b) \<and> fst ` set b \<inter> fst ` set a = {} \<and> distinct (map fst c) \<and> fst ` set c \<inter> fst ` set (a @ b) = {}"
  by (simp add: image_Un) blast

lemma if_Inl: "(if b then Inl e else r) = Inr y \<longleftrightarrow> \<not> b \<and> r = Inr y"
  by simp

lemma table_checksum_Inr:
  "table_checksum m = Inr sums \<longleftrightarrow>
   (case mf_kind m of
      Disk \<Rightarrow> (\<exists>t. mf_partition_table m = Some t \<and> af_file t = PARTITION_TABLE_FILE)
    | Partition \<Rightarrow> mf_partition_table m = None) \<and> sums = bt_of_list (table_sums m)"
  by (auto simp: table_checksum_def table_sums_def bt_of_list_def split: image_kind.splits option.splits)

lemma partition_checksum_Inr:
  "partition_checksum m s p = Inr s' \<longleftrightarrow>
   partition_ok m p \<and> bt_lookup s (ap_file p) = None \<and> s' = bt_insert (ap_file p) (ap_sha256 p) s"
  by (auto simp: partition_checksum_def partition_ok_def)

lemma collect_units: "collect_map f xs = Inr ys \<longleftrightarrow> (\<forall>x \<in> set xs. f x = Inr ()) \<and> ys = map (\<lambda>_. ()) xs"
  for f :: "'a \<Rightarrow> 'e + unit"
  by (induction xs arbitrary: ys) (auto simp: and_then_Inr)

lemma script_checksum_Inr:
  "script_checksum m s x = Inr s' \<longleftrightarrow>
   archived_script_ok m x \<and> bt_lookup s (as_file x) = None \<and> s' = bt_insert (as_file x) (as_sha256 x) s"
  by (auto simp: script_checksum_def archived_script_ok_def and_then_Inr validate_script_name_def collect_units)

lemma bt_of_list_append:
  "fold (\<lambda>(k, v). bt_insert k v) ys (bt_of_list xs) = bt_of_list (xs @ ys)"
  by (simp add: bt_of_list_def)

lemma bt_of_list_dom: "dom (bt_lookup (bt_of_list xs)) = set (map fst xs)"
  by (simp add: bt_of_list_lookup dom_map_of_conv_image_fst)

text \<open>the manifest checks accept exactly the well-formed manifests, and then return the checksum of
  every archived file under its name: the partition table of a disk image, \<open>p-N.pcl\<close> for each partition (numbers
  from 1, distinct, with a file system the kind allows), \<open>scripts/NAME.sh\<close> for each script (a
  valid and distinct name), and root partitions that are archived.\<close>

theorem checksums_correct:
  "checksums m = Inr sums \<longleftrightarrow> manifest_ok m \<and> sums = bt_of_list (file_sums m)"
proof -
  let ?ps = "map (\<lambda>p. (ap_file p, ap_sha256 p)) (mf_partitions m)"
  let ?ss = "map (\<lambda>s. (as_file s, as_sha256 s)) (mf_scripts m)"
  have inv: "bt_inv (bt_of_list xs)" for xs :: "(string \<times> string) list" by simp
  note part = try_fold_insert [where f = "partition_checksum m" and P = "partition_ok m" and k = ap_file and v = ap_sha256,
    OF partition_checksum_Inr inv]
  note scr = try_fold_insert [where f = "script_checksum m" and P = "archived_script_ok m" and k = as_file and v = as_sha256,
    OF script_checksum_Inr inv]
  have "checksums m = Inr sums \<longleftrightarrow>
    required_format m \<le> mf_format m \<and>
    is_power_of_two (mf_sector_size m) \<and> 512 \<le> mf_sector_size m \<and> mf_sector_size m \<le> 65536 \<and>
    (\<exists>s1. table_checksum m = Inr s1 \<and> mf_partitions m \<noteq> [] \<and>
      (mf_kind m = Partition \<longrightarrow> map ap_number (mf_partitions m) = [1]) \<and>
      (\<exists>s2. try_fold (partition_checksum m) s1 (mf_partitions m) = Inr s2 \<and>
        (\<forall>root \<in> set_option (mf_root_partition m). archived m root) \<and>
        try_fold (script_checksum m) s2 (mf_scripts m) = Inr sums))"
    unfolding checksums_def by (simp only: if_Inl and_then_Inr not_less de_Morgan_conj de_Morgan_disj not_not
      imp_conv_disj bex_simps conj_assoc)
  also have "\<dots> \<longleftrightarrow> required_format m \<le> mf_format m \<and>
    is_power_of_two (mf_sector_size m) \<and> 512 \<le> mf_sector_size m \<and> mf_sector_size m \<le> 65536 \<and>
    (case mf_kind m of
      Disk \<Rightarrow> (\<exists>t. mf_partition_table m = Some t \<and> af_file t = PARTITION_TABLE_FILE)
    | Partition \<Rightarrow> mf_partition_table m = None) \<and> mf_partitions m \<noteq> [] \<and>
      (mf_kind m = Partition \<longrightarrow> map ap_number (mf_partitions m) = [1]) \<and>
      (\<forall>p \<in> set (mf_partitions m). partition_ok m p) \<and> distinct (map fst ?ps) \<and>
      fst ` set ?ps \<inter> fst ` set (table_sums m) = {} \<and>
      (\<forall>root \<in> set_option (mf_root_partition m). archived m root) \<and>
      (\<forall>s \<in> set (mf_scripts m). archived_script_ok m s) \<and> distinct (map fst ?ss) \<and>
      fst ` set ?ss \<inter> fst ` set (table_sums m @ ?ps) = {} \<and>
      sums = bt_of_list ((table_sums m @ ?ps) @ ?ss)"
    by (simp only: table_checksum_Inr part scr simp_thms bt_of_list_append bt_of_list_dom ex_simps
        conj_assoc list.set_map map_map o_def fst_conv image_image)
  also have "\<dots> \<longleftrightarrow> manifest_ok m \<and> sums = bt_of_list (file_sums m)"
  proof -
    have d: "distinct (map fst (table_sums m))" by (simp add: table_sums_def split: option.split)
    have "distinct (map fst (file_sums m)) \<longleftrightarrow> distinct (map fst ?ps) \<and> fst ` set ?ps \<inter> fst ` set (table_sums m) = {} \<and>
        distinct (map fst ?ss) \<and> fst ` set ?ss \<inter> fst ` set (table_sums m @ ?ps) = {}"
      unfolding file_sums_def by (rule distinct_three [OF d])
    then show ?thesis
      unfolding manifest_ok_def file_sums_def append_assoc by (cases "mf_kind m") auto
  qed
  finally show ?thesis .
qed

end
