(* ===== verification/Archive_Io.thy ===== *)
theory Archive_Io
  imports Archive_Format Utf8
begin

text \<open>
  Reading and writing archives: \<open>crates/archive/src/read.rs\<close> and \<open>crates/archive/src/write.rs\<close>. The
  crate \<open>tokio_tar\<close> turns bytes into entries and back: an archive is the list of the entries it yields, each
  with its path, type, size and bytes, where reading an entry's bytes or finding the next entry may fail. SHA-256 (as hexadecimal
  text) is the parameter \<open>sha\<close>, the JSON codec the parameters \<open>probe\<close>, \<open>decode\<close> and \<open>encode\<close>.
\<close>

record archive_script =
  sc_name :: string
  sc_body :: string
  sc_inputs :: "script_input list"
  sc_root_partition :: "int option"

record tar_entry =
  te_path :: string
  te_is_file :: bool
  te_size :: nat
  te_data :: string
  te_error :: "string option"

record tar_archive =
  ta_entries :: "(string + tar_entry) list"
  ta_tail_error :: "string option"

definition malformed :: "string \<Rightarrow> app_error" where
  "malformed e = InvalidArgument (''malformed archive: '' @ e)"

definition store_failed :: "io_error \<Rightarrow> app_error" where
  "store_failed e = Internal (''failed to store imported image: '' @ io_message e)"

subsection \<open>Entry names\<close>

datatype component = Root_dir | Cur_dir | Parent_dir | Normal string

text \<open>\<open>Path::components\<close>: repeated and trailing slashes vanish, and so does \<open>.\<close> except at the start of a relative path.\<close>

definition part_component :: "string \<Rightarrow> component" where
  "part_component part =
     (if part = ''.'' then Cur_dir else if part = ''..'' then Parent_dir else Normal part)"

definition components :: "string \<Rightarrow> component list" where
  "components path =
     (case split_on (CHR ''/'') path of
        [] \<Rightarrow> []
      | first # rest \<Rightarrow>
          (if first = [] then (if path = [] then [] else [Root_dir]) else [part_component first]) @
          map part_component (filter (\<lambda>p. p \<noteq> [] \<and> p \<noteq> ''.'') rest))"

definition to_str :: "string \<Rightarrow> string option" where
  "to_str s = (if valid_utf8 s then Some s else None)"

definition entry_name :: "tar_entry \<Rightarrow> string result" where
  "entry_name e =
     ok_or (InvalidArgument (''archive entry `'' @ from_utf8_lossy (te_path e) @ ''` is not a plain file''))
       (if \<not> te_is_file e then None
        else case components (te_path e) of
          [Normal name] \<Rightarrow> to_str name
        | [Normal dir, Normal name] \<Rightarrow>
            if dir = SCRIPTS_DIR then map_option (\<lambda>name. SCRIPTS_DIR @ ''/'' @ name) (to_str name) else None
        | _ \<Rightarrow> None)"

subsection \<open>Reading\<close>

definition read_manifest ::
  "(string \<Rightarrow> string + u32) \<Rightarrow> (string \<Rightarrow> string + manifest) \<Rightarrow> (string + tar_entry) list \<Rightarrow>
   (manifest \<times> (string + tar_entry) list) result" where
  "read_manifest probe decode es =
     (case es of
        [] \<Rightarrow> Inl (InvalidArgument ''archive is empty'')
      | Inl e # _ \<Rightarrow> Inl (malformed e)
      | Inr entry # es \<Rightarrow>
          and_then (entry_name entry) (\<lambda>name.
            if name \<noteq> MANIFEST_FILE
            then Inl (InvalidArgument (''archive must start with '' @ MANIFEST_FILE @ '', found `'' @ name @ ''`''))
            else if te_error entry \<noteq> None \<and> length (te_data entry) \<le> MAX_MANIFEST_BYTES
            then Inl (malformed (the (te_error entry)))
            else and_then (parse_manifest probe decode (take (MAX_MANIFEST_BYTES + 1) (te_data entry)))
                   (\<lambda>m. Inr (m, es))))"

definition open_archive ::
  "(string \<Rightarrow> string + u32) \<Rightarrow> (string \<Rightarrow> string + manifest) \<Rightarrow> tar_archive \<Rightarrow>
   (manifest \<times> tar_archive) result" where
  "open_archive probe decode a =
     and_then (read_manifest probe decode (ta_entries a)) (\<lambda>(m, es).
     and_then (checksums m) (\<lambda>_. Inr (m, a\<lparr>ta_entries := es\<rparr>)))"

definition flush_file :: "(io_error, unit) io" where
  "flush_file = io_call (\<lambda>_ d. d) (\<lambda>d. (Inr (), d))"

definition when_some :: "'a option \<Rightarrow> ('a \<Rightarrow> ('e, unit) io) \<Rightarrow> ('e, unit) io" where
  "when_some x f = (case x of None \<Rightarrow> io_return () | Some a \<Rightarrow> f a)"

definition write_hashed ::
  "(string \<Rightarrow> string) \<Rightarrow> tar_entry \<Rightarrow> (string \<times> string) option \<Rightarrow> (app_error, string) io" where
  "write_hashed sha entry path =
     io_bind (when_some path (\<lambda>(dir, name). io_map_err store_failed (create_file dir name))) (\<lambda>_.
     io_bind (when_some path (\<lambda>(dir, name). io_map_err store_failed (write_file dir name (te_data entry)))) (\<lambda>_.
       case te_error entry of
         Some e \<Rightarrow> io_throw (malformed e)
       | None \<Rightarrow>
           io_bind (when_some path (\<lambda>_. io_map_err store_failed flush_file)) (\<lambda>_.
           io_return (sha (te_data entry)))))"

definition read_script :: "(string \<Rightarrow> string) \<Rightarrow> string \<Rightarrow> tar_entry \<Rightarrow> (string \<times> string) result" where
  "read_script sha name entry =
     (if MAX_SCRIPT_BYTES < te_size entry
      then Inl (InvalidArgument (name @ '' exceeds '' @ nat_str MAX_SCRIPT_BYTES @ '' bytes''))
      else if te_error entry \<noteq> None then Inl (malformed (the (te_error entry)))
      else let body = take MAX_SCRIPT_BYTES (te_data entry) in
        if \<not> valid_utf8 body then Inl (malformed ''stream did not contain valid UTF-8'')
        else Inr (sha body, body))"

definition io_of :: "'e + 'a \<Rightarrow> ('e, 'a) io" where
  "io_of r = (case r of Inl e \<Rightarrow> io_throw e | Inr x \<Rightarrow> io_return x)"

definition receive_body ::
  "(string \<Rightarrow> string) \<Rightarrow> string option \<Rightarrow> (string, string) btree_map \<Rightarrow> string \<Rightarrow> tar_entry \<Rightarrow>
   (app_error, string \<times> (string, string) btree_map) io" where
  "receive_body sha dir bodies name entry =
     (if is_script_file name
      then io_bind (io_of (read_script sha name entry)) (\<lambda>(hash, body). io_return (hash, bt_insert name body bodies))
      else io_bind (write_hashed sha entry (map_option (\<lambda>dir. (dir, name)) dir)) (\<lambda>hash. io_return (hash, bodies)))"

text \<open>What an entry is refused for before its bytes are read.\<close>

definition check_entry :: "(string, string) btree_map \<Rightarrow> string list \<Rightarrow> tar_entry \<Rightarrow> (string \<times> string) result" where
  "check_entry sums received entry =
     and_then (entry_name entry) (\<lambda>name.
       case bt_lookup sums name of
         None \<Rightarrow> Inl (InvalidArgument (''unexpected archive entry `'' @ name @ ''`''))
       | Some expected \<Rightarrow>
           if name \<in> set received then Inl (InvalidArgument (''duplicate archive entry `'' @ name @ ''`''))
           else if name = PARTITION_TABLE_FILE \<and> MAX_PARTITION_TABLE_BYTES < te_size entry
           then Inl (InvalidArgument (PARTITION_TABLE_FILE @ '' exceeds '' @ nat_str MAX_PARTITION_TABLE_BYTES @ '' bytes''))
           else Inr (name, expected))"

fun receive_entries ::
  "(string \<Rightarrow> string) \<Rightarrow> string option \<Rightarrow> (string, string) btree_map \<Rightarrow> string list \<Rightarrow>
   (string, string) btree_map \<Rightarrow> (string + tar_entry) list \<Rightarrow> (app_error, (string, string) btree_map) io" where
  "receive_entries sha dir sums received bodies [] =
     (case List.find (\<lambda>file. file \<notin> set received) (bt_keys sums) of
        Some missing \<Rightarrow> io_throw (InvalidArgument (''archive is missing `'' @ missing @ ''`''))
      | None \<Rightarrow> io_return bodies)"
| "receive_entries sha dir sums received bodies (Inl e # es) = io_throw (malformed e)"
| "receive_entries sha dir sums received bodies (Inr entry # es) =
     io_bind (io_of (check_entry sums received entry)) (\<lambda>(name, expected).
     io_bind (receive_body sha dir bodies name entry) (\<lambda>(actual, bodies).
       if \<not> eq_ignore_case actual expected
       then io_throw (InvalidArgument (''checksum mismatch for `'' @ name @ ''`''))
       else receive_entries sha dir sums (name # received) bodies es))"

definition read_to_end :: "tar_archive \<Rightarrow> (app_error, unit) io" where
  "read_to_end a = (case ta_tail_error a of None \<Rightarrow> io_return () | Some e \<Rightarrow> io_throw (malformed e))"

text \<open>\<open>bodies.remove(..)\<close> for every script of the manifest, in order.\<close>

fun take_scripts :: "(string, string) btree_map \<Rightarrow> archived_script list \<Rightarrow> archive_script list result" where
  "take_scripts bodies [] = Inr []"
| "take_scripts bodies (s # ss) =
     and_then (ok_or (InvalidArgument (''archive is missing `'' @ as_file s @ ''`'')) (bt_lookup bodies (as_file s)))
       (\<lambda>body. and_then (take_scripts (bt_remove (as_file s) bodies) ss)
         (\<lambda>rest. Inr (\<lparr>sc_name = as_name s, sc_body = body, sc_inputs = as_inputs s,
            sc_root_partition = as_root_partition s\<rparr> # rest)))"

definition unpack ::
  "(string \<Rightarrow> string) \<Rightarrow> string \<Rightarrow> manifest \<times> tar_archive \<Rightarrow> (app_error, manifest \<times> archive_script list) io" where
  "unpack sha dir ma =
     io_bind (io_map_err store_failed (create_dir_all dir)) (\<lambda>_.
     io_bind (io_of (checksums (fst ma))) (\<lambda>sums.
     io_bind (receive_entries sha (Some dir) sums [] [] (ta_entries (snd ma))) (\<lambda>bodies.
     io_bind (read_to_end (snd ma)) (\<lambda>_.
     io_bind (io_of (take_scripts bodies (mf_scripts (fst ma)))) (\<lambda>scripts.
     io_return (fst ma, scripts))))))"

definition verify :: "(string \<Rightarrow> string) \<Rightarrow> manifest \<times> tar_archive \<Rightarrow> (app_error, manifest) io" where
  "verify sha ma =
     io_bind (io_of (checksums (fst ma))) (\<lambda>sums.
     io_bind (receive_entries sha None sums [] [] (ta_entries (snd ma))) (\<lambda>_.
     io_bind (read_to_end (snd ma)) (\<lambda>_.
     io_return (fst ma))))"

subsection \<open>Writing\<close>

text \<open>A source file is a directory and a name in it. The result lists what was appended: the names and the bytes of the
  entries, in order. That the writer itself may fail is not modelled.\<close>

record partition_source =
  ps_number :: int
  ps_fstype :: string
  ps_size_bytes :: u64
  ps_fs_uuid :: "string option"
  ps_fs_label :: "string option"
  ps_path :: "string \<times> string"

record contents =
  ct_name :: string
  ct_captured_at :: "time option"
  ct_kind :: image_kind
  ct_sector_size :: u32
  ct_partition_table :: "(string \<times> string) option"
  ct_partitions :: "partition_source list"
  ct_root_partition :: "int option"
  ct_scripts :: "archive_script list"

definition open_hashed :: "string \<times> string \<Rightarrow> (app_error, string) io" where
  "open_hashed path =
     io_map_err (\<lambda>e. Internal (''failed to read '' @ fst path @ ''/'' @ snd path @ '': '' @ io_message e))
       (read_file (fst path) (snd path))"

fun open_all :: "(string \<times> string) list \<Rightarrow> (app_error, string list) io" where
  "open_all [] = io_return []"
| "open_all (path # paths) = io_bind (open_hashed path) (\<lambda>data. io_bind (open_all paths) (\<lambda>rest. io_return (data # rest)))"

definition manifest_of :: "(string \<Rightarrow> string) \<Rightarrow> contents \<Rightarrow> string option \<Rightarrow> string list \<Rightarrow> manifest" where
  "manifest_of sha c table files =
     (let m = \<lparr>mf_format = 0, mf_name = ct_name c, mf_kind = ct_kind c, mf_captured_at = ct_captured_at c,
          mf_sector_size = ct_sector_size c,
          mf_partition_table = map_option (\<lambda>data. \<lparr>af_file = PARTITION_TABLE_FILE, af_sha256 = sha data\<rparr>) table,
          mf_partitions = map (\<lambda>(p, data). \<lparr>ap_number = ps_number p, ap_fstype = ps_fstype p,
            ap_size_bytes = ps_size_bytes p, ap_file = partition_file (ps_number p), ap_sha256 = sha data,
            ap_fs_uuid = ps_fs_uuid p, ap_fs_label = ps_fs_label p\<rparr>) (zip (ct_partitions c) files),
          mf_root_partition = ct_root_partition c,
          mf_scripts = map (\<lambda>s. \<lparr>as_name = sc_name s, as_file = script_file (sc_name s), as_sha256 = sha (sc_body s),
            as_inputs = sc_inputs s, as_root_partition = sc_root_partition s\<rparr>) (ct_scripts c)\<rparr>
      in m\<lparr>mf_format := required_format m\<rparr>)"

definition write_archive ::
  "(string \<Rightarrow> string) \<Rightarrow> (manifest \<Rightarrow> string + string) \<Rightarrow> contents \<Rightarrow>
   (app_error, manifest \<times> (string \<times> string) list) io" where
  "write_archive sha encode c =
     io_bind (case ct_partition_table c of
         None \<Rightarrow> io_return None
       | Some path \<Rightarrow> io_bind (open_hashed path) (\<lambda>data. io_return (Some data))) (\<lambda>table.
     io_bind (open_all (map ps_path (ct_partitions c))) (\<lambda>files.
     let m = manifest_of sha c table files in
     io_bind (io_of (checksums m)) (\<lambda>_.
     io_bind (io_of (map_err Internal (encode m))) (\<lambda>json.
     io_return (m,
       [(MANIFEST_FILE, json)] @
       (case (mf_partition_table m, table) of (Some t, Some data) \<Rightarrow> [(af_file t, data)] | _ \<Rightarrow> []) @
       map (\<lambda>(p, data). (ap_file p, data)) (zip (mf_partitions m) files) @
       map (\<lambda>(a, s). (as_file a, sc_body s)) (zip (mf_scripts m) (ct_scripts c)))))))"

subsection \<open>What receiving checks\<close>

lemma io_return_Inr: "io_return x d = (Some (Inr y), d') \<longleftrightarrow> x = y \<and> d = d'"
  by (auto simp: io_return_def)

lemma io_throw_Inr: "io_throw e d \<noteq> (Some (Inr y), d')"
  by (simp add: io_throw_def)

lemma io_of_Inr: "io_of r d = (Some (Inr y), d') \<longleftrightarrow> r = Inr y \<and> d = d'"
  by (cases r) (auto simp: io_of_def io_return_def io_throw_def)

lemmas io_Inr = io_bind_Inr io_map_err_Inr io_return_Inr io_throw_Inr io_of_Inr

lemma keeps_when_some: "(\<And>x. io_keeps (same_but p names) (f x)) \<Longrightarrow> io_keeps (same_but p names) (when_some x f)"
  by (cases x) (simp_all add: when_some_def io_keeps_return)

lemma keeps_io_of: "io_keeps (same_but p names) (io_of r)"
  by (cases r) (simp_all add: io_of_def io_keeps_return io_keeps_throw)

lemma keeps_flush: "io_keeps (same_but p names) flush_file"
  unfolding flush_file_def by (rule io_keeps_call) (auto simp: same_but_def)

lemma keeps_write_hashed:
  "name \<in> names \<Longrightarrow> io_keeps (same_but dir names) (write_hashed sha entry (Some (dir, name)))"
  unfolding write_hashed_def when_some_def
  by (auto intro!: io_keeps_bind io_keeps_map_err keeps_create_file keeps_write_file keeps_flush io_keeps_return
      io_keeps_throw split: option.split)

lemma write_hashed_done:
  assumes "write_hashed sha entry (Some (dir, name)) d = (Some (Inr h), d')"
  shows "h = sha (te_data entry) \<and> file_at d' dir name = Some (te_data entry)"
proof -
  from assms obtain d1 d2 where c: "create_file dir name d = (Some (Inr ()), d1)"
    and w: "write_file dir name (te_data entry) d1 = (Some (Inr ()), d2)"
    and e: "te_error entry = None" and f: "flush_file d2 = (Some (Inr ()), d')" and h: "h = sha (te_data entry)"
    by (auto simp: write_hashed_def when_some_def io_Inr split: option.splits)
  from io_call_done [OF c [unfolded create_file_def]] have 1: "file_at d1 dir name = Some []"
    by (auto simp: file_at_set_file split: if_splits)
  from io_call_done [OF w [unfolded write_file_def]] obtain d3 where
    d3: "file_at d3 = file_at d1" "append_file dir name (te_data entry) d3 = d2" by auto
  then have "file_at d2 dir name = Some (te_data entry)"
    using 1 file_at_some_dir [of d3 dir name "[]"] by (auto simp: append_file_def file_at_set_file)
  moreover have "file_at d' = file_at d2" using io_call_done [OF f [unfolded flush_file_def]] by auto
  ultimately show ?thesis using h by simp
qed

text \<open>An entry that was accepted: its file or its script is what the checksum says.\<close>

definition holds_file :: "(string \<Rightarrow> string) \<Rightarrow> string \<Rightarrow> (string, string) btree_map \<Rightarrow> disk \<Rightarrow> (string, string) btree_map \<Rightarrow> string \<Rightarrow> bool" where
  "holds_file sha dir sums d bodies name \<longleftrightarrow>
     (\<exists>data expected. bt_lookup sums name = Some expected \<and> eq_ignore_case (sha data) expected \<and>
        (if is_script_file name then bt_lookup bodies name = Some data \<and> valid_utf8 data
         else file_at d dir name = Some data))"

lemma holds_file_keep:
  assumes "holds_file sha dir sums d bodies n" "same_but dir {name} d d'" "n \<noteq> name"
    "bodies' = bodies \<or> (bt_inv bodies \<and> (\<exists>b. bodies' = bt_insert name b bodies))"
  shows "holds_file sha dir sums d' bodies' n"
proof -
  have "bt_lookup bodies' n = bt_lookup bodies n" using assms(3,4) by (auto simp: bt.lookup_insert)
  moreover have "file_at d' dir n = file_at d dir n" using assms(2,3) by (simp add: same_but_def)
  ultimately show ?thesis using assms(1) by (simp only: holds_file_def)
qed

lemma keeps_receive_body:
  "name \<in> names \<Longrightarrow> io_keeps (same_but dir names) (receive_body sha (Some dir) bodies name entry)"
  unfolding receive_body_def
  by (auto intro!: io_keeps_bind keeps_io_of keeps_write_hashed io_keeps_return split: prod.split)

lemma receive_body_done:
  assumes "receive_body sha (Some dir) bodies name entry d = (Some (Inr (actual, bodies')), d')"
    and "bt_lookup sums name = Some expected" "eq_ignore_case actual expected" "bt_inv bodies"
  shows "holds_file sha dir sums d' bodies' name \<and> same_but dir {name} d d' \<and>
    (bodies' = bodies \<or> is_script_file name \<and> (\<exists>b. bodies' = bt_insert name b bodies))"
proof (cases "is_script_file name")
  case True
  then obtain body where b: "read_script sha name entry = Inr (actual, body)" "d' = d" "bodies' = bt_insert name body bodies"
    using assms(1) by (auto simp: receive_body_def io_Inr)
  then have "actual = sha body" "valid_utf8 body"
    by (auto simp: read_script_def Let_def split: if_splits)
  then show ?thesis
    using b True assms(2-4) by (auto simp: holds_file_def bt.lookup_insert same_but_def)
next
  case False
  then have w: "write_hashed sha entry (Some (dir, name)) d = (Some (Inr actual), d')" and "bodies' = bodies"
    using assms(1) by (auto simp: receive_body_def io_Inr)
  moreover have "same_but dir {name} d d'" using io_keepsD [OF keeps_write_hashed w] by simp
  ultimately show ?thesis using write_hashed_done [OF w] False assms(2,3) by (auto simp: holds_file_def)
qed

lemma check_entry_Inr:
  "check_entry sums received entry = Inr (name, expected) \<Longrightarrow>
   entry_name entry = Inr name \<and> bt_lookup sums name = Some expected \<and> name \<notin> set received"
  by (auto simp: check_entry_def and_then_Inr split: option.splits if_splits)

lemma receive_entries_done:
  "receive_entries sha (Some dir) sums received bodies es d = (Some (Inr bodies'), d') \<Longrightarrow>
   bt_inv sums \<Longrightarrow> bt_inv bodies \<Longrightarrow> set received \<subseteq> dom (bt_lookup sums) \<Longrightarrow>
   \<forall>n \<in> set received. holds_file sha dir sums d bodies n \<Longrightarrow>
   (\<forall>n \<in> dom (bt_lookup sums). holds_file sha dir sums d' bodies' n) \<and> bt_inv bodies' \<and>
   same_but dir (dom (bt_lookup sums)) d d'"
proof (induction es arbitrary: received bodies d)
  case Nil
  then have none: "List.find (\<lambda>file. file \<notin> set received) (bt_keys sums) = None" and e: "bodies' = bodies" "d' = d"
    by (auto simp: io_Inr split: option.splits)
  then have "dom (bt_lookup sums) \<subseteq> set received"
    using bt.keys_dom [OF Nil.prems(2)] by (auto simp: find_None_iff)
  then show ?case using Nil.prems e by (auto simp: same_but_def)
next
  case (Cons x es)
  show ?case
  proof (cases x)
    case (Inl e)
    then show ?thesis using Cons.prems by (simp add: io_Inr)
  next
    case (Inr entry)
    obtain name expected actual bodies1 d1 where c: "check_entry sums received entry = Inr (name, expected)"
      and b: "receive_body sha (Some dir) bodies name entry d = (Some (Inr (actual, bodies1)), d1)"
      and q: "eq_ignore_case actual expected"
      and r: "receive_entries sha (Some dir) sums (name # received) bodies1 es d1 = (Some (Inr bodies'), d')"
      using Cons.prems(1) Inr by (auto simp: io_Inr split: if_splits)
    note ce = check_entry_Inr [OF c]
    have rb: "holds_file sha dir sums d1 bodies1 name" "same_but dir {name} d d1"
      "bodies1 = bodies \<or> (\<exists>b. bodies1 = bt_insert name b bodies)"
      using receive_body_done [OF b _ q Cons.prems(3), of sums] ce by blast+
    have inv: "bt_inv bodies1" using rb(3) Cons.prems(3) by (auto simp: bt.inv_insert)
    have old: "holds_file sha dir sums d1 bodies1 n" if "n \<in> set received" for n
      using Cons.prems(5) that ce rb(3) Cons.prems(3)
      by (intro holds_file_keep [OF _ rb(2)]) auto
    have "(\<forall>n \<in> dom (bt_lookup sums). holds_file sha dir sums d' bodies' n) \<and> bt_inv bodies' \<and>
       same_but dir (dom (bt_lookup sums)) d1 d'"
      by (rule Cons.IH [OF r Cons.prems(2) inv]) (use Cons.prems(4) ce rb(1) old in auto)
    moreover have "same_but dir (dom (bt_lookup sums)) d d1"
      by (rule same_but_mono [OF rb(2)]) (use ce in auto)
    ultimately show ?thesis using same_but_chain by blast
  qed
qed

lemma take_scripts_Inr:
  "bt_inv bodies \<Longrightarrow> distinct (map as_file ss) \<Longrightarrow>
   take_scripts bodies ss = Inr out \<longleftrightarrow>
   list_all2 (\<lambda>a s. bt_lookup bodies (as_file a) = Some (sc_body s) \<and> sc_name s = as_name a \<and>
     sc_inputs s = as_inputs a \<and> sc_root_partition s = as_root_partition a) ss out"
proof (induction ss arbitrary: bodies out)
  case Nil
  then show ?case by auto
next
  case (Cons a ss)
  have same: "list_all2 (\<lambda>a s. bt_lookup (bt_remove (as_file a0) bodies) (as_file a) = Some (sc_body s) \<and> sc_name s = as_name a \<and>
      sc_inputs s = as_inputs a \<and> sc_root_partition s = as_root_partition a) ss rest \<longleftrightarrow>
    list_all2 (\<lambda>a s. bt_lookup bodies (as_file a) = Some (sc_body s) \<and> sc_name s = as_name a \<and>
      sc_inputs s = as_inputs a \<and> sc_root_partition s = as_root_partition a) ss rest"
    if "a0 = a" for rest a0
  proof (intro list.rel_cong refl)
    fix z y
    assume "z \<in> set ss"
    then have "as_file z \<in> as_file ` set ss" by (rule imageI)
    then have "as_file z \<noteq> as_file a" using Cons.prems(2) by auto
    then have "bt_lookup (bt_remove (as_file a0) bodies) (as_file z) = bt_lookup bodies (as_file z)"
      using Cons.prems(1) that by (simp add: bt_lookup_def bt_remove_lookup bt_inv_def)
    then show "(bt_lookup (bt_remove (as_file a0) bodies) (as_file z) = Some (sc_body y) \<and> sc_name y = as_name z \<and>
      sc_inputs y = as_inputs z \<and> sc_root_partition y = as_root_partition z) =
      (bt_lookup bodies (as_file z) = Some (sc_body y) \<and> sc_name y = as_name z \<and>
      sc_inputs y = as_inputs z \<and> sc_root_partition y = as_root_partition z)" by simp
  qed
  have rest: "take_scripts (bt_remove (as_file a) bodies) ss = Inr rest \<longleftrightarrow>
    list_all2 (\<lambda>a s. bt_lookup bodies (as_file a) = Some (sc_body s) \<and> sc_name s = as_name a \<and>
      sc_inputs s = as_inputs a \<and> sc_root_partition s = as_root_partition a) ss rest" for rest
    using Cons.IH [of "bt_remove (as_file a) bodies" rest] Cons.prems same [OF refl, of rest] bt_remove_inv by auto
  show ?case
  proof (cases out)
    case Nil
    then show ?thesis by (simp add: and_then_Inr)
  next
    case (Cons s out')
    have s: "s = \<lparr>sc_name = as_name a, sc_body = b, sc_inputs = as_inputs a, sc_root_partition = as_root_partition a\<rparr> \<longleftrightarrow>
      sc_body s = b \<and> sc_name s = as_name a \<and> sc_inputs s = as_inputs a \<and> sc_root_partition s = as_root_partition a" for b
      by (cases s) auto
    show ?thesis unfolding Cons by (auto simp: and_then_Inr ok_or_Inr rest s)
  qed
qed

lemma file_kinds: "\<not> is_script_file PARTITION_TABLE_FILE" "\<not> is_script_file (partition_file n)" "is_script_file (script_file name)"
  by (simp_all add: is_script_file_def PARTITION_TABLE_FILE_def partition_file_def script_file_def SCRIPTS_DIR_def starts_with_def)

lemma manifest_lookup:
  assumes "manifest_ok m" "(f, h) \<in> set (file_sums m)"
  shows "bt_lookup (bt_of_list (file_sums m)) f = Some h"
  using assms map_of_eq_Some_iff [of "rev (file_sums m)" f h]
  by (simp add: bt_of_list_lookup manifest_ok_def rev_map [symmetric])

text \<open>The files an archive's manifest lists, besides the scripts.\<close>

definition listed_files :: "manifest \<Rightarrow> (string \<times> string) list" where
  "listed_files m = table_sums m @ map (\<lambda>p. (ap_file p, ap_sha256 p)) (mf_partitions m)"

lemma unpack_result:
  assumes "unpack sha dir (m, a) d = (Some (Inr (m', scs)), d')"
  shows "m' = m \<and> manifest_ok m \<and>
    (\<forall>(f, h) \<in> set (listed_files m). \<exists>data. file_at d' dir f = Some data \<and> eq_ignore_case (sha data) h) \<and>
    list_all2 (\<lambda>x s. sc_name s = as_name x \<and> sc_inputs s = as_inputs x \<and> sc_root_partition s = as_root_partition x \<and>
      eq_ignore_case (sha (sc_body s)) (as_sha256 x) \<and> valid_utf8 (sc_body s)) (mf_scripts m) scs \<and>
    same_but dir (fst ` set (file_sums m)) d d'"
proof -
  from assms obtain d1 sums bodies d2 where c: "io_map_err store_failed (create_dir_all dir) d = (Some (Inr ()), d1)"
    and s: "checksums m = Inr sums" and r: "receive_entries sha (Some dir) sums [] [] (ta_entries a) d1 = (Some (Inr bodies), d2)"
    and e: "read_to_end a d2 = (Some (Inr ()), d')" and t: "take_scripts bodies (mf_scripts m) = Inr scs" and m: "m' = m"
    by (auto simp: unpack_def io_Inr)
  have ok: "manifest_ok m" and sums: "sums = bt_of_list (file_sums m)" using s by (simp_all add: checksums_correct)
  have "d' = d2" using e by (auto simp: read_to_end_def io_Inr split: option.splits)
  then have recv: "\<forall>n \<in> fst ` set (file_sums m). holds_file sha dir sums d' bodies n" "bt_inv bodies"
      "same_but dir (fst ` set (file_sums m)) d1 d'"
    using receive_entries_done [OF r] bt_of_list_inv [of "file_sums m", folded sums]
    by (simp_all add: bt_of_list_dom [of "file_sums m", folded sums])
  have files: "\<exists>data. file_at d' dir f = Some data \<and> eq_ignore_case (sha data) h" if "(f, h) \<in> set (listed_files m)" for f h
  proof -
    have mem: "(f, h) \<in> set (file_sums m)" using that by (auto simp: listed_files_def file_sums_def)
    have "\<not> is_script_file f"
      using that ok file_kinds
      by (auto simp: listed_files_def table_sums_def manifest_ok_def partition_ok_def split: option.splits image_kind.splits)
    moreover have "holds_file sha dir sums d' bodies f" using recv(1) mem by force
    ultimately show ?thesis using manifest_lookup [OF ok mem] by (auto simp: holds_file_def sums)
  qed
  have "distinct (map as_file (mf_scripts m))" using ok by (simp add: manifest_ok_def file_sums_def o_def)
  with t recv(2) have all: "list_all2 (\<lambda>x s. bt_lookup bodies (as_file x) = Some (sc_body s) \<and> sc_name s = as_name x \<and>
     sc_inputs s = as_inputs x \<and> sc_root_partition s = as_root_partition x) (mf_scripts m) scs"
    by (simp add: take_scripts_Inr)
  have body: "eq_ignore_case (sha b) (as_sha256 x) \<and> valid_utf8 b"
    if "x \<in> set (mf_scripts m)" "bt_lookup bodies (as_file x) = Some b" for x b
  proof -
    have mem: "(as_file x, as_sha256 x) \<in> set (file_sums m)" using that(1) by (auto simp: file_sums_def)
    have "is_script_file (as_file x)" using that(1) ok file_kinds(3) by (auto simp: manifest_ok_def archived_script_ok_def)
    moreover have "holds_file sha dir sums d' bodies (as_file x)" using recv(1) mem by force
    ultimately show ?thesis using manifest_lookup [OF ok mem] that(2) by (auto simp: holds_file_def sums)
  qed
  have "list_all2 (\<lambda>x s. sc_name s = as_name x \<and> sc_inputs s = as_inputs x \<and> sc_root_partition s = as_root_partition x \<and>
      eq_ignore_case (sha (sc_body s)) (as_sha256 x) \<and> valid_utf8 (sc_body s)) (mf_scripts m) scs"
    by (rule list.rel_mono_strong [OF all]) (use body in auto)
  moreover have "same_but dir (fst ` set (file_sums m)) d d1"
    using io_keepsD [OF io_keeps_map_err [OF keeps_create_dir_all] c] .
  ultimately show ?thesis using m ok files recv(3) same_but_chain by blast
qed

text \<open>C22: whatever the entries of an archive are, and whatever I/O faults happen, unpacking succeeds only if
  every file and every script the manifest lists has arrived and matches its checksum: the import directory then holds exactly those bytes under the
  manifest's names, the scripts are the manifest's in its order with bodies that match, and no other
  file anywhere was touched.\<close>

theorem unpack_verified:
  assumes "unpack sha dir (m, a) d = (Some (Inr (m', scs)), d')"
  shows "m' = m \<and> manifest_ok m \<and>
    (\<forall>(f, h) \<in> set (listed_files m). \<exists>data. file_at d' dir f = Some data \<and> eq_ignore_case (sha data) h) \<and>
    list_all2 (\<lambda>x s. sc_name s = as_name x \<and> sc_inputs s = as_inputs x \<and> sc_root_partition s = as_root_partition x \<and>
      eq_ignore_case (sha (sc_body s)) (as_sha256 x) \<and> valid_utf8 (sc_body s)) (mf_scripts m) scs \<and>
    same_but dir (fst ` set (file_sums m)) d d'"
  by (rule unpack_result [OF assms])

theorem unpack_verified_witness:
  "\<exists>d' data. file_at d' ''/i'' ''p-1.pcl'' = Some data \<and> eq_ignore_case data ''DATA''"
proof -
  let ?p = "\<lparr>ap_number = 1, ap_fstype = ''ext4'', ap_size_bytes = 9, ap_file = ''p-1.pcl'', ap_sha256 = ''DATA'',
    ap_fs_uuid = None, ap_fs_label = None\<rparr>"
  let ?m = "\<lparr>mf_format = 3, mf_name = ''n'', mf_kind = Partition, mf_captured_at = None, mf_sector_size = 512,
    mf_partition_table = None, mf_partitions = [?p], mf_root_partition = Some 1, mf_scripts = []\<rparr>"
  let ?a = "\<lparr>ta_entries = [Inr \<lparr>te_path = ''p-1.pcl'', te_is_file = True, te_size = 4, te_data = ''data'', te_error = None\<rparr>],
    ta_tail_error = None\<rparr>"
  let ?d = "\<lparr>dk_base = True, dk_dirs = Map.empty, dk_seq = 0, dk_faults = []\<rparr>"
  have "fst (unpack (\<lambda>s. s) ''/i'' (?m, ?a) ?d) = Some (Inr (?m, []))"
    by code_simp
  then obtain d' where u: "unpack (\<lambda>s. s) ''/i'' (?m, ?a) ?d = (Some (Inr (?m, [])), d')"
    by (metis fst_conv prod.exhaust)
  show ?thesis using unpack_verified [OF u] by (auto simp: listed_files_def table_sums_def)
qed

subsection \<open>Round trip\<close>

lemma ascii_valid: "(\<forall>c \<in> set s. byte c < 128) \<Longrightarrow> valid_utf8 s"
proof (induction s)
  case Nil
  then show ?case by simp
next
  case (Cons c s)
  then show ?case by (subst valid_utf8_step) simp
qed

text \<open>What the tar format gives back of an entry that was appended as a plain file.\<close>

definition plain_entry :: "string \<times> string \<Rightarrow> string + tar_entry" where
  "plain_entry nx =
     Inr \<lparr>te_path = fst nx, te_is_file = True, te_size = length (snd nx), te_data = snd nx, te_error = None\<rparr>"

definition archive_of :: "(string \<times> string) list \<Rightarrow> tar_archive" where
  "archive_of es = \<lparr>ta_entries = map plain_entry es, ta_tail_error = None\<rparr>"

definition name_char :: "char \<Rightarrow> bool" where
  "name_char c \<longleftrightarrow> is_alnum c \<or> c = CHR ''-'' \<or> c = CHR ''_'' \<or> c = CHR ''.''"

lemma name_char_simple: "name_char c \<Longrightarrow> c \<noteq> CHR ''/'' \<and> byte c < 128"
  by (auto simp: name_char_def is_alnum_def is_alpha_def is_lower_def is_upper_def is_digit_def byte_def)

lemma plain_name:
  assumes "\<forall>c \<in> set name. name_char c" "name \<noteq> []" "name \<noteq> ''.''" "name \<noteq> ''..''"
  shows "split_on (CHR ''/'') name = [name]" "part_component name = Normal name" "to_str name = Some name"
proof -
  have no: "CHR ''/'' \<notin> set name" using assms(1) name_char_simple by auto
  then show "split_on (CHR ''/'') name = [name]" by (rule split_on_free)
  show "part_component name = Normal name" using assms by (simp add: part_component_def)
  have "valid_utf8 name" using assms(1) name_char_simple by (intro ascii_valid) auto
  then show "to_str name = Some name" by (simp add: to_str_def)
qed

lemma entry_name_plain:
  assumes "\<forall>c \<in> set name. name_char c" "name \<noteq> []" "name \<noteq> ''.''" "name \<noteq> ''..''"
  shows "entry_name \<lparr>te_path = name, te_is_file = True, te_size = k, te_data = x, te_error = e\<rparr> = Inr name"
  using plain_name [OF assms] assms(2) by (simp add: entry_name_def components_def)

lemma entry_name_script:
  assumes "\<forall>c \<in> set name. name_char c" "name \<noteq> []"
  shows "entry_name \<lparr>te_path = script_file name, te_is_file = True, te_size = k, te_data = x, te_error = e\<rparr> =
    Inr (script_file name)"
proof -
  let ?n = "name @ ''.sh''"
  have chars: "\<forall>c \<in> set ?n. name_char c" using assms(1) by (auto simp: name_char_def is_alnum_def is_alpha_def is_lower_def byte_def)
  have "?n \<noteq> ''.''" "?n \<noteq> ''..''" "?n \<noteq> []"
    using assms(2) by (cases name; simp; fail)+
  note n = plain_name [OF chars this(3,1,2)]
  have "split_on (CHR ''/'') (SCRIPTS_DIR @ CHR ''/'' # ?n) = SCRIPTS_DIR # split_on (CHR ''/'') ?n"
    by (rule split_on_append) (simp add: SCRIPTS_DIR_def)
  then have "split_on (CHR ''/'') (script_file name) = [SCRIPTS_DIR, ?n]"
    using n(1) by (simp add: script_file_def)
  moreover have "SCRIPTS_DIR \<noteq> []" "part_component SCRIPTS_DIR = Normal SCRIPTS_DIR"
    by (simp_all add: SCRIPTS_DIR_def part_component_def)
  ultimately have "components (script_file name) = [Normal SCRIPTS_DIR, Normal ?n]"
    using n(2) \<open>?n \<noteq> ''.''\<close> \<open>?n \<noteq> []\<close> by (simp add: components_def)
  then show ?thesis using n(3) by (simp add: entry_name_def script_file_def)
qed

lemma int_str_chars: "c \<in> set (int_str k) \<Longrightarrow> name_char c"
  using nat_str_digits [of c "nat \<bar>k\<bar>"]
  by (auto simp: int_str_def name_char_def is_alnum_def split: if_splits)

lemma entry_name_partition:
  "entry_name \<lparr>te_path = partition_file n, te_is_file = True, te_size = k, te_data = x, te_error = e\<rparr> = Inr (partition_file n)"
proof (rule entry_name_plain)
  show "\<forall>c \<in> set (partition_file n). name_char c"
    using int_str_chars by (auto simp: partition_file_def name_char_def is_alnum_def is_alpha_def is_lower_def byte_def)
qed (simp_all add: partition_file_def)

lemma entry_name_table:
  "entry_name \<lparr>te_path = PARTITION_TABLE_FILE, te_is_file = True, te_size = k, te_data = x, te_error = e\<rparr> = Inr PARTITION_TABLE_FILE"
  by (rule entry_name_plain) (auto simp: PARTITION_TABLE_FILE_def name_char_def is_alnum_def is_alpha_def is_lower_def byte_def)

lemma entry_name_manifest:
  "entry_name \<lparr>te_path = MANIFEST_FILE, te_is_file = True, te_size = k, te_data = x, te_error = e\<rparr> = Inr MANIFEST_FILE"
  by (rule entry_name_plain) (auto simp: MANIFEST_FILE_def name_char_def is_alnum_def is_alpha_def is_lower_def byte_def)

text \<open>An entry that receiving accepts when its turn comes.\<close>

definition good_entry :: "(string \<Rightarrow> string) \<Rightarrow> (string, string) btree_map \<Rightarrow> string \<times> string \<Rightarrow> bool" where
  "good_entry sha sums nx \<longleftrightarrow>
     entry_name (projr (plain_entry nx)) = Inr (fst nx) \<and> bt_lookup sums (fst nx) = Some (sha (snd nx)) \<and>
     (fst nx = PARTITION_TABLE_FILE \<longrightarrow> length (snd nx) \<le> MAX_PARTITION_TABLE_BYTES) \<and>
     (is_script_file (fst nx) \<longrightarrow> length (snd nx) \<le> MAX_SCRIPT_BYTES \<and> valid_utf8 (snd nx))"

fun collect_bodies :: "(string \<times> string) list \<Rightarrow> (string, string) btree_map \<Rightarrow> (string, string) btree_map" where
  "collect_bodies [] bodies = bodies"
| "collect_bodies ((n, x) # es) bodies = collect_bodies es (if is_script_file n then bt_insert n x bodies else bodies)"

lemma write_hashed_works:
  assumes "dk_faults d = []" "dk_dirs d dir \<noteq> None"
  shows "\<exists>d'. write_hashed sha (projr (plain_entry (n, x))) (Some (dir, n)) d = (Some (Inr (sha x)), d') \<and>
    dk_faults d' = [] \<and> dk_dirs d' dir \<noteq> None \<and> file_at d' dir n = Some x \<and> same_but dir {n} d d'"
proof -
  define d1 where "d1 = set_file dir n (Some []) d"
  define d2 where "d2 = set_file dir n (Some x) d1"
  have d1: "dk_faults d1 = []" "dk_dirs d1 dir \<noteq> None" "file_at d1 dir n = Some []"
    using assms by (simp_all add: d1_def set_file_dirs file_at_set_file)
  have d2: "dk_faults d2 = []" "dk_dirs d2 dir \<noteq> None" "file_at d2 dir n = Some x"
    using d1 by (simp_all add: d2_def set_file_dirs file_at_set_file)
  have "create_file dir n d = (Some (Inr ()), d1)" using assms by (simp add: create_file_def io_call_works d1_def)
  moreover have "write_file dir n x d1 = (Some (Inr ()), d2)"
    using d1 by (simp add: write_file_def io_call_works append_file_def d2_def)
  moreover have "flush_file d2 = (Some (Inr ()), d2)" using d2 by (simp add: flush_file_def io_call_works)
  ultimately have w: "write_hashed sha (projr (plain_entry (n, x))) (Some (dir, n)) d = (Some (Inr (sha x)), d2)"
    by (simp add: write_hashed_def when_some_def io_bind_def io_map_err_def plain_entry_def io_return_def)
  moreover have "same_but dir {n} d d2" using io_keepsD [OF keeps_write_hashed w] by simp
  ultimately show ?thesis using d2 by blast
qed

lemma receive_body_works:
  assumes "dk_faults d = []" "dk_dirs d dir \<noteq> None" "good_entry sha sums (n, x)"
  shows "\<exists>d'. receive_body sha (Some dir) bodies n (projr (plain_entry (n, x))) d =
      (Some (Inr (sha x, if is_script_file n then bt_insert n x bodies else bodies)), d') \<and>
    dk_faults d' = [] \<and> dk_dirs d' dir \<noteq> None \<and> (\<not> is_script_file n \<longrightarrow> file_at d' dir n = Some x) \<and> same_but dir {n} d d'"
proof (cases "is_script_file n")
  case True
  then have "read_script sha n (projr (plain_entry (n, x))) = Inr (sha x, x)"
    using assms(3) by (simp add: good_entry_def read_script_def plain_entry_def Let_def)
  then show ?thesis
    using True assms(1,2) by (simp add: receive_body_def io_of_def io_bind_def io_return_def same_but_def)
next
  case False
  then show ?thesis
    using write_hashed_works [OF assms(1,2), of sha n x] by (auto simp: receive_body_def io_bind_def io_return_def)
qed

lemma receive_listed:
  "dk_faults d = [] \<Longrightarrow> dk_dirs d dir \<noteq> None \<Longrightarrow> distinct (map fst es) \<Longrightarrow> set received \<inter> fst ` set es = {} \<Longrightarrow>
   set (bt_keys sums) = set received \<union> fst ` set es \<Longrightarrow> \<forall>nx \<in> set es. good_entry sha sums nx \<Longrightarrow>
   \<exists>d'. receive_entries sha (Some dir) sums received bodies (map plain_entry es) d = (Some (Inr (collect_bodies es bodies)), d') \<and>
     (\<forall>(n, x) \<in> set es. \<not> is_script_file n \<longrightarrow> file_at d' dir n = Some x) \<and> same_but dir (fst ` set es) d d'"
proof (induction es arbitrary: received bodies d)
  case Nil
  then have "List.find (\<lambda>file. file \<notin> set received) (bt_keys sums) = None" by (simp add: find_None_iff)
  then show ?case by (simp add: io_return_def same_but_def)
next
  case (Cons nx es)
  obtain n x where nx: "nx = (n, x)" by (cases nx)
  define bodies1 where "bodies1 = (if is_script_file n then bt_insert n x bodies else bodies)"
  have good: "good_entry sha sums (n, x)" using Cons.prems(6) nx by simp
  obtain d1 where b: "receive_body sha (Some dir) bodies n (projr (plain_entry (n, x))) d = (Some (Inr (sha x, bodies1)), d1)"
    and d1: "dk_faults d1 = []" "dk_dirs d1 dir \<noteq> None" "\<not> is_script_file n \<longrightarrow> file_at d1 dir n = Some x" "same_but dir {n} d d1"
    using receive_body_works [OF Cons.prems(1,2) good, of bodies] unfolding bodies1_def by blast
  have c: "check_entry sums received (projr (plain_entry (n, x))) = Inr (n, sha x)"
    using good Cons.prems(4) nx by (auto simp: check_entry_def good_entry_def plain_entry_def)
  have "\<exists>d'. receive_entries sha (Some dir) sums (n # received) bodies1 (map plain_entry es) d1 =
      (Some (Inr (collect_bodies es bodies1)), d') \<and>
     (\<forall>(n, x) \<in> set es. \<not> is_script_file n \<longrightarrow> file_at d' dir n = Some x) \<and> same_but dir (fst ` set es) d1 d'"
    by (rule Cons.IH [OF d1(1,2)]) (use Cons.prems nx in auto)
  then obtain d' where d': "receive_entries sha (Some dir) sums (n # received) bodies1 (map plain_entry es) d1 =
      (Some (Inr (collect_bodies es bodies1)), d')"
    "\<forall>(n, x) \<in> set es. \<not> is_script_file n \<longrightarrow> file_at d' dir n = Some x" "same_but dir (fst ` set es) d1 d'" by blast
  have "n \<notin> fst ` set es" using Cons.prems(3) nx by simp
  then have n: "\<not> is_script_file n \<longrightarrow> file_at d' dir n = Some x" using d1(3) d'(3) by (simp add: same_but_def)
  obtain e where e: "plain_entry (n, x) = Inr e" "projr (plain_entry (n, x)) = e" by (simp add: plain_entry_def)
  then have "receive_entries sha (Some dir) sums received bodies (map plain_entry (nx # es)) d =
      (Some (Inr (collect_bodies (nx # es) bodies)), d')"
    using c [unfolded e(2)] b [unfolded e(2)] d'(1)
    by (simp add: e(1) io_bind_def io_of_def io_return_def nx bodies1_def [symmetric])
  moreover have "same_but dir (fst ` set (nx # es)) d d'"
    using d1(4) d'(3) nx by (auto simp: same_but_def)
  ultimately show ?case using d'(2) n nx by auto
qed

lemma open_hashed_done:
  "open_hashed p d = (Some (Inr x), d') \<Longrightarrow> file_at d (fst p) (snd p) = Some x \<and> file_at d' = file_at d"
  unfolding open_hashed_def io_map_err_Inr read_file_def
  by (drule io_call_done) (auto split: option.splits)

lemma open_all_done:
  "open_all ps d = (Some (Inr xs), d') \<Longrightarrow>
   list_all2 (\<lambda>p x. file_at d (fst p) (snd p) = Some x) ps xs \<and> file_at d' = file_at d"
proof (induction ps arbitrary: d xs)
  case Nil
  then show ?case by (simp add: io_return_Inr)
next
  case (Cons p ps)
  from Cons.prems obtain x d1 ys where h: "open_hashed p d = (Some (Inr x), d1)" and a: "open_all ps d1 = (Some (Inr ys), d')"
    and xs: "xs = x # ys" by (auto simp: io_Inr)
  then show ?case using open_hashed_done [OF h] Cons.IH [OF a] by simp
qed

lemma manifest_of_fields [simp]:
  "mf_name (manifest_of sha c t fs) = ct_name c" "mf_kind (manifest_of sha c t fs) = ct_kind c"
  "mf_captured_at (manifest_of sha c t fs) = ct_captured_at c" "mf_sector_size (manifest_of sha c t fs) = ct_sector_size c"
  "mf_root_partition (manifest_of sha c t fs) = ct_root_partition c"
  "mf_partition_table (manifest_of sha c t fs) = map_option (\<lambda>x. \<lparr>af_file = PARTITION_TABLE_FILE, af_sha256 = sha x\<rparr>) t"
  "mf_scripts (manifest_of sha c t fs) = map (\<lambda>s. \<lparr>as_name = sc_name s, as_file = script_file (sc_name s),
     as_sha256 = sha (sc_body s), as_inputs = sc_inputs s, as_root_partition = sc_root_partition s\<rparr>) (ct_scripts c)"
  "mf_partitions (manifest_of sha c t fs) = map (\<lambda>(p, x). \<lparr>ap_number = ps_number p, ap_fstype = ps_fstype p,
     ap_size_bytes = ps_size_bytes p, ap_file = partition_file (ps_number p), ap_sha256 = sha x,
     ap_fs_uuid = ps_fs_uuid p, ap_fs_label = ps_fs_label p\<rparr>) (zip (ct_partitions c) fs)"
  by (simp_all add: manifest_of_def Let_def)

text \<open>The entries that follow the manifest.\<close>

definition written :: "contents \<Rightarrow> string option \<Rightarrow> string list \<Rightarrow> (string \<times> string) list" where
  "written c table files =
     (case table of None \<Rightarrow> [] | Some x \<Rightarrow> [(PARTITION_TABLE_FILE, x)]) @
     map (\<lambda>(p, x). (partition_file (ps_number p), x)) (zip (ct_partitions c) files) @
     map (\<lambda>s. (script_file (sc_name s), sc_body s)) (ct_scripts c)"

lemma write_archive_done:
  assumes "write_archive sha encode c d = (Some (Inr (m, es)), d1)"
  shows "\<exists>table files json. m = manifest_of sha c table files \<and> manifest_ok m \<and> encode m = Inr json \<and>
    es = (MANIFEST_FILE, json) # written c table files \<and>
    rel_option (\<lambda>p x. file_at d (fst p) (snd p) = Some x) (ct_partition_table c) table \<and>
    list_all2 (\<lambda>p x. file_at d (fst (ps_path p)) (snd (ps_path p)) = Some x) (ct_partitions c) files"
proof -
  define get_table where "get_table = (case ct_partition_table c of
         None \<Rightarrow> io_return None
       | Some path \<Rightarrow> io_bind (open_hashed path) (\<lambda>data. io_return (Some data)))"
  obtain table files json d2 d3 where t: "get_table d = (Some (Inr table), d2)"
    and f: "open_all (map ps_path (ct_partitions c)) d2 = (Some (Inr files), d3)"
    and k: "\<exists>sums. checksums (manifest_of sha c table files) = Inr sums" and m: "m = manifest_of sha c table files"
    and j: "encode m = Inr json"
    and es: "es = [(MANIFEST_FILE, json)] @
       (case (mf_partition_table m, table) of (Some t, Some data) \<Rightarrow> [(af_file t, data)] | _ \<Rightarrow> []) @
       map (\<lambda>(p, data). (ap_file p, data)) (zip (mf_partitions m) files) @
       map (\<lambda>(a, s). (as_file a, sc_body s)) (zip (mf_scripts m) (ct_scripts c))"
    using assms unfolding write_archive_def get_table_def [symmetric] Let_def
    by (auto simp: io_Inr map_err_Inr)
  have tab: "rel_option (\<lambda>p x. file_at d (fst p) (snd p) = Some x) (ct_partition_table c) table \<and> file_at d2 = file_at d"
    using t open_hashed_done by (fastforce simp: get_table_def io_Inr split: option.splits)
  have fil: "list_all2 (\<lambda>p x. file_at d (fst (ps_path p)) (snd (ps_path p)) = Some x) (ct_partitions c) files"
    using open_all_done [OF f] tab by (simp add: list_all2_map1)
  have len: "length files = length (ct_partitions c)" using list_all2_lengthD [OF fil] by simp
  have parts: "map (\<lambda>(p, data). (ap_file p, data)) (zip (mf_partitions m) files) =
      map (\<lambda>(p, x). (partition_file (ps_number p), x)) (zip (ct_partitions c) files)"
    using len by (intro nth_equalityI) (simp_all add: m)
  have scr: "map (\<lambda>(a, s). (as_file a, sc_body s)) (zip (mf_scripts m) (ct_scripts c)) =
      map (\<lambda>s. (script_file (sc_name s), sc_body s)) (ct_scripts c)"
    by (intro nth_equalityI) (simp_all add: m)
  have "es = (MANIFEST_FILE, json) # written c table files"
    unfolding es parts scr written_def by (cases table) (simp_all add: m)
  then show ?thesis using m k j tab fil by (auto simp: checksums_correct)
qed

lemma written_sums:
  assumes "length files = length (ct_partitions c)"
  shows "map (\<lambda>(n, x). (n, sha x)) (written c table files) = file_sums (manifest_of sha c table files)"
  using assms by (simp add: written_def file_sums_def table_sums_def split: option.split) (auto simp: o_def split_def)

lemma collect_bodies_lookup:
  "bt_inv bodies \<Longrightarrow> distinct (map fst es) \<Longrightarrow>
   bt_inv (collect_bodies es bodies) \<and>
   bt_lookup (collect_bodies es bodies) n =
     (case map_of es n of Some x \<Rightarrow> if is_script_file n then Some x else bt_lookup bodies n | None \<Rightarrow> bt_lookup bodies n)"
proof (induction es arbitrary: bodies)
  case Nil
  then show ?case by simp
next
  case (Cons nx es)
  obtain k x where nx: "nx = (k, x)" by (cases nx)
  have "map_of es k = None" using Cons.prems(2) by (simp add: nx map_of_eq_None_iff)
  then show ?case
    using Cons.IH [of "if is_script_file k then bt_insert k x bodies else bodies"] Cons.prems
    by (auto simp: nx bt.inv_insert bt.lookup_insert split: option.splits)
qed

text \<open>C21: an archive that was written reads back as it was: opening it gives the manifest, and unpacking it on a disk
  without faults succeeds, gives the exported scripts in order, stores the bytes of every partition and of the
  partition table that were read for the export, and the manifest carries the image's fields. This needs a JSON codec that decodes
  what it encoded, a tar format that yields the appended entries, and files within the reader's size limits.\<close>

theorem archive_round_trip:
  assumes "write_archive sha encode c d = (Some (Inr (m, es)), d1)"
    and "\<And>json. encode m = Inr json \<Longrightarrow>
      length json \<le> MAX_MANIFEST_BYTES \<and> probe json = Inr (mf_format m) \<and> decode json = Inr m"
    and "\<And>x. (PARTITION_TABLE_FILE, x) \<in> set es \<Longrightarrow> length x \<le> MAX_PARTITION_TABLE_BYTES"
    and "\<And>s. s \<in> set (ct_scripts c) \<Longrightarrow> length (sc_body s) \<le> MAX_SCRIPT_BYTES \<and> valid_utf8 (sc_body s)"
    and "dk_faults e = []"
  shows "\<exists>a e'. open_archive probe decode (archive_of es) = Inr (m, a) \<and>
    unpack sha dir (m, a) e = (Some (Inr (m, ct_scripts c)), e') \<and>
    list_all2 (\<lambda>p ap. ap_number ap = ps_number p \<and> ap_fstype ap = ps_fstype p \<and> ap_size_bytes ap = ps_size_bytes p \<and>
       ap_fs_uuid ap = ps_fs_uuid p \<and> ap_fs_label ap = ps_fs_label p \<and>
       file_at e' dir (partition_file (ps_number p)) = file_at d (fst (ps_path p)) (snd (ps_path p)))
      (ct_partitions c) (mf_partitions m) \<and>
    (\<forall>path \<in> set_option (ct_partition_table c).
       file_at e' dir PARTITION_TABLE_FILE = file_at d (fst path) (snd path)) \<and>
    mf_name m = ct_name c \<and> mf_kind m = ct_kind c \<and> mf_captured_at m = ct_captured_at c \<and>
    mf_sector_size m = ct_sector_size c \<and> mf_root_partition m = ct_root_partition c"
proof -
  obtain table files json where m: "m = manifest_of sha c table files" and ok: "manifest_ok m" and j: "encode m = Inr json"
    and es: "es = (MANIFEST_FILE, json) # written c table files"
    and tab: "rel_option (\<lambda>p x. file_at d (fst p) (snd p) = Some x) (ct_partition_table c) table"
    and fil: "list_all2 (\<lambda>p x. file_at d (fst (ps_path p)) (snd (ps_path p)) = Some x) (ct_partitions c) files"
    using write_archive_done [OF assms(1)] by blast
  have len: "length files = length (ct_partitions c)" using list_all2_lengthD [OF fil] by simp
  define ws where "ws = written c table files"
  define sums where "sums = bt_of_list (file_sums m)"
  have ws_sums: "map (\<lambda>(n, x). (n, sha x)) ws = file_sums m" unfolding ws_def m by (rule written_sums [OF len])
  have names: "map fst ws = map fst (file_sums m)" unfolding ws_sums [symmetric] by (simp add: split_def)
  have dist: "distinct (map fst ws)" unfolding names using ok by (simp add: manifest_ok_def)
  have c: "checksums m = Inr sums" using ok by (simp add: checksums_correct sums_def)
  define a where "a = archive_of ws"
  have fmt: "COMPATIBLE_FORMAT \<le> mf_format m \<and> mf_format m \<le> FORMAT"
    by (simp add: m manifest_of_def Let_def required_format_def FORMAT_def COMPATIBLE_FORMAT_def)
  have "parse_manifest probe decode json = Inr m"
    using assms(2) [OF j] fmt by (simp add: parse_manifest_def)
  then have op: "open_archive probe decode (archive_of es) = Inr (m, a)"
    using c assms(2) [OF j]
    by (simp add: open_archive_def read_manifest_def archive_of_def es plain_entry_def entry_name_manifest a_def ws_def)
  have good: "good_entry sha sums (n, x)" if mem: "(n, x) \<in> set ws" for n x
  proof -
    have "(n, sha x) \<in> set (file_sums m)" unfolding ws_sums [symmetric] using mem by force
    then have look: "bt_lookup sums n = Some (sha x)" unfolding sums_def by (rule manifest_lookup [OF ok])
    from mem have "n = PARTITION_TABLE_FILE \<or> (\<exists>k. n = partition_file k) \<or>
        (\<exists>s \<in> set (ct_scripts c). n = script_file (sc_name s) \<and> x = sc_body s)"
      by (auto simp: ws_def written_def split: option.splits)
    then consider "n = PARTITION_TABLE_FILE" | k where "n = partition_file k"
      | s where "s \<in> set (ct_scripts c)" "n = script_file (sc_name s)" "x = sc_body s" by blast
    then show ?thesis
    proof cases
      case 1
      have "length x \<le> MAX_PARTITION_TABLE_BYTES" using assms(3) [of x] mem 1 by (simp add: es ws_def)
      then show ?thesis using 1 look file_kinds(1) by (simp add: good_entry_def plain_entry_def entry_name_table)
    next
      case (2 k)
      then have "n \<noteq> PARTITION_TABLE_FILE" by (simp add: partition_file_def PARTITION_TABLE_FILE_def)
      then show ?thesis using 2 look file_kinds(2) by (simp add: good_entry_def plain_entry_def entry_name_partition)
    next
      case (3 s)
      then have "is_script_name (sc_name s)" using ok by (auto simp: manifest_ok_def archived_script_ok_def m)
      then have nm: "\<forall>c \<in> set (sc_name s). name_char c" "sc_name s \<noteq> []"
        by (auto simp: is_script_name_def name_char_def list_all_iff)
      have "n \<noteq> PARTITION_TABLE_FILE" using 3 by (simp add: script_file_def PARTITION_TABLE_FILE_def SCRIPTS_DIR_def)
      then show ?thesis using 3 look assms(4) [OF 3(1)] entry_name_script [OF nm]
        by (simp add: good_entry_def plain_entry_def)
    qed
  qed
  define e1 where "e1 = (case dk_dirs e dir of None \<Rightarrow> set_dir dir (Some Map.empty) e | Some _ \<Rightarrow> e)\<lparr>dk_base := True\<rparr>"
  have e1: "dk_faults e1 = []" "dk_dirs e1 dir \<noteq> None" "io_map_err store_failed (create_dir_all dir) e = (Some (Inr ()), e1)"
    using assms(5) by (auto simp: e1_def set_dir_def create_dir_all_def io_call_works io_map_err_def split: option.splits)
  have keys: "set (bt_keys sums) = fst ` set ws"
    using bt.keys_dom [OF bt_of_list_inv [of "file_sums m"]] arg_cong [OF names, of set]
    by (simp add: sums_def bt_of_list_dom)
  have goods: "\<forall>nx \<in> set ws. good_entry sha sums nx" using good by auto
  obtain e' where r: "receive_entries sha (Some dir) sums [] [] (map plain_entry ws) e1 = (Some (Inr (collect_bodies ws [])), e')"
    and files: "\<forall>(n, x) \<in> set ws. \<not> is_script_file n \<longrightarrow> file_at e' dir n = Some x"
    using receive_listed [OF e1(1,2) dist, of "[]" sums sha "[]"] keys goods by auto
  have bodies: "bt_inv (collect_bodies ws [])"
    "bt_lookup (collect_bodies ws []) (script_file (sc_name s)) = Some (sc_body s)" if "s \<in> set (ct_scripts c)" for s
  proof -
    have "(script_file (sc_name s), sc_body s) \<in> set ws" using that by (auto simp: ws_def written_def)
    then have "map_of ws (script_file (sc_name s)) = Some (sc_body s)" using dist by simp
    then show "bt_lookup (collect_bodies ws []) (script_file (sc_name s)) = Some (sc_body s)"
      using collect_bodies_lookup [OF _ dist, of "[]" "script_file (sc_name s)"] file_kinds(3) by (simp add: bt_inv_def)
  qed (use collect_bodies_lookup [OF _ dist, of "[]"] in \<open>simp add: bt_inv_def\<close>)
  have binv: "bt_inv (collect_bodies ws [])" using collect_bodies_lookup [OF _ dist, of "[]"] by (simp add: bt_inv_def)
  have ds: "distinct (map as_file (mf_scripts m))" using ok by (simp add: manifest_ok_def file_sums_def o_def)
  have "take_scripts (collect_bodies ws []) (mf_scripts m) = Inr (ct_scripts c)"
    unfolding take_scripts_Inr [OF binv ds] using bodies(2) by (auto simp: m list_all2_map1 intro!: list.rel_refl_strong)
  then have un: "unpack sha dir (m, a) e = (Some (Inr (m, ct_scripts c)), e')"
    using e1(3) c r by (simp add: unpack_def io_bind_def io_of_def io_return_def a_def archive_of_def read_to_end_def)
  have part: "file_at e' dir (partition_file (ps_number p)) = Some x" if "(p, x) \<in> set (zip (ct_partitions c) files)" for p x
    using files file_kinds(2) that by (force simp: ws_def written_def)
  have parts: "list_all2 (\<lambda>p ap. ap_number ap = ps_number p \<and> ap_fstype ap = ps_fstype p \<and> ap_size_bytes ap = ps_size_bytes p \<and>
       ap_fs_uuid ap = ps_fs_uuid p \<and> ap_fs_label ap = ps_fs_label p \<and>
       file_at e' dir (partition_file (ps_number p)) = file_at d (fst (ps_path p)) (snd (ps_path p)))
      (ct_partitions c) (mf_partitions m)"
    using fil part len by (auto simp: m list_all2_conv_all_nth set_zip)
  have tabs: "file_at e' dir PARTITION_TABLE_FILE = file_at d (fst path) (snd path)"
    if "path \<in> set_option (ct_partition_table c)" for path
    using that tab files file_kinds(1) by (cases table) (auto simp: ws_def written_def)
  show ?thesis using op un parts tabs by (auto simp: m)
qed

theorem archive_round_trip_witness:
  "\<exists>m a e'. unpack (\<lambda>s. s) ''/t'' (m, a) \<lparr>dk_base = True, dk_dirs = Map.empty, dk_seq = 0, dk_faults = []\<rparr> =
      (Some (Inr (m, [\<lparr>sc_name = ''s'', sc_body = ''echo'', sc_inputs = [], sc_root_partition = None\<rparr>])), e') \<and>
    file_at e' ''/t'' ''p-1.pcl'' = Some ''data''"
proof -
  let ?s = "\<lparr>sc_name = ''s'', sc_body = ''echo'', sc_inputs = [], sc_root_partition = None\<rparr>"
  let ?p = "\<lparr>ps_number = 1, ps_fstype = ''ext4'', ps_size_bytes = 9, ps_fs_uuid = None, ps_fs_label = None,
    ps_path = (''/i'', ''p-1.pcl'')\<rparr>"
  let ?c = "\<lparr>ct_name = ''n'', ct_captured_at = None, ct_kind = Partition, ct_sector_size = 512, ct_partition_table = None,
    ct_partitions = [?p], ct_root_partition = Some 1, ct_scripts = [?s]\<rparr>"
  let ?d = "\<lparr>dk_base = True, dk_dirs = [''/i'' \<mapsto> [''p-1.pcl'' \<mapsto> ''data'']], dk_seq = 0, dk_faults = []\<rparr>"
  let ?e = "\<lparr>dk_base = True, dk_dirs = Map.empty, dk_seq = 0, dk_faults = []\<rparr>"
  let ?m = "manifest_of (\<lambda>s. s) ?c None [''data'']"
  let ?es = "[(''manifest.json'', ''{}''), (''p-1.pcl'', ''data''), (''scripts/s.sh'', ''echo'')]"
  have "fst (write_archive (\<lambda>s. s) (\<lambda>m. Inr ''{}'') ?c ?d) = Some (Inr (?m, ?es))"
    by code_simp
  then obtain d1 where w: "write_archive (\<lambda>s. s) (\<lambda>m. Inr ''{}'') ?c ?d = (Some (Inr (?m, ?es)), d1)"
    by (metis fst_conv prod.exhaust)
  have valid: "valid_utf8 ''echo''" by code_simp
  have "\<exists>a e'. open_archive (\<lambda>_. Inr 3) (\<lambda>_. Inr ?m) (archive_of ?es) = Inr (?m, a) \<and>
    unpack (\<lambda>s. s) ''/t'' (?m, a) ?e = (Some (Inr (?m, ct_scripts ?c)), e') \<and>
    list_all2 (\<lambda>p ap. ap_number ap = ps_number p \<and> ap_fstype ap = ps_fstype p \<and> ap_size_bytes ap = ps_size_bytes p \<and>
       ap_fs_uuid ap = ps_fs_uuid p \<and> ap_fs_label ap = ps_fs_label p \<and>
       file_at e' ''/t'' (partition_file (ps_number p)) = file_at ?d (fst (ps_path p)) (snd (ps_path p)))
      (ct_partitions ?c) (mf_partitions ?m) \<and>
    (\<forall>path \<in> set_option (ct_partition_table ?c).
       file_at e' ''/t'' PARTITION_TABLE_FILE = file_at ?d (fst path) (snd path)) \<and>
    mf_name ?m = ct_name ?c \<and> mf_kind ?m = ct_kind ?c \<and> mf_captured_at ?m = ct_captured_at ?c \<and>
    mf_sector_size ?m = ct_sector_size ?c \<and> mf_root_partition ?m = ct_root_partition ?c"
    by (rule archive_round_trip [OF w])
      (auto simp: MAX_MANIFEST_BYTES_def MAX_SCRIPT_BYTES_def PARTITION_TABLE_FILE_def valid manifest_of_def Let_def
        required_format_def FORMAT_def)
  then obtain a e' where u: "unpack (\<lambda>s. s) ''/t'' (?m, a) ?e = (Some (Inr (?m, [?s])), e')"
    and f: "file_at e' ''/t'' (partition_file 1) = file_at ?d ''/i'' ''p-1.pcl''"
    by auto
  have p: "partition_file 1 = ''p-1.pcl''" by code_simp
  have "file_at e' ''/t'' ''p-1.pcl'' = Some ''data''" using f unfolding p by (simp add: file_at_def [of ?d])
  with u show ?thesis by (intro exI [of _ ?m] exI [of _ a] exI [of _ e']) (rule conjI)
qed

end
