(* ===== verification/Archive_Service.thy ===== *)
theory Archive_Service
  imports Server Archive_Io "HOL-Library.Code_Target_Nat"
begin

text \<open>
  \<open>crates/core/src/service/archive.rs\<close>: exporting an image as an archive and importing an archive as a new image. An
  import shows up as an image at once, unpacks into a directory of its own that is renamed when it is
  complete, and is marked faulted and cleared away when anything goes wrong.
\<close>

record codec =
  cd_sha :: "string \<Rightarrow> string"
  cd_probe :: "string \<Rightarrow> string + u32"
  cd_decode :: "string \<Rightarrow> string + manifest"
  cd_encode :: "manifest \<Rightarrow> string + string"

definition INTERRUPTED_IMPORT_ERROR :: string where
  "INTERRUPTED_IMPORT_ERROR = ''import interrupted''"

definition start_archives :: "environment \<Rightarrow> (disk \<Rightarrow> string list) \<Rightarrow> ('f, unit) handler" where
  "start_archives env entries =
     h_bind (h_set_db (fault_unfinished_imports INTERRUPTED_IMPORT_ERROR)) (\<lambda>_.
     h_disk (clear_import_dirs (en_base env) entries (en_listing env)))"

definition exportable :: "int \<Rightarrow> ('f, image) handler" where
  "exportable i =
     h_bind (h_read (\<lambda>d. get_image d i)) (\<lambda>im.
       if i_status im \<noteq> Ready
       then h_throw (FailedPrecondition (''image '' @ int_str i @ '' is '' @ image_status_str (i_status im) @
              '', only ready images can be exported''))
       else h_return im)"

definition contents_of :: "environment \<Rightarrow> int \<Rightarrow> image \<Rightarrow> image_script list \<Rightarrow> contents" where
  "contents_of env i im ss =
     (let dir = image_dir (en_base env) i in
      \<lparr>ct_name = i_name im, ct_captured_at = i_captured_at im, ct_kind = i_kind im, ct_sector_size = i_sector_size im,
       ct_partition_table = (if i_kind im = Disk then Some (dir, PARTITION_TABLE_FILE) else None),
       ct_partitions = map (\<lambda>p. \<lparr>ps_number = partition_number p, ps_fstype = ip_fstype p,
         ps_size_bytes = ip_size_bytes p, ps_fs_uuid = ip_fs_uuid p, ps_fs_label = ip_fs_label p,
         ps_path = (dir, partition_file (partition_number p))\<rparr>) (i_partitions im),
       ct_root_partition = i_root_partition im,
       ct_scripts = map (\<lambda>a. \<lparr>sc_name = s_name (is_script a), sc_body = s_body (is_script a),
         sc_inputs = s_inputs (is_script a), sc_root_partition = is_root_partition a\<rparr>) ss\<rparr>)"

definition export_image :: "environment \<Rightarrow> codec \<Rightarrow> int \<Rightarrow> ('f, (string \<times> string) list) handler" where
  "export_image env cd i =
     h_bind (exportable i) (\<lambda>im.
     h_bind (h_read (\<lambda>d. Inr (get_for_image d i))) (\<lambda>ss.
     h_bind (h_disk (write_archive (cd_sha cd) (cd_encode cd) (contents_of env i im ss))) (\<lambda>(_, es).
     h_return es)))"

definition new_partitions :: "manifest \<Rightarrow> new_image_partition list" where
  "new_partitions m =
     map (\<lambda>p. \<lparr>np_number = ap_number p, np_fstype = ap_fstype p, np_size_bytes = ap_size_bytes p,
       np_fs_uuid = ap_fs_uuid p, np_fs_label = ap_fs_label p\<rparr>) (mf_partitions m)"

definition new_scripts :: "archive_script list \<Rightarrow> new_image_script list" where
  "new_scripts scs =
     map (\<lambda>s. \<lparr>nis_script = \<lparr>ns_name = sc_name s, ns_body = sc_body s, ns_inputs = sc_inputs s\<rparr>,
       nis_root_partition = sc_root_partition s\<rparr>) scs"

definition receive_import ::
  "environment \<Rightarrow> codec \<Rightarrow> time \<Rightarrow> int \<Rightarrow> manifest \<times> tar_archive \<Rightarrow> ('f, image) handler" where
  "receive_import env cd now i reader =
     h_bind (h_disk (unpack (cd_sha cd) (import_dir (en_base env) i) reader)) (\<lambda>(m, scs).
     h_bind (h_disk (commit_import (en_base env) (en_listing env) i)) (\<lambda>_.
     h_bind (h_db_unit (import_for_image i (new_scripts scs) now)) (\<lambda>_.
     h_db (finish_import i (mf_captured_at m) (new_partitions m) (mf_root_partition m) (mf_sector_size m)))))"

definition discard_import :: "environment \<Rightarrow> int \<Rightarrow> app_error \<Rightarrow> ('f, unit) handler" where
  "discard_import env i e =
     h_bind (h_set_db (mark_image_faulted i (app_error_display e))) (\<lambda>_.
     h_bind (h_try (h_disk (clear_image_data (en_base env) (en_listing env) i))) (\<lambda>_ :: unit result.
     h_return ()))"

definition import_archive :: "environment \<Rightarrow> codec \<Rightarrow> time \<Rightarrow> tar_archive \<Rightarrow> ('f, image) handler" where
  "import_archive env cd now a =
     h_bind (h_of (open_archive (cd_probe cd) (cd_decode cd) a)) (\<lambda>reader.
     h_bind (h_db (start_import (mf_name (fst reader)) (mf_kind (fst reader)))) (\<lambda>im.
     h_bind (h_try (receive_import env cd now (i_id im) reader)) (\<lambda>r.
       case r of
         Inr imported \<Rightarrow> h_return imported
       | Inl e \<Rightarrow> h_bind (discard_import env (i_id im) e) (\<lambda>_. h_throw e))))"

subsection \<open>What importing scripts leaves alone\<close>

definition same_images :: "db \<Rightarrow> db \<Rightarrow> bool" where
  "same_images d d' \<longleftrightarrow> images d' = images d \<and> image_parts d' = image_parts d \<and> next_image d' = next_image d"

lemma same_images_refl: "same_images d d"
  by (simp add: same_images_def)

lemma same_images_trans: "same_images d d1 \<Longrightarrow> same_images d1 d2 \<Longrightarrow> same_images d d2"
  by (simp add: same_images_def)

lemma insert_input_images: "insert_input k d x = Inr d' \<Longrightarrow> same_images d d'"
  by (cases x) (auto simp: insert_input_def same_images_def Let_def split: if_splits)

lemma write_script_images: "write_script old name s now d = Inr (k, d') \<Longrightarrow> same_images d d'"
proof -
  assume w: "write_script old name s now d = Inr (k, d')"
  have "insert_inputs k' s d1 = Inr d2 \<Longrightarrow> same_images d1 d2" for k' d1 d2
    unfolding insert_inputs_def
    by (rule try_fold_inv [where P = "same_images d1"])
      (auto intro: same_images_refl same_images_trans insert_input_images)
  with w show ?thesis
    unfolding write_script_def
    by (fastforce simp: and_then_Inr Let_def same_images_def split: option.splits if_splits)
qed

lemma import_from_images: "import_from im s now d attempt = Inr (k, d') \<Longrightarrow> same_images d d'"
proof (induction im s now d attempt arbitrary: k d' rule: import_from.induct)
  case (1 im s now d attempt)
  show ?case
    using "1.prems" "1.IH"
    by (subst (asm) import_from.simps)
      (auto simp: Let_def same_images_refl intro: write_script_images split: option.splits if_splits)
qed

lemma import_all_images: "import_all im ss now d = Inr (ls, d') \<Longrightarrow> same_images d d'"
proof (induction ss arbitrary: d ls d')
  case Nil
  then show ?case by (simp add: same_images_refl)
next
  case (Cons s ss)
  then obtain sid d1 where "import_script im (nis_script s) now d = Inr (sid, d1)" "\<exists>ls'. import_all im ss now d1 = Inr (ls', d')"
    by (auto simp: and_then_Inr)
  then show ?case using Cons.IH import_from_images same_images_trans unfolding import_script_def by blast
qed

lemma link_one_images: "link_one im ls d x = Inr d' \<Longrightarrow> same_images d d'"
  by (cases x) (auto simp: link_one_def same_images_def split: if_splits)

lemma import_for_image_images: "import_for_image im ss now d = Inr d' \<Longrightarrow> same_images d d'"
proof -
  assume "import_for_image im ss now d = Inr d'"
  then obtain ls d1 where a: "import_all im ss now d = Inr (ls, d1)" and l: "link_scripts im ls d1 = Inr d'"
    by (auto simp: import_for_image_def and_then_Inr)
  have "try_fold (link_one im ls) (d1\<lparr>image_scripts := delete_where (\<lambda>l. isr_image l = im) (image_scripts d1)\<rparr>)
      (enumerate 0 ls) = Inr d'" using l by (simp add: link_scripts_def split: if_splits)
  then have "same_images (d1\<lparr>image_scripts := delete_where (\<lambda>l. isr_image l = im) (image_scripts d1)\<rparr>) d'"
    by (rule try_fold_inv) (auto intro: same_images_refl same_images_trans link_one_images)
  then have "same_images d1 d'" by (simp add: same_images_def)
  with import_all_images [OF a] show ?thesis by (rule same_images_trans)
qed

subsection \<open>The disk without faults\<close>

definition quiet :: "disk \<Rightarrow> disk \<Rightarrow> bool" where
  "quiet d d' \<longleftrightarrow> (dk_faults d = [] \<longrightarrow> dk_faults d' = [])"

lemma quiet_refl [simp]: "reflp quiet" and quiet_trans [simp]: "transp quiet"
  by (auto simp: quiet_def intro!: reflpI transpI)

lemma quiet_call:
  assumes "\<And>d. dk_faults (snd (act d)) = dk_faults d"
  shows "io_keeps quiet (io_call part act)"
  unfolding io_keeps_def quiet_def
proof (intro allI impI)
  fix d r d'
  assume "io_call part act d = (r, d')" "dk_faults d = []"
  then have "d' = snd (act d)" by (auto simp: io_call_works apfst_def map_prod_def split: prod.splits)
  then show "dk_faults d' = []" using assms [of d] \<open>dk_faults d = []\<close> by simp
qed

lemma set_dir_faults [simp]: "dk_faults (set_dir p fs d) = dk_faults d"
  by (simp add: set_dir_def)

lemma quiet_calls:
  "io_keeps quiet (create_dir_all p)" "io_keeps quiet (create_file p n)" "io_keeps quiet (write_file p n x)"
  "io_keeps quiet flush_file" "io_keeps quiet (sync_file p n)" "io_keeps quiet (read_dir listing p)"
  "io_keeps quiet (sync_path base p)" "io_keeps quiet (rename_dir listing p q)"
  by (auto simp: create_dir_all_def create_file_def write_file_def flush_file_def sync_file_def read_dir_def
      sync_path_def rename_dir_def append_file_def intro!: quiet_call split: option.splits)

lemma quiet_receive: "io_keeps quiet (receive_entries sha dir sums received bodies es)"
proof (induction sha dir sums received bodies es rule: receive_entries.induct)
  case (1 sha dir sums received bodies)
  then show ?case by (auto simp: io_keeps_return io_keeps_throw split: option.split)
next
  case (2 sha dir sums received bodies e es)
  then show ?case by (simp add: io_keeps_throw)
next
  case (3 sha dir sums received bodies entry es)
  have of: "io_keeps quiet (io_of r)" for r :: "'e + 'a"
    by (cases r) (simp_all add: io_of_def io_keeps_return io_keeps_throw)
  have some: "io_keeps quiet (when_some x f)" if "\<And>y. io_keeps quiet (f y)" for x :: "'b option" and f :: "'b \<Rightarrow> ('e, unit) io"
    using that by (cases x) (simp_all add: when_some_def io_keeps_return)
  have body: "io_keeps quiet (receive_body sha dir bodies name entry)" for name
    unfolding receive_body_def write_hashed_def
    by (auto intro!: io_keeps_bind of some io_keeps_map_err quiet_calls io_keeps_return io_keeps_throw
        split: option.split)
  show ?case
    using 3 by (auto intro!: io_keeps_bind of body io_keeps_throw)
qed

lemma quiet_unpack: "io_keeps quiet (unpack sha dir ma)"
proof -
  have of: "io_keeps quiet (io_of r)" for r :: "'e + 'a"
    by (cases r) (simp_all add: io_of_def io_keeps_return io_keeps_throw)
  show ?thesis
    unfolding unpack_def read_to_end_def
    by (auto intro!: io_keeps_bind of io_keeps_map_err quiet_calls quiet_receive io_keeps_return io_keeps_throw
        split: option.split)
qed

lemma quiet_commit: "io_keeps quiet (commit_import base listing i)"
  unfolding commit_import_def Let_def sync_dir_def
  by (auto intro!: io_keeps_bind io_keeps_map_err quiet_calls io_keeps_each)

lemma remove_dir_works:
  assumes "dk_faults d = []"
  shows "\<exists>d'. remove_dir listing p d = (Some (Inr ()), d') \<and> dk_faults d' = [] \<and> dk_dirs d' = (dk_dirs d)(p := None)"
  using assms
  by (cases "dk_dirs d p")
    (auto simp: remove_dir_def io_bind_def io_try_def remove_dir_all_def io_call_works io_return_def set_dir_def fun_eq_iff)

lemma clear_image_data_works:
  assumes "dk_faults d = []"
  shows "\<exists>d'. clear_image_data base listing i d = (Some (Inr ()), d') \<and>
    dk_dirs d' (image_dir base i) = None \<and> dk_dirs d' (import_dir base i) = None"
proof -
  obtain d1 where 1: "remove_dir listing (image_dir base i) d = (Some (Inr ()), d1)" "dk_faults d1 = []"
    "dk_dirs d1 = (dk_dirs d)(image_dir base i := None)" using remove_dir_works [OF assms] by blast
  obtain d2 where 2: "remove_dir listing (import_dir base i) d1 = (Some (Inr ()), d2)"
    "dk_dirs d2 = (dk_dirs d1)(import_dir base i := None)" using remove_dir_works [OF 1(2)] by blast
  show ?thesis using 1 2 by (auto simp: clear_image_data_def io_bind_def io_try_def io_return_def)
qed

subsection \<open>How an import ends\<close>

lemma h_disk_iff: "h_disk m s = (r, s') \<longleftrightarrow> (\<exists>d. m (sv_disk s) = (r, d) \<and> s' = s\<lparr>sv_disk := d\<rparr>)"
  by (cases "m (sv_disk s)") (auto simp: h_disk_def)

lemma h_db_iff:
  "h_db f s = (r, s') \<longleftrightarrow>
   (\<exists>e. f (sv_db s) = Inl e \<and> r = Some (Inl e) \<and> s' = s) \<or>
   (\<exists>x d. f (sv_db s) = Inr (x, d) \<and> r = Some (Inr x) \<and> s' = s\<lparr>sv_db := d\<rparr>)"
  by (cases "f (sv_db s)") (auto simp: h_db_def)

lemma h_db_unit_iff:
  "h_db_unit f s = (r, s') \<longleftrightarrow>
   (\<exists>e. f (sv_db s) = Inl e \<and> r = Some (Inl e) \<and> s' = s) \<or>
   (\<exists>d. f (sv_db s) = Inr d \<and> r = Some (Inr ()) \<and> s' = s\<lparr>sv_db := d\<rparr>)"
  unfolding h_db_unit_def h_db_iff by (cases "f (sv_db s)") auto

definition received_ok ::
  "environment \<Rightarrow> codec \<Rightarrow> time \<Rightarrow> int \<Rightarrow> manifest \<Rightarrow> tar_archive \<Rightarrow> 'f server \<Rightarrow> image \<Rightarrow> 'f server \<Rightarrow> bool" where
  "received_ok env cd now i m a s im s' \<longleftrightarrow>
     (\<exists>scs d1 d2 e1.
        unpack (cd_sha cd) (import_dir (en_base env) i) (m, a) (sv_disk s) = (Some (Inr (m, scs)), d1) \<and>
        commit_import (en_base env) (en_listing env) i d1 = (Some (Inr ()), d2) \<and>
        import_for_image i (new_scripts scs) now (sv_db s) = Inr e1 \<and>
        finish_import i (mf_captured_at m) (new_partitions m) (mf_root_partition m) (mf_sector_size m) e1 = Inr (im, sv_db s') \<and>
        sv_disk s' = d2)"

lemma receive_import_cases:
  assumes "receive_import env cd now i (m, a) s = (Some r, s')"
  shows "quiet (sv_disk s) (sv_disk s') \<and>
    (case r of Inl e \<Rightarrow> same_images (sv_db s) (sv_db s') | Inr im \<Rightarrow> received_ok env cd now i m a s im s')"
  using assms unfolding receive_import_def
proof (cases rule: h_bind_cases)
  case stop
  then show ?thesis by simp
next
  case (fail e)
  then show ?thesis using io_keepsD [OF quiet_unpack] by (auto simp: h_disk_iff same_images_refl)
next
  case (go x s1)
  obtain m' scs where x: "x = (m', scs)" by (cases x)
  from go(1) x obtain d1 where u: "unpack (cd_sha cd) (import_dir (en_base env) i) (m, a) (sv_disk s) = (Some (Inr (m', scs)), d1)"
    and s1: "s1 = s\<lparr>sv_disk := d1\<rparr>" by (auto simp: h_disk_iff)
  have m': "m' = m" using unpack_result [OF u] by simp
  have q1: "quiet (sv_disk s) d1" using io_keepsD [OF quiet_unpack u] .
  from go(2) have "h_bind (h_disk (commit_import (en_base env) (en_listing env) i)) (\<lambda>_.
     h_bind (h_db_unit (import_for_image i (new_scripts scs) now)) (\<lambda>_.
     h_db (finish_import i (mf_captured_at m) (new_partitions m) (mf_root_partition m) (mf_sector_size m)))) s1 = (Some r, s')"
    unfolding x m' by simp
  then show ?thesis
  proof (cases rule: h_bind_cases)
    case stop
    then show ?thesis by simp
  next
    case (fail e)
    then show ?thesis using io_keepsD [OF quiet_commit] q1 s1
      by (auto simp: h_disk_iff same_images_refl intro: transpD [OF quiet_trans])
  next
    case (go y s2)
    then obtain d2 where c: "commit_import (en_base env) (en_listing env) i d1 = (Some (Inr y), d2)" and s2: "s2 = s1\<lparr>sv_disk := d2\<rparr>"
      using s1 by (auto simp: h_disk_iff)
    have q: "quiet (sv_disk s) d2" using io_keepsD [OF quiet_commit c] q1 by (auto intro: transpD [OF quiet_trans])
    from go(2) show ?thesis
    proof (cases rule: h_bind_cases)
      case stop
      then show ?thesis by simp
    next
      case (fail e)
      then show ?thesis using q s1 s2 by (auto simp: h_db_unit_iff same_images_refl)
    next
      case (go z s3)
      then obtain e1 where i: "import_for_image i (new_scripts scs) now (sv_db s) = Inr e1" and s3: "s3 = s2\<lparr>sv_db := e1\<rparr>"
        using s1 s2 by (auto simp: h_db_unit_iff)
      from go(2) consider e where "r = Inl e" "s' = s3"
        | im d where "finish_import i (mf_captured_at m) (new_partitions m) (mf_root_partition m) (mf_sector_size m) e1 = Inr (im, d)"
          "r = Inr im" "s' = s3\<lparr>sv_db := d\<rparr>"
        using s3 by (auto simp: h_db_iff)
      then show ?thesis
      proof cases
        case 1
        then show ?thesis using q s1 s2 s3 import_for_image_images [OF i] by simp
      next
        case 2
        then show ?thesis using q s1 s2 s3 u c i m' unfolding received_ok_def by auto
      qed
    qed
  qed
qed

lemma start_import_Inr:
  assumes "db_ok d" "start_import name kind d = Inr (im, d')"
  shows "i_id im = next_image d \<and>
    images d' = images d @ [\<lparr>ir_id = next_image d, ir_name = name, ir_kind = kind, ir_captured_at = None,
      ir_status = Importing, ir_error = None, ir_deleted_at = None, ir_root = None, ir_sector = 512\<rparr>] \<and>
    image_parts d' = image_parts d \<and> db_ok d' \<and>
    (\<forall>p \<in> set (image_parts d'). ipr_image p \<noteq> next_image d) \<and> (\<forall>r \<in> set (images d). ir_id r \<noteq> next_image d)"
proof -
  have fresh: "\<forall>r \<in> set (images d). ir_id r < next_image d" using db_okD(23) [OF assms(1)] .
  have ref: "ipr_image ` set (image_parts d) \<subseteq> ir_id ` set (images d)" using db_okD(17) [OF assms(1)] .
  have i: "insert_image name kind Importing d = Inr (im, d')" using assms(2) by (simp add: start_import_def)
  then have "db_ok d'" using insert_image_db_ok [OF assms(1)] by blast
  then show ?thesis using i fresh ref by (fastforce simp: insert_image_def Let_def and_then_Inr)
qed

lemma get_image_frame:
  assumes "images d' = images d @ [r]" "image_parts d' = image_parts d" "ir_id r = k" "j \<noteq> k"
  shows "get_image d' j = get_image d j"
  using assms by (simp add: get_image_def get_partitions_def find_append split: option.split)

lemma get_image_same: "same_images d d' \<Longrightarrow> get_image d' j = get_image d j"
  by (simp add: same_images_def get_image_def get_partitions_def split: option.split)

lemma mark_image_faulted_other: "j \<noteq> k \<Longrightarrow> get_image (mark_image_faulted k e d) j = get_image d j"
proof -
  assume "j \<noteq> k"
  then show ?thesis
    unfolding mark_image_faulted_def by (subst get_image_update) (simp_all add: get_image_def split: option.split)
qed

text \<open>C20: an import that is not cut ends in one of three ways. The archive is refused before anything changes; or the
  new image is ready, has the manifest's fields and partitions, and its directory holds every listed file with a
  matching checksum; or the error is returned, the new image is faulted with that error's text and, when no further I/O error
  occurs, neither its directory nor its import directory is left. No other image changes.\<close>

theorem import_settles:
  assumes i: "import_archive env cd now a s = (Some r, s')" and ok: "db_ok (sv_db s)"
  shows "let k = next_image (sv_db s); base = en_base env; opened = open_archive (cd_probe cd) (cd_decode cd) a in
    (\<forall>j. j \<noteq> k \<longrightarrow> get_image (sv_db s') j = get_image (sv_db s) j) \<and>
    (case r of
       Inr im \<Rightarrow> i_id im = k \<and> get_image (sv_db s') k = Inr im \<and> i_status im = Ready \<and>
         (\<exists>m rest. opened = Inr (m, rest) \<and> manifest_ok m \<and> i_captured_at im = mf_captured_at m \<and>
            i_root_partition im = mf_root_partition m \<and> i_sector_size im = mf_sector_size m \<and>
            map new_of_partition (i_partitions im) = sort_key np_number (new_partitions m) \<and>
            (\<forall>(f, h) \<in> set (listed_files m). \<exists>x. file_at (sv_disk s') (image_dir base k) f = Some x \<and>
               eq_ignore_case (cd_sha cd x) h))
     | Inl e \<Rightarrow> opened = Inl e \<and> s' = s \<or>
         (\<exists>im. get_image (sv_db s') k = Inr im \<and> i_status im = Faulted \<and> i_error im = Some (app_error_display e)) \<and>
         (dk_faults (sv_disk s) = [] \<longrightarrow>
            dk_dirs (sv_disk s') (image_dir base k) = None \<and> dk_dirs (sv_disk s') (import_dir base k) = None))"
proof (cases "open_archive (cd_probe cd) (cd_decode cd) a")
  case (Inl e)
  then show ?thesis using i by (simp add: import_archive_def h_throw_Inl)
next
  case (Inr reader)
  obtain m rest where reader: "reader = (m, rest)" by (cases reader)
  define k where "k = next_image (sv_db s)"
  obtain im0 d0 where st: "start_import (mf_name m) (mf_kind m) (sv_db s) = Inr (im0, d0)"
    by (auto simp: start_import_def insert_image_def Let_def sector_size_def)
  note start = start_import_Inr [OF ok st, folded k_def]
  define s0 where "s0 = s\<lparr>sv_db := d0\<rparr>"
  have body: "h_bind (h_try (receive_import env cd now k (m, rest))) (\<lambda>r.
       case r of
         Inr imported \<Rightarrow> h_return imported
       | Inl e \<Rightarrow> h_bind (discard_import env k e) (\<lambda>_. h_throw e)) s0 = (Some r, s')"
    using i start unfolding import_archive_def Inr reader
    by (simp add: h_bind_def [of "h_db _"] h_db_def st s0_def)
  then obtain r1 s1 where rc: "receive_import env cd now k (m, rest) s0 = (Some r1, s1)"
    by (cases "receive_import env cd now k (m, rest) s0"; cases "fst (receive_import env cd now k (m, rest) s0)")
      (auto simp: h_bind_def h_try_def)
  note cases = receive_import_cases [OF rc]
  have other0: "get_image d0 j = get_image (sv_db s) j" if "j \<noteq> k" for j
    using start that by (intro get_image_frame [of d0 "sv_db s" _ k]) auto
  have row0: "List.find (\<lambda>x. ir_id x = k \<and> ir_deleted_at x = None) (images d0) =
      Some \<lparr>ir_id = k, ir_name = mf_name m, ir_kind = mf_kind m, ir_captured_at = None,
        ir_status = Importing, ir_error = None, ir_deleted_at = None, ir_root = None, ir_sector = 512\<rparr>"
  proof -
    have "List.find (\<lambda>x. ir_id x = k \<and> ir_deleted_at x = None) (images (sv_db s)) = None"
      using start by (auto simp: find_None_iff)
    then show ?thesis using start by (simp add: find_append)
  qed
  show ?thesis
  proof (cases r1)
    case (Inl e)
    have q: "quiet (sv_disk s) (sv_disk s1)" and im: "same_images d0 (sv_db s1)"
      using cases Inl by (simp_all add: s0_def)
    define d1 where "d1 = mark_image_faulted k (app_error_display e) (sv_db s1)"
    have "h_bind (discard_import env k e) (\<lambda>_. h_throw e) s1 = (Some r, s')"
      using body rc Inl by (simp add: h_bind_def [of "h_try _"] h_try_def)
    then have re: "r = Inl e" and db: "sv_db s' = d1"
      and dk: "\<exists>x. clear_image_data (en_base env) (en_listing env) k (sv_disk s1) = (Some x, sv_disk s')"
      by (auto simp: discard_import_def h_bind_def h_set_db_def h_try_def h_disk_def h_return_def h_throw_def d1_def
          split: prod.splits option.splits sum.splits)
    have gone: "dk_dirs (sv_disk s') (image_dir (en_base env) k) = None \<and> dk_dirs (sv_disk s') (import_dir (en_base env) k) = None"
      if "dk_faults (sv_disk s) = []"
    proof -
      have "dk_faults (sv_disk s1) = []" using q that by (simp add: quiet_def)
      from clear_image_data_works [OF this, of "en_base env" "en_listing env" k] dk show ?thesis by auto
    qed
    have "List.find (\<lambda>x. ir_id x = k \<and> ir_deleted_at x = None) (images (sv_db s1)) =
        List.find (\<lambda>x. ir_id x = k \<and> ir_deleted_at x = None) (images d0)" using im by (simp add: same_images_def)
    then have "\<exists>im. get_image d1 k = Inr im \<and> i_status im = Faulted \<and> i_error im = Some (app_error_display e)"
      unfolding d1_def mark_image_faulted_def
      by (subst get_image_update) (simp_all add: row0 image_of_row_def sector_size_def)
    moreover have "get_image d1 j = get_image (sv_db s) j" if "j \<noteq> k" for j
      unfolding d1_def using mark_image_faulted_other [OF that] get_image_same [OF im] other0 [OF that] by simp
    ultimately show ?thesis
      using gone Inr reader unfolding Let_def k_def [symmetric] re db by simp
  next
    case (Inr im)
    have end_state: "r = Inr im" "s' = s1"
      using body rc Inr by (simp_all add: h_bind_def h_try_def h_return_def)
    obtain scs dk1 dk2 e1 where
      u: "unpack (cd_sha cd) (import_dir (en_base env) k) (m, rest) (sv_disk s0) = (Some (Inr (m, scs)), dk1)" and
      c: "commit_import (en_base env) (en_listing env) k dk1 = (Some (Inr ()), dk2)" and
      imp: "import_for_image k (new_scripts scs) now (sv_db s0) = Inr e1" and
      fin: "finish_import k (mf_captured_at m) (new_partitions m) (mf_root_partition m) (mf_sector_size m) e1 = Inr (im, sv_db s1)" and
      dk: "sv_disk s1 = dk2"
      using cases Inr unfolding received_ok_def by auto
    have same: "same_images d0 e1" using import_for_image_images [OF imp] by (simp add: s0_def)
    have fresh: "\<forall>p \<in> set (image_parts e1). ipr_image p \<noteq> k" using start same by (simp add: same_images_def)
    have res: "get_image (sv_db s1) k = Inr im \<and> i_status im = Ready \<and> i_captured_at im = mf_captured_at m \<and>
      i_root_partition im = mf_root_partition m \<and> i_sector_size im = mf_sector_size m \<and>
      map new_of_partition (i_partitions im) = sort_key np_number (new_partitions m) \<and>
      (\<forall>j. j \<noteq> k \<longrightarrow> get_image (sv_db s1) j = get_image e1 j)"
      using finish_import_result [OF fresh, of "mf_captured_at m" "new_partitions m" "mf_root_partition m" "mf_sector_size m"] fin
      by blast
    have idk: "i_id im = k"
    proof -
      from res have "get_image (sv_db s1) k = Inr im" by blast
      then show ?thesis by (auto simp: get_image_def image_of_row_def and_then_Inr dest: find_member split: option.splits)
    qed
    obtain fs where fs: "dk_dirs dk1 (import_dir (en_base env) k) = Some fs"
      "dk_dirs dk2 = (dk_dirs dk1)(import_dir (en_base env) k := None, image_dir (en_base env) k := Some fs)"
      using commit_import_cases [OF c] by auto
    have moved: "file_at dk2 (image_dir (en_base env) k) f = file_at dk1 (import_dir (en_base env) k) f" for f
      using fs by (simp add: file_at_def)
    have files: "\<exists>x. file_at dk2 (image_dir (en_base env) k) f = Some x \<and> eq_ignore_case (cd_sha cd x) h"
      if "(f, h) \<in> set (listed_files m)" for f h
      using unpack_result [OF u] that unfolding moved by blast
    have other: "get_image (sv_db s1) j = get_image (sv_db s) j" if "j \<noteq> k" for j
      using res that get_image_same [OF same] other0 [OF that] by simp
    have "manifest_ok m" using unpack_result [OF u] by simp
    with res idk files other show ?thesis
      using \<open>open_archive (cd_probe cd) (cd_decode cd) a = Inr reader\<close>
      unfolding Let_def k_def [symmetric] end_state dk reader by auto
  qed
qed

definition demo_manifest :: "u64 \<Rightarrow> manifest" where
  "demo_manifest bytes =
     \<lparr>mf_format = 3, mf_name = ''lab'', mf_kind = Partition, mf_captured_at = Some 4, mf_sector_size = 512,
      mf_partition_table = None,
      mf_partitions = [\<lparr>ap_number = 1, ap_fstype = ''ext4'', ap_size_bytes = bytes, ap_file = ''p-1.pcl'',
        ap_sha256 = ''data'', ap_fs_uuid = None, ap_fs_label = None\<rparr>],
      mf_root_partition = Some 1,
      mf_scripts = [\<lparr>as_name = ''setup'', as_file = ''scripts/setup.sh'', as_sha256 = ''echo new'', as_inputs = [],
        as_root_partition = None\<rparr>]\<rparr>"

definition demo_codec :: "u64 \<Rightarrow> codec" where
  "demo_codec bytes =
     \<lparr>cd_sha = (\<lambda>x. x), cd_probe = (\<lambda>_. Inr 3), cd_decode = (\<lambda>_. Inr (demo_manifest bytes)), cd_encode = (\<lambda>_. Inr ''{}'')\<rparr>"

definition demo_archive :: tar_archive where
  "demo_archive = archive_of [(''manifest.json'', ''{}''), (''p-1.pcl'', ''data''), (''scripts/setup.sh'', ''echo new'')]"

definition demo_env :: environment where
  "demo_env = \<lparr>en_base = ''/i'', en_pid = 1, en_listing = (\<lambda>_. [''p-1.pcl'']), en_proxy = None, en_variables = []\<rparr>"

definition demo_server :: "db \<Rightarrow> nat server" where
  "demo_server d = \<lparr>sv_db = d,
     sv_disk = \<lparr>dk_base = True, dk_dirs = Map.empty, dk_seq = 0, dk_faults = []\<rparr>,
     sv_registry = new_registry, sv_board = empty_snapshot, sv_wakes = 0\<rparr>"

theorem import_settles_witness:
  "\<exists>im s'. import_archive demo_env (demo_codec 4096) 9 demo_archive (demo_server empty_db) = (Some (Inr im), s') \<and>
    get_image (sv_db s') 1 = Inr im \<and> i_status im = Ready"
proof -
  have "case fst (import_archive demo_env (demo_codec 4096) 9 demo_archive (demo_server empty_db)) of
      Some (Inr _) \<Rightarrow> True | _ \<Rightarrow> False"
    by code_simp
  then obtain im s' where i: "import_archive demo_env (demo_codec 4096) 9 demo_archive (demo_server empty_db) = (Some (Inr im), s')"
    by (cases "import_archive demo_env (demo_codec 4096) 9 demo_archive (demo_server empty_db)")
      (auto split: option.splits sum.splits)
  have ok: "db_ok (sv_db (demo_server empty_db))" by (simp add: demo_server_def empty_db_ok)
  have "next_image (sv_db (demo_server empty_db)) = 1" by (simp add: demo_server_def empty_db_def)
  with import_settles [OF i ok] have "get_image (sv_db s') 1 = Inr im \<and> i_status im = Ready" by (simp add: Let_def)
  with i show ?thesis by blast
qed

text \<open>The scripts of an archive are imported before its partitions are checked against the database, each in a
  transaction of its own. An archive that passes the manifest's checks and is then rejected because a
  partition's size does not fit the column has already replaced the script that the server had under the same name.\<close>

theorem rejected_import_replaces_script:
  "\<exists>d. db_ok d \<and> map scr_body (scripts d) = [''echo old''] \<and>
     (case import_archive demo_env (demo_codec (2 ^ 63)) 9 demo_archive (demo_server d) of
        (Some (Inl e), s') \<Rightarrow> map scr_body (scripts (sv_db s')) = [''echo new'']
      | _ \<Rightarrow> False)"
proof -
  let ?d = "empty_db\<lparr>scripts := [\<lparr>scr_id = 1, scr_name = ''setup'', scr_body = ''echo old'', scr_updated_at = 0\<rparr>],
     next_script := 2\<rparr>"
  have "db_ok ?d" by (simp add: db_ok_defs empty_db_def)
  moreover have "case import_archive demo_env (demo_codec (2 ^ 63)) 9 demo_archive (demo_server ?d) of
        (Some (Inl e), s') \<Rightarrow> map scr_body (scripts (sv_db s')) = [''echo new'']
      | _ \<Rightarrow> False"
  proof -
    have size: "demo_codec (2 ^ 63) = demo_codec 9223372036854775808"
      by simp
    show ?thesis
      unfolding size by code_simp
  qed
  ultimately show ?thesis by (intro exI [of _ ?d]) simp
qed

end
