(* ===== verification/Agent_Api.thy ===== *)
theory Agent_Api
  imports Server Archive_Format Script_Runs
begin

text \<open>
  The requests of the agents (\<open>crates/api/agent/src\<close>): reports on tasks, the upload of a capture, the downloads of
  a deployment, the scripts after it, and the stream over which a host learns its current task. Each handler is the whole handler of the
  source as a program of the \<open>Server\<close> monad, on a parsed request; \<open>mac\<close> is the address of an \<open>AgentInfo\<close>. The
  web socket is the sequence of the events it delivers.
\<close>

subsection \<open>Who asks\<close>

definition MAC_HEADER :: string where "MAC_HEADER = ''X-Agent-Mac''"

definition IP_HEADER :: string where "IP_HEADER = ''X-Agent-Ip''"

record agent_info =
  ai_mac :: string
  ai_ip :: "string option"

text \<open>\<open>header\<close> gives the headers that are readable text.\<close>

definition from_request_parts :: "(string \<Rightarrow> string option) \<Rightarrow> agent_info result" where
  "from_request_parts header =
     and_then (ok_or (InvalidArgument ''missing mac'') (header MAC_HEADER)) (\<lambda>txt.
     and_then (mac_from_str txt) (\<lambda>mac.
     Inr \<lparr>ai_mac = mac_display mac, ai_ip = header IP_HEADER\<rparr>))"

definition get_next_task :: "string \<Rightarrow> ('f, task) handler" where
  "get_next_task mac =
     h_bind (h_read (get_by_mac mac)) (\<lambda>host.
     h_bind (h_read (\<lambda>d. Inr (get_next d (h_id host)))) (\<lambda>nt.
     h_of (ok_or (InvalidArgument (''No active task found for host '' @ mac)) nt)))"

subsection \<open>Reports on a task\<close>

definition not_next_task :: "int \<Rightarrow> string \<Rightarrow> app_error" where
  "not_next_task tid mac =
     InvalidArgument (''Task '' @ int_str tid @ '' is not the next task for host '' @ mac)"

definition not_ready :: "int \<Rightarrow> app_error" where
  "not_ready i = FailedPrecondition (''Image '' @ int_str i @ '' is not ready'')"

definition sector_size_of :: "u32 option \<Rightarrow> u32 result" where
  "sector_size_of given =
     and_then (ok_or (InvalidArgument ''a capture must report its logical sector size'') given) (\<lambda>sector.
       if sector < 512 \<or> \<not> is_power_of_two sector
       then Inl (InvalidArgument (''invalid logical sector size '' @ nat_str (unat sector)))
       else Inr sector)"

definition started :: "environment \<Rightarrow> time \<Rightarrow> string \<Rightarrow> int \<Rightarrow> u32 option \<Rightarrow> ('f, unit) handler" where
  "started env now mac tid given =
     h_bind (h_read (get_by_mac mac)) (\<lambda>host. let host_id = h_id host in
     h_bind (h_read (\<lambda>d. ok_or (not_next_task tid mac)
         (case get_next d host_id of Some t \<Rightarrow> if t_id t = tid then Some t else None | None \<Rightarrow> None))) (\<lambda>t.
     let running = host_id \<in> set (hosts_in Running t) in
     h_bind (h_guard (t_type t \<noteq> Reboot) (InvalidArgument (''Task '' @ int_str tid @ '' is not an imaging task''))) (\<lambda>_.
     h_bind (h_of (ok_or (InvalidArgument (''Task '' @ int_str tid @ '' has no image'')) (t_image_id t))) (\<lambda>i.
     if captures (t_type t)
     then
       h_bind (h_of (sector_size_of given)) (\<lambda>sector.
       h_bind (h_disk (clear_image_data (en_base env) (en_listing env) i)) (\<lambda>_.
       h_bind (h_set_db (start_capture i sector)) (\<lambda>_.
       if running then h_return () else h_set_db (start (t_id t) host_id now))))
     else
       h_bind (h_read (\<lambda>d. get_status d i)) (\<lambda>status.
       if status \<noteq> Ready then h_throw (not_ready i)
       else if multicasts (t_type t)
       then h_guard running (InvalidArgument (''Task '' @ int_str tid @ '' has not started on this host''))
       else h_set_db (start (t_id t) host_id now))))))"

definition already_settled :: "int \<Rightarrow> task_state \<Rightarrow> int \<Rightarrow> db \<Rightarrow> bool result" where
  "already_settled tid outcome host_id d =
     (case get d tid of
        Inr t \<Rightarrow> Inr (host_id \<in> set (hosts_in outcome t))
      | Inl (NotFound _) \<Rightarrow> Inr False
      | Inl e \<Rightarrow> Inl e)"

definition task_to_settle :: "string \<Rightarrow> int \<Rightarrow> task_state \<Rightarrow> ('f, (task \<times> int) option) handler" where
  "task_to_settle mac tid outcome =
     h_bind (h_read (get_by_mac mac)) (\<lambda>host. let host_id = h_id host in
     h_bind (h_read (\<lambda>d. Inr (get_next d host_id))) (\<lambda>nt.
     if \<exists>t \<in> set_option nt. t_id t = tid then h_return (Some (the nt, host_id))
     else
       h_bind (h_read (already_settled tid outcome host_id)) (\<lambda>settled.
       if settled then h_return None else h_throw (not_next_task tid mac))))"

text \<open>\<open>tokio::fs::try_exists\<close>, with an error read as \<open>false\<close>.\<close>

definition try_exists :: "string \<Rightarrow> string \<Rightarrow> (app_error, bool) io" where
  "try_exists p name =
     io_bind (io_try (io_call (\<lambda>_ d. d) (\<lambda>d. (Inr (file_at d p name \<noteq> None), d)))) (\<lambda>r :: io_error + bool.
     io_return (case r of Inl _ \<Rightarrow> False | Inr b \<Rightarrow> b))"

definition incomplete_capture :: "environment \<Rightarrow> task \<Rightarrow> int \<Rightarrow> ('f, string option) handler" where
  "incomplete_capture env t i =
     h_bind (h_read (\<lambda>d. Inr (get_partitions d i))) (\<lambda>partitions.
     if partitions = [] then h_return (Some ''Capture finished without any partitions'')
     else if t_type t = CapturePartition \<and> map partition_number partitions \<noteq> [1]
     then h_return (Some ''A partition capture must store exactly partition 1'')
     else if t_type t = Capture
     then h_bind (h_disk (try_exists (image_dir (en_base env) i) PARTITION_TABLE_FILE)) (\<lambda>found.
       h_return (if found then None else Some ''Capture finished without a partition table''))
     else h_return None)"

definition finish_capture :: "environment \<Rightarrow> time \<Rightarrow> task \<Rightarrow> int \<Rightarrow> ('f, unit) handler" where
  "finish_capture env now t host_id =
     (case (captures (t_type t), t_image_id t) of
        (True, Some i) \<Rightarrow>
          h_bind (incomplete_capture env t i) (\<lambda>incomplete.
          case incomplete of
            Some error \<Rightarrow>
              h_bind (h_set_db (mark_image_faulted i error)) (\<lambda>_.
              h_bind (h_set_db (mark_failed (t_id t) host_id error now)) (\<lambda>_.
              h_throw (FailedPrecondition error)))
          | None \<Rightarrow> h_set_db (mark_image_finished i now))
      | _ \<Rightarrow> h_return ())"

definition task_finished :: "environment \<Rightarrow> time \<Rightarrow> string \<Rightarrow> int \<Rightarrow> ('f, unit) handler" where
  "task_finished env now mac tid =
     h_bind (task_to_settle mac tid Done) (\<lambda>settle.
     case settle of
       None \<Rightarrow> h_return ()
     | Some (t, host_id) \<Rightarrow>
         h_bind (finish_capture env now t host_id) (\<lambda>_.
         h_bind (h_set_db (mark_finished (t_id t) host_id now)) (\<lambda>_.
         h_board (forget host_id))))"

definition fail_capture :: "task \<Rightarrow> string \<Rightarrow> ('f, unit) handler" where
  "fail_capture t error =
     (case (captures (t_type t), t_image_id t) of
        (True, Some i) \<Rightarrow> h_set_db (mark_image_faulted i error)
      | _ \<Rightarrow> h_return ())"

definition task_failed :: "time \<Rightarrow> string \<Rightarrow> int \<Rightarrow> string \<Rightarrow> ('f, unit) handler" where
  "task_failed now mac tid error =
     h_bind (task_to_settle mac tid Failed) (\<lambda>settle.
     case settle of
       None \<Rightarrow> h_return ()
     | Some (t, host_id) \<Rightarrow>
         h_bind (fail_capture t error) (\<lambda>_.
         h_bind (h_set_db (mark_failed (t_id t) host_id error now)) (\<lambda>_.
         h_bind (h_board (forget host_id)) (\<lambda>_.
         if multicasts (t_type t) then h_wake else h_return ()))))"

subsection \<open>Uploading a capture\<close>

definition running_capture :: "string \<Rightarrow> int \<Rightarrow> (task_type \<Rightarrow> bool) \<Rightarrow> ('f, task \<times> int) handler" where
  "running_capture mac tid accepts =
     h_bind (get_next_task mac) (\<lambda>t.
     case t_image_id t of
       None \<Rightarrow> h_throw (InvalidArgument (''Task '' @ int_str tid @ '' is not valid''))
     | Some i \<Rightarrow>
         if t_id t \<noteq> tid \<or> \<not> accepts (t_type t)
         then h_throw (InvalidArgument (''No capture task for task '' @ int_str tid @ '' found''))
         else if aggregate_state t \<noteq> Running then h_throw (InvalidArgument ''Task has not yet started'')
         else h_return (t, i))"

record partition_upload =
  pu_filesystem :: string
  pu_size :: int
  pu_fs_uuid :: "string option"
  pu_fs_label :: "string option"

definition check_partition_capture :: "int \<Rightarrow> string \<Rightarrow> unit result" where
  "check_partition_capture number filesystem =
     (if number \<noteq> 1
      then Inl (InvalidArgument (''a partition capture stores only partition 1, not '' @ int_str number))
      else if filesystem \<notin> set (fstypes Partition)
      then Inl (InvalidArgument (''a partition image cannot hold a `'' @ filesystem @
             ''` filesystem, expected one of '' @ join '', '' (fstypes Partition)))
      else Inr ())"

definition upload_partition_data ::
  "environment \<Rightarrow> string \<Rightarrow> int \<Rightarrow> int \<Rightarrow> partition_upload \<Rightarrow> stream_item list \<Rightarrow> ('f, image_partition) handler" where
  "upload_partition_data env mac tid number q body =
     h_bind (running_capture mac tid captures) (\<lambda>(t, i).
     h_bind (if t_type t = CapturePartition then h_of (check_partition_capture number (pu_filesystem q)) else h_return ()) (\<lambda>_.
     h_bind (h_disk (save_partition_data (en_base env) (en_pid env) i number body)) (\<lambda>_.
     h_db (save_partition i number (pu_filesystem q) (pu_size q) (pu_fs_uuid q) (pu_fs_label q)))))"

definition upload_partition_table :: "environment \<Rightarrow> string \<Rightarrow> int \<Rightarrow> string \<Rightarrow> ('f, unit) handler" where
  "upload_partition_table env mac tid body =
     h_bind (running_capture mac tid (\<lambda>ty. ty = Capture)) (\<lambda>(_, i).
     h_disk (save_partition_table (en_base env) (en_pid env) i body))"

definition report_root_partition :: "string \<Rightarrow> int \<Rightarrow> int \<Rightarrow> ('f, unit) handler" where
  "report_root_partition mac tid number =
     h_bind (running_capture mac tid captures) (\<lambda>(_, i).
     h_bind (h_db (set_root_partition i (Some number))) (\<lambda>_. h_return ()))"

subsection \<open>Scripts after a deployment\<close>

definition get_restore_task_and_verify :: "string \<Rightarrow> int \<Rightarrow> (task_type \<Rightarrow> bool) \<Rightarrow> ('f, task \<times> int) handler" where
  "get_restore_task_and_verify mac tid accepts =
     h_bind (get_next_task mac) (\<lambda>t.
     h_bind (h_guard (t_id t = tid \<and> accepts (t_type t))
         (InvalidArgument (''No restore task for task '' @ int_str tid @ '' found''))) (\<lambda>_.
     h_bind (h_of (ok_or (InvalidArgument (''Task '' @ int_str tid @ '' has no image'')) (t_image_id t))) (\<lambda>i.
     h_return (t, i))))"

record restore_run =
  rr_image :: int
  rr_host :: int

definition running_restore_task :: "string \<Rightarrow> int \<Rightarrow> ('f, restore_run) handler" where
  "running_restore_task mac tid =
     h_bind (get_restore_task_and_verify mac tid restores) (\<lambda>(t, i).
     h_bind (h_read (get_by_mac mac)) (\<lambda>host.
     h_bind (h_guard (h_id host \<in> set (hosts_in Running t))
         (InvalidArgument (''Task '' @ int_str tid @ '' has not started on this host''))) (\<lambda>_.
     h_return \<lparr>rr_image = i, rr_host = h_id host\<rparr>)))"

text \<open>The inputs of one script, from the values that were stored with the task.\<close>

definition stale_inputs :: "script \<Rightarrow> string \<Rightarrow> app_error" where
  "stale_inputs s reason =
     FailedPrecondition (''script `'' @ s_name s @ ''` no longer fits the inputs stored with this task: '' @
       reason @ ''; start a new deployment'')"

definition add_script_input ::
  "script \<Rightarrow> input_values \<Rightarrow> (string, string) btree_map \<Rightarrow> script_input \<Rightarrow> (string, string) btree_map result" where
  "add_script_input s vals m i =
     (case value_from i vals of
        Some v \<Rightarrow> and_then (map_err (stale_inputs s) (check_value i v)) (\<lambda>_. Inr (bt_insert (in_name i) v m))
      | None \<Rightarrow> if in_required i then Inl (stale_inputs s (''input `'' @ in_name i @ ''` is required'')) else Inr m)"

definition script_inputs_of :: "script \<Rightarrow> input_values \<Rightarrow> (string, string) btree_map result" where
  "script_inputs_of s vals = try_fold (add_script_input s vals) [] (s_inputs s)"

record post_install_script =
  pi_position :: int
  pi_name :: string
  pi_body :: string
  pi_inputs :: "(string, string) btree_map"
  pi_root_partition :: int

record post_install =
  pn_proxy :: "string option"
  pn_variables :: "(string, string) btree_map"
  pn_scripts :: "post_install_script list"

definition planned_scripts :: "int \<Rightarrow> int \<Rightarrow> image \<Rightarrow> ('f, post_install_script list) handler" where
  "planned_scripts tid host_id im =
     h_bind (h_read (\<lambda>d. Inr (get_for_image d (i_id im)))) (\<lambda>attached.
     h_bind (h_of (script_roots im attached)) (\<lambda>roots.
     h_bind (h_read (\<lambda>d. Inr (get_inputs d tid host_id))) (\<lambda>vals.
     h_of (collect_map (\<lambda>(position, a, root).
         and_then (script_inputs_of (is_script a) vals) (\<lambda>inputs.
         Inr \<lparr>pi_position = int position, pi_name = s_name (is_script a), pi_body = s_body (is_script a),
              pi_inputs = inputs, pi_root_partition = root\<rparr>))
       (List.enumerate 0 (zip attached roots))))))"

definition post_install_plan :: "environment \<Rightarrow> string \<Rightarrow> int \<Rightarrow> ('f, post_install) handler" where
  "post_install_plan env mac tid =
     h_bind (running_restore_task mac tid) (\<lambda>run.
     h_bind (h_read (\<lambda>d. get_image d (rr_image run))) (\<lambda>im.
     h_bind (planned_scripts tid (rr_host run) im) (\<lambda>ss.
     h_return \<lparr>pn_proxy = en_proxy env, pn_variables = en_variables env, pn_scripts = ss\<rparr>)))"

text \<open>A call that may fail after it has changed the database.\<close>

definition h_run :: "(db \<Rightarrow> 'a result \<times> db) \<Rightarrow> ('f, 'a) handler" where
  "h_run f s = (let (r, d) = f (sv_db s) in (Some r, s\<lparr>sv_db := d\<rparr>))"

definition upload_script_output :: "time \<Rightarrow> string \<Rightarrow> int \<Rightarrow> int \<Rightarrow> string \<Rightarrow> output_event list \<Rightarrow> ('f, unit) handler" where
  "upload_script_output now mac tid position name body =
     h_bind (h_of (validate_script_name name)) (\<lambda>_.
     h_bind (h_guard (0 \<le> position) (InvalidArgument (''script position '' @ int_str position @ '' is negative''))) (\<lambda>_.
     h_bind (running_restore_task mac tid) (\<lambda>run.
     h_bind (h_db_unit (start_script_run tid (rr_host run) position name now)) (\<lambda>_.
     h_run (record_output \<lparr>rk_task_id = tid, rk_host_id = rr_host run, rk_position = position\<rparr> body [])))))"

definition finish_script :: "time \<Rightarrow> string \<Rightarrow> int \<Rightarrow> int \<Rightarrow> int option \<Rightarrow> ('f, unit) handler" where
  "finish_script now mac tid position exit_code =
     h_bind (running_restore_task mac tid) (\<lambda>run.
     h_db_unit (finish_script_run tid (rr_host run) position exit_code now))"

subsection \<open>Downloading an image\<close>

definition download_partition_data :: "environment \<Rightarrow> string \<Rightarrow> int \<Rightarrow> int \<Rightarrow> ('f, string) handler" where
  "download_partition_data env mac tid number =
     h_bind (get_restore_task_and_verify mac tid (\<lambda>ty. ty = Deploy \<or> ty = DeployPartition)) (\<lambda>(_, i).
     h_bind (h_read (\<lambda>d. get_status d i)) (\<lambda>status.
     h_bind (h_guard (status = Ready) (not_ready i)) (\<lambda>_.
     h_disk (read_partition_data (en_base env) i number))))"

definition download_partition_table :: "environment \<Rightarrow> string \<Rightarrow> int \<Rightarrow> ('f, string) handler" where
  "download_partition_table env mac tid =
     h_bind (get_restore_task_and_verify mac tid (\<lambda>ty. ty = Deploy \<or> ty = Multicast)) (\<lambda>(_, i).
     h_bind (h_read (\<lambda>d. get_status d i)) (\<lambda>status.
     h_bind (h_guard (status = Ready) (not_ready i)) (\<lambda>_.
     h_disk (read_partition_table (en_base env) i))))"

definition download_partitions :: "string \<Rightarrow> int \<Rightarrow> ('f, image_layout) handler" where
  "download_partitions mac tid =
     h_bind (get_restore_task_and_verify mac tid restores) (\<lambda>(t, i).
     h_bind (h_read (\<lambda>d. get_image d i)) (\<lambda>im.
     h_bind (h_guard (i_status im = Ready) (not_ready i)) (\<lambda>_.
     h_bind (h_read (get_by_mac mac)) (\<lambda>host.
     h_bind (planned_scripts (t_id t) (h_id host) im) (\<lambda>_.
     h_return \<lparr>il_sector_size = i_sector_size im, il_partitions = i_partitions im\<rparr>)))))"

subsection \<open>The stream\<close>

text \<open>The loop of \<open>current_task\<close>: a task that yields no work for the host is failed and passed over. Each round
  settles a row of the host, so the loop ends.\<close>

definition open_rows :: "db \<Rightarrow> int \<Rightarrow> nat" where
  "open_rows d h = length (filter (\<lambda>r. thr_host r = h \<and> active (thr_state r)) (task_hosts d))"

lemma filter_map_less:
  assumes "\<And>x. x \<in> set xs \<Longrightarrow> P (f x) \<Longrightarrow> P x" and "x \<in> set xs" "P x" "\<not> P (f x)"
  shows "length (filter P (map f xs)) < length (filter P xs)"
  using assms
proof (induction xs)
  case (Cons y ys)
  have le: "length (filter P (map f zs)) \<le> length (filter P zs)"
    if "\<And>x. x \<in> set zs \<Longrightarrow> P (f x) \<Longrightarrow> P x" for zs
    using that by (induction zs) auto
  show ?case
  proof (cases "x = y")
    case True
    with Cons.prems le [of ys] show ?thesis by (auto simp: less_Suc_eq_le)
  next
    case False
    with Cons.prems have "length (filter P (map f ys)) < length (filter P ys)" by (intro Cons.IH) auto
    with Cons.prems(1) [of y] show ?thesis by auto
  qed
qed simp

lemma get_next_open:
  assumes "get_next d h = Some t"
  obtains r where "r \<in> set (task_hosts d)" "is_row (t_id t) h r" "active (thr_state r)"
proof -
  obtain tr r q where q: "host_queue d h = (tr, r) # q" and t: "t = task_of_row d tr"
    using assms by (auto simp: get_next_def split: list.splits)
  have "(tr, r) \<in> set (host_queue d h)" by (simp add: q)
  then have "r \<in> set (task_hosts d) \<and> thr_task r = tr_id tr \<and> thr_host r = h \<and> active (thr_state r)"
    by (auto simp: host_queue_def rows_of_task_def active_def)
  then show thesis using t by (intro that [of r]) (auto simp: is_row_def task_of_row_def)
qed

lemma open_rows_mark_failed:
  assumes "get_next d h = Some t"
  shows "open_rows (mark_failed (t_id t) h e now d) h < open_rows d h"
proof -
  obtain r where r: "r \<in> set (task_hosts d)" "is_row (t_id t) h r" "active (thr_state r)"
    using get_next_open [OF assms] .
  let ?f = "\<lambda>r. if is_row (t_id t) h r \<and> (thr_state r = Pending \<or> thr_state r = Running)
    then r\<lparr>thr_state := Failed, thr_finished_at := Some now, thr_error := Some e\<rparr> else r"
  have "task_hosts (mark_failed (t_id t) h e now d) = map ?f (task_hosts d)"
    by (simp add: mark_failed_def update_task_hosts_def Let_def update_where_def)
  moreover have "length (filter (\<lambda>r. thr_host r = h \<and> active (thr_state r)) (map ?f (task_hosts d)))
      < length (filter (\<lambda>r. thr_host r = h \<and> active (thr_state r)) (task_hosts d))"
    by (rule filter_map_less [OF _ r(1)]) (use r in \<open>auto simp: active_def is_row_def split: if_splits\<close>)
  ultimately show ?thesis by (simp only: open_rows_def)
qed

function current_task :: "time \<Rightarrow> int \<Rightarrow> db \<Rightarrow> agent_task option \<times> db" where
  "current_task now h d =
     (case get_next d h of
        None \<Rightarrow> (None, d)
      | Some t \<Rightarrow>
          if \<not> is_dispatchable_to t h then (None, d)
          else case task_work t h of
            Inr w \<Rightarrow> (Some \<lparr>at_id = t_id t, at_work = w\<rparr>, d)
          | Inl e \<Rightarrow> current_task now h (mark_failed (t_id t) h (app_error_display e) now d))"
  by pat_completeness auto
termination
  by (relation "measure (\<lambda>(now, h, d). open_rows d h)") (simp_all add: open_rows_mark_failed)

declare current_task.simps [simp del]

text \<open>The registration of a stream is dropped when its connection ends; \<open>serve\<close> then leaves, and the host's report is
  forgotten.\<close>

record host_stream =
  hs_host :: int
  hs_registration :: registration
  hs_current :: "agent_task option"

record stream_query =
  sq_disk_size_bytes :: "u64 option"
  sq_disk_error :: "string option"

definition queried_disk :: "stream_query \<Rightarrow> (string + u64) result" where
  "queried_disk q =
     (case (sq_disk_size_bytes q, sq_disk_error q) of
        (Some n, None) \<Rightarrow> Inr (Inr n)
      | (None, Some reason) \<Rightarrow> Inr (Inl reason)
      | _ \<Rightarrow> Inl (InvalidArgument ''report exactly one of disk_size_bytes and disk_error''))"

definition h_register :: "int \<Rightarrow> ('f, registration) handler" where
  "h_register h s = (let (reg, r) = register h (sv_registry s) in (Some (Inr reg), s\<lparr>sv_registry := r\<rparr>))"

definition h_current_task :: "time \<Rightarrow> int \<Rightarrow> ('f, agent_task option) handler" where
  "h_current_task now h = h_run (\<lambda>d. apfst Inr (current_task now h d))"

definition start_stream ::
  "(string option \<Rightarrow> string option) \<Rightarrow> time \<Rightarrow> agent_info \<Rightarrow> stream_query \<Rightarrow> ('f, host_stream) handler" where
  "start_stream forced now agent q =
     h_bind (h_of (queried_disk q)) (\<lambda>disk.
     h_bind (h_db (upsert_host forced (ai_mac agent) disk (ai_ip agent))) (\<lambda>host.
     h_bind (h_register (h_id host)) (\<lambda>reg.
     h_bind (h_current_task now (h_id host)) (\<lambda>current.
     h_return \<lparr>hs_host = h_id host, hs_registration = reg, hs_current = current\<rparr>))))"

text \<open>What the \<open>select!\<close> of the loop yields: a frame, a wake-up of the mailbox, or a tick of the ping timer, with whether the
  agent was silent for too long and whether the ping could be sent.\<close>

datatype 'f agent_event = Idle | Progress_event "'f host_progress" | Partitions_event "host_partition list"

datatype 'f frame = Text_frame "'f agent_event option" | Other_frame | Closing_frame

datatype 'f stream_event = Frame "'f frame" | Mail | Ping bool bool

datatype turn = Ask bool | Skip | Break

definition receive_mail :: "registration \<Rightarrow> ('f, received) handler" where
  "receive_mail reg s = (let (got, r) = receive reg (sv_registry s) in (Some (Inr got), s\<lparr>sv_registry := r\<rparr>))"

fun stream_turn :: "host_stream \<Rightarrow> 'f stream_event \<Rightarrow> ('f, turn) handler" where
  "stream_turn hs (Frame Closing_frame) = h_return Break"
| "stream_turn hs (Frame Other_frame) = h_return Skip"
| "stream_turn hs (Frame (Text_frame None)) = h_return Skip"
| "stream_turn hs (Frame (Text_frame (Some Idle))) = h_return (Ask True)"
| "stream_turn hs (Frame (Text_frame (Some (Progress_event p)))) =
     h_bind (h_board (report (hs_host hs) p)) (\<lambda>_. h_return Skip)"
| "stream_turn hs (Frame (Text_frame (Some (Partitions_event ps)))) =
     h_bind (h_try (h_db_unit (set_partitions (hs_host hs) ps))) (\<lambda>_. h_return Skip)"
| "stream_turn hs Mail =
     h_bind (receive_mail (hs_registration hs)) (\<lambda>got.
     h_return (case got of Woken \<Rightarrow> Ask False | Closed \<Rightarrow> Break | Waiting \<Rightarrow> Skip))"
| "stream_turn hs (Ping silent sent) = h_return (if silent \<or> \<not> sent then Break else Skip)"

text \<open>The loop, over the events and, with each, whether a message sent in its turn gets through. The result lists the
  tasks that were sent and whether the loop was left; otherwise the stream is still open after these events.\<close>

fun serve_loop :: "time \<Rightarrow> host_stream \<Rightarrow> ('f stream_event \<times> bool) list \<Rightarrow> ('f, agent_task option list \<times> host_stream option) handler" where
  "serve_loop now hs [] = h_return ([], Some hs)"
| "serve_loop now hs ((e, delivered) # es) =
     h_bind (stream_turn hs e) (\<lambda>turn.
     case turn of
       Break \<Rightarrow> h_return ([], None)
     | Skip \<Rightarrow> serve_loop now hs es
     | Ask asked \<Rightarrow>
         h_bind (h_current_task now (hs_host hs)) (\<lambda>current.
         let hs' = hs\<lparr>hs_current := current\<rparr> in
         if asked \<or> current \<noteq> hs_current hs
         then if delivered
              then h_bind (serve_loop now hs' es) (\<lambda>(sent, open_stream). h_return (current # sent, open_stream))
              else h_return ([], None)
         else serve_loop now hs' es))"

text \<open>A whole connection: the first message, the loop up to the end of the socket, and what is left behind.\<close>

definition serve_stream :: "time \<Rightarrow> host_stream \<Rightarrow> bool \<Rightarrow> ('f stream_event \<times> bool) list \<Rightarrow> ('f, agent_task option list) handler" where
  "serve_stream now hs delivered es =
     h_bind (if delivered
         then h_bind (serve_loop now hs es) (\<lambda>(sent, _). h_return (hs_current hs # sent))
         else h_return []) (\<lambda>sent.
     h_bind (h_registry (cleanup (hs_registration hs))) (\<lambda>_.
     h_bind (h_board (forget (hs_host hs))) (\<lambda>_.
     h_return sent)))"

definition disconnect :: "string \<Rightarrow> ('f, unit) handler" where
  "disconnect mac =
     h_bind (h_read (get_by_mac mac)) (\<lambda>host.
     h_registry (deregister (h_id host)))"

subsection \<open>All requests\<close>

datatype 'f request =
    Started int "u32 option"
  | Finished int
  | Failed_report int string
  | Put_partition int int partition_upload "stream_item list"
  | Put_partition_table int string
  | Put_root_partition int int
  | Get_partitions int
  | Get_partition_table int
  | Get_partition int int
  | Get_scripts int
  | Put_script_output int int string "output_event list"
  | Script_finished int int "int option"
  | Stream "string option" stream_query bool "('f stream_event \<times> bool) list"
  | Disconnect

definition h_drop :: "('f, 'a) handler \<Rightarrow> ('f, unit) handler" where
  "h_drop m = h_bind m (\<lambda>_. h_return ())"

fun handle_request ::
  "environment \<Rightarrow> (string option \<Rightarrow> string option) \<Rightarrow> time \<Rightarrow> string \<Rightarrow> 'f request \<Rightarrow> ('f, unit) handler" where
  "handle_request env forced now mac (Started tid sector) = started env now mac tid sector"
| "handle_request env forced now mac (Finished tid) = task_finished env now mac tid"
| "handle_request env forced now mac (Failed_report tid e) = task_failed now mac tid e"
| "handle_request env forced now mac (Put_partition tid n q body) = h_drop (upload_partition_data env mac tid n q body)"
| "handle_request env forced now mac (Put_partition_table tid body) = upload_partition_table env mac tid body"
| "handle_request env forced now mac (Put_root_partition tid n) = report_root_partition mac tid n"
| "handle_request env forced now mac (Get_partitions tid) = h_drop (download_partitions mac tid)"
| "handle_request env forced now mac (Get_partition_table tid) = h_drop (download_partition_table env mac tid)"
| "handle_request env forced now mac (Get_partition tid n) = h_drop (download_partition_data env mac tid n)"
| "handle_request env forced now mac (Get_scripts tid) = h_drop (post_install_plan env mac tid)"
| "handle_request env forced now mac (Put_script_output tid n name body) = upload_script_output now mac tid n name body"
| "handle_request env forced now mac (Script_finished tid n code) = finish_script now mac tid n code"
| "handle_request env forced now mac (Stream ip q delivered es) =
     h_bind (start_stream forced now \<lparr>ai_mac = mac, ai_ip = ip\<rparr> q) (\<lambda>hs. h_drop (serve_stream now hs delivered es))"
| "handle_request env forced now mac Disconnect = disconnect mac"

end
