(* ===== verification/Database.thy ===== *)
theory Database
  imports Task_Queue Script_Runs Host_Repo Image_Repo Script_Import
begin

text \<open>
  Every operation of the five repositories (\<open>crates/core/src/repository\<close>) that writes, as one step relation on the
  database: a step is one transaction, or one statement where the code uses none. The schema's promises, unique keys,
  references that resolve and ids below the counters, hold in every database that the program can reach. The lemmas
  \<open>same_tasks\<close> say which operations leave the tasks and their script runs alone, so that the invariant of the
  task machine carries over to them.
\<close>

inductive db_step :: "db \<Rightarrow> db \<Rightarrow> bool" where
  task_step: "repo_step d d' \<Longrightarrow> db_step d d'"
| start_run: "start_script_run t h p name now d = Inr d' \<Longrightarrow> db_step d d'"
| append_run: "append_script_output t h p txt d = Inr d' \<Longrightarrow> db_step d d'"
| finish_run: "finish_script_run t h p code now d = Inr d' \<Longrightarrow> db_step d d'"
| host_upserted: "upsert_host forced given disk ip d = Inr (h, d') \<Longrightarrow> db_step d d'"
| host_renamed: "update_host_name hid name d = Inr (h, d') \<Longrightarrow> db_step d d'"
| host_deleted: "db_step d (delete_host hid d)"
| host_partitions_set: "set_partitions hid ps d = Inr d' \<Longrightarrow> db_step d d'"
| group_created: "create_group name hs d = Inr (g, d') \<Longrightarrow> db_step d d'"
| group_renamed: "update_group_name gid name d = Inr (g, d') \<Longrightarrow> db_step d d'"
| group_deleted: "db_step d (delete_group gid d)"
| group_members_set: "update_group_members gid hs d = Inr (g, d') \<Longrightarrow> db_step d d'"
| image_created: "insert_image name kind status d = Inr (im, d') \<Longrightarrow> db_step d d'"
| image_renamed: "db_step d (snd (update_image_name i name d))"
| image_deleted: "db_step d (delete_image i now d)"
| capture_started: "db_step d (start_capture i sector d)"
| partition_saved: "save_partition i n fs sz u l d = Inr (p, d') \<Longrightarrow> db_step d d'"
| root_written: "db_step d (write_root i n d)"
| image_finished: "db_step d (mark_image_finished i now d)"
| image_faulted: "db_step d (mark_image_faulted i e d)"
| import_finished: "finish_import i at new_parts root s d = Inr (im, d') \<Longrightarrow> db_step d d'"
| imports_faulted: "db_step d (fault_unfinished_imports e d)"
| script_created: "create_script sc now d = Inr (s, d') \<Longrightarrow> db_step d d'"
| script_updated: "update_script sid sc now d = Inr (s, d') \<Longrightarrow> db_step d d'"
| script_deleted: "delete_script sid d = Inr d' \<Longrightarrow> db_step d d'"
| scripts_set: "set_for_image i ids d = Inr d' \<Longrightarrow> db_step d d'"
| script_root_set: "set_root_for_image i p n d = Inr d' \<Longrightarrow> db_step d d'"
| scripts_imported: "import_for_image i ss now d = Inr d' \<Longrightarrow> db_step d d'"

lemma db_step_ok: "db_step d d' \<Longrightarrow> db_ok d \<Longrightarrow> db_ok d'"
proof (induction rule: db_step.induct)
  case (image_deleted d i now)
  then show ?case by (rule delete_image_db_ok)
qed (auto intro: repo_step_db_ok start_script_run_db_ok append_script_output_db_ok finish_script_run_db_ok
    upsert_host_db_ok update_host_name_db_ok delete_host_db_ok set_partitions_db_ok create_group_db_ok
    update_group_name_db_ok delete_group_db_ok update_group_members_db_ok insert_image_db_ok image_update_db_ok
    start_capture_db_ok save_partition_db_ok finish_import_db_ok fault_unfinished_imports_db_ok
    create_script_db_ok update_script_db_ok delete_script_db_ok set_for_image_db_ok set_root_for_image_db_ok
    import_for_image_db_ok)

text \<open>Whatever sequence of operations of the repositories runs, starting from an empty database, the tables keep the
  types of the schema: primary and unique keys are unique, every reference resolves, and the counters lie above the
  ids in use.\<close>

theorem database_stays_well_typed:
  assumes "db_step\<^sup>*\<^sup>* empty_db d"
  shows "unique_keys d \<and> foreign_keys d \<and> fresh_ids d"
proof -
  from assms have "db_ok d"
    by (induction rule: rtranclp_induct) (auto intro: db_step_ok empty_db_ok)
  then show ?thesis by (simp add: db_ok_def)
qed

theorem database_stays_well_typed_witness:
  "foreign_keys (mark_image_faulted 1 ''no disk'' (start_capture 1 4096 (snd (projr (create_image ''lab'' Disk empty_db)))))"
proof -
  let ?d = "snd (projr (create_image ''lab'' Disk empty_db))"
  have "insert_image ''lab'' Disk Empty empty_db = Inr (fst (projr (create_image ''lab'' Disk empty_db)), ?d)"
    by code_simp
  then have "db_step empty_db ?d" by (rule db_step.image_created)
  then have "db_step\<^sup>*\<^sup>* empty_db ?d" by (rule r_into_rtranclp)
  from rtranclp.rtrancl_into_rtrancl [OF this, of "start_capture 1 4096 ?d"]
  have "db_step\<^sup>*\<^sup>* empty_db (start_capture 1 4096 ?d)" by (simp add: db_step.capture_started)
  from rtranclp.rtrancl_into_rtrancl [OF this, of "mark_image_faulted 1 ''no disk'' (start_capture 1 4096 ?d)"]
  have "db_step\<^sup>*\<^sup>* empty_db (mark_image_faulted 1 ''no disk'' (start_capture 1 4096 ?d))"
    by (simp add: db_step.image_faulted)
  from database_stays_well_typed [OF this] show ?thesis by blast
qed

subsection \<open>Operations that leave the tasks alone\<close>

definition same_tasks :: "db \<Rightarrow> db \<Rightarrow> bool" where
  "same_tasks d d' \<longleftrightarrow> tasks d' = tasks d \<and> task_hosts d' = task_hosts d \<and> script_runs d' = script_runs d"

lemma same_tasks_refl [simp]: "same_tasks d d"
  by (simp add: same_tasks_def)

lemma same_tasks_trans: "same_tasks d d1 \<Longrightarrow> same_tasks d1 d2 \<Longrightarrow> same_tasks d d2"
  by (simp add: same_tasks_def)

lemma same_tasks_inv: "same_tasks d d' \<Longrightarrow> db_ok d' \<Longrightarrow> repo_inv d \<Longrightarrow> repo_inv d'"
  by (simp add: repo_inv_def rows_ok_def runs_ok_def same_tasks_def)

lemma same_tasks_images:
  "same_tasks d (update_image i f d)" "same_tasks d (start_capture i sector d)" "same_tasks d (write_root i n d)"
  "same_tasks d (mark_image_finished i now d)" "same_tasks d (mark_image_faulted i e d)"
  by (simp_all add: same_tasks_def update_image_def start_capture_def write_root_def mark_image_finished_def
    mark_image_faulted_def Let_def)

lemma save_partition_same_tasks: "save_partition i n fs sz u l d = Inr (p, d') \<Longrightarrow> same_tasks d d'"
  by (auto simp: save_partition_def Let_def same_tasks_def split: if_splits)

lemma set_root_partition_same_tasks: "set_root_partition i n d = Inr (im, d') \<Longrightarrow> same_tasks d d'"
  by (auto simp: set_root_partition_def Let_def and_then_Inr same_tasks_images)

lemma upsert_host_same_tasks: "upsert_host forced given disk ip d = Inr (h, d') \<Longrightarrow> same_tasks d d'"
  by (erule upsert_host_Inr) (auto simp: same_tasks_def upsert_row_def)

lemma set_partitions_same_tasks: "set_partitions hid ps d = Inr d' \<Longrightarrow> same_tasks d d'"
  unfolding set_partitions_def
  by (erule try_fold_inv [where P = "same_tasks d"])
    (auto simp: same_tasks_def insert_host_partition_def split: if_splits)

subsection \<open>Script runs of running hosts\<close>

lemma state_at_row:
  assumes "state_at d t h = Some st"
  obtains r where "r \<in> set (task_hosts d)" "is_row t h r" "thr_state r = st"
proof -
  from assms obtain r where r: "row_at d t h = Some r" "thr_state r = st" by (auto simp: state_at_def)
  with row_at_key [OF r(1)] show thesis by (intro that [of r]) (auto simp: is_row_def)
qed

lemma start_script_run_inv:
  assumes "repo_inv d" and "state_at d t h = Some Running" and s: "start_script_run t h p name now d = Inr d'"
  shows "repo_inv d'"
proof -
  obtain r where r: "r \<in> set (task_hosts d)" "is_row t h r" "thr_state r = Running"
    using state_at_row [OF assms(2)] .
  have same: "task_hosts d' = task_hosts d"
    and runs: "\<forall>x \<in> set (script_runs d'). x \<in> set (script_runs d) \<or> srr_task x = t \<and> srr_host x = h"
    using s by (auto simp: start_script_run_def Let_def split: if_splits)
  have "db_ok d'" using assms(1) s start_script_run_db_ok by (auto simp: repo_inv_def)
  moreover have "rows_ok d'" using assms(1) by (simp add: repo_inv_def rows_ok_def same)
  moreover have "runs_ok d'"
    using assms(1) runs r unfolding repo_inv_def runs_ok_def same by (fastforce simp: active_def)
  ultimately show ?thesis by (simp add: repo_inv_def)
qed

lemma runs_updated_inv:
  assumes "repo_inv d" and "db_ok d'" and "task_hosts d' = task_hosts d"
    and "script_runs d' = update_where P f (script_runs d)"
    and "\<And>r. srr_task (f r) = srr_task r \<and> srr_host (f r) = srr_host r \<and> (srr_finished_at (f r) = None \<longrightarrow> srr_finished_at r = None)"
  shows "repo_inv d'"
  using assms unfolding repo_inv_def rows_ok_def runs_ok_def by (simp add: ball_update_where)

lemma append_script_output_inv:
  assumes "repo_inv d" and a: "append_script_output t h p u d = Inr d'"
  shows "repo_inv d'"
proof -
  let ?open = "\<lambda>r. run_key r = (t, h, p) \<and> srr_finished_at r = None"
  let ?f = "\<lambda>r. r\<lparr>srr_bytes := srr_bytes r + int (length u)\<rparr>"
  have "db_ok d'" using assms append_script_output_db_ok by (auto simp: repo_inv_def)
  moreover have "task_hosts d' = task_hosts d \<and> script_runs d' = update_where ?open ?f (script_runs d)"
    using a by (auto simp: append_script_output_def Let_def result_simps insert_chunks split: option.splits)
  ultimately show ?thesis by (intro runs_updated_inv [OF assms(1), where P = ?open and f = ?f]) auto
qed

lemma finish_script_run_inv:
  assumes "repo_inv d" and f: "finish_script_run t h p code now d = Inr d'"
  shows "repo_inv d'"
proof -
  let ?open = "\<lambda>r. run_key r = (t, h, p) \<and> srr_finished_at r = None"
  let ?f = "\<lambda>r. r\<lparr>srr_exit_code := code, srr_finished_at := Some now\<rparr>"
  have "db_ok d'" using assms finish_script_run_db_ok by (auto simp: repo_inv_def)
  moreover have "task_hosts d' = task_hosts d \<and> script_runs d' = update_where ?open ?f (script_runs d)"
    using f by (auto simp: finish_script_run_def Let_def split: if_splits)
  ultimately show ?thesis by (intro runs_updated_inv [OF assms(1), where P = ?open and f = ?f]) auto
qed

lemma record_output_inv: "repo_inv d \<Longrightarrow> record_output run events pending d = (r, d') \<Longrightarrow> repo_inv d'"
proof (induction run events pending d arbitrary: r d' rule: record_output.induct)
  case (1 run pending d)
  then show ?case
    by (auto simp: append_text_def Let_def split: prod.splits sum.splits if_splits dest: append_script_output_inv)
next
  case (2 run bytes events pending d)
  show ?case
  proof (cases "SCRIPT_OUTPUT_TAIL_BYTES \<le> length (pending @ bytes)")
    case False
    with 2 show ?thesis by (auto simp: Let_def)
  next
    case True
    obtain decoded rest where dec: "decoded_prefix (pending @ bytes) = (decoded, rest)" by fastforce
    show ?thesis
    proof (cases "append_text run decoded d")
      case (Inl e)
      with 2(3,4) True dec show ?thesis by (simp add: Let_def)
    next
      case (Inr d1)
      then have "repo_inv d1"
        using 2(3) by (auto simp: append_text_def split: if_splits dest: append_script_output_inv)
      with 2(1) [OF refl True dec [symmetric] refl Inr] 2(4) True dec Inr show ?thesis by (simp add: Let_def)
    qed
  qed
next
  case (3 run e events pending d)
  then show ?case by simp
next
  case (4 run events pending d)
  obtain decoded rest where dec: "decoded_prefix pending = (decoded, rest)" by fastforce
  show ?case
  proof (cases "append_text run decoded d")
    case (Inl e)
    with 4(2,3) dec show ?thesis by simp
  next
    case (Inr d1)
    then have "repo_inv d1"
      using 4(2) by (auto simp: append_text_def split: if_splits dest: append_script_output_inv)
    with 4(1) [OF dec [symmetric] refl Inr] 4(3) dec Inr show ?thesis by simp
  qed
qed

end
