(* ===== verification/Agent_Sessions.thy ===== *)
theory Agent_Sessions
  imports Agent_Api Database
begin

text \<open>
  What the agents' requests do to the server, over whole requests and sequences of them: the database invariant,
  the task a host is told, repeated reports, what a finished capture holds and a deployment reads back.
\<close>

subsection \<open>The next task of a host\<close>

lemma get_next_get:
  assumes "db_ok d" and "get_next d h = Some t"
  shows "get d (t_id t) = Inr t"
proof -
  obtain tr r q where q: "host_queue d h = (tr, r) # q" and t: "t = task_of_row d tr"
    using assms(2) by (auto simp: get_next_def split: list.splits)
  have "(tr, r) \<in> set (host_queue d h)" by (simp add: q)
  then have tr: "tr \<in> set (tasks d)" by (auto simp: host_queue_def)
  have "distinct (map tr_id (tasks d))" using assms(1) by (simp add: db_ok_def unique_keys_def)
  with tr have "List.find (\<lambda>r. tr_id r = tr_id tr) (tasks d) = Some tr"
    by (simp add: find_unique)
  then show ?thesis by (simp add: t get_def task_of_row_def)
qed

lemma get_next_state:
  assumes "db_ok d" and "get_next d h = Some t"
  obtains r where "row_at d (t_id t) h = Some r" "active (thr_state r)"
proof -
  obtain r where r: "r \<in> set (task_hosts d)" "is_row (t_id t) h r" "active (thr_state r)"
    using get_next_open [OF assms(2)] .
  have "row_at d (t_id t) h = Some r"
    using row_at_unique [of d r] assms(1) r(1,2) by (simp add: db_ok_def is_row_def)
  from this r(3) show thesis by (rule that)
qed

lemma get_next_hosts_in:
  assumes "db_ok d" and "get_next d h = Some t"
  shows "h' \<in> set (hosts_in st t) \<longleftrightarrow> state_at d (t_id t) h' = Some st"
  by (rule set_hosts_in [OF assms(1) get_next_get [OF assms]])


subsection \<open>What a host is told\<close>

lemma get_mark_failed_other:
  assumes "t' \<noteq> t"
  shows "get (mark_failed t h e now d) t' = get d t'"
proof -
  let ?d = "mark_failed t h e now d"
  have "filter (\<lambda>r. thr_task r = t') (map (\<lambda>r. if is_row t h r \<and> (thr_state r = Pending \<or> thr_state r = Running)
      then r\<lparr>thr_state := Failed, thr_finished_at := Some now, thr_error := Some e\<rparr> else r) rs) = filter (\<lambda>r. thr_task r = t') rs" for rs
    using assms by (induction rs) (auto simp: is_row_def)
  then have "rows_of_task ?d t' = rows_of_task d t'"
    by (simp add: rows_of_task_def mark_failed_def update_task_hosts_def Let_def update_where_def)
  moreover have "tasks ?d = tasks d" "images ?d = images d" "hosts ?d = hosts d"
    by (simp_all add: mark_failed_def update_task_hosts_def Let_def)
  ultimately show ?thesis
    by (auto simp: get_def task_of_row_def task_host_of_def [abs_def] host_of_def image_of_def split: option.split dest!: find_member)
qed

definition passed_over :: "time \<Rightarrow> int \<Rightarrow> db \<Rightarrow> int \<Rightarrow> task_host_row \<Rightarrow> bool" where
  "passed_over now h d t row \<longleftrightarrow>
     (\<exists>x tk e. row_at d t h = Some x \<and> active (thr_state x) \<and> get d t = Inr tk \<and> is_dispatchable_to tk h \<and>
        task_work tk h = Inl e \<and>
        row = x\<lparr>thr_state := Failed, thr_finished_at := Some now, thr_error := Some (app_error_display e)\<rparr>)"

lemma current_task_result:
  "db_ok d \<Longrightarrow> current_task now h d = (r, d') \<Longrightarrow>
   db_ok d' \<and>
   (case r of
      Some w \<Rightarrow> \<exists>t. get_next d' h = Some t \<and> is_dispatchable_to t h \<and> at_id w = t_id t \<and> task_work t h = Inr (at_work w)
    | None \<Rightarrow> \<forall>t. get_next d' h = Some t \<longrightarrow> \<not> is_dispatchable_to t h) \<and>
   (\<forall>t' h'. row_at d' t' h' = row_at d t' h' \<or>
      h' = h \<and> (\<exists>row. row_at d' t' h = Some row \<and> passed_over now h d t' row))"
proof (induction now h d rule: current_task.induct)
  case (1 now h d)
  show ?case
  proof (cases "get_next d h")
    case None
    with "1.prems" show ?thesis by (auto simp: current_task.simps [of now h d])
  next
    case (Some t)
    show ?thesis
    proof (cases "is_dispatchable_to t h \<and> (\<exists>e. task_work t h = Inl e)")
      case False
      with "1.prems" Some show ?thesis
        by (cases "task_work t h") (auto simp: current_task.simps [of now h d] split: if_splits)
    next
      case True
      then obtain e where e: "is_dispatchable_to t h" "task_work t h = Inl e" by blast
      let ?d1 = "mark_failed (t_id t) h (app_error_display e) now d"
      have ok: "db_ok ?d1" by (rule repo_step_db_ok [OF repo_step.failed "1.prems"(1)])
      have rec: "current_task now h ?d1 = (r, d')"
        using "1.prems"(2) Some e by (simp add: current_task.simps [of now h d])
      note IH = "1.IH" [OF Some _ e(2) ok rec, simplified, OF e(1)]
      obtain x where x: "row_at d (t_id t) h = Some x" "active (thr_state x)"
        using get_next_state [OF "1.prems"(1) Some] .
      let ?failed = "x\<lparr>thr_state := Failed, thr_finished_at := Some now, thr_error := Some (app_error_display e)\<rparr>"
      have this_row: "passed_over now h d (t_id t) ?failed"
        unfolding passed_over_def using x e get_next_get [OF "1.prems"(1) Some] by blast
      have step: "row_at ?d1 t' h' = (if t' = t_id t \<and> h' = h then Some ?failed else row_at d t' h')" for t' h'
        using x by (cases "row_at d t' h'") (auto simp: row_at_mark_failed)
      have "row_at d' t' h' = row_at d t' h' \<or> h' = h \<and> (\<exists>row. row_at d' t' h = Some row \<and> passed_over now h d t' row)" for t' h'
      proof -
        note k = conjunct2 [OF conjunct2 [OF IH], rule_format, of t' h']
        show ?thesis
        proof (cases "t' = t_id t")
          case True
          then have "\<not> passed_over now h ?d1 t' row" for row
            using step [of t' h] by (auto simp: passed_over_def active_def)
          with k have same: "row_at d' t' h' = row_at ?d1 t' h'" by blast
          show ?thesis
          proof (cases "h' = h")
            case True
            with \<open>t' = t_id t\<close> have "row_at d' t' h = Some ?failed" using same step [of t' h'] by simp
            with True \<open>t' = t_id t\<close> this_row show ?thesis by blast
          next
            case False
            with same step [of t' h'] show ?thesis by simp
          qed
        next
          case False
          then have "row_at ?d1 t' h'' = row_at d t' h''" for h'' using step [of t' h''] by simp
          moreover from this have "passed_over now h ?d1 t' row \<longleftrightarrow> passed_over now h d t' row" for row
            using get_mark_failed_other [OF False] by (simp add: passed_over_def)
          ultimately show ?thesis using k by simp
        qed
      qed
      with IH show ?thesis by blast
    qed
  qed
qed

text \<open>C18: looking up a host's current task always returns. It names the task at the head of the host's queue with the
  work this task has for the host, or nothing when the queue is empty or its head is a multicast not yet started there. On
  the way it fails only rows of this host that are still open and whose task is to be dispatched to it but yields no work for it
  (\<open>task_work\<close> is an error), each with the text of that error; every other row is left as it was.\<close>

theorem current_task_correct:
  assumes "db_ok d"
  shows "\<exists>r d'. current_task now h d = (r, d') \<and>
    (case r of
       Some w \<Rightarrow> \<exists>t. get_next d' h = Some t \<and> is_dispatchable_to t h \<and> at_id w = t_id t \<and> task_work t h = Inr (at_work w)
     | None \<Rightarrow> \<forall>t. get_next d' h = Some t \<longrightarrow> \<not> is_dispatchable_to t h) \<and>
    (\<forall>t' h'. row_at d' t' h' = row_at d t' h' \<or>
       h' = h \<and> (\<exists>x tk e. row_at d t' h = Some x \<and> active (thr_state x) \<and>
         get d t' = Inr tk \<and> is_dispatchable_to tk h \<and> task_work tk h = Inl e \<and>
         row_at d' t' h = Some (x\<lparr>thr_state := Failed, thr_finished_at := Some now, thr_error := Some (app_error_display e)\<rparr>)))"
proof -
  note result = current_task_result [OF assms, of now h "fst (current_task now h d)" "snd (current_task now h d)", simplified]
  show ?thesis
  proof (intro exI conjI allI)
    show "current_task now h d = (fst (current_task now h d), snd (current_task now h d))" by simp
    show "case fst (current_task now h d) of
        Some w \<Rightarrow> \<exists>t. get_next (snd (current_task now h d)) h = Some t \<and> is_dispatchable_to t h \<and> at_id w = t_id t \<and>
          task_work t h = Inr (at_work w)
      | None \<Rightarrow> \<forall>t. get_next (snd (current_task now h d)) h = Some t \<longrightarrow> \<not> is_dispatchable_to t h"
      using result by blast
    fix t' h'
    show "row_at (snd (current_task now h d)) t' h' = row_at d t' h' \<or>
       h' = h \<and> (\<exists>x tk e. row_at d t' h = Some x \<and> active (thr_state x) \<and>
         get d t' = Inr tk \<and> is_dispatchable_to tk h \<and> task_work tk h = Inl e \<and>
         row_at (snd (current_task now h d)) t' h =
           Some (x\<lparr>thr_state := Failed, thr_finished_at := Some now, thr_error := Some (app_error_display e)\<rparr>))"
      using conjunct2 [OF conjunct2 [OF result], rule_format, of t' h'] unfolding passed_over_def by metis
  qed
qed

text \<open>A reboot waits behind a deployment that has lost its image.\<close>

definition demo_stuck :: db where
  "demo_stuck = demo_db\<lparr>
     tasks := [\<lparr>tr_id = 1, tr_type = Deploy, tr_image = None, tr_created_at = 5\<rparr>,
               \<lparr>tr_id = 2, tr_type = Reboot, tr_image = None, tr_created_at = 6\<rparr>],
     task_hosts := [new_row 1 [] 2, new_row 2 [] 2],
     next_task := 3\<rparr>"

lemma demo_stuck_ok: "db_ok demo_stuck"
  by (simp add: demo_stuck_def demo_db_def empty_db_def db_ok_defs new_row_def th_key_def)

theorem current_task_correct_witness:
  "\<exists>d' tk e row. current_task 7 2 demo_stuck = (Some \<lparr>at_id = 2, at_work = RebootWork\<rparr>, d') \<and>
     get demo_stuck 1 = Inr tk \<and> task_work tk 2 = Inl e \<and>
     row_at d' 1 2 = Some row \<and> thr_state row = Failed \<and> thr_error row = Some (app_error_display e)"
proof -
  let ?r = "current_task 7 2 demo_stuck"
  have told: "fst ?r = Some \<lparr>at_id = 2, at_work = RebootWork\<rparr>" by code_simp
  have "state_at (snd ?r) 1 2 = Some Failed" "state_at demo_stuck 1 2 = Some Pending" by code_simp+
  then have "row_at (snd ?r) 1 2 \<noteq> row_at demo_stuck 1 2" by (auto simp: state_at_def)
  moreover obtain r d' where run: "?r = (r, d')" and rows: "\<forall>t' h'. row_at d' t' h' = row_at demo_stuck t' h' \<or>
       h' = 2 \<and> (\<exists>x tk e. row_at demo_stuck t' 2 = Some x \<and> active (thr_state x) \<and>
         get demo_stuck t' = Inr tk \<and> is_dispatchable_to tk 2 \<and> task_work tk 2 = Inl e \<and>
         row_at d' t' 2 = Some (x\<lparr>thr_state := Failed, thr_finished_at := Some 7, thr_error := Some (app_error_display e)\<rparr>))"
    using current_task_correct [OF demo_stuck_ok, of 7 2] by blast
  ultimately obtain x tk e where "get demo_stuck 1 = Inr tk" "task_work tk 2 = Inl e"
    "row_at d' 1 2 = Some (x\<lparr>thr_state := Failed, thr_finished_at := Some 7, thr_error := Some (app_error_display e)\<rparr>)"
    by (metis snd_conv)
  with run told show ?thesis by (intro exI conjI) auto
qed

subsection \<open>Relations that requests keep\<close>

text \<open>A reflexive and transitive relation between the states before and after, kept by a handler when its calls keep it.\<close>

locale kept =
  fixes R :: "'f server \<Rightarrow> 'f server \<Rightarrow> bool"
  assumes same: "R s s" and chain: "R s s1 \<Longrightarrow> R s1 s2 \<Longrightarrow> R s s2"
begin

lemma keeps_basic:
  "h_keeps R (h_return x)" "h_keeps R (h_throw e)" "h_keeps R (h_guard ok e)" "h_keeps R (h_of r)" "h_keeps R (h_read f)"
  by (auto simp: h_keeps_def h_return_def h_throw_def h_guard_def h_of_def h_read_def same split: if_splits)

lemma keeps_bind: "h_keeps R m \<Longrightarrow> (\<And>x. h_keeps R (f x)) \<Longrightarrow> h_keeps R (h_bind m f)"
  by (rule h_keeps_bind) (auto simp: transp_def intro: chain)

lemma keeps_cases:
  "(b \<Longrightarrow> h_keeps R m) \<Longrightarrow> (\<not> b \<Longrightarrow> h_keeps R m') \<Longrightarrow> h_keeps R (if b then m else m')"
  "(\<And>a b. h_keeps R (f a b)) \<Longrightarrow> h_keeps R (case p of (a, b) \<Rightarrow> f a b)"
  "h_keeps R m \<Longrightarrow> (\<And>y. h_keeps R (g y)) \<Longrightarrow> h_keeps R (case x of None \<Rightarrow> m | Some y \<Rightarrow> g y)"
  by (auto split: prod.split option.split)

lemma keeps_drop: "h_keeps R m \<Longrightarrow> h_keeps R (h_drop m)"
  unfolding h_drop_def by (intro keeps_bind keeps_basic)

lemmas keeps_rules = keeps_basic keeps_bind keeps_cases

end

text \<open>Requests that only read.\<close>

interpretation reads: kept "\<lambda>s s'. s' = s"
  by unfold_locales auto

lemma readers:
  "h_keeps (\<lambda>s s'. s' = s) (get_next_task mac)"
  "h_keeps (\<lambda>s s'. s' = s) (task_to_settle mac tid st)"
  "h_keeps (\<lambda>s s'. s' = s) (running_capture mac tid accepts)"
  "h_keeps (\<lambda>s s'. s' = s) (get_restore_task_and_verify mac tid accepts)"
  "h_keeps (\<lambda>s s'. s' = s) (running_restore_task mac tid)"
  "h_keeps (\<lambda>s s'. s' = s) (planned_scripts tid h im)"
proof -
  show nt: "h_keeps (\<lambda>s s'. s' = s) (get_next_task mac)" for mac
    unfolding get_next_task_def by (intro reads.keeps_rules)
  show "h_keeps (\<lambda>s s'. s' = s) (task_to_settle mac tid st)"
    unfolding task_to_settle_def Let_def by (intro reads.keeps_rules)
  show "h_keeps (\<lambda>s s'. s' = s) (running_capture mac tid accepts)"
    unfolding running_capture_def by (intro nt reads.keeps_rules)
  show verify: "h_keeps (\<lambda>s s'. s' = s) (get_restore_task_and_verify mac tid accepts)" for mac accepts
    unfolding get_restore_task_and_verify_def by (intro nt reads.keeps_rules)
  show "h_keeps (\<lambda>s s'. s' = s) (running_restore_task mac tid)"
    unfolding running_restore_task_def by (intro verify reads.keeps_rules)
  show "h_keeps (\<lambda>s s'. s' = s) (planned_scripts tid h im)"
    unfolding planned_scripts_def by (intro reads.keeps_rules)
qed

lemmas readersD = readers [THEN h_keepsD]

text \<open>What the readers know about the task they return.\<close>

lemma h_read_Some: "h_read f s = (Some r, s') \<longleftrightarrow> f (sv_db s) = r \<and> s' = s"
  by (auto simp: h_read_def)

lemma h_of_Some: "h_of r s = (Some r', s') \<longleftrightarrow> r = r' \<and> s' = s"
  by (auto simp: h_of_def)

lemmas h_done = h_bind_Inr h_read_Some h_of_Some h_guard_Inr h_return_Inr ok_or_Inr

lemma get_next_task_Inr:
  "get_next_task mac s = (Some (Inr t), s') \<longleftrightarrow>
   (\<exists>host. get_by_mac mac (sv_db s) = Inr host \<and> get_next (sv_db s) (h_id host) = Some t) \<and> s' = s"
  by (auto simp: get_next_task_def h_done)

lemma running_restore_task_Inr:
  "running_restore_task mac tid s = (Some (Inr run), s') \<longleftrightarrow>
   (\<exists>host t. get_by_mac mac (sv_db s) = Inr host \<and> get_next (sv_db s) (h_id host) = Some t \<and> t_id t = tid \<and>
      restores (t_type t) \<and> t_image_id t = Some (rr_image run) \<and> h_id host = rr_host run \<and>
      h_id host \<in> set (hosts_in Running t)) \<and> s' = s"
proof -
  have verify: "get_restore_task_and_verify mac tid accepts s = (Some (Inr (t, i)), s') \<longleftrightarrow>
     (\<exists>host. get_by_mac mac (sv_db s) = Inr host \<and> get_next (sv_db s) (h_id host) = Some t) \<and> s' = s \<and>
     t_id t = tid \<and> accepts (t_type t) \<and> t_image_id t = Some i" for accepts t i s'
    by (auto simp: get_restore_task_and_verify_def h_done get_next_task_Inr)
  show ?thesis
    by (cases run) (auto simp: running_restore_task_def h_done verify split: prod.splits)
qed

subsection \<open>The invariant of the database\<close>

definition keeps_inv :: "'f server \<Rightarrow> 'f server \<Rightarrow> bool" where
  "keeps_inv s s' \<longleftrightarrow> (repo_inv (sv_db s) \<longrightarrow> repo_inv (sv_db s'))"

interpretation inv: kept keeps_inv
  by unfold_locales (auto simp: keeps_inv_def)

lemma inv_set_db: "(\<And>d. repo_inv d \<Longrightarrow> repo_inv (f d)) \<Longrightarrow> h_keeps keeps_inv (h_set_db f)"
  by (simp add: h_keeps_def keeps_inv_def h_set_db_def)

lemma inv_db: "(\<And>d x d'. repo_inv d \<Longrightarrow> f d = Inr (x, d') \<Longrightarrow> repo_inv d') \<Longrightarrow> h_keeps keeps_inv (h_db f)"
  by (auto simp: h_keeps_def keeps_inv_def h_db_def split: sum.splits)

lemma inv_db_unit: "(\<And>d d'. repo_inv d \<Longrightarrow> f d = Inr d' \<Longrightarrow> repo_inv d') \<Longrightarrow> h_keeps keeps_inv (h_db_unit f)"
  unfolding h_db_unit_def by (rule inv_db) (auto simp: and_then_Inr)

lemma inv_run: "(\<And>d r d'. repo_inv d \<Longrightarrow> f d = (r, d') \<Longrightarrow> repo_inv d') \<Longrightarrow> h_keeps keeps_inv (h_run f)"
  by (auto simp: h_keeps_def keeps_inv_def h_run_def split: prod.splits)

lemma inv_other:
  "h_keeps keeps_inv (h_disk m)" "h_keeps keeps_inv (h_board g)" "h_keeps keeps_inv (h_registry u)"
  "h_keeps keeps_inv h_wake" "h_keeps keeps_inv (h_register h)" "h_keeps keeps_inv (receive_mail reg)"
  by (auto simp: h_keeps_def keeps_inv_def h_disk_def h_board_def h_registry_def h_wake_def h_register_def
    receive_mail_def split: prod.splits)

lemma reads_inv: "h_keeps (\<lambda>s s'. s' = s) m \<Longrightarrow> h_keeps keeps_inv m"
  by (auto simp: h_keeps_def keeps_inv_def)

text \<open>The writes of the requests.\<close>

lemma inv_intro: "repo_inv d \<Longrightarrow> same_tasks d d' \<Longrightarrow> (db_ok d \<Longrightarrow> db_ok d') \<Longrightarrow> repo_inv d'"
  by (rule same_tasks_inv) (simp_all add: repo_inv_def)

lemma inv_writes:
  "h_keeps keeps_inv (h_set_db (start t h now))" "h_keeps keeps_inv (h_set_db (mark_finished t h now))"
  "h_keeps keeps_inv (h_set_db (mark_failed t h e now))" "h_keeps keeps_inv (h_set_db (start_capture i sector))"
  "h_keeps keeps_inv (h_set_db (mark_image_faulted i e))" "h_keeps keeps_inv (h_set_db (mark_image_finished i now))"
  "h_keeps keeps_inv (h_db (save_partition i n fs sz u l))" "h_keeps keeps_inv (h_db (set_root_partition i root))"
  "h_keeps keeps_inv (h_db (upsert_host forced given disk ip))" "h_keeps keeps_inv (h_db_unit (set_partitions hid ps))"
  "h_keeps keeps_inv (h_db_unit (finish_script_run t h p code now))" "h_keeps keeps_inv (h_run (record_output run es pending))"
proof -
  note [intro!] = inv_set_db inv_db inv_db_unit inv_run
  show "h_keeps keeps_inv (h_set_db (start t h now))" "h_keeps keeps_inv (h_set_db (mark_finished t h now))"
    "h_keeps keeps_inv (h_set_db (mark_failed t h e now))"
    by (auto intro: repo_step_inv repo_step.intros)
  show "h_keeps keeps_inv (h_set_db (start_capture i sector))" "h_keeps keeps_inv (h_set_db (mark_image_faulted i e))"
    "h_keeps keeps_inv (h_set_db (mark_image_finished i now))"
    using start_capture_db_ok image_update_db_ok by (auto intro: same_tasks_images(2,4,5) inv_intro)
  show "h_keeps keeps_inv (h_db (save_partition i n fs sz u l))"
    by (auto intro: inv_intro save_partition_same_tasks save_partition_db_ok)
  show "h_keeps keeps_inv (h_db (set_root_partition i root))"
    by (auto intro: inv_intro set_root_partition_same_tasks set_root_partition_db_ok)
  show "h_keeps keeps_inv (h_db (upsert_host forced given disk ip))"
    by (auto intro: inv_intro upsert_host_same_tasks upsert_host_db_ok)
  show "h_keeps keeps_inv (h_db_unit (set_partitions hid ps))"
    by (auto intro: inv_intro set_partitions_same_tasks set_partitions_db_ok)
  show "h_keeps keeps_inv (h_db_unit (finish_script_run t h p code now))"
    by (auto intro: finish_script_run_inv)
  show "h_keeps keeps_inv (h_run (record_output run es pending))"
    by (auto intro: record_output_inv)
qed

lemma current_task_inv: "repo_inv d \<Longrightarrow> current_task now h d = (r, d') \<Longrightarrow> repo_inv d'"
proof (induction now h d rule: current_task.induct)
  case (1 now h d)
  then show ?case
    using repo_step_inv [OF repo_step.failed]
    by (auto simp: current_task.simps [of now h d] split: option.splits if_splits sum.splits)
qed

lemma inv_current_task: "h_keeps keeps_inv (h_current_task now h)"
  unfolding h_current_task_def
  by (rule inv_run) (auto simp: apfst_def map_prod_def split: prod.splits dest: current_task_inv)

lemma inv_stream_turn: "h_keeps keeps_inv (stream_turn hs e)"
  by (cases "(hs, e)" rule: stream_turn.cases)
    (auto intro!: inv.keeps_rules inv_other h_keeps_try inv_writes)

lemma inv_serve_loop: "h_keeps keeps_inv (serve_loop now hs es)"
proof (induction now hs es rule: serve_loop.induct)
  case (2 now hs e delivered es)
  show ?case
    unfolding serve_loop.simps Let_def
    by (auto intro!: inv.keeps_rules inv_stream_turn inv_current_task split: turn.splits)
       (use 2 in \<open>auto simp: Let_def\<close>)
qed (simp add: inv.keeps_basic)

lemma inv_serve_stream: "h_keeps keeps_inv (serve_stream now hs delivered es)"
  unfolding serve_stream_def by (intro inv.keeps_rules inv_serve_loop inv_other)

lemma inv_start_stream: "h_keeps keeps_inv (start_stream forced now agent q)"
  unfolding start_stream_def by (intro inv.keeps_rules inv_writes inv_other inv_current_task)

lemma inv_upload_script_output: "h_keeps keeps_inv (upload_script_output now mac tid p name body)"
  unfolding upload_script_output_def
proof (rule inv.keeps_bind, rule inv.keeps_basic(4), rule inv.keeps_bind, rule inv.keeps_basic(3))
  let ?rest = "\<lambda>run. h_bind (h_db_unit (start_script_run tid (rr_host run) p name now))
      (\<lambda>_. h_run (record_output \<lparr>rk_task_id = tid, rk_host_id = rr_host run, rk_position = p\<rparr> body []))"
  show "h_keeps keeps_inv (h_bind (running_restore_task mac tid) ?rest)"
    unfolding h_keeps_def keeps_inv_def
  proof (intro allI impI)
    fix s r s'
    assume run: "h_bind (running_restore_task mac tid) ?rest s = (r, s')" and ok: "repo_inv (sv_db s)"
    from run show "repo_inv (sv_db s')"
    proof (cases rule: h_bind_cases)
      case (go k s1)
      then have s1: "s1 = s" and h: "state_at (sv_db s) tid (rr_host k) = Some Running"
        using get_next_hosts_in [of "sv_db s"] ok by (auto simp: running_restore_task_Inr repo_inv_def)
      from go(2) show ?thesis
      proof (cases rule: h_bind_cases)
        case (go u s2)
        then have "repo_inv (sv_db s2)"
          using start_script_run_inv [OF ok h] unfolding s1
          by (auto simp: h_db_unit_def h_db_def and_then_Inr split: sum.splits)
        then show ?thesis using h_keepsD [OF inv_writes(12) go(2)] by (simp add: keeps_inv_def)
      qed (use s1 ok in \<open>auto simp: h_db_unit_def h_db_def split: sum.splits\<close>)
    qed (use ok in \<open>auto dest: readersD(5)\<close>)
  qed
qed

lemma inv_captures: "h_keeps keeps_inv (finish_capture env now t h)" "h_keeps keeps_inv (fail_capture t e)"
proof -
  have "h_keeps keeps_inv (incomplete_capture env t i)" for i
    unfolding incomplete_capture_def by (intro inv.keeps_rules inv_other)
  then show "h_keeps keeps_inv (finish_capture env now t h)" "h_keeps keeps_inv (fail_capture t e)"
    unfolding finish_capture_def fail_capture_def
    by (auto split: option.split bool.split intro!: inv.keeps_rules inv_writes)
qed

lemma inv_request: "h_keeps keeps_inv (handle_request env forced now mac req)"
proof (cases req)
  case (Started tid sector)
  show ?thesis
    unfolding Started handle_request.simps started_def Let_def
    by (intro inv.keeps_rules inv_other inv_writes)
next
  case (Finished tid)
  show ?thesis
    unfolding Finished handle_request.simps task_finished_def
    by (intro inv.keeps_rules inv_other inv_writes reads_inv [OF readers(2)] inv_captures)
next
  case (Failed_report tid e)
  show ?thesis
    unfolding Failed_report handle_request.simps task_failed_def
    by (intro inv.keeps_rules inv_other inv_writes reads_inv [OF readers(2)] inv_captures)
next
  case (Stream ip q delivered es)
  show ?thesis
    unfolding Stream handle_request.simps
    by (intro inv.keeps_rules inv.keeps_drop inv_start_stream inv_serve_stream)
next
  case (Put_script_output tid p name body)
  show ?thesis unfolding Put_script_output handle_request.simps by (rule inv_upload_script_output)
qed (simp only: handle_request.simps upload_partition_data_def upload_partition_table_def report_root_partition_def
    download_partitions_def download_partition_table_def download_partition_data_def post_install_plan_def
    finish_script_def disconnect_def,
  intro inv.keeps_rules inv.keeps_drop inv_other inv_writes reads_inv [OF readers(1)] reads_inv [OF readers(3)]
    reads_inv [OF readers(4)] reads_inv [OF readers(5)] reads_inv [OF readers(6)])+

fun handle_requests ::
  "environment \<Rightarrow> (string option \<Rightarrow> string option) \<Rightarrow> (time \<times> string \<times> 'f request) list \<Rightarrow> 'f server \<Rightarrow> 'f server" where
  "handle_requests env forced [] s = s"
| "handle_requests env forced ((now, mac, req) # reqs) s =
     handle_requests env forced reqs (snd (handle_request env forced now mac req s))"

text \<open>C14: whatever agents send, in whatever order and whether it is accepted, refused or cut half-way: the database keeps its keys and
  references, every host row keeps its times and error in step with its state, and no script run is left open for a host that is
  neither pending nor running.\<close>

theorem agents_keep_invariant:
  assumes "repo_inv (sv_db s)"
  shows "repo_inv (sv_db (handle_requests env forced reqs s))"
  using assms
proof (induction reqs arbitrary: s)
  case (Cons q reqs)
  obtain now mac req where q: "q = (now, mac, req)" by (cases q)
  have "keeps_inv s (snd (handle_request env forced now mac req s))"
    by (rule h_keepsD [OF inv_request prod.collapse [symmetric]])
  then show ?case using Cons by (simp add: q keeps_inv_def)
qed simp

text \<open>A server for the witnesses.\<close>

definition demo_agents :: "db \<Rightarrow> nat server" where
  "demo_agents d = \<lparr>sv_db = d, sv_disk = \<lparr>dk_base = True, dk_dirs = Map.empty, dk_seq = 0, dk_faults = []\<rparr>,
     sv_registry = new_registry, sv_board = empty_snapshot, sv_wakes = 0\<rparr>"

definition demo_environment :: environment where
  "demo_environment = \<lparr>en_base = ''/images'', en_pid = 1, en_listing = (\<lambda>_. []), en_proxy = None, en_variables = []\<rparr>"

theorem agents_keep_invariant_witness:
  "repo_inv (sv_db (handle_requests demo_environment (\<lambda>ip. ip)
     [(5, ''52:54:00:00:00:02'', Started 1 None), (6, ''52:54:00:00:00:02'', Failed_report 1 ''no disk'')] (demo_agents demo_db)))"
  by (rule agents_keep_invariant) (simp add: demo_agents_def demo_db_inv)

text \<open>A lab with one image and one host, on which a task of the type \<open>ty\<close> runs.\<close>

definition demo_lab :: "task_type \<Rightarrow> image_status \<Rightarrow> db" where
  "demo_lab ty status = empty_db\<lparr>
     hosts := [\<lparr>hr_id = 1, hr_mac = ''52:54:00:00:00:01'', hr_name = ''one'', hr_disk_size = 10, hr_disk_error = None, hr_ip = None\<rparr>],
     images := [\<lparr>ir_id = 1, ir_name = ''lab'', ir_kind = Disk, ir_captured_at = None, ir_status = status,
       ir_error = None, ir_deleted_at = None, ir_root = None, ir_sector = 512\<rparr>],
     tasks := [\<lparr>tr_id = 1, tr_type = ty, tr_image = Some 1, tr_created_at = 5\<rparr>],
     task_hosts := [(new_row 1 [] 1)\<lparr>thr_state := Running, thr_started_at := Some 5\<rparr>],
     next_host := 2, next_image := 2, next_task := 2\<rparr>"

lemma demo_lab_inv: "repo_inv (demo_lab ty status)"
  by (simp add: demo_lab_def empty_db_def repo_inv_def db_ok_defs rows_ok_def runs_ok_def row_ok_def
      new_row_def th_key_def)

subsection \<open>Reports that are repeated\<close>


lemma settle_frame:
  "hosts (mark_failed t h e now d) = hosts d" "host_parts (mark_failed t h e now d) = host_parts d"
  "hosts (mark_finished t h now d) = hosts d" "host_parts (mark_finished t h now d) = host_parts d"
  "hosts (mark_image_faulted i e d) = hosts d" "host_parts (mark_image_faulted i e d) = host_parts d"
  "hosts (mark_image_finished i now d) = hosts d" "host_parts (mark_image_finished i now d) = host_parts d"
  "task_hosts (mark_image_faulted i e d) = task_hosts d" "task_hosts (mark_image_finished i now d) = task_hosts d"
  "images (mark_failed t h e now d) = images d" "images (mark_finished t h now d) = images d"
  by (simp_all add: mark_failed_def mark_finished_def update_task_hosts_def Let_def mark_image_faulted_def
    mark_image_finished_def update_image_def)

lemma row_at_images: "row_at (mark_image_faulted i e d) t h = row_at d t h" "row_at (mark_image_finished i now d) t h = row_at d t h"
  by (simp_all add: row_at_def settle_frame)

lemma task_to_settle_Inr:
  "task_to_settle mac tid st s = (Some (Inr x), s') \<longleftrightarrow>
   (\<exists>host. get_by_mac mac (sv_db s) = Inr host \<and>
     (if \<exists>t. get_next (sv_db s) (h_id host) = Some t \<and> t_id t = tid
      then x = Some (the (get_next (sv_db s) (h_id host)), h_id host)
      else x = None \<and> (\<exists>t. get (sv_db s) tid = Inr t \<and> h_id host \<in> set (hosts_in st t)))) \<and> s' = s"
proof (cases "get_by_mac mac (sv_db s)")
  case (Inl e)
  then show ?thesis by (simp add: task_to_settle_def Let_def h_done)
next
  case (Inr host)
  show ?thesis
  proof (cases "\<exists>t. get_next (sv_db s) (h_id host) = Some t \<and> t_id t = tid")
    case True
    with Inr show ?thesis by (auto simp: task_to_settle_def Let_def h_done)
  next
    case False
    then have none: "\<not> (\<exists>t \<in> set_option (get_next (sv_db s) (h_id host)). t_id t = tid)" by auto
    have "task_to_settle mac tid st s = (Some (Inr x), s') \<longleftrightarrow>
        already_settled tid st (h_id host) (sv_db s) = Inr True \<and> x = None \<and> s' = s"
      unfolding task_to_settle_def Let_def using Inr none by (auto simp: h_done h_throw_Inl)
    also have "already_settled tid st (h_id host) (sv_db s) = Inr True \<longleftrightarrow>
        (\<exists>t. get (sv_db s) tid = Inr t \<and> h_id host \<in> set (hosts_in st t))"
      by (auto simp: already_settled_def split: sum.splits app_error.splits)
    finally show ?thesis using Inr False by auto
  qed
qed


subsection \<open>The end of a capture\<close>

definition capture_complete :: "environment \<Rightarrow> task \<Rightarrow> int \<Rightarrow> 'f server \<Rightarrow> bool" where
  "capture_complete env t i s \<longleftrightarrow>
     get_partitions (sv_db s) i \<noteq> [] \<and>
     (t_type t = CapturePartition \<longrightarrow> map partition_number (get_partitions (sv_db s) i) = [1]) \<and>
     (t_type t = Capture \<longrightarrow> file_at (sv_disk s) (image_dir (en_base env) i) PARTITION_TABLE_FILE \<noteq> None)"

lemma try_exists_result:
  assumes "try_exists p name d = (Some (Inr b), d')"
  shows "(b \<longrightarrow> file_at d p name \<noteq> None) \<and> (dk_faults d = [] \<and> file_at d p name \<noteq> None \<longrightarrow> b)"
  using assms
  by (auto simp: try_exists_def io_bind_def io_try_def io_call_def io_return_def next_fault_def file_at_faults
    split: list.splits fault.splits if_splits)

lemma incomplete_capture_result:
  assumes "incomplete_capture env t i s = (Some x, s')"
  obtains incomplete where "x = Inr incomplete" "sv_db s' = sv_db s" "sv_registry s' = sv_registry s" "sv_board s' = sv_board s"
    "incomplete = None \<Longrightarrow> capture_complete env t i s"
    "capture_complete env t i s \<Longrightarrow> dk_faults (sv_disk s) = [] \<Longrightarrow> incomplete = None"
proof (cases "get_partitions (sv_db s) i = [] \<or>
    t_type t = CapturePartition \<and> map partition_number (get_partitions (sv_db s) i) \<noteq> [1] \<or> t_type t \<noteq> Capture")
  case True
  then show thesis
    using assms
    by (intro that [of "projr x"])
      (auto simp: incomplete_capture_def h_bind_def h_read_def h_return_def capture_complete_def split: if_splits)
next
  case False
  obtain r d' where e: "try_exists (image_dir (en_base env) i) PARTITION_TABLE_FILE (sv_disk s) = (r, d')" by fastforce
  have "incomplete_capture env t i s =
      h_bind (h_disk (try_exists (image_dir (en_base env) i) PARTITION_TABLE_FILE)) (\<lambda>found.
       h_return (if found then None else Some ''Capture finished without a partition table'')) s"
    using False by (simp add: incomplete_capture_def h_bind_def [of "h_read _"] h_read_def)
  with assms e obtain b where b: "r = Some (Inr b)"
      "x = Inr (if b then None else Some ''Capture finished without a partition table'')" "s' = s\<lparr>sv_disk := d'\<rparr>"
    by (auto simp: h_bind_def h_disk_def h_return_def try_exists_def io_bind_def io_try_def io_return_def
      split: option.splits sum.splits prod.splits)
  note te = try_exists_result [OF e [unfolded b(1)]]
  show thesis
    by (rule that [OF b(2)]) (use False te b(3) in \<open>auto simp: capture_complete_def split: if_splits\<close>)
qed

lemma finish_capture_cases:
  assumes "finish_capture env now t h s = (Some r, s')"
  obtains (other) "\<not> (captures (t_type t) \<and> t_image_id t \<noteq> None)" "r = Inr ()" "s' = s"
  | (complete) i where "captures (t_type t)" "t_image_id t = Some i" "capture_complete env t i s" "r = Inr ()"
      "sv_db s' = mark_image_finished i now (sv_db s)"
  | (incomplete) i e where "captures (t_type t)" "t_image_id t = Some i"
      "dk_faults (sv_disk s) = [] \<Longrightarrow> \<not> capture_complete env t i s" "r = Inl (FailedPrecondition e)"
      "sv_db s' = mark_failed (t_id t) h e now (mark_image_faulted i e (sv_db s))"
proof (cases "captures (t_type t) \<and> t_image_id t \<noteq> None")
  case False
  then show thesis
    using assms by (intro other) (auto simp: finish_capture_def h_return_Inr split: bool.splits option.splits)
next
  case True
  then obtain i where i: "captures (t_type t)" "t_image_id t = Some i" by auto
  from i assms have "h_bind (incomplete_capture env t i) (\<lambda>incomplete.
          case incomplete of
            Some error \<Rightarrow>
              h_bind (h_set_db (mark_image_faulted i error)) (\<lambda>_.
              h_bind (h_set_db (mark_failed (t_id t) h error now)) (\<lambda>_.
              h_throw (FailedPrecondition error)))
          | None \<Rightarrow> h_set_db (mark_image_finished i now)) s = (Some r, s')"
    by (simp add: finish_capture_def)
  then show thesis
  proof (cases rule: h_bind_cases)
    case (fail e)
    then show ?thesis by (auto elim: incomplete_capture_result)
  next
    case (go inc s1)
    show ?thesis
    proof (rule incomplete_capture_result [OF go(1)])
      fix inc' assume c: "Inr inc = Inr inc'" "sv_db s1 = sv_db s" "inc' = None \<Longrightarrow> capture_complete env t i s"
        "capture_complete env t i s \<Longrightarrow> dk_faults (sv_disk s) = [] \<Longrightarrow> inc' = None"
      show ?thesis
      proof (cases inc)
        case None
        then show ?thesis using go(2) c i by (intro complete) (auto simp: h_set_db_def)
      next
        case (Some e)
        show ?thesis
          by (rule incomplete [OF i]) (use Some go(2) c in \<open>auto simp: h_set_db_def h_bind_def h_throw_def\<close>)
      qed
    qed
  qed simp
qed








lemma get_next_image:
  assumes "db_ok d" and "get_next d h = Some t" and "t_image_id t = Some i"
  shows "i \<in> ir_id ` set (images d)"
proof -
  obtain tr where "tr \<in> set (tasks d)" "t = task_of_row d tr"
    using get_row_of [OF get_next_get [OF assms(1,2)]] by blast
  then show ?thesis
    using assms(1,3) by (auto simp: db_ok_def foreign_keys_def task_of_row_def)
qed

lemma get_status_update:
  assumes "i \<in> ir_id ` set (images d)" and "\<And>r. ir_id (f r) = ir_id r" and "\<And>r. ir_status (f r) = st"
  shows "get_status (update_image i f d) i = Inr st"
proof -
  have "List.find (\<lambda>r. ir_id r = i) (update_where (\<lambda>r. ir_id r = i) f (images d)) =
      map_option (\<lambda>r. if ir_id r = i then f r else r) (List.find (\<lambda>r. ir_id r = i) (images d))"
    by (rule find_update_where) (simp add: assms(2))
  moreover obtain r where "List.find (\<lambda>r. ir_id r = i) (images d) = Some r" "ir_id r = i"
    using assms(1) by (cases "List.find (\<lambda>r. ir_id r = i) (images d)") (auto simp: find_None_iff find_Some_iff)
  ultimately show ?thesis by (simp add: get_status_def update_image_def assms(3))
qed

lemma get_status_cong: "images d' = images d \<Longrightarrow> get_status d' i = get_status d i"
  by (simp add: get_status_def)

lemma task_finished_next:
  assumes "get_by_mac mac (sv_db s) = Inr host" and "get_next (sv_db s) (h_id host) = Some t"
  shows "task_finished env now mac (t_id t) s =
    h_bind (finish_capture env now t (h_id host)) (\<lambda>_.
      h_bind (h_set_db (mark_finished (t_id t) (h_id host) now)) (\<lambda>_. h_board (forget (h_id host)))) s"
proof -
  have "task_to_settle mac (t_id t) Done s = (Some (Inr (Some (t, h_id host))), s)"
    using assms by (simp add: task_to_settle_Inr)
  then show ?thesis by (simp add: task_finished_def h_bind_def)
qed

text \<open>C15: when an agent reports its capture as finished, the image becomes ready only if the server holds all of it: at least one
  partition, exactly partition 1 for a partition capture, and the stored partition table for a disk capture; the host's row is
  then done. Otherwise the agent gets the reason as an error, the image is faulted, and the host's row has failed with that
  reason. Without an I/O error a complete capture is never refused.\<close>

theorem capture_ends_complete_or_failed:
  assumes ok: "db_ok (sv_db s)" and host: "get_by_mac mac (sv_db s) = Inr host"
    and nt: "get_next (sv_db s) (h_id host) = Some t" and cap: "captures (t_type t)" "t_image_id t = Some i"
    and f: "task_finished env now mac (t_id t) s = (Some r, s')"
  shows "case r of
     Inr _ \<Rightarrow> capture_complete env t i s \<and> get_status (sv_db s') i = Inr Ready \<and>
       state_at (sv_db s') (t_id t) (h_id host) = Some Done
   | Inl e \<Rightarrow> (dk_faults (sv_disk s) = [] \<longrightarrow> \<not> capture_complete env t i s) \<and> get_status (sv_db s') i = Inr Faulted \<and>
       (\<exists>msg row. e = FailedPrecondition msg \<and> row_at (sv_db s') (t_id t) (h_id host) = Some row \<and>
          thr_state row = Failed \<and> thr_error row = Some msg)"
proof -
  obtain row where row: "row_at (sv_db s) (t_id t) (h_id host) = Some row" "active (thr_state row)"
    using get_next_state [OF ok nt] .
  note im = get_next_image [OF ok nt cap(2)]
  note f' = f [unfolded task_finished_next [OF host nt]]
  from f' show ?thesis
  proof (cases rule: h_bind_cases)
    case (go u s2)
    from go(2) have s': "sv_db s' = mark_finished (t_id t) (h_id host) now (sv_db s2)" "r = Inr ()"
      by (auto simp: h_bind_def h_set_db_def h_board_def)
    from go(1) show ?thesis
    proof (cases rule: finish_capture_cases)
      case (complete i')
      then have "sv_db s2 = mark_image_finished i now (sv_db s)" "capture_complete env t i s" using cap by auto
      moreover have "get_status (mark_image_finished i now (sv_db s)) i = Inr Ready"
        unfolding mark_image_finished_def by (rule get_status_update [OF im]) simp_all
      ultimately show ?thesis
        using s' row get_status_cong [OF settle_frame(12)]
        by (simp add: state_at_def row_at_mark_finished row_at_images)
    qed (use cap in auto)
  next
    case (fail e)
    from fail(1) show ?thesis
    proof (cases rule: finish_capture_cases)
      case (incomplete i' msg)
      have "get_status (mark_image_faulted i msg (sv_db s)) i = Inr Faulted"
        unfolding mark_image_faulted_def by (rule get_status_update [OF im]) simp_all
      then show ?thesis
        using incomplete fail(2) cap row get_status_cong [OF settle_frame(11)]
        by (simp add: row_at_mark_failed row_at_images)
    qed (use cap in auto)
  qed simp
qed

theorem capture_ends_complete_or_failed_witness:
  "\<exists>s'. task_finished demo_environment 9 ''52:54:00:00:00:01'' 1 (demo_agents (demo_lab Capture Capturing)) =
       (Some (Inl (FailedPrecondition ''Capture finished without any partitions'')), s') \<and>
     get_status (sv_db s') 1 = Inr Faulted"
proof -
  let ?s = "demo_agents (demo_lab Capture Capturing)" and ?mac = "''52:54:00:00:00:01''"
  have r: "fst (task_finished demo_environment 9 ?mac 1 ?s) = Some (Inl (FailedPrecondition ''Capture finished without any partitions''))"
    by code_simp
  define s' where "s' = snd (task_finished demo_environment 9 ?mac 1 ?s)"
  have f: "task_finished demo_environment 9 ?mac 1 ?s = (Some (Inl (FailedPrecondition ''Capture finished without any partitions'')), s')"
    unfolding s'_def by (rule prod_eqI) (simp_all add: r)
  obtain host where host: "get_by_mac ?mac (sv_db ?s) = Inr host" "h_id host = 1"
  proof -
    have "(case get_by_mac ?mac (sv_db ?s) of Inr h \<Rightarrow> h_id h = 1 | Inl _ \<Rightarrow> False)" by code_simp
    then show thesis using that by (auto split: sum.splits)
  qed
  obtain t where t: "get_next (sv_db ?s) 1 = Some t" "t_id t = 1" "t_type t = Capture" "t_image_id t = Some 1"
  proof -
    have "(case get_next (sv_db ?s) 1 of Some t \<Rightarrow> t_id t = 1 \<and> t_type t = Capture \<and> t_image_id t = Some 1 | None \<Rightarrow> False)"
      by code_simp
    then show thesis using that by (auto split: option.splits)
  qed
  have ok: "db_ok (sv_db ?s)" using demo_lab_inv by (simp add: demo_agents_def repo_inv_def)
  have "get_status (sv_db s') 1 = Inr Faulted"
    using capture_ends_complete_or_failed [OF ok host(1), of t 1 demo_environment 9 "Inl (FailedPrecondition ''Capture finished without any partitions'')" s']
      host(2) t f by simp
  with f show ?thesis by blast
qed

subsection \<open>What is captured is what is deployed\<close>

lemma running_capture_Inr:
  "running_capture mac tid accepts s = (Some (Inr (t, i)), s') \<longleftrightarrow>
   (\<exists>host. get_by_mac mac (sv_db s) = Inr host \<and> get_next (sv_db s) (h_id host) = Some t) \<and>
   t_image_id t = Some i \<and> t_id t = tid \<and> accepts (t_type t) \<and> aggregate_state t = Running \<and> s' = s"
  by (auto simp: running_capture_def h_bind_Inr get_next_task_Inr h_throw_Inl h_return_Inr split: option.splits if_splits)

lemma restore_task_Inr:
  "get_restore_task_and_verify mac tid accepts s = (Some (Inr (t, i)), s') \<longleftrightarrow>
   (\<exists>host. get_by_mac mac (sv_db s) = Inr host \<and> get_next (sv_db s) (h_id host) = Some t) \<and>
   t_id t = tid \<and> accepts (t_type t) \<and> t_image_id t = Some i \<and> s' = s"
  by (auto simp: get_restore_task_and_verify_def h_done get_next_task_Inr)

lemma h_disk_Inr: "h_disk m s = (Some (Inr x), s') \<longleftrightarrow> m (sv_disk s) = (Some (Inr x), sv_disk s') \<and> s' = s\<lparr>sv_disk := sv_disk s'\<rparr>"
  by (cases "m (sv_disk s)") (auto simp: h_disk_def)

lemma h_db_Inr: "h_db f s = (Some (Inr x), s') \<longleftrightarrow> (\<exists>d. f (sv_db s) = Inr (x, d) \<and> s' = s\<lparr>sv_db := d\<rparr>)"
  by (auto simp: h_db_def split: sum.splits)

lemma upload_partition_data_Inr:
  assumes "upload_partition_data env mac tid n q body s = (Some (Inr p), s1)"
  obtains t i where "running_capture mac tid captures s = (Some (Inr (t, i)), s)"
    "Image_Store.stored (image_dir (en_base env) i) (partition_file n) body (sv_disk s1)"
proof -
  obtain t i s0 d where r: "running_capture mac tid captures s = (Some (Inr (t, i)), s0)"
    and sv: "save_partition_data (en_base env) (en_pid env) i n body (sv_disk s0) = (Some (Inr ()), d)"
    and d: "sv_disk s1 = d"
    using assms unfolding upload_partition_data_def
    by (auto simp: h_bind_Inr h_disk_Inr h_db_Inr h_done split: prod.splits if_splits)
  have "s0 = s" using r by (simp add: running_capture_Inr)
  moreover have "Image_Store.stored (image_dir (en_base env) i) (partition_file n) body d"
    using store_result [OF sv [unfolded save_partition_data_def]] by (simp add: Let_def)
  ultimately show thesis using r d by (intro that) auto
qed

text \<open>The stored file of a partition. Apart from the uploads of this partition, a request leaves it alone or loses it.\<close>

definition partition_data_at :: "string \<Rightarrow> int \<Rightarrow> int \<Rightarrow> 'f server \<Rightarrow> string option" where
  "partition_data_at base i n s = file_at (sv_disk s) (image_dir base i) (partition_file n)"

definition loses :: "string \<Rightarrow> string \<Rightarrow> disk \<Rightarrow> disk \<Rightarrow> bool" where
  "loses p name d d' \<longleftrightarrow> file_at d' p name = file_at d p name \<or> file_at d' p name = None"

definition spares :: "string \<Rightarrow> int \<Rightarrow> int \<Rightarrow> 'f server \<Rightarrow> 'f server \<Rightarrow> bool" where
  "spares base i n s s' \<longleftrightarrow> loses (image_dir base i) (partition_file n) (sv_disk s) (sv_disk s')"

lemma loses_refl [simp]: "reflp (loses p name)" and loses_trans [simp]: "transp (loses p name)"
  by (auto simp: loses_def intro!: reflpI transpI)

interpretation spared: kept "spares base i n" for base i n
  by unfold_locales (auto simp: spares_def loses_def)

lemma loses_call:
  assumes "\<And>k d. loses p name d (part k d)" and "\<And>d. loses p name d (snd (act d))"
  shows "io_keeps (loses p name) (io_call part act)"
  unfolding io_keeps_def
proof (intro allI impI)
  fix d r d'
  assume c: "io_call part act d = (r, d')"
  obtain f d1 where f: "next_fault d = (f, d1)" by (cases "next_fault d")
  have "loses p name d1 d'"
    using c f assms(1) [of d1] assms(2) [of d1]
    by (cases f) (auto simp: io_call_def apfst_def map_prod_def split: prod.splits)
  then show "loses p name d d'" using next_fault_same [OF f] by (simp add: loses_def)
qed

lemma loses_remove_dir_all: "io_keeps (loses p name) (remove_dir_all listing q)"
  unfolding remove_dir_all_def
  by (rule loses_call) (auto simp: loses_def file_at_def set_dir_def split: option.splits)

lemma loses_clear: "io_keeps (loses p name) (clear_image_data base listing j)"
proof -
  have "io_keeps (loses p name) (remove_dir listing q)" for q
    unfolding remove_dir_def
    by (intro io_keeps_intros loses_refl loses_trans loses_remove_dir_all)
      (auto simp: io_keeps_intros split: sum.split io_error.split)
  then show ?thesis
    unfolding clear_image_data_def
    by (intro io_keeps_intros loses_refl loses_trans) (auto simp: io_keeps_intros split: sum.split)
qed

lemma loses_reads:
  "io_keeps (loses p name) (try_exists q k)" "io_keeps (loses p name) (read_partition_data base j m)"
  "io_keeps (loses p name) (read_partition_table base j)"
proof -
  have "io_keeps (loses p name) (read_file q k)" for q k
    unfolding read_file_def by (rule loses_call) (auto simp: loses_def)
  then show "io_keeps (loses p name) (read_partition_data base j m)" "io_keeps (loses p name) (read_partition_table base j)"
    by (auto simp: read_partition_data_def read_partition_table_def intro!: io_keeps_map_err)
  show "io_keeps (loses p name) (try_exists q k)"
    unfolding try_exists_def
    by (intro io_keeps_intros loses_refl loses_trans loses_call) (auto simp: loses_def)
qed

lemma other_files:
  "tmp_name pid seq name \<noteq> partition_file n" "PARTITION_TABLE_FILE \<noteq> partition_file n"
  "partition_file m = partition_file n \<longleftrightarrow> m = n"
  by (auto simp: tmp_name_def partition_file_def PARTITION_TABLE_FILE_def)

text \<open>Storing a file of an image.\<close>

lemma store_partition_at:
  assumes "store base pid j name items d = (r, d')"
  shows "loses (image_dir base i) (partition_file n) d d' \<or>
    j = i \<and> name = partition_file n \<and> Image_Store.stored (image_dir base i) (partition_file n) items d'"
proof (cases "j = i \<and> name = partition_file n")
  case True
  with store_result [OF assms] show ?thesis by (auto simp: Let_def loses_def)
next
  case False
  then have "\<not> (image_dir base i = image_dir base j \<and> partition_file n \<in> {name, tmp_name pid (dk_seq d) name})"
    using other_files(1) [of pid "dk_seq d" name n] by (auto simp: dirs_inj)
  with store_result [OF assms] have "file_at d' (image_dir base i) (partition_file n) = file_at d (image_dir base i) (partition_file n)"
    unfolding Let_def same_but_def by blast
  then show ?thesis by (simp add: loses_def)
qed

lemma spares_other:
  "h_keeps (spares base i n) (h_set_db f)" "h_keeps (spares base i n) (h_db g)" "h_keeps (spares base i n) (h_db_unit k)"
  "h_keeps (spares base i n) (h_run u)" "h_keeps (spares base i n) (h_board b)" "h_keeps (spares base i n) (h_registry v)"
  "h_keeps (spares base i n) h_wake" "h_keeps (spares base i n) (h_register h)" "h_keeps (spares base i n) (receive_mail reg)"
  by (auto simp: h_keeps_def spares_def loses_def h_set_db_def h_db_def h_db_unit_def h_run_def h_board_def h_registry_def h_wake_def
    h_register_def receive_mail_def split: prod.splits sum.splits)

lemma spares_disk:
  "io_keeps (loses (image_dir base i) (partition_file n)) m \<Longrightarrow> h_keeps (spares base i n) (h_disk m)"
  by (auto simp: h_keeps_def spares_def h_disk_def io_keeps_def split: prod.splits)

lemma spares_reads: "h_keeps (\<lambda>s s'. s' = s) m \<Longrightarrow> h_keeps (spares base i n) m"
  by (auto simp: h_keeps_def spares_def loses_def)

lemma spares_table: "h_keeps (spares base i n) (h_disk (save_partition_table base pid j data))"
  by (rule spares_disk) (auto simp: io_keeps_def save_partition_table_def other_files dest: store_partition_at [of base _ _ _ _ _ _ _ i n])

lemma spares_stream:
  "h_keeps (spares base i n) (stream_turn hs e)" "h_keeps (spares base i n) (serve_loop now hs es)"
proof -
  show turn: "h_keeps (spares base i n) (stream_turn hs e)" for hs e
    by (cases "(hs, e)" rule: stream_turn.cases) (auto intro!: spared.keeps_rules spares_other h_keeps_try)
  show "h_keeps (spares base i n) (serve_loop now hs es)"
  proof (induction now hs es rule: serve_loop.induct)
    case (2 now hs e delivered es)
    show ?case
      unfolding serve_loop.simps Let_def
      by (auto intro!: spared.keeps_rules turn spares_other(4) simp: h_current_task_def split: turn.splits)
         (use 2 in \<open>auto simp: Let_def\<close>)
  qed (simp add: spared.keeps_basic)
qed

lemma spares_captures: "h_keeps (spares base i n) (finish_capture env now t h)" "h_keeps (spares base i n) (fail_capture t e)"
proof -
  have "h_keeps (spares base i n) (incomplete_capture env t j)" for j
    unfolding incomplete_capture_def by (intro spared.keeps_rules spares_disk loses_reads)
  then show "h_keeps (spares base i n) (finish_capture env now t h)" "h_keeps (spares base i n) (fail_capture t e)"
    unfolding finish_capture_def fail_capture_def
    by (auto split: option.split bool.split intro!: spared.keeps_rules spares_other)
qed

text \<open>The body of a request that uploads this partition of this image.\<close>

fun upload_of :: "int \<Rightarrow> int \<Rightarrow> string \<Rightarrow> 'f request \<Rightarrow> 'f server \<Rightarrow> stream_item list list" where
  "upload_of i n mac (Put_partition tid m q body) s =
     (case fst (get_next_task mac s) of
        Some (Inr t) \<Rightarrow> if m = n \<and> t_image_id t = Some i then [body] else []
      | _ \<Rightarrow> [])"
| "upload_of i n mac req s = []"

lemma put_partition_spares:
  assumes u: "upload_partition_data env mac tid m q body s = (r, s')"
  shows "spares (en_base env) i n s s' \<or>
    upload_of i n mac (Put_partition tid m q body) s = [body] \<and>
    Image_Store.stored (image_dir (en_base env) i) (partition_file n) body (sv_disk s')"
proof -
  have same: "spares (en_base env) i n s s" by (simp add: spares_def loses_def)
  from u [unfolded upload_partition_data_def] show ?thesis
  proof (cases rule: h_bind_cases)
    case (go ti s1)
    obtain t j where ti: "ti = (t, j)" by (cases ti)
    have s1: "s1 = s" and next_task: "get_next_task mac s = (Some (Inr t), s)" and j: "t_image_id t = Some j"
      using go(1) unfolding ti by (auto simp: running_capture_Inr get_next_task_Inr)
    then have t: "fst (get_next_task mac s) = Some (Inr t)" "t_image_id t = Some j" by simp_all
    from go(2) [unfolded ti prod.case s1] show ?thesis
    proof (cases rule: h_bind_cases)
      case (go x s2)
      then have s2: "s2 = s" by (auto simp: h_of_def h_return_def split: if_splits)
      from go(2) [unfolded s2] show ?thesis
      proof (cases rule: h_bind_cases)
        case (go y s3)
        have "spares (en_base env) i n s3 s'" using h_keepsD [OF spares_other(2) go(2)] .
        moreover have "sv_disk s' = sv_disk s3" using go(2) by (auto simp: h_db_def split: sum.splits)
        moreover obtain d where "store (en_base env) (en_pid env) j (partition_file m) body (sv_disk s) = (Some (Inr y), d)" "sv_disk s3 = d"
          using go(1) by (auto simp: h_disk_def save_partition_data_def split: prod.splits)
        ultimately show ?thesis
          using store_partition_at [of "en_base env" "en_pid env" j "partition_file m" body "sv_disk s" _ d i n] t
          by (auto simp: spares_def other_files(3))
      qed (use t store_partition_at [of "en_base env" "en_pid env" j "partition_file m" body "sv_disk s" _ "sv_disk s'" i n] in
        \<open>auto simp: h_disk_def save_partition_data_def spares_def other_files(3) split: prod.splits\<close>)
    qed (use same in \<open>auto simp: h_of_def h_return_def split: if_splits\<close>)
  qed (use same readersD(3) in \<open>metis\<close>)+
qed

text \<open>Every request of an agent.\<close>

lemma spares_request:
  assumes "\<And>tid m q body. req \<noteq> Put_partition tid m q body"
  shows "h_keeps (spares (en_base env) i n) (handle_request env forced now mac req)"
proof (cases req)
  case (Put_partition tid m q body)
  with assms show ?thesis by blast
next
  case (Started tid sector)
  show ?thesis
    unfolding Started handle_request.simps started_def Let_def
    by (intro spared.keeps_rules spares_disk loses_clear spares_other)
next
  case (Finished tid)
  show ?thesis
    unfolding Finished handle_request.simps task_finished_def
    by (intro spared.keeps_rules spares_other spares_reads [OF readers(2)] spares_captures)
next
  case (Failed_report tid e)
  show ?thesis
    unfolding Failed_report handle_request.simps task_failed_def
    by (intro spared.keeps_rules spares_other spares_reads [OF readers(2)] spares_captures)
next
  case (Put_partition_table tid body)
  show ?thesis
    unfolding Put_partition_table handle_request.simps upload_partition_table_def
    by (intro spared.keeps_rules spares_table spares_reads [OF readers(3)])
next
  case (Stream ip q delivered es)
  show ?thesis
    unfolding Stream handle_request.simps start_stream_def serve_stream_def h_current_task_def
    by (intro spared.keeps_rules spared.keeps_drop spares_stream spares_other)
qed (simp only: handle_request.simps report_root_partition_def upload_script_output_def
    download_partitions_def download_partition_table_def download_partition_data_def post_install_plan_def
    finish_script_def disconnect_def,
  intro spared.keeps_rules spared.keeps_drop spares_other spares_disk loses_reads spares_reads [OF readers(1)] spares_reads [OF readers(3)]
    spares_reads [OF readers(4)] spares_reads [OF readers(5)] spares_reads [OF readers(6)])+

lemma request_partition:
  assumes "handle_request env forced now mac req s = (r, s')"
  shows "spares (en_base env) i n s s' \<or>
    (\<exists>body. upload_of i n mac req s = [body] \<and>
       Image_Store.stored (image_dir (en_base env) i) (partition_file n) body (sv_disk s'))"
proof (cases "\<exists>tid m q body. req = Put_partition tid m q body")
  case False
  then have "h_keeps (spares (en_base env) i n) (handle_request env forced now mac req)" by (intro spares_request) blast
  from h_keepsD [OF this assms] show ?thesis ..
next
  case True
  then obtain tid m q body where req: "req = Put_partition tid m q body" by blast
  from assms obtain r' where "upload_partition_data env mac tid m q body s = (r', s')"
    unfolding req handle_request.simps h_drop_def
    by (cases rule: h_bind_cases) (auto simp: h_return_def)
  from put_partition_spares [OF this, of i n] show ?thesis unfolding req by blast
qed

text \<open>What may happen between an upload and a download: any request of any agent, and anything else (the requests of the
  users, the multicast worker, imports, restarts) that does not itself write the stored file. \<open>later\<close> lists the bodies of the
  uploads of this partition among the requests.\<close>

inductive meanwhile :: "string \<Rightarrow> int \<Rightarrow> int \<Rightarrow> 'f server \<Rightarrow> stream_item list list \<Rightarrow> 'f server \<Rightarrow> bool"
  for base i n s where
  nothing: "meanwhile base i n s [] s"
| agent: "meanwhile base i n s later s1 \<Longrightarrow> en_base env = base \<Longrightarrow>
    handle_request env forced now mac req s1 = (r, s2) \<Longrightarrow> meanwhile base i n s (later @ upload_of i n mac req s1) s2"
| elsewhere: "meanwhile base i n s later s1 \<Longrightarrow>
    partition_data_at base i n s2 = partition_data_at base i n s1 \<or> partition_data_at base i n s2 = None \<Longrightarrow> meanwhile base i n s later s2"

definition whole :: "stream_item list \<Rightarrow> string \<Rightarrow> bool" where
  "whole body x \<longleftrightarrow> (\<exists>chunks. body = map Chunk chunks \<and> x = concat chunks)"

lemma meanwhile_partition:
  assumes "meanwhile base i n s later s2" and "partition_data_at base i n s = Some x0" "whole body x0"
  shows "partition_data_at base i n s2 = None \<or> (\<exists>b \<in> set (body # later). \<exists>x. partition_data_at base i n s2 = Some x \<and> whole b x)"
  using assms
proof (induction rule: meanwhile.induct)
  case nothing
  then show ?case by auto
next
  case (agent later s1 env forced now mac req r s2)
  from request_partition [OF agent.hyps(3), of i n] show ?case
  proof
    assume "spares (en_base env) i n s1 s2"
    then have "partition_data_at base i n s2 = partition_data_at base i n s1 \<or> partition_data_at base i n s2 = None"
      by (simp add: spares_def loses_def partition_data_at_def agent.hyps(2))
    with agent.IH [OF agent.prems] show ?thesis by auto
  next
    assume "\<exists>body. upload_of i n mac req s1 = [body] \<and>
       Image_Store.stored (image_dir (en_base env) i) (partition_file n) body (sv_disk s2)"
    then show ?thesis
      by (auto simp: agent.hyps(2) Image_Store.stored_def partition_data_at_def whole_def)
  qed
next
  case (elsewhere later s1 s2)
  then show ?case by auto
qed

text \<open>C16: an agent that deploys an image receives the bytes that were captured. Once an upload of a partition was answered with
  success, whatever any agents request afterwards and whatever else happens that does not itself write this file (\<open>meanwhile\<close>): every
  host of any deployment of that image to which the partition is served gets exactly the concatenated chunks of that upload, or,
  only if the partition was uploaded again in between, those of one of the later uploads, and these whole as well: never a part of an upload or a
  mixture. In particular uploads of other partitions, of other images and of the partition table, reports and new captures do
  not change what is served. I/O errors and cuts are allowed everywhere.\<close>

theorem captured_bytes_are_deployed:
  assumes up: "upload_partition_data env mac tid n q body s = (Some (Inr p), s1)"
    and task: "get_next_task mac s = (Some (Inr t), s)" "t_image_id t = Some i"
    and later: "meanwhile (en_base env) i n s1 later s2"
    and task2: "get_next_task mac2 s2 = (Some (Inr t2), s2)" "t_image_id t2 = Some i"
    and down: "download_partition_data env2 mac2 tid2 n s2 = (Some (Inr x), s3)" "en_base env2 = en_base env"
  shows "\<exists>b \<in> set (body # later). \<exists>chunks. b = map Chunk chunks \<and> x = concat chunks"
proof -
  obtain t' j where r: "running_capture mac tid captures s = (Some (Inr (t', j)), s)"
    and st: "Image_Store.stored (image_dir (en_base env) j) (partition_file n) body (sv_disk s1)"
    using upload_partition_data_Inr [OF up] .
  have "j = i"
    using r task by (auto simp: running_capture_Inr get_next_task_Inr)
  with st obtain x0 where "partition_data_at (en_base env) i n s1 = Some x0" "whole body x0"
    by (auto simp: Image_Store.stored_def partition_data_at_def whole_def)
  note held = meanwhile_partition [OF later this]
  obtain d where rd: "read_partition_data (en_base env) i n (sv_disk s2) = (Some (Inr x), d)"
    using down task2 unfolding download_partition_data_def
    by (auto simp: h_bind_Inr restore_task_Inr get_next_task_Inr h_disk_Inr h_read_Some h_guard_Inr split: prod.splits)
  have "partition_data_at (en_base env) i n s2 = Some x"
    using rd
    by (auto simp: read_partition_data_def io_map_err_def read_file_def io_call_def next_fault_def partition_data_at_def file_at_faults
      split: list.splits fault.splits option.splits sum.splits)
  with held show ?thesis unfolding whole_def by auto
qed

text \<open>The plan of an image's scripts.\<close>

definition planned_item :: "input_values \<Rightarrow> nat \<times> image_script \<times> int \<Rightarrow> post_install_script \<Rightarrow> bool" where
  "planned_item vals x p \<longleftrightarrow> (case x of (position, a, root) \<Rightarrow>
     script_inputs_of (is_script a) vals = Inr (pi_inputs p) \<and> pi_position p = int position \<and>
     pi_name p = s_name (is_script a) \<and> pi_body p = s_body (is_script a) \<and> pi_root_partition p = root)"

lemma planned_scripts_Inr:
  "planned_scripts tid h im s = (Some (Inr ss), s') \<longleftrightarrow>
   (\<exists>roots. script_roots im (get_for_image (sv_db s) (i_id im)) = Inr roots \<and>
      list_all2 (planned_item (get_inputs (sv_db s) tid h))
        (List.enumerate 0 (zip (get_for_image (sv_db s) (i_id im)) roots)) ss) \<and> s' = s"
proof -
  have item: "(case x of (position, a, root) \<Rightarrow> and_then (script_inputs_of (is_script a) vals) (\<lambda>inputs.
      Inr \<lparr>pi_position = int position, pi_name = s_name (is_script a), pi_body = s_body (is_script a),
        pi_inputs = inputs, pi_root_partition = root\<rparr>)) = Inr p \<longleftrightarrow> planned_item vals x p" for x vals p
    by (cases x; cases p) (auto simp: planned_item_def and_then_Inr)
  show ?thesis
    by (auto simp: planned_scripts_def h_done collect_map_Inr item)
qed

lemma planned_shape:
  assumes "list_all2 (planned_item vals) (List.enumerate k (zip attached roots)) ss" and "length roots = length attached"
  shows "map pi_position ss = map int [k..<k + length attached] \<and>
    map (\<lambda>p. (pi_name p, pi_body p)) ss = map (\<lambda>a. (s_name (is_script a), s_body (is_script a))) attached \<and>
    map pi_root_partition ss = roots"
  using assms
proof (induction attached arbitrary: k roots ss)
  case Nil
  then show ?case by (auto simp: enumerate_simps)
next
  case (Cons a attached)
  obtain r rs where r: "roots = r # rs" using Cons.prems(2) by (cases roots) auto
  obtain p ps where p: "ss = p # ps" "planned_item vals (k, a, r) p"
      "list_all2 (planned_item vals) (List.enumerate (Suc k) (zip attached rs)) ps"
    using Cons.prems(1) by (auto simp: r enumerate_simps list_all2_Cons1)
  from Cons.IH [OF p(3)] Cons.prems(2) p(1,2) show ?case
    by (simp add: r planned_item_def upt_conv_Cons del: upt_Suc)
qed

lemma post_install_plan_unfold:
  assumes "running_restore_task mac tid s = (Some (Inr run), s)" and "get_image (sv_db s) (rr_image run) = Inr im"
    and "planned_scripts tid (rr_host run) im s = (Some (Inr ss), s)"
  shows "post_install_plan env mac tid s =
    (Some (Inr \<lparr>pn_proxy = en_proxy env, pn_variables = en_variables env, pn_scripts = ss\<rparr>), s)"
  using assms by (simp add: post_install_plan_def h_bind_def h_read_def h_return_def)

lemma download_partitions_Inr:
  assumes "download_partitions mac tid s = (Some (Inr layout), s1)"
  obtains t i im host ss where "get_by_mac mac (sv_db s) = Inr host" "get_next (sv_db s) (h_id host) = Some t"
    "t_id t = tid" "t_image_id t = Some i" "get_image (sv_db s) i = Inr im"
    "planned_scripts tid (h_id host) im s = (Some (Inr ss), s)"
    "layout = \<lparr>il_sector_size = i_sector_size im, il_partitions = i_partitions im\<rparr>"
proof -
  from assms obtain t i s0 where v: "get_restore_task_and_verify mac tid restores s = (Some (Inr (t, i)), s0)"
    and rest: "h_bind (h_read (\<lambda>d. get_image d i)) (\<lambda>im.
     h_bind (h_guard (i_status im = Ready) (not_ready i)) (\<lambda>_.
     h_bind (h_read (get_by_mac mac)) (\<lambda>host.
     h_bind (planned_scripts (t_id t) (h_id host) im) (\<lambda>_.
     h_return \<lparr>il_sector_size = i_sector_size im, il_partitions = i_partitions im\<rparr>)))) s0 = (Some (Inr layout), s1)"
    unfolding download_partitions_def h_bind_Inr [of "get_restore_task_and_verify mac tid restores"] by auto
  from v have s0: "s0 = s" and t: "t_id t = tid" "t_image_id t = Some i"
    and n: "\<exists>host. get_by_mac mac (sv_db s) = Inr host \<and> get_next (sv_db s) (h_id host) = Some t"
    by (simp_all only: restore_task_Inr)
  from rest obtain im host ss s2 where r: "get_image (sv_db s) i = Inr im" "get_by_mac mac (sv_db s) = Inr host"
      "planned_scripts (t_id t) (h_id host) im s = (Some (Inr ss), s2)"
      "layout = \<lparr>il_sector_size = i_sector_size im, il_partitions = i_partitions im\<rparr>"
    unfolding s0 by (auto simp: h_bind_Inr h_read_Some h_guard_Inr h_return_Inr)
  have "s2 = s" using readersD(6) r(3) by metis
  with r n t show thesis by (intro that [of host t i im ss]) auto
qed

text \<open>a deployment that starts can run its scripts: when a host is given the layout of an image, before it writes anything to
  its disk, the plan of its scripts exists, one script after the other in the image's order, each with a
  root partition and with inputs that fit the values stored for this host; a running host that then asks for the plan gets it.\<close>

theorem layout_implies_plan:
  assumes "download_partitions mac tid s = (Some (Inr layout), s1)"
    and "running_restore_task mac tid s = (Some (Inr run), s)"
  shows "\<exists>plan im. post_install_plan env mac tid s = (Some (Inr plan), s) \<and>
    get_image (sv_db s) (rr_image run) = Inr im \<and>
    il_partitions layout = i_partitions im \<and> il_sector_size layout = i_sector_size im \<and>
    map pi_position (pn_scripts plan) = map int [0..<length (get_for_image (sv_db s) (i_id im))] \<and>
    map (\<lambda>p. (pi_name p, pi_body p)) (pn_scripts plan) =
      map (\<lambda>a. (s_name (is_script a), s_body (is_script a))) (get_for_image (sv_db s) (i_id im))"
proof -
  obtain t i im host ss where nt: "get_by_mac mac (sv_db s) = Inr host" "get_next (sv_db s) (h_id host) = Some t"
      "t_id t = tid" "t_image_id t = Some i" and im: "get_image (sv_db s) i = Inr im"
    and ss: "planned_scripts tid (h_id host) im s = (Some (Inr ss), s)"
    and layout: "layout = \<lparr>il_sector_size = i_sector_size im, il_partitions = i_partitions im\<rparr>"
    by (rule download_partitions_Inr [OF assms(1)])
  have same: "rr_image run = i" "rr_host run = h_id host"
    using nt assms(2) by (auto simp: running_restore_task_Inr)
  obtain roots where roots: "script_roots im (get_for_image (sv_db s) (i_id im)) = Inr roots"
    and items: "list_all2 (planned_item (get_inputs (sv_db s) tid (h_id host)))
      (List.enumerate 0 (zip (get_for_image (sv_db s) (i_id im)) roots)) ss"
    using ss same by (auto simp: planned_scripts_Inr)
  have "length roots = length (get_for_image (sv_db s) (i_id im))"
    using roots by (auto simp: script_roots_def collect_map_Inr dest: list_all2_lengthD)
  note shape = planned_shape [OF items this]
  have "post_install_plan env mac tid s =
      (Some (Inr \<lparr>pn_proxy = en_proxy env, pn_variables = en_variables env, pn_scripts = ss\<rparr>), s)"
    by (rule post_install_plan_unfold [OF assms(2)]) (use im ss same in simp_all)
  then show ?thesis using im same layout shape by simp
qed

subsection \<open>Demonstrations\<close>

definition demo_captured :: "nat server" where
  "demo_captured = snd (upload_partition_data demo_environment ''52:54:00:00:00:01'' 1 1
     \<lparr>pu_filesystem = ''ext4'', pu_size = 9, pu_fs_uuid = None, pu_fs_label = None\<rparr> [Chunk ''da'', Chunk ''ta'']
     (demo_agents (demo_lab Capture Capturing)))"

definition demo_finished :: "nat server" where
  "demo_finished = snd (handle_request demo_environment (\<lambda>ip. ip) 9 ''52:54:00:00:00:01'' (Finished 1)
     (snd (handle_request demo_environment (\<lambda>ip. ip) 8 ''52:54:00:00:00:01'' (Put_partition_table 1 ''gpt'') demo_captured)))"

definition order_deployment :: "nat server \<Rightarrow> nat server" where
  "order_deployment s = s\<lparr>sv_db := snd (projr (create_with_inputs Deploy [1] (Some 1) [] [] 10 (sv_db s)))\<rparr>"

definition demo_deploying :: "nat server" where
  "demo_deploying = snd (handle_request demo_environment (\<lambda>ip. ip) 12 ''52:54:00:00:00:01'' (Started 2 None)
     (order_deployment demo_finished))"

lemma demo_meanwhile: "meanwhile ''/images'' 1 1 demo_captured [] demo_deploying"
proof -
  let ?handle = "\<lambda>now req s. snd (handle_request demo_environment (\<lambda>ip. ip) now ''52:54:00:00:00:01'' req s)"
  have step: "meanwhile ''/images'' 1 1 s [] (?handle now req s1)"
    if "meanwhile ''/images'' 1 1 s [] s1" "upload_of 1 1 ''52:54:00:00:00:01'' req s1 = []" for s s1 :: "nat server" and now req
    using meanwhile.agent [where env = demo_environment and forced = "\<lambda>ip. ip" and now = now and mac = "''52:54:00:00:00:01''" and req = req,
        OF that(1) _ prod.collapse [symmetric]] that(2)
    by (simp add: demo_environment_def)
  have "meanwhile ''/images'' 1 1 demo_captured [] demo_finished"
    unfolding demo_finished_def by (intro step meanwhile.nothing) simp_all
  then have "meanwhile ''/images'' 1 1 demo_captured [] (order_deployment demo_finished)"
    by (rule meanwhile.elsewhere) (simp add: partition_data_at_def order_deployment_def)
  then show ?thesis
    unfolding demo_deploying_def by (rule step) simp
qed

definition demo_served :: "nat server \<Rightarrow> bool" where
  "demo_served s \<longleftrightarrow>
     (case fst (get_next_task ''52:54:00:00:00:01'' s) of Some (Inr t) \<Rightarrow> t_image_id t = Some 1 | _ \<Rightarrow> False) \<and>
     (case fst (download_partition_data demo_environment ''52:54:00:00:00:01'' 2 1 s) of Some (Inr x) \<Rightarrow> True | _ \<Rightarrow> False)"

lemma demo_deploying_served: "demo_served demo_deploying"
  by code_simp

theorem captured_bytes_are_deployed_witness:
  "\<exists>p x s3. upload_partition_data demo_environment ''52:54:00:00:00:01'' 1 1
       \<lparr>pu_filesystem = ''ext4'', pu_size = 9, pu_fs_uuid = None, pu_fs_label = None\<rparr> [Chunk ''da'', Chunk ''ta'']
       (demo_agents (demo_lab Capture Capturing)) = (Some (Inr p), demo_captured) \<and>
     meanwhile ''/images'' 1 1 demo_captured [] demo_deploying \<and>
     download_partition_data demo_environment ''52:54:00:00:00:01'' 2 1 demo_deploying = (Some (Inr x), s3) \<and> x = ''data''"
proof -
  let ?mac = "''52:54:00:00:00:01''" and ?body = "[Chunk ''da'', Chunk ''ta'']"
  let ?q = "\<lparr>pu_filesystem = ''ext4'', pu_size = 9, pu_fs_uuid = None, pu_fs_label = None\<rparr>"
  let ?s = "demo_agents (demo_lab Capture Capturing)"
  let ?up = "upload_partition_data demo_environment ?mac 1 1 ?q ?body ?s"
  let ?down = "download_partition_data demo_environment ?mac 2 1 demo_deploying"
  have "case fst ?up of Some (Inr p) \<Rightarrow> True | _ \<Rightarrow> False" by code_simp
  then obtain p where p: "?up = (Some (Inr p), demo_captured)"
    unfolding demo_captured_def by (cases ?up) (auto split: option.splits sum.splits)
  have "case fst ?down of Some (Inr x) \<Rightarrow> True | _ \<Rightarrow> False"
    using demo_deploying_served unfolding demo_served_def by (rule conjunct2)
  then obtain x where x: "?down = (Some (Inr x), snd ?down)"
    by (cases ?down) (auto split: option.splits sum.splits)
  have "case fst (get_next_task ?mac ?s) of Some (Inr t) \<Rightarrow> t_image_id t = Some 1 | _ \<Rightarrow> False" by code_simp
  then obtain t where t: "get_next_task ?mac ?s = (Some (Inr t), ?s)" "t_image_id t = Some 1"
    using readersD(1) [of ?mac ?s] by (cases "get_next_task ?mac ?s") (auto split: option.splits sum.splits)
  have "case fst (get_next_task ?mac demo_deploying) of Some (Inr t) \<Rightarrow> t_image_id t = Some 1 | _ \<Rightarrow> False"
    using demo_deploying_served unfolding demo_served_def by (rule conjunct1)
  then obtain t2 where t2: "get_next_task ?mac demo_deploying = (Some (Inr t2), demo_deploying)" "t_image_id t2 = Some 1"
    using readersD(1) [of ?mac demo_deploying] by (cases "get_next_task ?mac demo_deploying") (auto split: option.splits sum.splits)
  have base: "en_base demo_environment = ''/images''" by (simp add: demo_environment_def)
  from captured_bytes_are_deployed [OF p t demo_meanwhile [folded base] t2 x refl]
  have "x = ''data''" by auto
  with p x demo_meanwhile show ?thesis by (intro exI conjI) auto
qed

theorem layout_implies_plan_witness:
  "\<exists>layout s1 plan. download_partitions ''52:54:00:00:00:01'' 1 (demo_agents (demo_lab Deploy Ready)) = (Some (Inr layout), s1) \<and>
     post_install_plan demo_environment ''52:54:00:00:00:01'' 1 (demo_agents (demo_lab Deploy Ready)) =
       (Some (Inr plan), demo_agents (demo_lab Deploy Ready))"
proof -
  let ?mac = "''52:54:00:00:00:01''" and ?s = "demo_agents (demo_lab Deploy Ready)"
  let ?down = "download_partitions ?mac 1 ?s" and ?run = "running_restore_task ?mac 1 ?s"
  have "case fst ?down of Some (Inr x) \<Rightarrow> True | _ \<Rightarrow> False" by code_simp
  then obtain x where x: "?down = (Some (Inr x), snd ?down)"
    by (cases ?down) (auto split: option.splits sum.splits)
  have "case fst ?run of Some (Inr x) \<Rightarrow> True | _ \<Rightarrow> False" by code_simp
  then obtain run where run: "?run = (Some (Inr run), ?s)"
    using readersD(5) [of ?mac 1 ?s] by (cases ?run) (auto split: option.splits sum.splits)
  from layout_implies_plan [OF x run, of demo_environment] x show ?thesis by blast
qed

subsection \<open>The stream\<close>

lemma current_task_again: "current_task now h d = (r, d') \<Longrightarrow> current_task later h d' = (r, d')"
proof (induction now h d rule: current_task.induct)
  case (1 now h d)
  then show ?case
    by (auto simp: current_task.simps [of now h d] current_task.simps [of later h d']
      split: option.splits if_splits sum.splits)
qed

lemma serve_loop_open:
  "serve_loop now hs es s = (Some (Inr (sent, Some hs')), s') \<Longrightarrow>
   hs_host hs' = hs_host hs \<and> hs_registration hs' = hs_registration hs \<and> hs_current hs' = last (hs_current hs # sent)"
proof (induction now hs es arbitrary: s sent rule: serve_loop.induct)
  case (1 now hs)
  then show ?case by (simp add: h_return_Inr)
next
  case (2 now hs e delivered es)
  obtain turn s1 where turn: "stream_turn hs e s = (Some (Inr turn), s1)"
    and rest: "(case turn of Break \<Rightarrow> h_return ([], None) | Skip \<Rightarrow> serve_loop now hs es
     | Ask asked \<Rightarrow>
         h_bind (h_current_task now (hs_host hs)) (\<lambda>current.
         let hs' = hs\<lparr>hs_current := current\<rparr> in
         if asked \<or> current \<noteq> hs_current hs
         then if delivered
              then h_bind (serve_loop now hs' es) (\<lambda>(sent, open_stream). h_return (current # sent, open_stream))
              else h_return ([], None)
         else serve_loop now hs' es)) s1 = (Some (Inr (sent, Some hs')), s')"
    using "2.prems" by (auto simp: h_bind_Inr simp del: stream_turn.simps)
  show ?case
  proof (cases turn)
    case (Ask asked)
    then obtain current s2 where c: "h_current_task now (hs_host hs) s1 = (Some (Inr current), s2)"
      and r: "(let hs' = hs\<lparr>hs_current := current\<rparr> in
         if asked \<or> current \<noteq> hs_current hs
         then if delivered
              then h_bind (serve_loop now hs' es) (\<lambda>(sent, open_stream). h_return (current # sent, open_stream))
              else h_return ([], None)
         else serve_loop now hs' es) s2 = (Some (Inr (sent, Some hs')), s')"
      using rest by (auto simp: h_bind_Inr)
    show ?thesis
    proof (cases "asked \<or> current \<noteq> hs_current hs")
      case True
      then obtain sent' where l: "serve_loop now (hs\<lparr>hs_current := current\<rparr>) es s2 = (Some (Inr (sent', Some hs')), s')"
        and sent: "sent = current # sent'" and d: "delivered"
        using r by (auto simp: Let_def h_bind_Inr h_return_Inr split: if_splits)
      from "2.IH"(1) [OF refl True d l] sent show ?thesis by simp
    next
      case False
      then have "serve_loop now (hs\<lparr>hs_current := current\<rparr>) es s2 = (Some (Inr (sent, Some hs')), s')"
        using r by (simp add: Let_def)
      from "2.IH"(2) [OF refl False this] False show ?thesis by (cases sent) auto
    qed
  next
    case Skip
    with rest have "serve_loop now hs es s1 = (Some (Inr (sent, Some hs')), s')" by simp
    from "2.IH"(3) [OF this] show ?thesis .
  next
    case Break
    with rest show ?thesis by (simp add: h_return_Inr)
  qed
qed

lemma current_task_turn:
  assumes "stream_turn hs e s = (Some (Inr (Ask asked)), s1)" and "current_task now (hs_host hs) (sv_db s1) = (current, d)"
  shows "\<exists>sent. serve_loop now hs [(e, True)] s = (Some (Inr (sent, Some (hs\<lparr>hs_current := current\<rparr>))), s1\<lparr>sv_db := d\<rparr>) \<and>
    last (hs_current hs # sent) = current"
  using assms
  by (simp add: h_bind_def [of "stream_turn hs e"] h_bind_def [of "h_current_task now (hs_host hs)"] h_current_task_def
    h_run_def Let_def h_return_def h_bind_def del: stream_turn.simps)

lemma dispatched_mail:
  assumes "bt_lookup (rg_map r) h = Some x" and "generation x = rn_generation reg"
  shows "fst (receive reg (dispatch h r)) = Woken"
  using assms by (auto simp: receive_def dispatch_def split: option.splits)

text \<open>C17: a connected host learns its current task. Whatever its stream has carried, as long as it is open and its registration is
  the host's current one: when the database has changed, in any way, and the host is dispatched, the next turn of the
  loop brings the host up to date, so that the last message sent on the stream is the host's current task; the stream
  stays open for the next change.\<close>

theorem dispatched_host_learns_task:
  assumes "serve_loop now hs es s = (Some (Inr (sent, Some hs')), s')"
    and "bt_lookup (rg_map (sv_registry s')) (hs_host hs) = Some x" "generation x = rn_generation (hs_registration hs)"
  shows "\<exists>told hs2 s2. serve_loop later hs' [(Mail, True)]
       (s'\<lparr>sv_db := d, sv_registry := dispatch (hs_host hs) (sv_registry s')\<rparr>) = (Some (Inr (told, Some hs2)), s2) \<and>
     current_task later (hs_host hs) d = (last (hs_current hs # sent @ told), sv_db s2) \<and>
     current_task later (hs_host hs) (sv_db s2) = (last (hs_current hs # sent @ told), sv_db s2)"
proof -
  let ?s = "s'\<lparr>sv_db := d, sv_registry := dispatch (hs_host hs) (sv_registry s')\<rparr>"
  have hs': "hs_host hs' = hs_host hs" "hs_registration hs' = hs_registration hs" "hs_current hs' = last (hs_current hs # sent)"
    using serve_loop_open [OF assms(1)] by simp_all
  obtain r2 where mail: "receive (hs_registration hs) (dispatch (hs_host hs) (sv_registry s')) = (Woken, r2)"
    using dispatched_mail [OF assms(2,3)] by (metis prod.collapse)
  have turn: "stream_turn hs' Mail ?s = (Some (Inr (Ask False)), ?s\<lparr>sv_registry := r2\<rparr>)"
    by (simp add: h_bind_def receive_mail_def hs' mail h_return_def)
  obtain current d2 where c: "current_task later (hs_host hs) d = (current, d2)" by fastforce
  obtain told where told: "serve_loop later hs' [(Mail, True)] ?s =
      (Some (Inr (told, Some (hs'\<lparr>hs_current := current\<rparr>))), ?s\<lparr>sv_registry := r2\<rparr>\<lparr>sv_db := d2\<rparr>)"
    and l: "last (hs_current hs' # told) = current"
    using current_task_turn [OF turn, of later current d2] c hs'(1) by auto
  have "last (hs_current hs # sent @ told) = current"
    using l hs'(3) by (cases told) auto
  with told c current_task_again [OF c, of later] show ?thesis
    by (intro exI [of _ told] exI [of _ "hs'\<lparr>hs_current := current\<rparr>"] exI [of _ "?s\<lparr>sv_registry := r2\<rparr>\<lparr>sv_db := d2\<rparr>"]) simp
qed

theorem dispatched_host_learns_task_witness:
  "\<exists>told hs2 s2. serve_loop 6 \<lparr>hs_host = 1, hs_registration = \<lparr>rn_id = 1, rn_generation = 0\<rparr>, hs_current = None\<rparr> [(Mail, True)]
       ((demo_agents (demo_lab Deploy Ready))\<lparr>sv_registry := dispatch 1 (snd (register 1 new_registry))\<rparr>) =
         (Some (Inr (told, Some hs2)), s2) \<and>
     last (None # told) = Some \<lparr>at_id = 1, at_work = DeployWork 1\<rparr>"
proof -
  let ?hs = "\<lparr>hs_host = 1, hs_registration = \<lparr>rn_id = 1, rn_generation = 0\<rparr>, hs_current = None\<rparr>"
  let ?s = "(demo_agents (demo_lab Deploy Ready))\<lparr>sv_registry := snd (register 1 new_registry)\<rparr>"
  have l: "serve_loop 5 ?hs [] ?s = (Some (Inr ([], Some ?hs)), ?s)" by (simp add: h_return_def)
  have m: "bt_lookup (rg_map (sv_registry ?s)) (hs_host ?hs) = Some \<lparr>generation = 0\<rparr>" by code_simp
  have g: "generation \<lparr>generation = 0\<rparr> = rn_generation (hs_registration ?hs)" by simp
  have c: "fst (current_task 6 1 (demo_lab Deploy Ready)) = Some \<lparr>at_id = 1, at_work = DeployWork 1\<rparr>" by code_simp
  from dispatched_host_learns_task [OF l m g, of 6 "demo_lab Deploy Ready"] obtain told hs2 s2
    where t: "serve_loop 6 ?hs [(Mail, True)] (?s\<lparr>sv_db := demo_lab Deploy Ready, sv_registry := dispatch 1 (sv_registry ?s)\<rparr>) =
        (Some (Inr (told, Some hs2)), s2)"
      and e: "current_task 6 1 (demo_lab Deploy Ready) = (last (None # told), sv_db s2)" by auto
  have "?s\<lparr>sv_db := demo_lab Deploy Ready, sv_registry := dispatch 1 (sv_registry ?s)\<rparr> =
      (demo_agents (demo_lab Deploy Ready))\<lparr>sv_registry := dispatch 1 (snd (register 1 new_registry))\<rparr>"
    by (simp add: demo_agents_def)
  with t e c show ?thesis by (metis fst_conv)
qed

end
