(* ===== verification/Tools.thy ===== *)
theory Tools
  imports Rust_Str Utf8
begin

text \<open>
  What the crates \<open>disk\<close>, \<open>agent\<close> and \<open>proxy\<close> use of the world outside: other programs run with
  \<open>tokio::process::Command\<close>, whose results the code has to take as they come. \<open>outside\<close> holds
  one function per kind of call; each is given every call made so far, so that what a program does may depend on
  all that happened before it. The calls of an operation are kept in the order they are made, which is
  what its callers and the theorems see of its effects. An \<open>anyhow::Error\<close> is the list of its contexts, the
  outermost first. The last part holds the string functions of the standard library that only these crates use.
\<close>

type_synonym anyhow = "string list"

definition with_context :: "string \<Rightarrow> anyhow + 'a \<Rightarrow> anyhow + 'a" where
  "with_context m r = map_err (\<lambda>e. m # e) r"

text \<open>The format \<open>{:#}\<close> of an \<open>anyhow::Error\<close>.\<close>

definition chain_str :: "anyhow \<Rightarrow> string" where
  "chain_str e = join '': '' e"

lemma with_context_Inr [result_simps]: "with_context m r = Inr y \<longleftrightarrow> r = Inr y"
  by (simp add: with_context_def result_simps)

subsection \<open>Other programs\<close>

text \<open>An exit code, or the signal that ended the program with the text the system describes it by.\<close>

datatype exit_status = Exited int | Signalled string

fun exit_code :: "exit_status \<Rightarrow> int option" where
  "exit_code (Exited n) = Some n"
| "exit_code (Signalled t) = None"

definition success :: "exit_status \<Rightarrow> bool" where
  "success st \<longleftrightarrow> exit_code st = Some 0"

fun status_str :: "exit_status \<Rightarrow> string" where
  "status_str (Exited n) = ''exit status: '' @ int_str n"
| "status_str (Signalled t) = t"

record cmd_output =
  out_status :: exit_status
  out_stdout :: string
  out_stderr :: string

text \<open>A call: a program with its arguments, and its environment where the code sets it, a direct access to a file, or a
  request to the server (\<open>Download\<close> for the data of an image).\<close>

datatype call = Command string "string list" | Command_Env string "string list" "(string \<times> string) list" | Write_File string string | Remove_File string
  | Make_Dir string | Remove_Dir string | Download string "string list" | Other_Call string "string list"

record outside =
  run_command :: "call list \<Rightarrow> string + cmd_output"
  read_file :: "call list \<Rightarrow> string \<Rightarrow> string + string"
  file_size :: "call list \<Rightarrow> string \<Rightarrow> anyhow + u64"
  attempt :: "call list \<Rightarrow> string + unit"

type_synonym 'a run = "call list \<Rightarrow> (anyhow + 'a) \<times> call list"

definition t_return :: "'a \<Rightarrow> 'a run" where
  "t_return x t = (Inr x, t)"

definition t_bail :: "string \<Rightarrow> 'a run" where
  "t_bail m t = (Inl [m], t)"

definition t_of :: "anyhow + 'a \<Rightarrow> 'a run" where
  "t_of r t = (r, t)"

definition t_bind :: "'a run \<Rightarrow> ('a \<Rightarrow> 'b run) \<Rightarrow> 'b run" where
  "t_bind m f t = (case m t of (Inl e, t') \<Rightarrow> (Inl e, t') | (Inr x, t') \<Rightarrow> f x t')"

definition t_context :: "string \<Rightarrow> 'a run \<Rightarrow> 'a run" where
  "t_context m r t = apfst (with_context m) (r t)"

text \<open>The outcome as a value.\<close>

definition t_try :: "'a run \<Rightarrow> (anyhow + 'a) run" where
  "t_try m t = apfst Inr (m t)"

text \<open>\<open>Command::output\<close> fails when the program cannot be started.\<close>

definition command_output :: "outside \<Rightarrow> string \<Rightarrow> string list \<Rightarrow> cmd_output run" where
  "command_output w program arguments t =
     (let t' = t @ [Command program arguments] in (map_err (\<lambda>e. [e]) (run_command w t'), t'))"

definition command_env_output ::
  "outside \<Rightarrow> string \<Rightarrow> string list \<Rightarrow> (string \<times> string) list \<Rightarrow> cmd_output run" where
  "command_env_output w program arguments env t =
     (let t' = t @ [Command_Env program arguments env] in (map_err (\<lambda>e. [e]) (run_command w t'), t'))"

definition file_bytes :: "outside \<Rightarrow> string \<Rightarrow> string run" where
  "file_bytes w path t = (map_err (\<lambda>e. [e]) (read_file w t path), t)"

definition act :: "outside \<Rightarrow> call \<Rightarrow> unit run" where
  "act w c t = (let t' = t @ [c] in (map_err (\<lambda>e. [e]) (attempt w t'), t'))"

lemmas t_defs = t_bind_def t_context_def with_context_def command_output_def command_env_output_def file_bytes_def act_def
  t_of_def t_bail_def t_return_def t_try_def Let_def

named_theorems t_simps \<open>how calls combine\<close>

lemma t_return_simp [t_simps]: "t_return x t = (Inr x, t)"
  by (simp add: t_return_def)

lemma t_bail_simp [t_simps]: "t_bail m t = (Inl [m], t)"
  by (simp add: t_bail_def)

lemma t_of_simp [t_simps]: "t_of r t = (r, t)"
  by (simp add: t_of_def)

lemma t_bind_Inr [t_simps]:
  "t_bind m f t = (Inr y, t') \<longleftrightarrow> (\<exists>x u. m t = (Inr x, u) \<and> f x u = (Inr y, t'))"
  by (auto simp: t_bind_def split: prod.splits sum.splits)

lemma t_context_Inr [t_simps]: "t_context m r t = (Inr y, t') \<longleftrightarrow> r t = (Inr y, t')"
  by (cases "r t") (auto simp: t_context_def result_simps)

lemma command_output_Inr [t_simps]:
  "command_output w p as t = (Inr y, t') \<longleftrightarrow>
   t' = t @ [Command p as] \<and> run_command w (t @ [Command p as]) = Inr y"
  by (auto simp: command_output_def Let_def result_simps)

lemma file_bytes_Inr [t_simps]: "file_bytes w p t = (Inr y, t') \<longleftrightarrow> t' = t \<and> read_file w t p = Inr y"
  by (auto simp: file_bytes_def result_simps)

text \<open>An operation only adds to the calls made before it.\<close>

definition extends :: "'a run \<Rightarrow> bool" where
  "extends m \<longleftrightarrow> (\<forall>t. prefix t (snd (m t)))"

named_theorems extends_intros \<open>operations that only add calls\<close>

lemma extendsD: "extends m \<Longrightarrow> prefix t (snd (m t))"
  by (simp add: extends_def)

lemma extends_return [extends_intros]: "extends (t_return x)"
  by (simp add: extends_def t_simps)

lemma extends_bail [extends_intros]: "extends (t_bail m)"
  by (simp add: extends_def t_simps)

lemma extends_of [extends_intros]: "extends (t_of r)"
  by (simp add: extends_def t_simps)

lemma extends_command [extends_intros]: "extends (command_output w p as)"
  by (simp add: extends_def command_output_def Let_def)

lemma extends_file [extends_intros]: "extends (file_bytes w p)"
  by (simp add: extends_def file_bytes_def)

lemma extends_act [extends_intros]: "extends (act w c)"
  by (simp add: extends_def act_def Let_def)

lemma extends_bind [extends_intros]: "extends m \<Longrightarrow> (\<And>x. extends (f x)) \<Longrightarrow> extends (t_bind m f)"
  unfolding extends_def t_bind_def
  by (auto split: prod.splits sum.splits) (metis prefix_order.trans snd_conv)+

lemma extends_context [extends_intros]: "extends m \<Longrightarrow> extends (t_context c m)"
  by (simp add: extends_def t_context_def)

lemma extends_try [extends_intros]: "extends m \<Longrightarrow> extends (t_try m)"
  by (simp add: extends_def t_try_def)

lemma extends_if [extends_intros]: "(b \<Longrightarrow> extends m) \<Longrightarrow> (\<not> b \<Longrightarrow> extends n) \<Longrightarrow> extends (if b then m else n)"
  by simp

subsection \<open>Strings\<close>

text \<open>\<open>str::lines\<close>: a carriage return goes with the line feed after it.\<close>

definition strip_cr :: "string \<Rightarrow> string" where
  "strip_cr s = (if s \<noteq> [] \<and> last s = CHR 0x0D then butlast s else s)"

definition lines :: "string \<Rightarrow> string list" where
  "lines s =
     (let segments = split_on (CHR 0x0A) s
      in map strip_cr (butlast segments) @ (if last segments = [] then [] else [last segments]))"

text \<open>\<open>str::split_whitespace\<close>, \<open>word\<close> being what was read of the current word.\<close>

definition ws_prefix :: "string \<Rightarrow> string option" where
  "ws_prefix s = List.find (\<lambda>w. w \<noteq> [] \<and> prefix w s) ws_seqs"

definition nonempty_word :: "string \<Rightarrow> string list" where
  "nonempty_word w = (if w = [] then [] else [w])"

function words_from :: "string \<Rightarrow> string \<Rightarrow> string list" where
  "words_from word s =
     (if s = [] then nonempty_word word
      else case ws_prefix s of
             None \<Rightarrow> words_from (word @ [hd s]) (tl s)
           | Some w \<Rightarrow> nonempty_word word @ words_from [] (drop (length w) s))"
  by pat_completeness auto
termination
  by (relation "measure (\<lambda>(word, s). length s)") (auto simp: ws_prefix_def find_Some_iff)

declare words_from.simps [simp del]

definition split_whitespace :: "string \<Rightarrow> string list" where
  "split_whitespace s = words_from [] s"

text \<open>\<open>str::find(pattern)\<close> as the text before and after the first match: \<open>contains\<close>.\<close>

definition str_contains :: "string \<Rightarrow> string \<Rightarrow> bool" where
  "str_contains pat s \<longleftrightarrow> (\<exists>i \<in> set [0..<Suc (length s)]. prefix pat (drop i s))"

definition ends_with :: "string \<Rightarrow> string \<Rightarrow> bool" where
  "ends_with suf s \<longleftrightarrow> suffix suf s"

text \<open>\<open>trim_matches\<close> of one character.\<close>

definition trim_char :: "char \<Rightarrow> string \<Rightarrow> string" where
  "trim_char c s = rev (dropWhile (\<lambda>d. d = c) (rev (dropWhile (\<lambda>d. d = c) s)))"

text \<open>\<open>parse::<i64>\<close>.\<close>

definition parse_i64 :: "string \<Rightarrow> int option" where
  "parse_i64 s =
     (case s of
        [] \<Rightarrow> None
      | c # cs \<Rightarrow>
          if c = CHR ''-''
          then if all_digits cs \<and> digits_val cs \<le> 2 ^ 63 then Some (- int (digits_val cs)) else None
          else map_option int (parse_uint 63 s))"

text \<open>\<open>a..=b\<close> of \<open>slice::get\<close>: the bytes from \<open>a\<close> up to \<open>b\<close>, if they are all there.\<close>

definition get_range :: "nat \<Rightarrow> nat \<Rightarrow> 'a list \<Rightarrow> 'a list option" where
  "get_range a b xs = (if a \<le> b \<and> b \<le> length xs then Some (take (b - a) (drop a xs)) else None)"

subsection \<open>Saturating and checked arithmetic\<close>

definition sat_add :: "u64 \<Rightarrow> u64 \<Rightarrow> u64" where
  "sat_add a b = (if unat a + unat b < 2 ^ 64 then a + b else - 1)"

definition sat_mul :: "u64 \<Rightarrow> u64 \<Rightarrow> u64" where
  "sat_mul a b = (if unat a * unat b < 2 ^ 64 then a * b else - 1)"

definition checked_add :: "u64 \<Rightarrow> u64 \<Rightarrow> u64 option" where
  "checked_add a b = (if unat a + unat b < 2 ^ 64 then Some (a + b) else None)"

definition checked_mul :: "u64 \<Rightarrow> u64 \<Rightarrow> u64 option" where
  "checked_mul a b = (if unat a * unat b < 2 ^ 64 then Some (a * b) else None)"

lemma unat_max: "unat (- 1 :: u64) = 2 ^ 64 - 1"
  by (simp add: unsigned_minus_1_eq_mask mask_eq_exp_minus_1)

lemma unat_sat_add: "unat (sat_add a b) = min (unat a + unat b) (2 ^ 64 - 1)"
  by (simp add: sat_add_def unat_max unat_word_ariths min_def)

lemma unat_sat_mul: "unat (sat_mul a b) = min (unat a * unat b) (2 ^ 64 - 1)"
  by (simp add: sat_mul_def unat_max unat_word_ariths min_def)

lemma checked_add_Some: "checked_add a b = Some c \<longleftrightarrow> unat c = unat a + unat b"
  using unsigned_less [where ?'a = nat and w = c] by (auto simp: checked_add_def unat_word_ariths word_unat_eq_iff)

lemma checked_mul_Some: "checked_mul a b = Some c \<longleftrightarrow> unat c = unat a * unat b"
  using unsigned_less [where ?'a = nat and w = c] by (auto simp: checked_mul_def unat_word_ariths word_unat_eq_iff)

lemma unat_ucast_u64 [simp]: "unat (ucast s :: u64) = unat (s :: u32)"
  using unsigned_less [where ?'a = nat and w = s] by (simp add: unsigned_ucast_eq take_bit_nat_eq_self)

lemma get_range_Some: "get_range a b xs = Some ys \<longleftrightarrow> a \<le> b \<and> b \<le> length xs \<and> ys = take (b - a) (drop a xs)"
  by (auto simp: get_range_def)

subsection \<open>Lists of results\<close>

lemma list_all2_set_right:
  "list_all2 P xs ys \<Longrightarrow> y \<in> set ys \<Longrightarrow> \<exists>x \<in> set xs. P x y"
  by (induction rule: list_all2_induct) auto

lemma list_all2_mono_set:
  "list_all2 P xs ys \<Longrightarrow> (\<And>x y. x \<in> set xs \<Longrightarrow> P x y \<Longrightarrow> Q x y) \<Longrightarrow> list_all2 Q xs ys"
  by (induction rule: list_all2_induct) auto

lemma is_ok_collect_map: "is_ok (collect_map f xs) \<longleftrightarrow> (\<forall>x \<in> set xs. is_ok (f x))"
  by (induction xs) (auto simp: result_simps)

end
