(* ===== verification/Filesystems.thy ===== *)
theory Filesystems
  imports Tools Model_Types "HOL-Library.Code_Target_Nat"
begin

text \<open>
  The file systems an image may hold and what is done to one on its device: \<open>filesystem.rs\<close>, \<open>swap.rs\<close>,
  \<open>root.rs\<close>, \<open>grow.rs\<close> and the choice of the imaging program of \<open>imaging.rs\<close> in \<open>crates/disk/src\<close>,
  and \<open>repair_filesystem\<close> of \<open>crates/agent/src/sys/disk.rs\<close>. The programs they run (\<open>e2fsck\<close>, \<open>resize2fs\<close>,
  \<open>btrfs\<close>, \<open>debugfs\<close>, \<open>mount\<close>) are calls of \<open>Tools\<close>; partclone itself and the compression are not
  modelled.
\<close>

subsection \<open>File systems\<close>

datatype filesystem = Ext2 | Ext3 | Ext4 | Vfat | Btrfs | Swap

fun fs_as_str :: "filesystem \<Rightarrow> string" where
  "fs_as_str Ext2 = ''ext2''"
| "fs_as_str Ext3 = ''ext3''"
| "fs_as_str Ext4 = ''ext4''"
| "fs_as_str Vfat = ''vfat''"
| "fs_as_str Btrfs = ''btrfs''"
| "fs_as_str Swap = ''swap''"

definition fs_from_str :: "string \<Rightarrow> anyhow + filesystem" where
  "fs_from_str fstype =
     (if fstype = ''ext2'' then Inr Ext2
      else if fstype = ''ext3'' then Inr Ext3
      else if fstype = ''ext4'' then Inr Ext4
      else if fstype \<in> {''vfat'', ''fat32'', ''fat16''} then Inr Vfat
      else if fstype = ''btrfs'' then Inr Btrfs
      else if fstype = ''swap'' then Inr Swap
      else Inl [''filesystem not supported: '' @ fstype])"

definition fs_detect :: "string option \<Rightarrow> anyhow + filesystem option" where
  "fs_detect fstype =
     (case fstype of None \<Rightarrow> Inr None | Some t \<Rightarrow> and_then (fs_from_str t) (\<lambda>fs. Inr (Some fs)))"

definition is_ext :: "filesystem \<Rightarrow> bool" where
  "is_ext fs \<longleftrightarrow> fs \<in> {Ext2, Ext3, Ext4}"

text \<open>Which program images a file system; a swap area is imaged by its header.\<close>

datatype imager = Partclone string | SwapHeader

fun imager_of :: "filesystem \<Rightarrow> imager" where
  "imager_of Ext2 = Partclone ''partclone.extfs''"
| "imager_of Ext3 = Partclone ''partclone.extfs''"
| "imager_of Ext4 = Partclone ''partclone.extfs''"
| "imager_of Vfat = Partclone ''partclone.vfat''"
| "imager_of Btrfs = Partclone ''partclone.btrfs''"
| "imager_of Swap = SwapHeader"

subsection \<open>Swap headers\<close>

definition SWAP_SIGNATURE :: string where "SWAP_SIGNATURE = ''SWAPSPACE2''"
definition PAGE_SIZES :: "nat list" where "PAGE_SIZES = [4096, 8192, 16384, 65536]"
definition LARGEST_PAGE :: nat where "LARGEST_PAGE = 65536"

definition signed_page :: "string \<Rightarrow> nat \<Rightarrow> bool" where
  "signed_page bytes page \<longleftrightarrow> get_range (page - length SWAP_SIGNATURE) page bytes = Some SWAP_SIGNATURE"

definition swap_capture :: "outside \<Rightarrow> string \<Rightarrow> string run" where
  "swap_capture w source =
     t_bind (t_context (''opening '' @ source) (act w (Other_Call ''open'' [source]))) (\<lambda>_.
       t_bind (t_context (''reading the swap header of '' @ source) (file_bytes w source)) (\<lambda>bytes.
         let head = take LARGEST_PAGE bytes
         in t_bind (t_of (ok_or [source @ '' has no swap signature''] (List.find (signed_page head) PAGE_SIZES)))
              (\<lambda>page. t_return (take page head))))"

definition swap_write :: "outside \<Rightarrow> string \<Rightarrow> string \<Rightarrow> unit run" where
  "swap_write w target header =
     t_bind (t_context (''opening '' @ target) (act w (Other_Call ''open'' [target]))) (\<lambda>_.
       t_bind (t_context (''writing the swap header to '' @ target) (act w (Write_File target header))) (\<lambda>_.
         act w (Other_Call ''sync'' [target])))"

definition swap_restore :: "outside \<Rightarrow> string \<Rightarrow> string \<Rightarrow> unit run" where
  "swap_restore w received target =
     (let header = take (LARGEST_PAGE + 1) received
      in if length header \<notin> set PAGE_SIZES \<or> \<not> ends_with SWAP_SIGNATURE header
         then t_bail ''the archived swap header is not a swap header page''
         else swap_write w target header)"

subsection \<open>Which partition holds the system\<close>

definition has_os_release :: "outside \<Rightarrow> string \<Rightarrow> bool run" where
  "has_os_release w source =
     t_bind (t_context ''running debugfs''
         (command_output w ''debugfs'' [''-R'', ''stat /etc/os-release'', source])) (\<lambda>output.
       if starts_with ''Inode:'' (out_stdout output) then t_return True
       else if str_contains ''File not found by ext2_lookup'' (from_utf8_lossy (out_stderr output))
       then t_return False
       else t_bail (trim (from_utf8_lossy (out_stderr output))))"

definition holds_system :: "outside \<Rightarrow> filesystem \<Rightarrow> string \<Rightarrow> bool run" where
  "holds_system w fs source =
     (if \<not> is_ext fs then t_return False
      else t_bind (t_try (has_os_release w source)) (\<lambda>found.
             t_return (case found of Inr b \<Rightarrow> b | Inl _ \<Rightarrow> False)))"

fun only_root :: "int list \<Rightarrow> int option" where
  "only_root [root] = Some root"
| "only_root _ = None"

subsection \<open>Growing a restored file system\<close>

definition E2FSCK_CONFIG :: string where "E2FSCK_CONFIG = ''/etc/e2fsck.conf''"
definition E2FSCK_UNCORRECTED :: int where "E2FSCK_UNCORRECTED = 4"
definition BTRFS_MIN_RESIZE_BYTES :: u64 where "BTRFS_MIN_RESIZE_BYTES = 256 * 1024 * 1024"

definition printed_text :: "cmd_output \<Rightarrow> string" where
  "printed_text output = trim (from_utf8_lossy (out_stdout output @ out_stderr output))"

definition partition_bytes :: "outside \<Rightarrow> string \<Rightarrow> u64 run" where
  "partition_bytes w device t = (file_size w t device, t)"

text \<open>\<open>parse::<u64>\<close> of the field, which is to be positive.\<close>

definition positive_u64 :: "string \<Rightarrow> u64 option" where
  "positive_u64 text =
     (case parse_uint 64 text of Some n \<Rightarrow> if 0 < n then Some (word_of_nat n) else None | None \<Rightarrow> None)"

fun find_map :: "('a \<Rightarrow> 'b option) \<Rightarrow> 'a list \<Rightarrow> 'b option" where
  "find_map f [] = None"
| "find_map f (x # xs) = (case f x of None \<Rightarrow> find_map f xs | y \<Rightarrow> y)"

definition ext_field :: "string \<Rightarrow> cmd_output \<Rightarrow> string \<Rightarrow> anyhow + u64" where
  "ext_field device output field =
     ok_or [''reading the '' @ map lower field @ '' of the filesystem on '' @ device @ '': ''
            @ trim (from_utf8_lossy (out_stderr output))]
       (Option.bind
         (find_map (\<lambda>line. Option.bind (strip_prefix field line) (strip_prefix '':''))
            (lines (from_utf8_lossy (out_stdout output))))
         (\<lambda>text. positive_u64 (trim text)))"

definition ext_geometry :: "outside \<Rightarrow> string \<Rightarrow> (u64 \<times> u64) run" where
  "ext_geometry w device =
     t_bind (t_context ''running debugfs'' (command_output w ''debugfs'' [''-R'', ''stats'', device])) (\<lambda>output.
       t_bind (t_of (ext_field device output ''Block count'')) (\<lambda>count.
         t_bind (t_of (ext_field device output ''Block size'')) (\<lambda>block. t_return (count, block))))"

text \<open>The first word of a line, with the rest of it after one white space character.\<close>

fun split_once_ws :: "string \<Rightarrow> (string \<times> string) option" where
  "split_once_ws [] = None"
| "split_once_ws (c # s) =
     (case ws_prefix (c # s) of
        Some ws \<Rightarrow> Some ([], drop (length ws) (c # s))
      | None \<Rightarrow> map_option (apfst ((#) c)) (split_once_ws s))"

definition btrfs_field :: "string \<Rightarrow> cmd_output \<Rightarrow> string \<Rightarrow> anyhow + u64" where
  "btrfs_field device output field =
     ok_or [''reading the '' @ field @ '' of the btrfs filesystem on '' @ device @ '': ''
            @ trim (from_utf8_lossy (out_stderr output))]
       (Option.bind
         (find_map (\<lambda>line. Option.bind (split_once_ws line)
              (\<lambda>(key, text). if key = field then Some (trim text) else None))
            (lines (from_utf8_lossy (out_stdout output))))
         positive_u64)"

definition btrfs_geometry :: "outside \<Rightarrow> string \<Rightarrow> (u64 \<times> u64) run" where
  "btrfs_geometry w device =
     t_bind (t_context ''running btrfs inspect-internal dump-super''
         (command_output w ''btrfs'' [''inspect-internal'', ''dump-super'', device])) (\<lambda>output.
       t_bind (t_of (btrfs_field device output ''total_bytes'')) (\<lambda>total.
         t_bind (t_of (btrfs_field device output ''sectorsize'')) (\<lambda>sector. t_return (total, sector))))"

text \<open>\<open>run\<close> and \<open>check\<close> of \<open>grow.rs\<close>.\<close>

definition grow_run :: "outside \<Rightarrow> string \<Rightarrow> string list \<Rightarrow> unit run" where
  "grow_run w program arguments =
     t_bind (t_context (''running '' @ program) (command_output w program arguments)) (\<lambda>output.
       if success (out_status output) then t_return ()
       else t_bail (join '' '' (program # arguments) @ '' failed with '' @ status_str (out_status output)
              @ '': '' @ printed_text output))"

definition check_ext :: "outside \<Rightarrow> string \<Rightarrow> unit run" where
  "check_ext w device =
     t_bind (t_context ''running e2fsck''
         (command_env_output w ''e2fsck'' [''-f'', ''-p'', device] [(''E2FSCK_CONFIG'', E2FSCK_CONFIG)])) (\<lambda>output.
       if (case exit_code (out_status output) of Some code \<Rightarrow> code < E2FSCK_UNCORRECTED | None \<Rightarrow> False)
       then t_return ()
       else t_bail (device @ '' has filesystem errors that could not be repaired before growing it (''
              @ status_str (out_status output) @ ''): '' @ printed_text output))"

definition grow_ext :: "outside \<Rightarrow> string \<Rightarrow> unit run" where
  "grow_ext w device =
     t_bind (partition_bytes w device) (\<lambda>available.
       t_bind (ext_geometry w device) (\<lambda>(blocks, block_size).
         if available div block_size \<le> blocks then t_return ()
         else t_bind (check_ext w device) (\<lambda>_.
                t_bind (t_context ''running resize2fs'' (command_output w ''resize2fs'' [''-f'', device]))
                  (\<lambda>output.
                    if success (out_status output) then t_return ()
                    else t_bail (''resize2fs '' @ device @ '' failed with ''
                           @ status_str (out_status output) @ '': '' @ printed_text output)))))"

text \<open>
  A temporary mount. \<open>mounted_new\<close> makes a directory, whose name \<open>fresh\<close> gives, and mounts the device on
  it. \<open>mounted_unmount\<close> unmounts and removes it; when \<open>umount\<close> fails, \<open>Mounted\<close> is dropped as still mounted, and
  \<open>mounted_drop\<close> tries once more, then lazily.
\<close>

definition make_temp :: "outside \<Rightarrow> string \<Rightarrow> string run" where
  "make_temp w fresh =
     t_bind (t_context ''creating a mount point'' (act w (Make_Dir fresh))) (\<lambda>_. t_return fresh)"

definition mounted_new :: "outside \<Rightarrow> string \<Rightarrow> string \<Rightarrow> string run" where
  "mounted_new w fresh device =
     t_bind (make_temp w fresh) (\<lambda>dir.
       t_bind (t_try (grow_run w ''mount'' [''-t'', ''btrfs'', device, dir])) (\<lambda>mounted.
         case mounted of
           Inr _ \<Rightarrow> t_return dir
         | Inl e \<Rightarrow> t_bind (t_try (act w (Remove_Dir dir))) (\<lambda>_. t_of (Inl e))))"

definition umount_worked :: "outside \<Rightarrow> string list \<Rightarrow> bool run" where
  "umount_worked w arguments =
     t_bind (t_try (command_output w ''umount'' arguments)) (\<lambda>result.
       t_return (case result of Inr output \<Rightarrow> success (out_status output) | Inl _ \<Rightarrow> False))"

definition mounted_drop :: "outside \<Rightarrow> string \<Rightarrow> unit run" where
  "mounted_drop w dir =
     t_bind (umount_worked w [dir]) (\<lambda>worked.
       t_bind (if worked then t_return True else umount_worked w [''-l'', dir]) (\<lambda>gone.
         if gone then t_bind (t_try (act w (Remove_Dir dir))) (\<lambda>_. t_return ())
         else t_return ()))"

definition mounted_unmount :: "outside \<Rightarrow> string \<Rightarrow> unit run" where
  "mounted_unmount w dir =
     t_bind (t_try (grow_run w ''umount'' [dir])) (\<lambda>result.
       case result of
         Inl e \<Rightarrow> t_bind (mounted_drop w dir) (\<lambda>_. t_of (Inl e))
       | Inr _ \<Rightarrow> t_context (''removing '' @ dir) (act w (Remove_Dir dir)))"

text \<open>\<open>resized.and(unmounted)\<close>: the first error.\<close>

definition grow_btrfs :: "outside \<Rightarrow> string \<Rightarrow> string \<Rightarrow> unit run" where
  "grow_btrfs w fresh device =
     t_bind (partition_bytes w device) (\<lambda>available.
       t_bind (btrfs_geometry w device) (\<lambda>(total_bytes, sector).
         if available div sector \<le> total_bytes div sector then t_return ()
         else if available < BTRFS_MIN_RESIZE_BYTES then t_return ()
         else t_bind (mounted_new w fresh device) (\<lambda>dir.
                t_bind (t_try (grow_run w ''btrfs'' [''filesystem'', ''resize'', ''max'', dir])) (\<lambda>resized.
                  t_bind (t_try (mounted_unmount w dir)) (\<lambda>unmounted.
                    t_of (and_then resized (\<lambda>_. unmounted)))))))"

definition grow :: "outside \<Rightarrow> string \<Rightarrow> filesystem \<Rightarrow> string \<Rightarrow> unit run" where
  "grow w fresh fs device =
     (case fs of
        Ext2 \<Rightarrow> grow_ext w device
      | Ext3 \<Rightarrow> grow_ext w device
      | Ext4 \<Rightarrow> grow_ext w device
      | Btrfs \<Rightarrow> grow_btrfs w fresh device
      | Vfat \<Rightarrow> t_return ()
      | Swap \<Rightarrow> t_return ())"

subsection \<open>Names and headers\<close>

lemma fs_from_as_str [simp]: "fs_from_str (fs_as_str fs) = Inr fs"
  by (cases fs) (simp_all add: fs_from_str_def)

text \<open>The server accepts the names of exactly the file systems the agent has, and a partition image those but swap.\<close>

lemma fstypes_are_filesystems:
  "set (fstypes Disk) = range fs_as_str" "set (fstypes Partition) = fs_as_str ` {fs. fs \<noteq> Swap}"
proof -
  have all: "UNIV = {Ext2, Ext3, Ext4, Vfat, Btrfs, Swap}"
    using filesystem.exhaust by blast
  then show "set (fstypes Disk) = range fs_as_str"
    unfolding all by (simp add: FSTYPES_def)
  have "{fs. fs \<noteq> Swap} = {Ext2, Ext3, Ext4, Vfat, Btrfs}"
    using all by auto
  then show "set (fstypes Partition) = fs_as_str ` {fs. fs \<noteq> Swap}"
    by (simp add: FSTYPES_def)
qed

lemma signed_page_take:
  assumes "signed_page bytes page" "page \<in> set PAGE_SIZES"
  shows "page \<le> length bytes" "suffix SWAP_SIGNATURE (take page bytes)"
proof -
  have "length SWAP_SIGNATURE = 10"
    by (simp add: SWAP_SIGNATURE_def)
  moreover have "10 \<le> page"
    using assms(2) by (auto simp: PAGE_SIZES_def)
  ultimately have range: "page \<le> length bytes" "take 10 (drop (page - 10) bytes) = SWAP_SIGNATURE"
    using assms(1) by (auto simp: signed_page_def get_range_Some)
  then show "page \<le> length bytes" by simp
  have "take page bytes = take (page - 10) bytes @ take 10 (drop (page - 10) bytes)"
    using \<open>10 \<le> page\<close> by (metis le_add_diff_inverse2 take_add)
  with range(2) show "suffix SWAP_SIGNATURE (take page bytes)"
    by (simp add: suffix_def)
qed

lemma swap_round_trip:
  assumes "swap_capture w source t = (Inr header, t')"
  shows "t' = t @ [Other_Call ''open'' [source]] \<and> (\<exists>bytes. read_file w t' source = Inr bytes \<and> prefix header bytes) \<and>
    swap_restore w header target u = swap_write w target header u"
proof -
  obtain bytes page where read: "t' = t @ [Other_Call ''open'' [source]]" "read_file w t' source = Inr bytes"
    and page: "List.find (signed_page (take LARGEST_PAGE bytes)) PAGE_SIZES = Some page"
    and header: "header = take page (take LARGEST_PAGE bytes)"
    using assms by (auto simp: swap_capture_def Let_def t_simps result_simps act_def)
  from page have signed: "signed_page (take LARGEST_PAGE bytes) page" "page \<in> set PAGE_SIZES"
    by (auto simp: find_Some_iff)
  from signed_page_take [OF this] have "length header = page" "ends_with SWAP_SIGNATURE header"
    by (auto simp: header ends_with_def)
  moreover have "page \<le> LARGEST_PAGE"
    using signed(2) by (auto simp: PAGE_SIZES_def LARGEST_PAGE_def)
  ultimately have "swap_restore w header target u = swap_write w target header u"
    using signed(2) by (simp add: swap_restore_def)
  moreover have "prefix header bytes"
    by (simp add: header take_is_prefix take_take)
  ultimately show ?thesis
    using read by blast
qed

subsection \<open>The calls of growing\<close>
lemma ext_geometry_calls: "\<exists>r. ext_geometry w device t = (r, t @ [Command ''debugfs'' [''-R'', ''stats'', device]])"
  by (auto simp: ext_geometry_def t_defs
      split: prod.splits sum.splits)

lemma btrfs_geometry_calls:
  "\<exists>r. btrfs_geometry w device t = (r, t @ [Command ''btrfs'' [''inspect-internal'', ''dump-super'', device]])"
  by (auto simp: btrfs_geometry_def t_defs
      split: prod.splits sum.splits)

lemma check_ext_calls:
  "check_ext w device t = (r, t') \<Longrightarrow>
     t' = t @ [Command_Env ''e2fsck'' [''-f'', ''-p'', device] [(''E2FSCK_CONFIG'', E2FSCK_CONFIG)]] \<and>
     (r = Inr () \<longrightarrow> (\<exists>output code. run_command w t' = Inr output \<and>
        exit_code (out_status output) = Some code \<and> code < E2FSCK_UNCORRECTED))"
  by (cases "run_command w (t @ [Command_Env ''e2fsck'' [''-f'', ''-p'', device] [(''E2FSCK_CONFIG'', E2FSCK_CONFIG)]])")
    (auto simp: check_ext_def t_defs
      split: if_splits option.splits)

lemma grow_run_calls:
  "grow_run w p a t = (r, t') \<Longrightarrow> t' = t @ [Command p a] \<and>
     (r = Inr () \<longleftrightarrow> (\<exists>output. run_command w t' = Inr output \<and> success (out_status output)))"
  by (cases "run_command w (t @ [Command p a])")
    (auto simp: grow_run_def t_defs
      split: if_splits)

text \<open>The calls of \<open>grow_ext\<close>: the first ones of a fixed list, the last one only after a clean check of the same device.\<close>

definition ext_calls :: "string \<Rightarrow> call list" where
  "ext_calls device =
     [Command ''debugfs'' [''-R'', ''stats'', device],
      Command_Env ''e2fsck'' [''-f'', ''-p'', device] [(''E2FSCK_CONFIG'', ''/etc/e2fsck.conf'')],
      Command ''resize2fs'' [''-f'', device]]"

definition succeeds :: "outside \<Rightarrow> call list \<Rightarrow> bool" where
  "succeeds w t \<longleftrightarrow> (\<exists>output. run_command w t = Inr output \<and> exit_code (out_status output) = Some 0)"

lemma succeeds_success: "succeeds w t \<longleftrightarrow> (\<exists>output. run_command w t = Inr output \<and> success (out_status output))"
proof -
  have "exit_code s = Some 0 \<longleftrightarrow> success s" for s
    by (cases s) (auto simp: success_def)
  then show ?thesis
    by (simp add: succeeds_def)
qed

definition ext_room :: "outside \<Rightarrow> string \<Rightarrow> call list \<Rightarrow> bool" where
  "ext_room w device t \<longleftrightarrow> (\<exists>available blocks size. file_size w t device = Inr available \<and>
     fst (ext_geometry w device t) = Inr (blocks, size) \<and> blocks < available div size)"

definition btrfs_room :: "outside \<Rightarrow> string \<Rightarrow> call list \<Rightarrow> bool" where
  "btrfs_room w device t \<longleftrightarrow> (\<exists>available total sector. file_size w t device = Inr available \<and>
     fst (btrfs_geometry w device t) = Inr (total, sector) \<and> total div sector < available div sector \<and>
     268435456 \<le> available)"

lemma grow_ext_calls:
  assumes "grow_ext w device t = (r, t')"
  shows "\<exists>k \<le> 3. t' = t @ take k (ext_calls device) \<and> (2 \<le> k \<longrightarrow> ext_room w device t) \<and>
    (k = 3 \<longrightarrow> (\<exists>output code. run_command w (t @ take 2 (ext_calls device)) = Inr output \<and>
       exit_code (out_status output) = Some code \<and> code < 4)) \<and>
    (r = Inr () \<longrightarrow> k = 1 \<and> \<not> ext_room w device t \<or> k = 3 \<and> succeeds w t')"
proof -
  let ?d1 = "take 1 (ext_calls device)" and ?d2 = "take 2 (ext_calls device)" and ?d3 = "take 3 (ext_calls device)"
  have e: "?d1 = [Command ''debugfs'' [''-R'', ''stats'', device]]"
    "?d2 = ?d1 @ [Command_Env ''e2fsck'' [''-f'', ''-p'', device] [(''E2FSCK_CONFIG'', E2FSCK_CONFIG)]]"
    "?d3 = ?d2 @ [Command ''resize2fs'' [''-f'', device]]"
    by (simp_all add: ext_calls_def E2FSCK_CONFIG_def)
  obtain g where g: "ext_geometry w device t = (g, t @ ?d1)"
    using ext_geometry_calls unfolding e(1) by blast
  obtain c u where c: "check_ext w device (t @ ?d1) = (c, u)"
    by fastforce
  from check_ext_calls [OF c] have u: "u = t @ ?d2" and ok: "c = Inr () \<Longrightarrow> \<exists>output code. run_command w (t @ ?d2) = Inr output \<and>
        exit_code (out_status output) = Some code \<and> code < 4"
    unfolding e(2) by (auto simp: E2FSCK_UNCORRECTED_def)
  let ?resize = "t_bind (t_context ''running resize2fs'' (command_output w ''resize2fs'' [''-f'', device]))
      (\<lambda>output. if success (out_status output) then t_return ()
         else t_bail (''resize2fs '' @ device @ '' failed with '' @ status_str (out_status output) @ '': '' @ printed_text output))"
  obtain z v where zv: "?resize (t @ ?d2) = (z, v)"
    by fastforce
  then have v: "v = t @ ?d3" and z: "z = Inr () \<Longrightarrow> succeeds w (t @ ?d3)"
    unfolding e(3) succeeds_success
    by (cases "run_command w (t @ ?d2 @ [Command ''resize2fs'' [''-f'', device]])"; auto simp: t_defs split: if_splits)+
  consider (size) e where "file_size w t device = Inl e" "r = Inl e" "t' = t"
    | (geometry) x where "g = Inl x" "r = Inl x" "t' = t @ ?d1"
    | (full) "\<not> ext_room w device t" "r = Inr ()" "t' = t @ ?d1"
    | (dirty) x where "ext_room w device t" "c = Inl x" "r = Inl x" "t' = t @ ?d2"
    | (resized) "ext_room w device t" "c = Inr ()" "r = z" "t' = t @ ?d3"
    using assms g c u zv v
    by (cases "file_size w t device"; cases g; cases c)
      (auto simp: grow_ext_def partition_bytes_def t_bind_def t_return_def ext_room_def not_le split: if_splits)
  then show ?thesis
  proof cases
    case size
    then show ?thesis by (intro exI [of _ 0]) simp
  next
    case geometry
    then show ?thesis by (intro exI [of _ 1]) simp
  next
    case full
    then show ?thesis by (intro exI [of _ 1]) simp
  next
    case dirty
    then show ?thesis by (intro exI [of _ 2]) simp
  next
    case resized
    with ok z show ?thesis by (intro exI [of _ 3]) simp
  qed
qed

lemma mounted_new_calls:
  assumes "mounted_new w fresh device t = (r, t')"
  defines "mount \<equiv> Command ''mount'' [''-t'', ''btrfs'', device, fresh]"
  shows "t' = t @ [Make_Dir fresh] \<and> \<not> is_ok r \<or>
    t' = t @ [Make_Dir fresh, mount] \<and> r = Inr fresh \<and> succeeds w t' \<or>
    t' = t @ [Make_Dir fresh, mount, Remove_Dir fresh] \<and> \<not> is_ok r \<and> \<not> succeeds w (t @ [Make_Dir fresh, mount])"
proof -
  obtain m u where m: "grow_run w ''mount'' [''-t'', ''btrfs'', device, fresh] (t @ [Make_Dir fresh]) = (m, u)"
    by fastforce
  from grow_run_calls [OF m] m show ?thesis
    using assms(1) unfolding mount_def succeeds_success
    by (cases "attempt w (t @ [Make_Dir fresh])"; cases m) (auto simp: mounted_new_def make_temp_def t_defs)
qed

lemma mounted_drop_calls:
  "\<exists>v. mounted_drop w dir t = (Inr (), t @ v) \<and> set v \<subseteq> {Command ''umount'' [dir], Command ''umount'' [''-l'', dir], Remove_Dir dir}"
  by (auto simp: mounted_drop_def umount_worked_def t_defs split: prod.splits sum.splits if_splits)

lemma mounted_unmount_calls:
  "\<exists>r v. mounted_unmount w dir t = (r, t @ Command ''umount'' [dir] # v) \<and>
     set v \<subseteq> {Command ''umount'' [dir], Command ''umount'' [''-l'', dir], Remove_Dir dir} \<and>
     (r = Inr () \<longrightarrow> succeeds w (t @ [Command ''umount'' [dir]]) \<and> v = [Remove_Dir dir])"
proof -
  obtain m u where m: "grow_run w ''umount'' [dir] t = (m, u)"
    by fastforce
  with grow_run_calls [OF m] mounted_drop_calls [of w dir u] show ?thesis
    by (cases m) (auto simp: mounted_unmount_def succeeds_success t_defs split: prod.splits sum.splits)
qed

text \<open>The calls of \<open>grow_btrfs\<close>: it stops before making anything, or its mount failed, or it unmounts.\<close>

definition btrfs_calls :: "string \<Rightarrow> string \<Rightarrow> call list" where
  "btrfs_calls device fresh =
     [Command ''btrfs'' [''inspect-internal'', ''dump-super'', device],
      Make_Dir fresh,
      Command ''mount'' [''-t'', ''btrfs'', device, fresh],
      Command ''btrfs'' [''filesystem'', ''resize'', ''max'', fresh],
      Command ''umount'' [fresh]]"

lemma grow_btrfs_calls:
  assumes "grow_btrfs w fresh device t = (r, t')"
  defines "calls \<equiv> btrfs_calls device fresh"
  shows "(\<exists>k \<le> 2. t' = t @ take k calls \<and> (k = 2 \<longrightarrow> btrfs_room w device t) \<and>
      (r = Inr () \<longrightarrow> k = 1 \<and> \<not> btrfs_room w device t)) \<or>
    btrfs_room w device t \<and> t' = t @ take 3 calls @ [Remove_Dir fresh] \<and> \<not> succeeds w (t @ take 3 calls) \<and> r \<noteq> Inr () \<or>
    (\<exists>v. btrfs_room w device t \<and> t' = t @ calls @ v \<and> succeeds w (t @ take 3 calls) \<and>
       set v \<subseteq> {Command ''umount'' [fresh], Command ''umount'' [''-l'', fresh], Remove_Dir fresh} \<and>
       (r = Inr () \<longrightarrow> succeeds w (t @ take 4 calls) \<and> succeeds w (t @ calls) \<and> v = [Remove_Dir fresh]))"
    (is "?early \<or> ?unmounted \<or> ?mounted")
proof -
  let ?room = "btrfs_room w device t"
  have e: "take 0 calls = []" "take 1 calls = [Command ''btrfs'' [''inspect-internal'', ''dump-super'', device]]"
    "take 2 calls = take 1 calls @ [Make_Dir fresh]"
    "take 3 calls = take 1 calls @ [Make_Dir fresh, Command ''mount'' [''-t'', ''btrfs'', device, fresh]]"
    "take 4 calls = take 3 calls @ [Command ''btrfs'' [''filesystem'', ''resize'', ''max'', fresh]]"
    "calls = take 4 calls @ [Command ''umount'' [fresh]]"
    by (simp_all add: calls_def btrfs_calls_def)
  obtain g where g: "btrfs_geometry w device t = (g, t @ take 1 calls)"
    using btrfs_geometry_calls unfolding e(2) by blast
  obtain m u where m: "mounted_new w fresh device (t @ take 1 calls) = (m, u)"
    by fastforce
  obtain s u' where s: "grow_run w ''btrfs'' [''filesystem'', ''resize'', ''max'', fresh] u = (s, u')"
    by fastforce
  obtain q v where v: "mounted_unmount w fresh u' = (q, u' @ Command ''umount'' [fresh] # v)"
      "set v \<subseteq> {Command ''umount'' [fresh], Command ''umount'' [''-l'', fresh], Remove_Dir fresh}"
      "q = Inr () \<Longrightarrow> succeeds w (u' @ [Command ''umount'' [fresh]]) \<and> v = [Remove_Dir fresh]"
    using mounted_unmount_calls [of w fresh u'] by blast
  consider (size) "t' = t" "r \<noteq> Inr ()"
    | (geometry) "t' = t @ take 1 calls" "r \<noteq> Inr () \<or> \<not> ?room"
    | (unmounted) x where ?room "m = Inl x" "t' = u" "r = Inl x"
    | (mounted) dir where ?room "m = Inr dir" "dir = fresh" "t' = u' @ Command ''umount'' [fresh] # v" "r = and_then s (\<lambda>_. q)"
    using assms(1) g m s v(1) mounted_new_calls [OF m]
    by (cases "file_size w t device"; cases g; cases m)
      (auto simp: grow_btrfs_def partition_bytes_def btrfs_room_def BTRFS_MIN_RESIZE_BYTES_def not_le not_less t_defs
        split: if_splits prod.splits)
  then show ?thesis
  proof cases
    case size
    then have ?early by (intro exI [of _ 0]) simp
    then show ?thesis ..
  next
    case geometry
    then have ?early by (intro exI [of _ 1]) auto
    then show ?thesis ..
  next
    case unmounted
    from mounted_new_calls [OF m] unmounted
    have "u = t @ take 2 calls \<or> u = t @ take 3 calls @ [Remove_Dir fresh] \<and> \<not> succeeds w (t @ take 3 calls)"
      unfolding e(3,4) by auto
    with unmounted show ?thesis
      by (metis Inl_Inr_False numeral_eq_one_iff order_refl semiring_norm(85))
  next
    case mounted
    from mounted_new_calls [OF m] mounted(2) have u: "u = t @ take 3 calls" "succeeds w (t @ take 3 calls)"
      unfolding e(4) by auto
    from grow_run_calls [OF s] u have u': "u' = t @ take 4 calls" "s = Inr () \<Longrightarrow> succeeds w (t @ take 4 calls)"
      unfolding e(5) succeeds_success by auto
    from mounted(4) u' have "t' = t @ calls @ v"
      by (subst e(6)) simp
    moreover have "q = Inr () \<Longrightarrow> succeeds w (t @ calls) \<and> v = [Remove_Dir fresh]"
      using v(3) u' by (subst (asm) (1) u', subst e(6)) simp
    moreover have "s = Inr ()" "q = Inr ()" if "r = Inr ()"
      using that mounted(5) by (cases s; simp)+
    ultimately have ?mounted
      using mounted(1) u(2) u'(2) v(2) by blast
    then show ?thesis by blast
  qed
qed

subsection \<open>Theorems\<close>

text \<open>C37: Growing a file system is careful. Whatever the programs print and however they end, \<open>grow\<close> makes a fixed list of
  calls on \<open>device\<close> and on the mount point \<open>fresh\<close>, and stops early only. On an ext file system: \<open>debugfs\<close>; when the
  partition has room, \<open>e2fsck -f -p device\<close>; and only when that ended below 4, errors left uncorrected, \<open>resize2fs -f device\<close>.
  On btrfs: \<open>dump-super\<close>; when there is room, a new directory, \<open>mount -t btrfs device fresh\<close>, and, if that worked, the resize
  of \<open>fresh\<close> and always the \<open>umount\<close> of \<open>fresh\<close>, also when the resize failed, with at most further \<open>umount\<close>s
  and the removal of the directory behind it; if the mount failed the directory is removed. It succeeds only when there was no
  room or every command that writes succeeded and the directory was removed. A vfat or swap partition is left alone.\<close>

theorem grow_is_careful:
  assumes "grow w fresh fs device t = (r, t')"
  defines "ext \<equiv> [Command ''debugfs'' [''-R'', ''stats'', device],
      Command_Env ''e2fsck'' [''-f'', ''-p'', device] [(''E2FSCK_CONFIG'', ''/etc/e2fsck.conf'')],
      Command ''resize2fs'' [''-f'', device]]"
    and "btrfs \<equiv> [Command ''btrfs'' [''inspect-internal'', ''dump-super'', device],
      Make_Dir fresh,
      Command ''mount'' [''-t'', ''btrfs'', device, fresh],
      Command ''btrfs'' [''filesystem'', ''resize'', ''max'', fresh],
      Command ''umount'' [fresh]]"
  shows "(fs \<in> {Ext2, Ext3, Ext4} \<longrightarrow>
      (\<exists>k \<le> 3. t' = t @ take k ext \<and> (2 \<le> k \<longrightarrow> ext_room w device t) \<and>
         (k = 3 \<longrightarrow> (\<exists>output code. run_command w (t @ take 2 ext) = Inr output \<and>
            exit_code (out_status output) = Some code \<and> code < 4)) \<and>
         (r = Inr () \<longrightarrow> k = 1 \<and> \<not> ext_room w device t \<or> k = 3 \<and> succeeds w t'))) \<and>
    (fs = Btrfs \<longrightarrow>
      (\<exists>k \<le> 2. t' = t @ take k btrfs \<and> (k = 2 \<longrightarrow> btrfs_room w device t) \<and>
         (r = Inr () \<longrightarrow> k = 1 \<and> \<not> btrfs_room w device t)) \<or>
      btrfs_room w device t \<and> t' = t @ take 3 btrfs @ [Remove_Dir fresh] \<and> \<not> succeeds w (t @ take 3 btrfs) \<and> r \<noteq> Inr () \<or>
      (\<exists>v. btrfs_room w device t \<and> t' = t @ btrfs @ v \<and> succeeds w (t @ take 3 btrfs) \<and>
         set v \<subseteq> {Command ''umount'' [fresh], Command ''umount'' [''-l'', fresh], Remove_Dir fresh} \<and>
         (r = Inr () \<longrightarrow> succeeds w (t @ take 4 btrfs) \<and> succeeds w (t @ btrfs) \<and> v = [Remove_Dir fresh]))) \<and>
    (fs \<in> {Vfat, Swap} \<longrightarrow> t' = t \<and> r = Inr ())"
proof (intro conjI impI)
  assume "fs \<in> {Ext2, Ext3, Ext4}"
  with assms(1) have "grow_ext w device t = (r, t')"
    by (auto simp: grow_def)
  from grow_ext_calls [OF this]
  show "\<exists>k \<le> 3. t' = t @ take k ext \<and> (2 \<le> k \<longrightarrow> ext_room w device t) \<and>
      (k = 3 \<longrightarrow> (\<exists>output code. run_command w (t @ take 2 ext) = Inr output \<and>
         exit_code (out_status output) = Some code \<and> code < 4)) \<and>
      (r = Inr () \<longrightarrow> k = 1 \<and> \<not> ext_room w device t \<or> k = 3 \<and> succeeds w t')"
    unfolding ext_def ext_calls_def .
next
  assume "fs = Btrfs"
  with assms(1) have "grow_btrfs w fresh device t = (r, t')"
    by (simp add: grow_def)
  from grow_btrfs_calls [OF this]
  show "(\<exists>k \<le> 2. t' = t @ take k btrfs \<and> (k = 2 \<longrightarrow> btrfs_room w device t) \<and>
         (r = Inr () \<longrightarrow> k = 1 \<and> \<not> btrfs_room w device t)) \<or>
      btrfs_room w device t \<and> t' = t @ take 3 btrfs @ [Remove_Dir fresh] \<and> \<not> succeeds w (t @ take 3 btrfs) \<and> r \<noteq> Inr () \<or>
      (\<exists>v. btrfs_room w device t \<and> t' = t @ btrfs @ v \<and> succeeds w (t @ take 3 btrfs) \<and>
         set v \<subseteq> {Command ''umount'' [fresh], Command ''umount'' [''-l'', fresh], Remove_Dir fresh} \<and>
         (r = Inr () \<longrightarrow> succeeds w (t @ take 4 btrfs) \<and> succeeds w (t @ btrfs) \<and> v = [Remove_Dir fresh]))"
    unfolding btrfs_def btrfs_calls_def .
qed (use assms(1) in \<open>auto simp: grow_def t_return_def\<close>)

definition demo_tools :: outside where
  "demo_tools =
     \<lparr>run_command = (\<lambda>t. Inr \<lparr>out_status = Exited 0,
        out_stdout = ''total_bytes 1'' @ [CHR 0x0A] @ ''sectorsize 1'', out_stderr = []\<rparr>),
      read_file = (\<lambda>t p. Inr []),
      file_size = (\<lambda>t p. Inr 1073741824),
      attempt = (\<lambda>t. Inr ())\<rparr>"

lemma demo_grow:
  "grow demo_tools ''/tmp/m'' Btrfs ''/dev/sda2'' [] =
   (Inr (),
    [Command ''btrfs'' [''inspect-internal'', ''dump-super'', ''/dev/sda2''], Make_Dir ''/tmp/m'',
     Command ''mount'' [''-t'', ''btrfs'', ''/dev/sda2'', ''/tmp/m''],
     Command ''btrfs'' [''filesystem'', ''resize'', ''max'', ''/tmp/m''], Command ''umount'' [''/tmp/m''], Remove_Dir ''/tmp/m''])"
  by code_simp

lemma grow_is_careful_witness:
  "\<exists>t'. grow demo_tools ''/tmp/m'' Btrfs ''/dev/sda2'' [] = (Inr (), t') \<and> succeeds demo_tools (take 4 t') \<and>
     succeeds demo_tools (take 5 t') \<and> last t' = Remove_Dir ''/tmp/m''"
  using grow_is_careful [OF demo_grow] demo_grow by simp

end
