(* ===== verification/Block_Device.thy ===== *)
theory Block_Device
  imports Filesystems
begin

text \<open>
  The disks an agent sees: \<open>crates/agent/src/sys/disk.rs\<close> and, from
  \<open>crates/agent/src/task/implementations/shape.rs\<close>, what a capture and a restore plan on them. \<open>lsblk\<close> is run and its JSON
  read by the parameter \<open>parse\<close>; what it prints becomes a tree of block devices.
\<close>

subsection \<open>Block devices\<close>

datatype block_device = BlockDevice
  (bd_name: string)
  (bd_size: u64)
  (bd_fstype: "string option")
  (bd_mountpoint: "string option")
  (bd_removable: bool)
  (bd_transport: "string option")
  (bd_children: "block_device list")
  (bd_ro: bool)
  (bd_hotplug: bool)
  (bd_type: "string option")
  (bd_uuid: "string option")
  (bd_label: "string option")
  (bd_partuuid: "string option")
  (bd_partlabel: "string option")
  (bd_sector: "u32 option")

record partition_target =
  tg_device :: string
  tg_number :: int
  tg_filesystem :: filesystem
  tg_size :: u64
  tg_fs_uuid :: "string option"
  tg_fs_label :: "string option"

record host_disk =
  hd_size_bytes :: u64
  hd_partitions :: "host_partition list"

definition get_device :: "block_device \<Rightarrow> string" where
  "get_device d = ''/dev/'' @ bd_name d"

definition trailing_digits :: "string \<Rightarrow> string" where
  "trailing_digits s = rev (takeWhile is_digit (rev s))"

definition find_partition_number :: "block_device \<Rightarrow> anyhow + int" where
  "find_partition_number d =
     (case parse_i64 (trailing_digits (bd_name d)) of
        Some n \<Rightarrow> Inr n
      | None \<Rightarrow> Inl [''could not find partition number in '' @ bd_name d,
          if trailing_digits (bd_name d) = [] then ''cannot parse integer from empty string''
          else ''number too large to fit in target type''])"

text \<open>One child of \<open>formatted_partitions\<close>: skipped without a file system.\<close>

definition formatted_child :: "block_device \<Rightarrow> anyhow + partition_target option" where
  "formatted_child child =
     and_then (fs_detect (bd_fstype child)) (\<lambda>detected.
       case detected of
         None \<Rightarrow> Inr None
       | Some fs \<Rightarrow> and_then (find_partition_number child) (\<lambda>number.
           Inr (Some \<lparr>tg_device = get_device child, tg_number = number, tg_filesystem = fs,
                      tg_size = bd_size child, tg_fs_uuid = bd_uuid child, tg_fs_label = bd_label child\<rparr>)))"

definition formatted_partitions :: "block_device \<Rightarrow> anyhow + partition_target list" where
  "formatted_partitions d =
     and_then (collect_map formatted_child (bd_children d)) (\<lambda>found. Inr (List.map_filter (\<lambda>t. t) found))"

definition partition_target_of :: "block_device \<Rightarrow> image_partition \<Rightarrow> anyhow + partition_target" where
  "partition_target_of d img =
     and_then
       (ok_or [''partition '' @ int_str (partition_number img) @ '' is missing from disk '' @ bd_name d]
         (List.find (\<lambda>c. find_partition_number c = Inr (partition_number img)) (bd_children d)))
       (\<lambda>child. and_then (fs_from_str (ip_fstype img)) (\<lambda>fs.
          Inr \<lparr>tg_device = get_device child, tg_number = partition_number img, tg_filesystem = fs,
               tg_size = bd_size child, tg_fs_uuid = ip_fs_uuid img, tg_fs_label = ip_fs_label img\<rparr>))"

text \<open>\<open>same_id\<close> is also the comparison of \<open>BlockDevice::partition\<close>. The position of the partition stands for its address.\<close>

definition same_id :: "string option \<Rightarrow> string \<Rightarrow> bool" where
  "same_id i text \<longleftrightarrow> (case i of Some t \<Rightarrow> eq_ignore_case t text | None \<Rightarrow> False)"

definition partition_at :: "block_device \<Rightarrow> string \<Rightarrow> nat option" where
  "partition_at d p =
     List.find (\<lambda>i. same_id (bd_partuuid (bd_children d ! i)) p) [0..<length (bd_children d)]"

definition bd_partition :: "block_device \<Rightarrow> string \<Rightarrow> anyhow + nat \<times> block_device" where
  "bd_partition d p =
     and_then (ok_or [''partition '' @ p @ '' is not on disk '' @ bd_name d] (partition_at d p))
       (\<lambda>i. Inr (i, bd_children d ! i))"

definition logical_sector :: "block_device \<Rightarrow> anyhow + u32" where
  "logical_sector d = ok_or [''lsblk reported no logical sector size for '' @ bd_name d] (bd_sector d)"

definition host_child :: "block_device \<Rightarrow> host_partition option" where
  "host_child child =
     (case (find_partition_number child, bd_partuuid child) of
        (Inr number, Some p) \<Rightarrow>
          Some \<lparr>hp_number = number, partuuid = p, partlabel = bd_partlabel child, hp_label = bd_label child,
                hp_uuid = bd_uuid child, hp_fstype = bd_fstype child, hp_size_bytes = bd_size child\<rparr>
      | _ \<Rightarrow> None)"

definition host_partitions :: "block_device \<Rightarrow> host_partition list" where
  "host_partitions d = List.map_filter host_child (bd_children d)"

subsection \<open>The disk to image\<close>

definition is_imaging_candidate :: "block_device \<Rightarrow> bool" where
  "is_imaging_candidate d \<longleftrightarrow>
     bd_type d = Some ''disk'' \<and> \<not> bd_ro d \<and> \<not> bd_hotplug d \<and> \<not> bd_removable d \<and>
     bd_transport d \<noteq> Some ''usb''"

fun contains_root :: "block_device \<Rightarrow> bool" where
  "contains_root (BlockDevice n s f m rm tr children ro hp ty u l pu pl sec) \<longleftrightarrow>
     m = Some ''/'' \<or> list_ex contains_root children"

definition LSBLK_COLUMNS :: string where
  "LSBLK_COLUMNS = ''NAME,SIZE,FSTYPE,MOUNTPOINT,RM,TRAN,RO,HOTPLUG,TYPE,UUID,LABEL,PARTUUID,PARTLABEL,LOG-SEC''"

definition lsblk :: "outside \<Rightarrow> (string \<Rightarrow> string + block_device list) \<Rightarrow> block_device list run" where
  "lsblk w parse =
     t_bind (t_context ''running lsblk'' (command_output w ''lsblk'' [''-J'', ''-b'', ''-o'', LSBLK_COLUMNS])) (\<lambda>output.
       if \<not> success (out_status output)
       then t_bail (''lsblk failed: '' @ from_utf8_lossy (out_stderr output))
       else t_of (with_context ''parsing lsblk output'' (map_err (\<lambda>e. [e]) (parse (out_stdout output)))))"

text \<open>\<open>{:?}\<close> of a list of strings.\<close>

definition debug_list :: "string list \<Rightarrow> string" where
  "debug_list xs = ''['' @ join '', '' (map debug_str xs) @ '']''"

definition choose_disk :: "block_device list \<Rightarrow> anyhow + block_device" where
  "choose_disk devices =
     (case filter is_imaging_candidate devices of
        [] \<Rightarrow> Inl [''no suitable disk found'']
      | [d] \<Rightarrow>
          if contains_root d
          then Inl [''refusing to image disk '' @ bd_name d @ '': contains the running root filesystem'']
          else Inr d
      | many \<Rightarrow> Inl [''multiple disks found: '' @ debug_list (map bd_name many)])"

definition find_target_disk ::
  "outside \<Rightarrow> (string \<Rightarrow> string + block_device list) \<Rightarrow> block_device run" where
  "find_target_disk w parse = t_bind (lsblk w parse) (\<lambda>devices. t_of (choose_disk devices))"

definition probe :: "outside \<Rightarrow> (string \<Rightarrow> string + block_device list) \<Rightarrow> call list \<Rightarrow> string + host_disk" where
  "probe w parse t =
     (case fst (find_target_disk w parse t) of
        Inl e \<Rightarrow> Inl (chain_str e)
      | Inr d \<Rightarrow> Inr \<lparr>hd_size_bytes = bd_size d, hd_partitions = host_partitions d\<rparr>)"

subsection \<open>Repairing before a capture\<close>

definition E2FSCK_REPAIRED_REBOOT :: int where "E2FSCK_REPAIRED_REBOOT = 2"
definition FSCK_FAT_REPAIRED :: int where "FSCK_FAT_REPAIRED = 1"
definition BTRFS_CHECK_CLEAN :: int where "BTRFS_CHECK_CLEAN = 0"

text \<open>The program that checks a file system, its arguments, the environment it is given and the worst exit code accepted.\<close>

fun repair_command :: "filesystem \<Rightarrow> (string \<times> string list \<times> (string \<times> string) list \<times> int) option" where
  "repair_command Swap = None"
| "repair_command Vfat = Some (''fsck.fat'', [''-a''], [], FSCK_FAT_REPAIRED)"
| "repair_command Btrfs = Some (''btrfs'', [''check'', ''--readonly''], [], BTRFS_CHECK_CLEAN)"
| "repair_command Ext2 = Some (''e2fsck'', [''-p''], [(''E2FSCK_CONFIG'', E2FSCK_CONFIG)], E2FSCK_REPAIRED_REBOOT)"
| "repair_command Ext3 = Some (''e2fsck'', [''-p''], [(''E2FSCK_CONFIG'', E2FSCK_CONFIG)], E2FSCK_REPAIRED_REBOOT)"
| "repair_command Ext4 = Some (''e2fsck'', [''-p''], [(''E2FSCK_CONFIG'', E2FSCK_CONFIG)], E2FSCK_REPAIRED_REBOOT)"

definition repair_filesystem :: "outside \<Rightarrow> partition_target \<Rightarrow> unit run" where
  "repair_filesystem w target =
     (case repair_command (tg_filesystem target) of
        None \<Rightarrow> t_return ()
      | Some (program, arguments, env, worst_accepted) \<Rightarrow>
          t_bind (t_context (''checking '' @ tg_device target)
              (if env = [] then command_output w program (arguments @ [tg_device target])
               else command_env_output w program (arguments @ [tg_device target]) env)) (\<lambda>output.
            if (case exit_code (out_status output) of Some code \<Rightarrow> code \<le> worst_accepted | None \<Rightarrow> False)
            then t_return ()
            else t_bail (tg_device target @ '' has filesystem errors that could not be repaired automatically (''
                   @ status_str (out_status output) @ ''): '' @ printed_text output)))"

subsection \<open>What is captured and restored\<close>

datatype shape = WholeDisk | SinglePartition string

definition IMAGE_PARTITION :: int where "IMAGE_PARTITION = 1"

definition capture_partition :: "string \<Rightarrow> block_device \<Rightarrow> anyhow + partition_target list" where
  "capture_partition p disk =
     and_then (bd_partition disk p) (\<lambda>(i, source).
       and_then (fs_detect (bd_fstype source)) (\<lambda>detected.
         and_then (ok_or [''partition '' @ p @ '' holds no filesystem''] detected) (\<lambda>fs.
           if fs_as_str fs \<notin> set (fstypes Partition)
           then Inl [''partition '' @ p @ '' holds '' @ fs_as_str fs @ '', a partition image holds one of ''
                  @ join '', '' (fstypes Partition)]
           else Inr [\<lparr>tg_device = get_device source, tg_number = IMAGE_PARTITION, tg_filesystem = fs,
                      tg_size = bd_size source, tg_fs_uuid = bd_uuid source, tg_fs_label = bd_label source\<rparr>])))"

fun capture_plan :: "shape \<Rightarrow> block_device \<Rightarrow> anyhow + partition_target list" where
  "capture_plan WholeDisk disk = formatted_partitions disk"
| "capture_plan (SinglePartition p) disk = capture_partition p disk"

text \<open>\<open>twin\<close>: another partition than the one at \<open>i\<close>.\<close>

definition twin :: "block_device \<Rightarrow> nat \<Rightarrow> (block_device \<Rightarrow> bool) \<Rightarrow> block_device option" where
  "twin disk i holds =
     map_option (\<lambda>j. bd_children disk ! j)
       (List.find (\<lambda>j. j \<noteq> i \<and> holds (bd_children disk ! j)) [0..<length (bd_children disk)])"

definition uuid_twin :: "block_device \<Rightarrow> nat \<Rightarrow> image_partition \<Rightarrow> (string \<times> block_device) option" where
  "uuid_twin disk i img =
     Option.bind (ip_fs_uuid img)
       (\<lambda>u. map_option (Pair u) (twin disk i (\<lambda>child. same_id (bd_uuid child) u)))"

definition label_twin :: "block_device \<Rightarrow> nat \<Rightarrow> image_partition \<Rightarrow> (string \<times> block_device) option" where
  "label_twin disk i img =
     Option.bind (ip_fs_label img)
       (\<lambda>l. map_option (Pair l) (twin disk i (\<lambda>child. bd_label child = Some l)))"

definition restore_one :: "string \<Rightarrow> block_device \<Rightarrow> u32 \<Rightarrow> image_partition \<Rightarrow> anyhow + partition_target list" where
  "restore_one p disk sectors img =
     (if partition_number img \<noteq> IMAGE_PARTITION
      then Inl [''a partition image holds partition 1, this one holds partition '' @ int_str (partition_number img)]
      else and_then (bd_partition disk p) (\<lambda>(i, target).
        if bd_size target < ip_size_bytes img
        then Inl [''partition '' @ p @ '' holds '' @ nat_str (unat (bd_size target))
               @ '' bytes, the image needs at least '' @ nat_str (unat (ip_size_bytes img))]
        else and_then (logical_sector disk) (\<lambda>sector.
          if sector \<noteq> sectors
          then Inl [''the image is for '' @ nat_str (unat sectors) @ ''-byte sectors, '' @ bd_name disk
                 @ '' has '' @ nat_str (unat sector) @ ''-byte sectors'']
          else case uuid_twin disk i img of
            Some (u, other) \<Rightarrow>
              Inl [get_device other @ '' already holds a filesystem with UUID '' @ u
                @ '', restoring the image into partition '' @ p @ '' would duplicate it'']
          | None \<Rightarrow> (case label_twin disk i img of
              Some (l, other) \<Rightarrow>
                Inl [get_device other @ '' already holds a filesystem labelled `'' @ l
                  @ ''`, restoring the image into partition '' @ p @ '' would duplicate the label'']
            | None \<Rightarrow> and_then (fs_from_str (ip_fstype img)) (\<lambda>fs.
                Inr [\<lparr>tg_device = get_device target, tg_number = IMAGE_PARTITION, tg_filesystem = fs,
                      tg_size = bd_size target, tg_fs_uuid = ip_fs_uuid img, tg_fs_label = ip_fs_label img\<rparr>])))))"

fun restore_plan :: "shape \<Rightarrow> block_device \<Rightarrow> image_layout \<Rightarrow> anyhow + partition_target list" where
  "restore_plan WholeDisk disk layout = collect_map (partition_target_of disk) (il_partitions layout)"
| "restore_plan (SinglePartition p) disk layout =
     (case il_partitions layout of
        [img] \<Rightarrow> restore_one p disk (il_sector_size layout) img
      | images \<Rightarrow> Inl [''a partition image holds exactly one partition, this one holds '' @ nat_str (length images)])"

subsection \<open>The disk that is chosen\<close>

text \<open>A device with all the devices below it.\<close>

fun device_tree :: "block_device \<Rightarrow> block_device list" where
  "device_tree (BlockDevice n s f m rm tr children ro hp ty u l pu pl sec) =
     BlockDevice n s f m rm tr children ro hp ty u l pu pl sec # concat (map device_tree children)"

lemma contains_root_iff: "contains_root d \<longleftrightarrow> (\<exists>e \<in> set (device_tree d). bd_mountpoint e = Some ''/'')"
  by (induction d rule: contains_root.induct) (auto simp: list_ex_iff)

lemma choose_disk_Inr:
  "choose_disk devices = Inr d \<longleftrightarrow> filter is_imaging_candidate devices = [d] \<and> \<not> contains_root d"
  by (auto simp: choose_disk_def split: list.splits if_splits)

lemma find_target_disk_Inr:
  "find_target_disk w parse t = (Inr d, t') \<longleftrightarrow>
   t' = t @ [Command ''lsblk'' [''-J'', ''-b'', ''-o'', LSBLK_COLUMNS]] \<and>
   (\<exists>output devices. run_command w t' = Inr output \<and> success (out_status output) \<and>
      parse (out_stdout output) = Inr devices \<and> choose_disk devices = Inr d)"
  by (cases "run_command w (t @ [Command ''lsblk'' [''-J'', ''-b'', ''-o'', LSBLK_COLUMNS]])")
    (auto simp: find_target_disk_def lsblk_def t_simps result_simps t_bail_def t_of_def split: if_splits)

subsection \<open>The partitions that are written\<close>

lemma partition_at_Some:
  "partition_at d p = Some i \<Longrightarrow> i < length (bd_children d) \<and> same_id (bd_partuuid (bd_children d ! i)) p"
  by (auto simp: partition_at_def find_Some_iff)

lemma twin_None: "twin d i P = None \<longleftrightarrow> (\<forall>j < length (bd_children d). j \<noteq> i \<longrightarrow> \<not> P (bd_children d ! j))"
  by (auto simp: twin_def find_None_iff)

lemma uuid_twin_None:
  "uuid_twin d i img = None \<longleftrightarrow> (\<forall>u j. ip_fs_uuid img = Some u \<longrightarrow> j < length (bd_children d) \<longrightarrow> j \<noteq> i \<longrightarrow>
     \<not> same_id (bd_uuid (bd_children d ! j)) u)"
  by (cases "ip_fs_uuid img") (auto simp: uuid_twin_def twin_None)

lemma label_twin_None:
  "label_twin d i img = None \<longleftrightarrow> (\<forall>l j. ip_fs_label img = Some l \<longrightarrow> j < length (bd_children d) \<longrightarrow> j \<noteq> i \<longrightarrow>
     bd_label (bd_children d ! j) \<noteq> Some l)"
  by (cases "ip_fs_label img") (auto simp: label_twin_def twin_None)

lemma no_pair: "(\<forall>a b. x \<noteq> Some (a, b)) \<longleftrightarrow> x = None"
  by (cases x) auto

lemma restore_one_Inr:
  "restore_one p disk sectors img = Inr ts \<longleftrightarrow>
   (\<exists>i fs. partition_number img = 1 \<and> partition_at disk p = Some i \<and>
      ip_size_bytes img \<le> bd_size (bd_children disk ! i) \<and> bd_sector disk = Some sectors \<and>
      uuid_twin disk i img = None \<and> label_twin disk i img = None \<and> fs_from_str (ip_fstype img) = Inr fs \<and>
      ts = [\<lparr>tg_device = get_device (bd_children disk ! i), tg_number = 1, tg_filesystem = fs,
             tg_size = bd_size (bd_children disk ! i), tg_fs_uuid = ip_fs_uuid img, tg_fs_label = ip_fs_label img\<rparr>])"
  by (auto simp: restore_one_def bd_partition_def logical_sector_def IMAGE_PARTITION_def result_simps
      not_less no_pair split: if_splits option.splits)

subsection \<open>A capture and a restore of the same disk\<close>

text \<open>What the server keeps of an uploaded partition.\<close>

definition image_of_target :: "partition_target \<Rightarrow> image_partition" where
  "image_of_target tg =
     \<lparr>ip_id = 0, partition_number = tg_number tg, ip_fstype = fs_as_str (tg_filesystem tg),
      ip_size_bytes = tg_size tg, ip_fs_uuid = tg_fs_uuid tg, ip_fs_label = tg_fs_label tg\<rparr>"

definition numbers_distinct :: "block_device \<Rightarrow> bool" where
  "numbers_distinct d \<longleftrightarrow>
     (\<forall>c \<in> set (bd_children d). \<forall>c' \<in> set (bd_children d).
        find_partition_number c = find_partition_number c' \<longrightarrow> is_ok (find_partition_number c) \<longrightarrow> c = c')"

lemma find_only:
  assumes "x \<in> set xs" "P x" "\<And>y. y \<in> set xs \<Longrightarrow> P y \<Longrightarrow> y = x"
  shows "List.find P xs = Some x"
proof (cases "List.find P xs")
  case None
  then show ?thesis using assms(1,2) by (auto simp: find_None_iff)
next
  case (Some y)
  then have "y \<in> set xs \<and> P y" by (induction xs) (auto split: if_splits)
  with assms(3) Some show ?thesis by simp
qed

lemma formatted_target_again:
  assumes "numbers_distinct d" "c \<in> set (bd_children d)" "formatted_child c = Inr (Some tg)"
  shows "partition_target_of d (image_of_target tg) = Inr tg"
proof -
  have tg: "find_partition_number c = Inr (tg_number tg)" "tg_device tg = get_device c" "tg_size tg = bd_size c"
  proof -
    let ?target = "\<lambda>fs number. \<lparr>tg_device = get_device c, tg_number = number, tg_filesystem = fs,
         tg_size = bd_size c, tg_fs_uuid = bd_uuid c, tg_fs_label = bd_label c\<rparr>"
    obtain x where x: "(case x of None \<Rightarrow> Inr None
       | Some fs \<Rightarrow> and_then (find_partition_number c) (\<lambda>number. Inr (Some (?target fs number)))) = Inr (Some tg)"
      using assms(3) unfolding formatted_child_def and_then_Inr by blast
    obtain number fs where "find_partition_number c = Inr number" "?target fs number = tg"
    proof (cases x)
      case None
      with x show ?thesis by simp
    next
      case (Some fs)
      with x have "and_then (find_partition_number c) (\<lambda>number. Inr (Some (?target fs number))) = Inr (Some tg)"
        by (simp only: option.case)
      then show ?thesis
        unfolding and_then_Inr sum.inject option.inject using that by blast
    qed
    then show "find_partition_number c = Inr (tg_number tg)" "tg_device tg = get_device c" "tg_size tg = bd_size c"
      by (auto simp only: partition_target.simps)
  qed
  have "List.find (\<lambda>c. find_partition_number c = Inr (tg_number tg)) (bd_children d) = Some c"
  proof (rule find_only)
    show "c \<in> set (bd_children d)" "find_partition_number c = Inr (tg_number tg)"
      by (fact assms(2), fact tg(1))
    fix y
    assume "y \<in> set (bd_children d)" "find_partition_number y = Inr (tg_number tg)"
    with tg(1) assms(1,2) show "y = c"
      unfolding numbers_distinct_def by (metis is_ok.simps(2))
  qed
  with tg(2,3) show ?thesis
    by (simp add: partition_target_of_def image_of_target_def)
qed

lemma formatted_partitions_Inr:
  "formatted_partitions d = Inr ts \<Longrightarrow> tg \<in> set ts \<Longrightarrow> \<exists>c \<in> set (bd_children d). formatted_child c = Inr (Some tg)"
proof -
  assume "formatted_partitions d = Inr ts" "tg \<in> set ts"
  then obtain found where found: "list_all2 (\<lambda>c y. formatted_child c = Inr y) (bd_children d) found"
      "ts = List.map_filter (\<lambda>t. t) found"
    by (auto simp: formatted_partitions_def result_simps)
  with \<open>tg \<in> set ts\<close> have "Some tg \<in> set found"
    by (auto simp: map_filter_def)
  from list_all2_set_right [OF found(1) this] show ?thesis .
qed

subsection \<open>Theorems\<close>

text \<open>C38: Only a disk that may be imaged is chosen. \<open>find_target_disk\<close> runs \<open>lsblk\<close> and returns a device only when
  \<open>lsblk\<close> succeeded and lists it as a disk that is not read-only, not hot-pluggable, not removable and not attached by USB; when
  every other device listed is no such disk; and when nothing on the device, at any depth of the tree, is mounted as the running
  root.\<close>

theorem find_target_disk_safe:
  assumes "find_target_disk w parse t = (Inr d, t')"
  shows "\<exists>output devices. run_command w t' = Inr output \<and> exit_code (out_status output) = Some 0 \<and>
    parse (out_stdout output) = Inr devices \<and> d \<in> set devices \<and>
    bd_type d = Some ''disk'' \<and> \<not> bd_ro d \<and> \<not> bd_hotplug d \<and> \<not> bd_removable d \<and> bd_transport d \<noteq> Some ''usb'' \<and>
    (\<forall>e \<in> set devices. e = d \<or> bd_type e \<noteq> Some ''disk'' \<or> bd_ro e \<or> bd_hotplug e \<or> bd_removable e \<or>
       bd_transport e = Some ''usb'') \<and>
    (\<forall>e \<in> set (device_tree d). bd_mountpoint e \<noteq> Some ''/'')"
proof -
  obtain prints devices where lsblk: "run_command w t' = Inr prints" "success (out_status prints)" "parse (out_stdout prints) = Inr devices"
    and chosen: "filter is_imaging_candidate devices = [d]" "\<not> contains_root d"
    using assms by (auto simp: find_target_disk_Inr choose_disk_Inr)
  have only: "{e \<in> set devices. is_imaging_candidate e} = {d}"
    using arg_cong [OF chosen(1), of set] by simp
  then have "d \<in> set devices" "is_imaging_candidate d"
    by blast+
  moreover have "\<forall>e \<in> set devices. e = d \<or> \<not> is_imaging_candidate e"
    using only by blast
  ultimately show ?thesis
    using lsblk chosen(2) unfolding contains_root_iff is_imaging_candidate_def success_def by blast
qed

text \<open>C39: A partition image is written to its partition only. The plan of a restore into one partition is that partition's
  device, named by the first partition of the disk with that PARTUUID in any case; it is made only for an
  image of exactly partition one that fits, on a disk with the image's sector size, when no other partition
  of the disk has the UUID or the label of the image's file system.\<close>

theorem partition_restore_is_confined:
  assumes "restore_plan (SinglePartition p) disk layout = Inr ts"
  shows "\<exists>i img tg. il_partitions layout = [img] \<and> partition_number img = 1 \<and> ts = [tg] \<and>
    i < length (bd_children disk) \<and> same_id (bd_partuuid (bd_children disk ! i)) p \<and>
    tg_device tg = get_device (bd_children disk ! i) \<and> ip_size_bytes img \<le> tg_size tg \<and>
    bd_sector disk = Some (il_sector_size layout) \<and>
    (\<forall>j < length (bd_children disk). j \<noteq> i \<longrightarrow>
       (\<forall>u. ip_fs_uuid img = Some u \<longrightarrow> \<not> same_id (bd_uuid (bd_children disk ! j)) u) \<and>
       (\<forall>l. ip_fs_label img = Some l \<longrightarrow> bd_label (bd_children disk ! j) \<noteq> Some l))"
proof -
  obtain img where img: "il_partitions layout = [img]" "restore_one p disk (il_sector_size layout) img = Inr ts"
    using assms by (auto split: list.splits)
  then show ?thesis
    using partition_at_Some [of disk p] by (auto simp: restore_one_Inr uuid_twin_None label_twin_None) blast?
qed

text \<open>What is captured from a disk can be restored to it. When the numbers in the names of a disk's partitions are
  distinct, restoring the partitions a whole-disk capture planned onto the same disk plans the same
  devices, numbers, file systems and sizes, in the same order.\<close>

theorem capture_restore_same_disk:
  assumes "capture_plan WholeDisk disk = Inr ts" "numbers_distinct disk"
    "il_partitions layout = map image_of_target ts"
  shows "restore_plan WholeDisk disk layout = Inr ts"
proof -
  have "partition_target_of disk (image_of_target tg) = Inr tg" if tg: "tg \<in> set ts" for tg
  proof -
    obtain c where "c \<in> set (bd_children disk)" "formatted_child c = Inr (Some tg)"
      using formatted_partitions_Inr [of disk ts tg] tg assms(1) by auto
    then show ?thesis
      by (rule formatted_target_again [OF assms(2)])
  qed
  then have "collect_map (partition_target_of disk) (map image_of_target ts) = Inr (map (\<lambda>tg. tg) ts)"
    by (induction ts) auto
  with assms(3) show ?thesis by simp
qed

subsection \<open>An example\<close>

definition demo_part :: "string \<Rightarrow> u64 \<Rightarrow> string option \<Rightarrow> string \<Rightarrow> string \<Rightarrow> block_device" where
  "demo_part n sz fs uuid puuid =
     BlockDevice n sz fs None False None [] False False (Some ''part'') (Some uuid) None (Some puuid) None None"

definition demo_disk_tree :: block_device where
  "demo_disk_tree =
     BlockDevice ''nvme0n1'' 1000000 None None False (Some ''nvme'')
       [demo_part ''nvme0n1p1'' 1000 (Some ''vfat'') ''ABCD-1234'' ''aaaa-01'',
        demo_part ''nvme0n1p2'' 5000 (Some ''ext4'') ''old-root'' ''aaaa-02'',
        demo_part ''nvme0n1p4'' 4000 None ''none'' ''aaaa-04'']
       False False (Some ''disk'') None None None None (Some 512)"

definition demo_stick :: block_device where
  "demo_stick = BlockDevice ''sdb'' 10 None None True (Some ''usb'') [] False True (Some ''disk'') None None None None None"

definition demo_layout :: image_layout where
  "demo_layout = \<lparr>il_sector_size = 512, il_partitions =
     [\<lparr>ip_id = 9, partition_number = 1, ip_fstype = ''ext4'', ip_size_bytes = 4000,
       ip_fs_uuid = Some ''new-root'', ip_fs_label = Some ''fresh''\<rparr>]\<rparr>"

definition demo_lsblk :: outside where
  "demo_lsblk = demo_tools\<lparr>run_command := \<lambda>t. Inr \<lparr>out_status = Exited 0, out_stdout = [], out_stderr = []\<rparr>\<rparr>"

lemma find_target_disk_safe_witness:
  "\<exists>d. fst (find_target_disk demo_lsblk (\<lambda>_. Inr [demo_stick, demo_disk_tree]) []) = Inr d \<and> \<not> bd_ro d \<and> \<not> bd_removable d \<and>
     bd_transport d \<noteq> Some ''usb'' \<and> list_all (\<lambda>e. bd_mountpoint e \<noteq> Some ''/'') (device_tree d)"
proof -
  have found: "find_target_disk demo_lsblk (\<lambda>_. Inr [demo_stick, demo_disk_tree]) [] =
      (Inr demo_disk_tree, [Command ''lsblk'' [''-J'', ''-b'', ''-o'', LSBLK_COLUMNS]])"
    by code_simp
  from find_target_disk_safe [OF found] show ?thesis
    unfolding found by (auto simp: list_all_iff)
qed

lemma partition_restore_is_confined_witness:
  "\<exists>tg. restore_plan (SinglePartition ''AAAA-04'') demo_disk_tree demo_layout = Inr [tg] \<and>
     tg_device tg = ''/dev/nvme0n1p4'' \<and> 4000 \<le> tg_size tg"
proof -
  have plan: "restore_plan (SinglePartition ''AAAA-04'') demo_disk_tree demo_layout = Inr
      [\<lparr>tg_device = ''/dev/nvme0n1p4'', tg_number = 1, tg_filesystem = Ext4, tg_size = 4000,
        tg_fs_uuid = Some ''new-root'', tg_fs_label = Some ''fresh''\<rparr>]"
    by code_simp
  from partition_restore_is_confined [OF this] show ?thesis
    unfolding plan by (auto simp: demo_layout_def)
qed

lemma capture_restore_same_disk_witness:
  "\<exists>ts. capture_plan WholeDisk demo_disk_tree = Inr ts \<and> length ts = 2 \<and>
     restore_plan WholeDisk demo_disk_tree \<lparr>il_sector_size = 512, il_partitions = map image_of_target ts\<rparr> = Inr ts"
proof -
  have "(case capture_plan WholeDisk demo_disk_tree of Inr ts \<Rightarrow> length ts = 2 | Inl e \<Rightarrow> False)"
    by code_simp
  then obtain ts where plan: "capture_plan WholeDisk demo_disk_tree = Inr ts" "length ts = 2"
    by (cases "capture_plan WholeDisk demo_disk_tree") auto
  have "numbers_distinct demo_disk_tree"
    unfolding numbers_distinct_def by code_simp
  from capture_restore_same_disk [OF plan(1) this, of "\<lparr>il_sector_size = 512, il_partitions = map image_of_target ts\<rparr>"]
  show ?thesis
    using plan by (intro exI [of _ ts]) (simp del: restore_plan.simps capture_plan.simps)
qed

end
