(* ===== verification/Agent_Status.thy ===== *)
theory Agent_Status
  imports Block_Device Progress Task_Domain
begin

text \<open>
  The state an agent shows and reports: \<open>crates/agent/src/status.rs\<close>, and of \<open>crates/disk/src/progress.rs\<close> the
  progress of one partition. Floating point numbers are a linearly ordered type \<open>'f\<close> with a
  zero; the overall fraction of a task and a count per second are computed by the parameters \<open>fraction\<close> and
  \<open>per_second\<close>. Instants and durations are milliseconds. A watch channel is its value and the number of times its
  receivers were notified.
\<close>

subsection \<open>State\<close>

record 'f progress =
  pg_fraction :: 'f
  pg_rate :: 'f
  pg_remaining :: "u64 option"

definition default_progress :: "('f :: zero) progress" where
  "default_progress = \<lparr>pg_fraction = 0, pg_rate = 0, pg_remaining = None\<rparr>"

datatype connection = Connecting | Connection_Up | Lost string

datatype reboot = Not_Planned | Countdown nat | Reboot_Cancelled

datatype step = Starting_Step | Table_Step | Partitions_Step | Finishing_Step

datatype phase = Waiting_Phase | Running_Phase | Done_Phase

record 'f partition_state =
  ps_number :: int
  ps_filesystem :: filesystem
  ps_size :: u64
  ps_phase :: phase
  ps_progress :: "'f progress"

datatype script_phase = Script_Waiting | Script_Running | Script_Exited "int option"

datatype outcome = Outcome_Done | Outcome_Failed string | Outcome_Cancelled

record 'f receive_state =
  rv_naks :: u64
  rv_overflow_drops :: u64
  rv_loss :: 'f
  rv_stall_ms :: u32
  rv_rate :: 'f

definition default_receive :: "('f :: zero) receive_state" where
  "default_receive = \<lparr>rv_naks = 0, rv_overflow_drops = 0, rv_loss = 0, rv_stall_ms = 0, rv_rate = 0\<rparr>"

record 'f multicast_state =
  mc_slot :: int
  mc_receive :: "'f receive_state"
  mc_rates :: "'f list"
  mc_naks_per_second :: 'f
  mc_total_naks :: u64
  mc_total_overflow_drops :: u64
  mc_worst_loss :: 'f
  mc_worst_stall_ms :: u32

definition default_multicast :: "('f :: zero) multicast_state" where
  "default_multicast =
     \<lparr>mc_slot = 0, mc_receive = default_receive, mc_rates = [], mc_naks_per_second = 0, mc_total_naks = 0,
      mc_total_overflow_drops = 0, mc_worst_loss = 0, mc_worst_stall_ms = 0\<rparr>"

record 'f task_view =
  tv_id :: int
  tv_kind :: task_type
  tv_image_id :: "int option"
  tv_started :: nat
  tv_step :: step
  tv_partitions :: "'f partition_state list"
  tv_scripts :: "(string \<times> script_phase) list"
  tv_multicast :: "'f multicast_state option"
  tv_outcome :: "(outcome \<times> nat) option"

record 'f agent_state =
  as_connection :: connection
  as_task :: "'f task_view option"
  as_reboot :: reboot

definition running_task :: "'f agent_state \<Rightarrow> 'f task_view option" where
  "running_task s = (case as_task s of Some t \<Rightarrow> if tv_outcome t = None then Some t else None | None \<Rightarrow> None)"

subsection \<open>What is reported\<close>

definition current_partition :: "'f task_view \<Rightarrow> (nat \<times> 'f partition_state) option" where
  "current_partition t =
     List.find (\<lambda>(i, p). ps_phase p = Running_Phase) (zip [0..<length (tv_partitions t)] (tv_partitions t))"

definition host_progress_of :: "('f task_view \<Rightarrow> 'f) \<Rightarrow> 'f task_view \<Rightarrow> 'f host_progress" where
  "host_progress_of fraction t =
     \<lparr>hp_task = tv_id t, hp_fraction = fraction t,
      hp_stage =
        (case tv_step t of
           Starting_Step \<Rightarrow> PartitionTable
         | Table_Step \<Rightarrow> PartitionTable
         | Partitions_Step \<Rightarrow>
             (case current_partition t of
                Some (i, p) \<Rightarrow>
                  PartitionStage (ps_number p) (of_nat i) (of_nat (length (tv_partitions t)))
                    (pg_rate (ps_progress p)) (pg_remaining (ps_progress p))
              | None \<Rightarrow> Finishing)
         | Finishing_Step \<Rightarrow> Finishing)\<rparr>"

record 'f status =
  st_state :: "'f agent_state"
  st_uplink :: "'f host_progress option"
  st_notified :: nat

definition new_status :: "'f status" where
  "new_status = \<lparr>st_state = \<lparr>as_connection = Connecting, as_task = None, as_reboot = Not_Planned\<rparr>,
     st_uplink = None, st_notified = 0\<rparr>"

text \<open>\<open>update\<close>: the state is modified, the progress of the task that runs is read from it and sent upstream, and
  the receivers are notified only of a progress that differs. The operations of one agent follow one another here; two
  \<open>update\<close>s whose steps interleave are not modelled.\<close>

definition modify_state :: "('f agent_state \<Rightarrow> 'f agent_state) \<Rightarrow> 'f status \<Rightarrow> 'f status" where
  "modify_state change st = st\<lparr>st_state := change (st_state st)\<rparr>"

definition read_progress :: "('f task_view \<Rightarrow> 'f) \<Rightarrow> 'f status \<Rightarrow> 'f host_progress option" where
  "read_progress fraction st = map_option (host_progress_of fraction) (running_task (st_state st))"

definition send_uplink :: "'f host_progress option \<Rightarrow> 'f status \<Rightarrow> 'f status" where
  "send_uplink progress st =
     st\<lparr>st_uplink := progress, st_notified := st_notified st + (if st_uplink st \<noteq> progress then 1 else 0)\<rparr>"

definition update :: "('f task_view \<Rightarrow> 'f) \<Rightarrow> ('f agent_state \<Rightarrow> 'f agent_state) \<Rightarrow> 'f status \<Rightarrow> 'f status" where
  "update fraction change st =
     (let modified = modify_state change st in send_uplink (read_progress fraction modified) modified)"

lemma update_fields [simp]:
  "st_state (update fraction change st) = change (st_state st)"
  "st_uplink (update fraction change st) = map_option (host_progress_of fraction) (running_task (change (st_state st)))"
  by (simp_all add: update_def modify_state_def read_progress_def send_uplink_def Let_def)

definition change_task :: "('f task_view \<Rightarrow> 'f task_view) \<Rightarrow> 'f agent_state \<Rightarrow> 'f agent_state" where
  "change_task change s =
     (case as_task s of
        Some t \<Rightarrow> if tv_outcome t = None then s\<lparr>as_task := Some (change t)\<rparr> else s
      | None \<Rightarrow> s)"

definition update_task :: "('f task_view \<Rightarrow> 'f) \<Rightarrow> ('f task_view \<Rightarrow> 'f task_view) \<Rightarrow> 'f status \<Rightarrow> 'f status" where
  "update_task fraction change = update fraction (change_task change)"

definition begin_task :: "nat \<Rightarrow> agent_task \<Rightarrow> ('f :: zero) agent_state \<Rightarrow> 'f agent_state" where
  "begin_task now t s =
     (let kind = work_task_type (at_work t)
      in s\<lparr>as_reboot := Not_Planned,
           as_task := Some \<lparr>tv_id = at_id t, tv_kind = kind, tv_image_id = work_image_id (at_work t), tv_started = now,
             tv_step = Starting_Step, tv_partitions = [], tv_scripts = [],
             tv_multicast = (if kind = Multicast \<or> kind = MulticastPartition then Some default_multicast else None),
             tv_outcome = None\<rparr>\<rparr>)"

definition task_started :: "('f task_view \<Rightarrow> 'f) \<Rightarrow> nat \<Rightarrow> agent_task \<Rightarrow> ('f :: zero) status \<Rightarrow> 'f status" where
  "task_started fraction now t = update fraction (begin_task now t)"

definition task_ended :: "('f task_view \<Rightarrow> 'f) \<Rightarrow> nat \<Rightarrow> outcome \<Rightarrow> 'f status \<Rightarrow> 'f status" where
  "task_ended fraction now r = update_task fraction (\<lambda>t. t\<lparr>tv_outcome := Some (r, now - tv_started t)\<rparr>)"

definition show_partitions ::
  "('f task_view \<Rightarrow> 'f) \<Rightarrow> partition_target list \<Rightarrow> ('f :: zero) status \<Rightarrow> 'f status" where
  "show_partitions fraction targets =
     update_task fraction (\<lambda>t. t\<lparr>tv_step := Partitions_Step,
       tv_partitions := map (\<lambda>p. \<lparr>ps_number = tg_number p, ps_filesystem = tg_filesystem p, ps_size = tg_size p,
         ps_phase = Waiting_Phase, ps_progress = default_progress\<rparr>) targets\<rparr>)"

definition set_phase :: "nat \<Rightarrow> phase \<Rightarrow> 'f task_view \<Rightarrow> 'f task_view" where
  "set_phase i p t = t\<lparr>tv_partitions := (tv_partitions t)[i := (tv_partitions t ! i)\<lparr>ps_phase := p\<rparr>]\<rparr>"

text \<open>\<open>PartitionProgress::report\<close>, of the partition at \<open>i\<close> of the task the report is for.\<close>

definition report_partition ::
  "('f task_view \<Rightarrow> 'f) \<Rightarrow> int \<Rightarrow> nat \<Rightarrow> 'f progress \<Rightarrow> 'f status \<Rightarrow> 'f status" where
  "report_partition fraction tid i progress =
     update_task fraction (\<lambda>t.
       if tv_id t = tid \<and> i < length (tv_partitions t)
       then t\<lparr>tv_partitions := (tv_partitions t)
              [i := (tv_partitions t ! i)\<lparr>ps_phase := Running_Phase, ps_progress := progress\<rparr>]\<rparr>
       else t)"

definition RATE_HISTORY :: nat where
  "RATE_HISTORY = 120"

text \<open>\<open>u64::saturating_sub\<close>.\<close>

definition sat_sub :: "u64 \<Rightarrow> u64 \<Rightarrow> u64" where
  "sat_sub a b = (if b \<le> a then a - b else 0)"

definition sample :: "(u64 \<Rightarrow> nat \<Rightarrow> 'f) \<Rightarrow> int \<Rightarrow> ('f :: {zero, linorder}) receive_state \<Rightarrow> nat \<Rightarrow>
    'f multicast_state \<Rightarrow> 'f multicast_state" where
  "sample per_second slot receive interval m =
     (let previous = (if slot = mc_slot m then mc_receive m else default_receive);
          new_naks = sat_sub (rv_naks receive) (rv_naks previous)
      in m\<lparr>mc_slot := slot,
           mc_naks_per_second := per_second new_naks interval,
           mc_total_naks := mc_total_naks m + new_naks,
           mc_total_overflow_drops := mc_total_overflow_drops m
             + sat_sub (rv_overflow_drops receive) (rv_overflow_drops previous),
           mc_worst_loss := max (mc_worst_loss m) (rv_loss receive),
           mc_worst_stall_ms := max (mc_worst_stall_ms m) (rv_stall_ms receive),
           mc_rates := (if length (mc_rates m) = RATE_HISTORY then tl (mc_rates m) else mc_rates m) @ [rv_rate receive],
           mc_receive := receive\<rparr>)"

definition multicast_sample :: "('f task_view \<Rightarrow> 'f) \<Rightarrow> (u64 \<Rightarrow> nat \<Rightarrow> 'f) \<Rightarrow> int \<Rightarrow>
    ('f :: {zero, linorder}) receive_state \<Rightarrow> nat \<Rightarrow> 'f status \<Rightarrow> 'f status" where
  "multicast_sample fraction per_second slot receive interval =
     update_task fraction (\<lambda>t. t\<lparr>tv_multicast := map_option (sample per_second slot receive interval) (tv_multicast t)\<rparr>)"

text \<open>\<open>reboot_countdown\<close> up to its wait; \<open>cancel_reboot\<close> tells whether it cancelled. It changes the state without
  looking at the progress.\<close>

definition begin_countdown :: "('f task_view \<Rightarrow> 'f) \<Rightarrow> nat \<Rightarrow> nat \<Rightarrow> 'f status \<Rightarrow> 'f status" where
  "begin_countdown fraction now len = update fraction (\<lambda>s. s\<lparr>as_reboot := Countdown (now + len)\<rparr>)"

definition cancel_reboot :: "'f status \<Rightarrow> bool \<times> 'f status" where
  "cancel_reboot st =
     (case as_reboot (st_state st) of
        Countdown _ \<Rightarrow> (True, st\<lparr>st_state := (st_state st)\<lparr>as_reboot := Reboot_Cancelled\<rparr>\<rparr>)
      | _ \<Rightarrow> (False, st))"

text \<open>The wait ends with a reboot unless the countdown was seen cancelled before it was over.\<close>

definition countdown_reboots :: "reboot list \<Rightarrow> bool" where
  "countdown_reboots seen \<longleftrightarrow> Reboot_Cancelled \<notin> set seen"

subsection \<open>Operations\<close>

datatype 'f status_op =
    Set_Connection connection
  | Task_Started nat agent_task
  | Task_Ended nat outcome
  | Change_Task "'f task_view \<Rightarrow> 'f task_view"
  | Show_Partitions "partition_target list"
  | Report_Partition int nat "'f progress"
  | Multicast_Sample int "'f receive_state" nat
  | Begin_Countdown nat nat
  | Cancel_Reboot

fun status_step :: "('f task_view \<Rightarrow> 'f) \<Rightarrow> (u64 \<Rightarrow> nat \<Rightarrow> 'f) \<Rightarrow> ('f :: {zero, linorder}) status_op \<Rightarrow>
    'f status \<Rightarrow> 'f status" where
  "status_step fr ps (Set_Connection c) st = update fr (\<lambda>s. s\<lparr>as_connection := c\<rparr>) st"
| "status_step fr ps (Task_Started now t) st = task_started fr now t st"
| "status_step fr ps (Task_Ended now r) st = task_ended fr now r st"
| "status_step fr ps (Change_Task change) st = update_task fr change st"
| "status_step fr ps (Show_Partitions targets) st = show_partitions fr targets st"
| "status_step fr ps (Report_Partition tid i p) st = report_partition fr tid i p st"
| "status_step fr ps (Multicast_Sample slot receive interval) st = multicast_sample fr ps slot receive interval st"
| "status_step fr ps (Begin_Countdown now len) st = begin_countdown fr now len st"
| "status_step fr ps Cancel_Reboot st = snd (cancel_reboot st)"

subsection \<open>The uplink follows the state\<close>

definition uplink_current :: "('f task_view \<Rightarrow> 'f) \<Rightarrow> 'f status \<Rightarrow> bool" where
  "uplink_current fr st \<longleftrightarrow> st_uplink st = map_option (host_progress_of fr) (running_task (st_state st))"

lemma update_current: "uplink_current fr (update fr change st)"
  by (simp add: uplink_current_def)

lemma cancel_current: "uplink_current fr st \<Longrightarrow> uplink_current fr (snd (cancel_reboot st))"
  by (auto simp: cancel_reboot_def uplink_current_def running_task_def split: reboot.splits)

lemma status_step_current: "uplink_current fr st \<Longrightarrow> uplink_current fr (status_step fr ps op st)"
  by (cases op)
    (auto simp: update_current task_started_def task_ended_def update_task_def show_partitions_def report_partition_def
      multicast_sample_def begin_countdown_def cancel_current)

lemma steps_current: "uplink_current fr (fold (status_step fr ps) ops new_status)"
proof -
  have "uplink_current fr st \<Longrightarrow> uplink_current fr (fold (status_step fr ps) ops st)" for st
    by (induction ops arbitrary: st) (auto intro: status_step_current)
  then show ?thesis
    by (simp add: uplink_current_def new_status_def running_task_def)
qed

text \<open>An ended task stays as it ended until another one starts.\<close>

definition starts_task :: "'f status_op \<Rightarrow> bool" where
  "starts_task op \<longleftrightarrow> (\<exists>now t. op = Task_Started now t)"

lemma ended_step:
  assumes "as_task (st_state st) = Some t" "tv_outcome t \<noteq> None" "\<not> starts_task op"
  shows "as_task (st_state (status_step fr ps op st)) = Some t"
  using assms
  by (cases op) (auto simp: starts_task_def task_ended_def update_task_def show_partitions_def report_partition_def
      multicast_sample_def begin_countdown_def cancel_reboot_def change_task_def Let_def split: reboot.splits)

lemma ended_steps:
  assumes "as_task (st_state st) = Some t" "tv_outcome t \<noteq> None" "\<forall>op \<in> set ops. \<not> starts_task op"
  shows "as_task (st_state (fold (status_step fr ps) ops st)) = Some t"
  using assms
proof (induction ops arbitrary: st)
  case Nil
  then show ?case by simp
next
  case (Cons op ops)
  have "as_task (st_state (status_step fr ps op st)) = Some t"
    using Cons.prems by (intro ended_step) auto
  with Cons show ?case by auto
qed

lemma sample_rates: "length (mc_rates m) \<le> RATE_HISTORY \<Longrightarrow> length (mc_rates (sample ps slot r i m)) \<le> RATE_HISTORY"
  by (simp add: sample_def Let_def RATE_HISTORY_def)

definition status_after :: "('f task_view \<Rightarrow> 'f) \<Rightarrow> (u64 \<Rightarrow> nat \<Rightarrow> 'f) \<Rightarrow>
    ('f :: {zero, linorder}) status_op list \<Rightarrow> 'f status" where
  "status_after fr ps ops = fold (status_step fr ps) ops new_status"

text \<open>C30: An agent reports exactly the task it runs. After any sequence of status operations, one after the other, the uplink holds the
  progress of the task that is running, computed from the state as it is, and nothing when no task runs; and a
  task that has ended stays as it ended, with nothing reported upstream, whatever late progress reports, samples or
  changes come in, until another task starts.\<close>

theorem status_reports_running_task:
  fixes fr :: "('f :: {zero, linorder}) task_view \<Rightarrow> 'f"
  shows "st_uplink (status_after fr ps ops) = map_option (host_progress_of fr) (running_task (st_state (status_after fr ps ops))) \<and>
    (\<forall>t late. as_task (st_state (status_after fr ps ops)) = Some t \<longrightarrow> tv_outcome t \<noteq> None \<longrightarrow>
       (\<forall>op \<in> set late. \<not> starts_task op) \<longrightarrow>
       as_task (st_state (status_after fr ps (ops @ late))) = Some t \<and> st_uplink (status_after fr ps (ops @ late)) = None)"
proof (intro conjI allI impI)
  have uplink: "st_uplink (status_after fr ps os) = map_option (host_progress_of fr) (running_task (st_state (status_after fr ps os)))" for os
    using steps_current [of fr ps os] by (simp add: status_after_def uplink_current_def)
  then show "st_uplink (status_after fr ps ops) = map_option (host_progress_of fr) (running_task (st_state (status_after fr ps ops)))" .
  fix t and late :: "'f status_op list"
  assume ended: "as_task (st_state (status_after fr ps ops)) = Some t" "tv_outcome t \<noteq> None" "\<forall>op \<in> set late. \<not> starts_task op"
  then show task: "as_task (st_state (status_after fr ps (ops @ late))) = Some t"
    using ended_steps [of "status_after fr ps ops" t late fr ps] by (simp add: status_after_def)
  from task ended(2) show "st_uplink (status_after fr ps (ops @ late)) = None"
    by (simp add: uplink running_task_def)
qed

definition demo_ops :: "int status_op list" where
  "demo_ops = [Task_Started 5 \<lparr>at_id = 7, at_work = DeployWork 3\<rparr>, Task_Ended 9 Outcome_Cancelled]"

lemma status_reports_running_task_witness:
  "st_uplink (status_after (\<lambda>_. 0) (\<lambda>_ _. 0) (demo_ops @ [Report_Partition 7 0 default_progress])) = None"
proof -
  have "\<exists>t. as_task (st_state (status_after (\<lambda>_. 0) (\<lambda>_ _. 0) demo_ops)) = Some t \<and> tv_outcome t \<noteq> None"
    by (simp add: status_after_def demo_ops_def task_started_def task_ended_def update_task_def begin_task_def change_task_def
        Let_def)
  then show ?thesis
    using status_reports_running_task [of "\<lambda>_. 0" "\<lambda>_ _. 0" demo_ops] by (auto simp: starts_task_def)
qed

end
