(* ===== verification/Gpt.thy ===== *)
theory Gpt
  imports Tools "HOL-Library.Code_Target_Nat"
begin

text \<open>
  Partition tables: \<open>crates/disk/src/gpt.rs\<close> and \<open>crates/disk/src/partition_table.rs\<close>. The label of a
  disk, the backup of a GUID partition table as \<open>sgdisk\<close> writes it (a protective record, the header, its copy, the
  entries), the room its partitions need and where they lie. All quantities are the 64-bit words
  of the source.
\<close>

subsection \<open>Bytes\<close>

definition le_nat :: "string \<Rightarrow> nat" where
  "le_nat bytes = foldr (\<lambda>c n. byte c + 256 * n) bytes 0"

definition le_u32 :: "string \<Rightarrow> nat \<Rightarrow> u32" where
  "le_u32 bytes at = word_of_nat (le_nat (take 4 (drop at bytes)))"

definition le_u64 :: "string \<Rightarrow> nat \<Rightarrow> u64" where
  "le_u64 bytes at = word_of_nat (le_nat (take 8 (drop at bytes)))"

text \<open>\<open>slice::chunks_exact\<close>; the source never asks for empty chunks.\<close>

function chunks_exact :: "nat \<Rightarrow> 'a list \<Rightarrow> 'a list list" where
  "chunks_exact n xs = (if n = 0 \<or> length xs < n then [] else take n xs # chunks_exact n (drop n xs))"
  by pat_completeness auto
termination
  by (relation "measure (\<lambda>(n, xs). length xs)") auto

declare chunks_exact.simps [simp del]

lemma length_chunks_exact: "0 < n \<Longrightarrow> length (chunks_exact n xs) = length xs div n"
proof (induction n xs rule: chunks_exact.induct)
  case (1 n xs)
  then show ?case
    by (subst chunks_exact.simps) (auto simp: le_div_geq not_less)
qed

lemma chunks_exact_length: "c \<in> set (chunks_exact n xs) \<Longrightarrow> length c = n"
proof (induction n xs rule: chunks_exact.induct)
  case (1 n xs)
  then show ?case
    by (subst (asm) (2) chunks_exact.simps) (auto split: if_splits)
qed

subsection \<open>The label of a disk\<close>

definition FILE_SECTOR_SIZE :: u32 where "FILE_SECTOR_SIZE = 512"
definition MBR_BYTES :: nat where "MBR_BYTES = 512"
definition MBR_ENTRY_BYTES :: nat where "MBR_ENTRY_BYTES = 16"
definition MBR_TYPE_OFFSET :: nat where "MBR_TYPE_OFFSET = 4"
definition PROTECTIVE_MBR_TYPE :: char where "PROTECTIVE_MBR_TYPE = CHR 0xEE"
definition BOOT_SIGNATURE :: string where "BOOT_SIGNATURE = [CHR 0x55, CHR 0xAA]"
definition SIGNATURE :: string where "SIGNATURE = ''EFI PART''"

text \<open>\<open>MBR_ENTRIES\<close> is the range \<open>446..510\<close>.\<close>

definition mbr_entries :: "string \<Rightarrow> string" where
  "mbr_entries mbr = take (510 - 446) (drop 446 mbr)"

datatype label = Gpt | Dos | ProtectiveMbrOnly | Missing

fun label_str :: "label \<Rightarrow> string" where
  "label_str Gpt = ''gpt''"
| "label_str Dos = ''dos''"
| "label_str ProtectiveMbrOnly = ''a protective MBR without a GPT header''"
| "label_str Missing = ''no partition table''"

text \<open>An open disk; \<open>file_at\<close> reads that many bytes of its file from an offset.\<close>

record gpt_disk =
  file_at :: "u64 \<Rightarrow> nat \<Rightarrow> string + string"
  block_device :: bool
  sector_size :: u32
  size_bytes :: u64

text \<open>The path under \<open>/sys\<close> for a device number, and the sector size read there.\<close>

definition device_path :: "u64 \<Rightarrow> string" where
  "device_path device =
     (let major = or (and (drop_bit 8 device) 0xfff) (and (drop_bit 32 device) 0xfffff000);
          minor = or (and device 0xff) (and (drop_bit 12 device) 0xffffff00)
      in ''/sys/dev/block/'' @ nat_str (unat major) @ '':'' @ nat_str (unat minor)
         @ ''/queue/logical_block_size'')"

definition logical_sector_size :: "outside \<Rightarrow> u64 \<Rightarrow> u32 run" where
  "logical_sector_size w device =
     t_bind (t_context (''reading '' @ device_path device) (file_bytes w (device_path device)))
       (\<lambda>text.
         t_of (ok_or [''parsing '' @ device_path device, ''invalid number'']
           (map_option word_of_nat (parse_uint 32 (trim text)))))"

text \<open>What \<open>metadata\<close> tells of a disk: the device number, of a block device. Opening it yields its bytes.\<close>

record opened_file =
  of_device :: "u64 option"
  of_bytes :: "u64 \<Rightarrow> nat \<Rightarrow> string + string"

definition disk_open :: "outside \<Rightarrow> (call list \<Rightarrow> string \<Rightarrow> anyhow + opened_file) \<Rightarrow> string \<Rightarrow> gpt_disk run" where
  "disk_open w open_file path =
     t_bind (t_context (''inspecting '' @ path) (\<lambda>t. (open_file t path, t))) (\<lambda>opened.
       t_bind
         (case of_device opened of
            Some device \<Rightarrow> logical_sector_size w device
          | None \<Rightarrow> t_return FILE_SECTOR_SIZE) (\<lambda>sectors.
         t_bind (t_context (''inspecting '' @ path) (\<lambda>t. (file_size w t path, t))) (\<lambda>bytes.
           t_return \<lparr>file_at = of_bytes opened, block_device = (of_device opened \<noteq> None),
                     sector_size = sectors, size_bytes = bytes\<rparr>)))"

text \<open>\<open>read_at\<close> reads nothing that is not all on the disk.\<close>

definition read_at :: "gpt_disk \<Rightarrow> u64 \<Rightarrow> nat \<Rightarrow> string + string option" where
  "read_at d offset len =
     (if size_bytes d < sat_add offset (word_of_nat len) then Inr None
      else and_then (file_at d offset len) (\<lambda>bytes. Inr (Some bytes)))"

definition disk_label :: "gpt_disk \<Rightarrow> string + label" where
  "disk_label d =
     and_then (read_at d 0 MBR_BYTES) (\<lambda>mbr.
       case mbr of
         None \<Rightarrow> Inr Missing
       | Some mbr \<Rightarrow>
           if drop (MBR_BYTES - 2) mbr \<noteq> BOOT_SIGNATURE then Inr Missing
           else if \<not> list_ex (\<lambda>e. e ! MBR_TYPE_OFFSET = PROTECTIVE_MBR_TYPE)
                       (chunks_exact MBR_ENTRY_BYTES (mbr_entries mbr))
           then Inr Dos
           else and_then (read_at d (ucast (sector_size d)) (length SIGNATURE)) (\<lambda>signature.
                  Inr (if signature = Some SIGNATURE then Gpt else ProtectiveMbrOnly)))"

subsection \<open>The backup of a partition table\<close>

definition BACKUP_BLOCK_BYTES :: nat where "BACKUP_BLOCK_BYTES = 512"
definition BACKUP_HEADER_OFFSET :: nat where "BACKUP_HEADER_OFFSET = BACKUP_BLOCK_BYTES"
definition BACKUP_ENTRIES_OFFSET :: nat where "BACKUP_ENTRIES_OFFSET = 3 * BACKUP_BLOCK_BYTES"
definition HEADER_BYTES :: nat where "HEADER_BYTES = 92"
definition HEADER_ENTRY_COUNT :: nat where "HEADER_ENTRY_COUNT = 80"
definition HEADER_ENTRY_BYTES :: nat where "HEADER_ENTRY_BYTES = 84"
definition HEADER_SECTORS :: u64 where "HEADER_SECTORS = 1"
definition MIN_ENTRY_BYTES :: nat where "MIN_ENTRY_BYTES = 128"
definition ENTRY_TYPE_BYTES :: nat where "ENTRY_TYPE_BYTES = 16"
definition ENTRY_FIRST_LBA :: nat where "ENTRY_FIRST_LBA = 32"
definition ENTRY_LAST_LBA :: nat where "ENTRY_LAST_LBA = 40"
definition UNUSED_TYPE :: string where "UNUSED_TYPE = replicate 16 nul"

lemmas gpt_layout =
  BACKUP_BLOCK_BYTES_def BACKUP_HEADER_OFFSET_def BACKUP_ENTRIES_OFFSET_def HEADER_BYTES_def
  HEADER_ENTRY_COUNT_def HEADER_ENTRY_BYTES_def HEADER_SECTORS_def MIN_ENTRY_BYTES_def
  ENTRY_TYPE_BYTES_def ENTRY_FIRST_LBA_def ENTRY_LAST_LBA_def UNUSED_TYPE_def

record gpt_entry =
  en_number :: int
  first_lba :: u64
  last_lba :: u64

record gpt_backup =
  entry_array_bytes :: u64
  gpt_entries :: "gpt_entry list"

definition parse_entry :: "string \<times> int \<Rightarrow> anyhow + gpt_entry" where
  "parse_entry numbered =
     (let entry = \<lparr>en_number = snd numbered, first_lba = le_u64 (fst numbered) ENTRY_FIRST_LBA,
                   last_lba = le_u64 (fst numbered) ENTRY_LAST_LBA\<rparr>
      in if first_lba entry \<le> last_lba entry then Inr entry
         else Inl [''partition '' @ int_str (snd numbered) @ '' ends before it starts''])"

text \<open>The used entries of the array, numbered from one.\<close>

definition used_entries :: "nat \<Rightarrow> string \<Rightarrow> (string \<times> int) list" where
  "used_entries entry_bytes entry_array =
     (let chunks = chunks_exact entry_bytes entry_array
      in filter (\<lambda>e. take ENTRY_TYPE_BYTES (fst e) \<noteq> UNUSED_TYPE)
           (zip chunks (map int [1..<Suc (length chunks)])))"

definition entry_array :: "string \<Rightarrow> nat \<Rightarrow> nat \<Rightarrow> string option" where
  "entry_array bytes count entry_bytes =
     (if count * entry_bytes < 2 ^ 64
      then Option.bind (get_range BACKUP_ENTRIES_OFFSET (length bytes) bytes)
             (\<lambda>rest. get_range 0 (count * entry_bytes) rest)
      else None)"

definition backup_header :: "string \<Rightarrow> string option" where
  "backup_header bytes =
     Option.bind (get_range BACKUP_HEADER_OFFSET (BACKUP_HEADER_OFFSET + HEADER_BYTES) bytes)
       (\<lambda>header. if starts_with SIGNATURE header then Some header else None)"

definition backup_parse :: "string \<Rightarrow> anyhow + gpt_backup" where
  "backup_parse bytes =
     and_then (ok_or [''the partition table backup holds no GPT header''] (backup_header bytes)) (\<lambda>header.
       let count = unat (le_u32 header HEADER_ENTRY_COUNT);
           entry_bytes = unat (le_u32 header HEADER_ENTRY_BYTES)
       in if entry_bytes < MIN_ENTRY_BYTES
          then Inl [''the partition table backup has '' @ nat_str entry_bytes @ ''-byte partition entries'']
          else and_then (ok_or [''the partition table backup ends inside its partition entries'']
                           (entry_array bytes count entry_bytes)) (\<lambda>entries.
                 and_then (collect_map parse_entry (used_entries entry_bytes entries)) (\<lambda>parsed.
                   Inr \<lparr>entry_array_bytes = word_of_nat (length entries), gpt_entries = parsed\<rparr>)))"

text \<open>\<open>u64::div_ceil\<close> of a divisor that is not zero.\<close>

definition div_ceil :: "u64 \<Rightarrow> u64 \<Rightarrow> u64" where
  "div_ceil a b = (let d = a div b; r = a mod b in if 0 < r \<and> 0 < b then d + 1 else d)"

text \<open>\<open>Backup::required_sectors\<close>; \<open>None\<close> is the panic of the division by an empty sector.\<close>

definition required_sectors :: "u32 \<Rightarrow> gpt_backup \<Rightarrow> u64 option" where
  "required_sectors sector b =
     (if sector = 0 then None
      else let entry_array_sectors = div_ceil (entry_array_bytes b) (ucast sector)
        in case map last_lba (gpt_entries b) of
             [] \<Rightarrow> Some 0
           | l # ls \<Rightarrow>
               Some (sat_add (sat_add (sat_add (fold max ls l) 1) entry_array_sectors) HEADER_SECTORS))"

record gpt_partition =
  pt_number :: int
  pt_offset :: u64
  pt_size :: u64

definition entry_partition :: "u32 \<Rightarrow> gpt_entry \<Rightarrow> anyhow + gpt_partition" where
  "entry_partition sector entry =
     and_then (ok_or [''partition '' @ int_str (en_number entry) @ '' ends beyond 2^64 bytes'']
         (Option.bind (checked_add (last_lba entry) 1) (\<lambda>sectors. checked_mul sectors (ucast sector))))
       (\<lambda>stop.
         let offset = first_lba entry * ucast sector
         in Inr \<lparr>pt_number = en_number entry, pt_offset = offset, pt_size = stop - offset\<rparr>)"

definition backup_partitions :: "u32 \<Rightarrow> gpt_backup \<Rightarrow> anyhow + gpt_partition list" where
  "backup_partitions sector b = collect_map (entry_partition sector) (gpt_entries b)"

subsection \<open>Backing up and restoring a table\<close>

record partition_table =
  tb_sector_size :: u32
  tb_partitions :: "gpt_partition list"

definition run_printed :: "cmd_output \<Rightarrow> string list" where
  "run_printed output =
     filter (\<lambda>l. l \<noteq> []) (map trim (concat (map (\<lambda>b. lines (from_utf8_lossy b))
       [out_stdout output, out_stderr output])))"

definition run_tool :: "outside \<Rightarrow> string \<Rightarrow> string list \<Rightarrow> unit run" where
  "run_tool w program arguments =
     t_bind (command_output w program arguments) (\<lambda>output.
       if success (out_status output) then t_return ()
       else t_bail (program @ (case arguments of [] \<Rightarrow> [] | a # _ \<Rightarrow> '' '' @ a) @ '' failed with ''
              @ status_str (out_status output) @ '': '' @ join '' '' (run_printed output)))"

definition read_backup :: "outside \<Rightarrow> string \<Rightarrow> gpt_backup run" where
  "read_backup w backup =
     t_bind (t_context (''reading '' @ backup) (file_bytes w backup)) (\<lambda>bytes. t_of (backup_parse bytes))"

definition backup_partition_table ::
  "outside \<Rightarrow> (call list \<Rightarrow> string \<Rightarrow> anyhow + opened_file) \<Rightarrow> string \<Rightarrow> string \<Rightarrow> partition_table run" where
  "backup_partition_table w open_file disk backup =
     t_bind (disk_open w open_file disk) (\<lambda>source.
       t_bind (t_of (with_context (''reading the partition table of '' @ disk)
                 (map_err (\<lambda>e. [e]) (disk_label source)))) (\<lambda>label.
         if label \<noteq> Gpt then t_bail (''only GPT disks are supported, found '' @ label_str label)
         else t_bind (run_tool w ''sgdisk'' [''--backup='' @ backup, disk]) (\<lambda>_.
                t_bind (read_backup w backup) (\<lambda>b.
                  t_bind (t_of (backup_partitions (sector_size source) b)) (\<lambda>partitions.
                    t_return \<lparr>tb_sector_size = sector_size source, tb_partitions = partitions\<rparr>)))))"

text \<open>The panic of \<open>required_sectors\<close> ends a restore as an error does.\<close>

definition restore_partition_table ::
  "outside \<Rightarrow> (call list \<Rightarrow> string \<Rightarrow> anyhow + opened_file) \<Rightarrow> string \<Rightarrow> string \<Rightarrow> u32 \<Rightarrow> unit run" where
  "restore_partition_table w open_file disk backup sectors =
     t_bind (disk_open w open_file disk) (\<lambda>target.
       if sector_size target \<noteq> sectors
       then t_bail (''the image's partition table is for '' @ nat_str (unat sectors) @ ''-byte sectors, ''
              @ disk @ '' has '' @ nat_str (unat (sector_size target)) @ ''-byte sectors'')
       else t_bind (read_backup w backup) (\<lambda>b.
              t_bind (t_of (ok_or [''attempt to divide by zero''] (required_sectors sectors b))) (\<lambda>needed.
                let required = sat_mul needed (ucast sectors)
                in if size_bytes target < required
                   then t_bail (disk @ '' holds '' @ nat_str (unat (size_bytes target))
                          @ '' bytes, the image's partitions need at least '' @ nat_str (unat required))
                   else t_bind (run_tool w ''sgdisk'' [''--zap-all'', disk]) (\<lambda>_.
                          t_bind (run_tool w ''sgdisk'' [''--load-backup='' @ backup, disk]) (\<lambda>_.
                            if block_device target then run_tool w ''partprobe'' [disk]
                            else t_return ())))))"

subsection \<open>Numbers and entries\<close>

lemma used_entries_numbers:
  "sorted_wrt (<) (map snd (used_entries n entries)) \<and>
   (\<forall>e \<in> set (used_entries n entries). 1 \<le> snd e \<and> snd e \<le> int (length entries div n) \<and> length (fst e) = n)"
proof (cases "n = 0")
  case True
  then show ?thesis by (simp add: used_entries_def chunks_exact.simps)
next
  case False
  let ?c = "chunks_exact n entries"
  let ?z = "zip ?c (map int [1..<Suc (length ?c)])"
  have "map snd ?z = map int [1..<Suc (length ?c)]"
    by simp
  then have "sorted_wrt (<) (map snd ?z)"
    by (simp only: sorted_wrt_map) (simp add: sorted_wrt_upt del: upt_Suc)
  then have sorted: "sorted_wrt (<) (map snd (filter P ?z))" for P
    by (simp add: sorted_wrt_map sorted_wrt_filter)
  have "1 \<le> snd e \<and> snd e \<le> int (length ?c) \<and> length (fst e) = n" if "e \<in> set ?z" for e
  proof -
    have "fst e \<in> set ?c" "snd e \<in> set (map int [1..<Suc (length ?c)])"
      using that set_zip_leftD [of "fst e" "snd e"] set_zip_rightD [of "fst e" "snd e"] by (metis prod.collapse)+
    then show ?thesis
      by (auto simp del: upt_Suc dest: chunks_exact_length)
  qed
  with sorted show ?thesis
    using False by (simp add: used_entries_def Let_def length_chunks_exact del: upt_Suc)
qed

lemma parse_entry_Inr:
  "parse_entry e = Inr g \<longleftrightarrow>
   g = \<lparr>en_number = snd e, first_lba = le_u64 (fst e) ENTRY_FIRST_LBA, last_lba = le_u64 (fst e) ENTRY_LAST_LBA\<rparr> \<and>
   first_lba g \<le> last_lba g"
  by (auto simp: parse_entry_def Let_def)

lemma backup_parse_entries:
  assumes "backup_parse bytes = Inr b"
  shows "sorted_wrt (<) (map en_number (gpt_entries b))"
    and "\<forall>e \<in> set (gpt_entries b). 1 \<le> en_number e \<and> first_lba e \<le> last_lba e"
proof -
  obtain n es where parsed: "list_all2 (\<lambda>x y. parse_entry x = Inr y) (used_entries n es) (gpt_entries b)"
    using assms by (auto simp: backup_parse_def Let_def result_simps split: if_splits)
  then have "map en_number (gpt_entries b) = map snd (used_entries n es)"
    by (induction rule: list_all2_induct) (auto simp: parse_entry_Inr)
  then show "sorted_wrt (<) (map en_number (gpt_entries b))"
    using used_entries_numbers by metis
  show "\<forall>e \<in> set (gpt_entries b). 1 \<le> en_number e \<and> first_lba e \<le> last_lba e"
    using used_entries_numbers [of n es]
    by (auto simp: parse_entry_Inr dest!: list_all2_set_right [OF parsed])
qed

lemma bytes_between:
  fixes first stop :: u64
  assumes stop: "unat stop = k * unat s" and order: "unat first * unat s \<le> k * unat s"
  shows "unat (first * ucast s) = unat first * unat (s :: u32)"
    and "unat (stop - first * ucast s) = k * unat s - unat first * unat s"
proof -
  have "k * unat s < 2 ^ 64"
    using unsigned_less [where ?'a = nat and w = stop] stop by simp
  then have "unat first * unat s < 2 ^ 64"
    using order by linarith
  then show first: "unat (first * ucast s) = unat first * unat s"
    by (simp add: unat_word_ariths unat_ucast_u64)
  show "unat (stop - first * ucast s) = k * unat s - unat first * unat s"
    using order by (subst unat_sub) (simp_all add: word_le_nat_alt first stop)
qed

text \<open>Where an entry's partition lies, and when it has a place at all: no arithmetic wraps.\<close>

lemma entry_partition_Inr:
  assumes "first_lba e \<le> last_lba e"
  shows "entry_partition s e = Inr p \<longleftrightarrow>
    unat (last_lba e) + 1 < 2 ^ 64 \<and> (unat (last_lba e) + 1) * unat s < 2 ^ 64 \<and>
    pt_number p = en_number e \<and>
    unat (pt_offset p) = unat (first_lba e) * unat s \<and>
    unat (pt_offset p) + unat (pt_size p) = (unat (last_lba e) + 1) * unat s"
    (is "_ \<longleftrightarrow> ?n < 2 ^ 64 \<and> _ \<and> _ \<and> _ \<and> _")
proof -
  have order: "unat (first_lba e) * unat s \<le> ?n * unat s"
    using assms by (intro mult_le_mono1) (simp add: word_le_nat_alt)
  show ?thesis
  proof (cases "?n < 2 ^ 64 \<and> ?n * unat s < 2 ^ 64")
    case True
    then have stop: "checked_add (last_lba e) 1 = Some (last_lba e + 1)" "unat (last_lba e + 1) = ?n"
      by (simp_all add: checked_add_def unat_word_ariths)
    with True have "checked_mul (last_lba e + 1) (ucast s) = Some ((last_lba e + 1) * ucast s)"
      "unat ((last_lba e + 1) * ucast s) = ?n * unat s"
      by (simp_all add: checked_mul_def unat_word_ariths unat_ucast_u64)
    moreover from this have
      "unat (first_lba e * ucast s) = unat (first_lba e) * unat s"
      "unat ((last_lba e + 1) * ucast s - first_lba e * ucast s) = ?n * unat s - unat (first_lba e) * unat s"
      using bytes_between [OF _ order] by blast+
    moreover have "\<lparr>pt_number = a, pt_offset = off, pt_size = n\<rparr> = p \<longleftrightarrow>
        pt_number p = a \<and> unat (pt_offset p) = unat off \<and> unat (pt_size p) = unat n" for a off n
      by (cases p) (auto simp: word_unat_eq_iff)
    ultimately show ?thesis
      using stop(1) True order by (auto simp: entry_partition_def Let_def)
  next
    case False
    then show ?thesis
      by (auto simp: entry_partition_def result_simps bind_eq_Some_conv checked_add_def checked_mul_def
          unat_word_ariths unat_ucast_u64 split: if_splits)
  qed
qed

lemma entry_partition_ok:
  "is_ok (entry_partition s e) \<longleftrightarrow>
   unat (last_lba e) + 1 < 2 ^ 64 \<and> (unat (last_lba e) + 1) * unat s < 2 ^ 64"
  by (auto simp: entry_partition_def result_simps bind_eq_Some_conv checked_add_def checked_mul_def
      unat_word_ariths Let_def split: if_splits)

subsection \<open>The room a table needs\<close>

lemma div_ceil_covers: "0 < unat b \<Longrightarrow> unat a \<le> unat (div_ceil a b) * unat b"
proof -
  assume b: "0 < unat b"
  have parts: "unat a = unat (a div b) * unat b + unat (a mod b)"
    by (simp add: unat_div unat_mod)
  show ?thesis
  proof (cases "0 < a mod b")
    case False
    then show ?thesis using parts by (simp add: div_ceil_def Let_def word_greater_zero_iff)
  next
    case True
    then have r: "0 < unat (a mod b)" by (simp add: word_less_nat_alt)
    have bound: "unat a < 2 ^ 64"
      using unsigned_less [where ?'a = nat and w = a] by simp
    have "unat (a div b) * 1 \<le> unat (a div b) * unat b"
      using b by (intro mult_le_mono2) linarith
    then have "unat (a div b) + 1 < 2 ^ 64"
      using parts r bound by linarith
    then have "unat (a div b + 1) = unat (a div b) + 1"
      by (simp add: unat_word_ariths)
    moreover have "unat (a mod b) < unat b"
      using b by (simp add: unat_mod)
    ultimately show ?thesis
      using True b parts by (simp add: div_ceil_def Let_def word_less_nat_alt)
  qed
qed

lemma fold_max_ge: "(x :: 'a :: linorder) \<in> set (l # ls) \<Longrightarrow> x \<le> fold max ls l"
  using Max_ge [of "set (l # ls)" x] by (simp only: Max.set_eq_fold) simp

text \<open>A required size that is met by a disk smaller than the largest number was not saturated, and leaves the
  entries and the header of the backup after every partition.\<close>

lemma required_fits:
  assumes "e \<in> set (gpt_entries b)" "required_sectors s b = Some needed"
    "unat (sat_mul needed (ucast s)) \<le> n" "n < 2 ^ 64 - 1"
  shows "(unat (last_lba e) + 1) * unat s + unat (entry_array_bytes b) + unat s \<le> n"
proof -
  obtain g gs where es: "gpt_entries b = g # gs"
    using assms(1) by (cases "gpt_entries b") auto
  let ?m = "fold max (map last_lba gs) (last_lba g)"
  let ?c = "div_ceil (entry_array_bytes b) (ucast s)"
  have le: "last_lba e \<le> ?m"
    using assms(1) es by (intro fold_max_ge) auto
  have sector: "0 < unat s"
    using assms(2) by (auto simp: required_sectors_def unat_gt_0 split: if_splits)
  have req: "unat needed = min (unat ?m + 1 + unat ?c + 1) (2 ^ 64 - 1)"
    using assms(2) by (auto simp: required_sectors_def es Let_def unat_sat_add HEADER_SECTORS_def split: if_splits)
  have "unat needed * unat s \<le> n"
    using assms(3,4) by (simp add: unat_sat_mul min_def split: if_splits)
  moreover have "unat needed * 1 \<le> unat needed * unat s"
    using sector by (intro mult_le_mono2) linarith
  ultimately have "(unat ?m + 1 + unat ?c + 1) * unat s \<le> n"
    using req assms(4) by (simp add: min_def split: if_splits)
  moreover have "(unat (last_lba e) + 1) * unat s \<le> (unat ?m + 1) * unat s"
    using le by (intro mult_le_mono1) (simp add: word_le_nat_alt)
  moreover have "unat (entry_array_bytes b) \<le> unat ?c * unat s"
    using div_ceil_covers [of "ucast s" "entry_array_bytes b"] sector by simp
  ultimately show ?thesis
    unfolding distrib_right by linarith
qed

subsection \<open>Nothing is written before the checks\<close>

lemma disk_open_silent: "snd (disk_open w f p t) = t"
  by (auto simp: disk_open_def t_bind_def t_context_def t_return_def t_of_def logical_sector_size_def file_bytes_def
      split: prod.splits sum.splits option.splits)

lemma read_backup_silent: "snd (read_backup w p t) = t"
  by (auto simp: read_backup_def t_bind_def t_context_def t_of_def file_bytes_def split: prod.splits sum.splits)

lemma extends_run_tool [extends_intros]: "extends (run_tool w p as)"
  unfolding run_tool_def by (intro extends_intros)

lemma read_backup_Inr:
  "read_backup w p t = (Inr b, t') \<longleftrightarrow> t' = t \<and> (\<exists>bytes. read_file w t p = Inr bytes \<and> backup_parse bytes = Inr b)"
  by (auto simp: read_backup_def t_simps)

lemma run_tool_calls: "\<exists>r. run_tool w p as t = (r, t @ [Command p as])"
  by (cases "command_output w p as t")
    (auto simp: run_tool_def t_bind_def command_output_def Let_def t_return_def t_bail_def split: sum.splits)

text \<open>As soon as a restore has run any program, it had found the sectors to be of the image's size and the disk large
  enough for the required sectors, and the first program it ran is the one that wipes the old table.\<close>

lemma restore_calls:
  assumes "restore_partition_table w f disk backup s t = (r, t')" "t' \<noteq> t"
  shows "\<exists>target bytes b. disk_open w f disk t = (Inr target, t) \<and> sector_size target = s \<and>
    read_file w t backup = Inr bytes \<and> backup_parse bytes = Inr b \<and>
    (\<exists>needed. required_sectors s b = Some needed \<and> unat (sat_mul needed (ucast s)) \<le> unat (size_bytes target)) \<and>
    prefix (t @ [Command ''sgdisk'' [''--zap-all'', disk]]) t'"
proof -
  obtain target where opened: "disk_open w f disk t = (Inr target, t)"
    using assms disk_open_silent [of w f disk t]
    by (cases "disk_open w f disk t"; cases "fst (disk_open w f disk t)")
      (auto simp: restore_partition_table_def t_bind_def)
  with assms have sectors: "sector_size target = s"
    by (auto simp: restore_partition_table_def t_bind_def t_bail_def split: if_splits)
  obtain b where parsed: "read_backup w backup t = (Inr b, t)"
    using assms opened sectors read_backup_silent [of w backup t]
    by (cases "read_backup w backup t"; cases "fst (read_backup w backup t)")
      (auto simp: restore_partition_table_def t_bind_def)
  obtain needed where needed: "required_sectors s b = Some needed"
    using assms opened sectors parsed
    by (cases "required_sectors s b") (auto simp: restore_partition_table_def t_bind_def t_of_def)
  then have sum: "ok_or e (required_sectors s b) = Inr needed" for e :: anyhow
    by simp
  have room: "\<not> size_bytes target < sat_mul needed (ucast s)"
    using assms opened sectors parsed
    by (auto simp: restore_partition_table_def t_bind_def t_bail_def t_of_def sum Let_def)
  let ?zapped = "t @ [Command ''sgdisk'' [''--zap-all'', disk]]"
  obtain z where zap: "run_tool w ''sgdisk'' [''--zap-all'', disk] t = (z, ?zapped)"
    using run_tool_calls by blast
  have "prefix ?zapped t'"
  proof (cases z)
    case (Inl e)
    with assms(1) opened sectors parsed room zap show ?thesis
      by (auto simp: restore_partition_table_def t_bind_def t_of_def sum Let_def)
  next
    case (Inr u)
    let ?rest = "t_bind (run_tool w ''sgdisk'' [''--load-backup='' @ backup, disk])
      (\<lambda>_. if block_device target then run_tool w ''partprobe'' [disk] else t_return ())"
    from Inr assms(1) opened sectors parsed room zap have "(r, t') = ?rest ?zapped"
      by (simp add: restore_partition_table_def t_bind_def [of "disk_open w f disk"] t_bind_def [of "t_of x" for x] t_of_def sum
          t_bind_def [of "read_backup w backup"] t_bind_def [of "run_tool w ''sgdisk'' [''--zap-all'', disk]"] Let_def)
    moreover have "extends ?rest"
      by (intro extends_intros)
    ultimately show ?thesis
      by (metis extendsD snd_conv)
  qed
  with opened sectors parsed room needed show ?thesis
    by (auto simp: read_backup_Inr word_le_nat_alt not_less)
qed

subsection \<open>Theorems\<close>

text \<open>C36: The partitions of a table's backup. For every backup that \<open>Backup::parse\<close> accepts,
  \<open>Backup::partitions\<close> succeeds exactly when every used entry ends within 64-bit bytes; then there is one
  partition per used entry, in the order of the table with increasing numbers, and its offset and size are the exact
  products: neither the multiplication of the first block nor the subtraction from the end wraps around.\<close>

theorem gpt_partitions_correct:
  assumes "backup_parse bytes = Inr b"
  shows "(is_ok (backup_partitions s b) \<longleftrightarrow>
      (\<forall>e \<in> set (gpt_entries b). unat (last_lba e) + 1 < 2 ^ 64 \<and> (unat (last_lba e) + 1) * unat s < 2 ^ 64)) \<and>
    (\<forall>ps. backup_partitions s b = Inr ps \<longrightarrow>
      sorted_wrt (<) (map pt_number ps) \<and>
      list_all2 (\<lambda>e p. pt_number p = en_number e \<and>
        unat (pt_offset p) = unat (first_lba e) * unat s \<and>
        unat (pt_offset p) + unat (pt_size p) = (unat (last_lba e) + 1) * unat s) (gpt_entries b) ps)"
proof (intro conjI allI impI)
  note entries = backup_parse_entries [OF assms]
  have order: "first_lba e \<le> last_lba e" if "e \<in> set (gpt_entries b)" for e
    using entries(2) that by blast
  show "is_ok (backup_partitions s b) \<longleftrightarrow>
      (\<forall>e \<in> set (gpt_entries b). unat (last_lba e) + 1 < 2 ^ 64 \<and> (unat (last_lba e) + 1) * unat s < 2 ^ 64)"
    unfolding backup_partitions_def is_ok_collect_map entry_partition_ok by (rule refl)
  fix ps
  assume "backup_partitions s b = Inr ps"
  then have parsed: "list_all2 (\<lambda>e p. entry_partition s e = Inr p) (gpt_entries b) ps"
    by (simp add: backup_partitions_def result_simps)
  show places: "list_all2 (\<lambda>e p. pt_number p = en_number e \<and>
        unat (pt_offset p) = unat (first_lba e) * unat s \<and>
        unat (pt_offset p) + unat (pt_size p) = (unat (last_lba e) + 1) * unat s) (gpt_entries b) ps"
    using entry_partition_Inr [OF order] by (intro list_all2_mono_set [OF parsed]) blast
  then have "map pt_number ps = map en_number (gpt_entries b)"
    by (induction rule: list_all2_induct) simp_all
  with entries(1) show "sorted_wrt (<) (map pt_number ps)"
    by simp
qed

text \<open>C35: A partition table is only wiped when the new one fits. Once \<open>restore_partition_table\<close> has run any program, the
  disk has the image's sector size, the backup was parsed, and every partition of it together with the
  backup's copy of the entries and its header lies within the disk's bytes, exactly computed; the first
  program is the one that wipes the old table. So every refusal leaves the disk untouched. The disk is smaller than
  the largest 64-bit number.\<close>

theorem restored_table_fits:
  assumes "restore_partition_table w f disk backup s t = (r, t')" "t' \<noteq> t"
    "\<And>target. disk_open w f disk t = (Inr target, t) \<Longrightarrow> unat (size_bytes target) < 2 ^ 64 - 1"
  shows "\<exists>target bytes b. disk_open w f disk t = (Inr target, t) \<and> sector_size target = s \<and>
    read_file w t backup = Inr bytes \<and> backup_parse bytes = Inr b \<and>
    (\<forall>e \<in> set (gpt_entries b).
      (unat (last_lba e) + 1) * unat s + unat (entry_array_bytes b) + unat s \<le> unat (size_bytes target)) \<and>
    prefix (t @ [Command ''sgdisk'' [''--zap-all'', disk]]) t'"
proof -
  obtain target bytes b needed where found: "disk_open w f disk t = (Inr target, t)" "sector_size target = s"
    "read_file w t backup = Inr bytes" "backup_parse bytes = Inr b"
    "required_sectors s b = Some needed" "unat (sat_mul needed (ucast s)) \<le> unat (size_bytes target)"
    "prefix (t @ [Command ''sgdisk'' [''--zap-all'', disk]]) t'"
    using restore_calls [OF assms(1,2)] by blast
  have "\<forall>e \<in> set (gpt_entries b).
      (unat (last_lba e) + 1) * unat s + unat (entry_array_bytes b) + unat s \<le> unat (size_bytes target)"
    using required_fits [OF _ found(5,6) assms(3) [OF found(1)]] by blast
  with found show ?thesis by blast
qed

subsection \<open>An example\<close>

text \<open>A backup with three entries of 128 bytes, the second unused, for a disk of one mebibyte.\<close>

definition demo_le :: "nat \<Rightarrow> nat \<Rightarrow> string" where
  "demo_le n k = map (\<lambda>i. char_of (k div 256 ^ i mod 256)) [0..<n]"

definition demo_entry :: "nat \<Rightarrow> nat \<Rightarrow> string" where
  "demo_entry a b = replicate 32 (CHR ''t'') @ demo_le 8 a @ demo_le 8 b @ replicate 80 nul"

definition demo_backup_with :: "nat \<Rightarrow> string" where
  "demo_backup_with stop =
     replicate 512 nul @ SIGNATURE @ replicate 72 nul @ demo_le 4 3 @ demo_le 4 128 @ replicate 936 nul
     @ demo_entry 40 1023 @ replicate 128 nul @ demo_entry 1024 stop"

definition demo_outside :: "nat \<Rightarrow> outside" where
  "demo_outside stop =
     \<lparr>run_command = (\<lambda>t. Inr \<lparr>out_status = Exited 0, out_stdout = [], out_stderr = []\<rparr>),
      read_file = (\<lambda>t p. Inr (demo_backup_with stop)),
      file_size = (\<lambda>t p. Inr 1048576),
      attempt = (\<lambda>t. Inr ())\<rparr>"

definition demo_open :: "call list \<Rightarrow> string \<Rightarrow> anyhow + opened_file" where
  "demo_open t p = Inr \<lparr>of_device = None, of_bytes = (\<lambda>at n. Inr (replicate n nul))\<rparr>"

definition demo_parsed :: "nat \<Rightarrow> gpt_backup" where
  "demo_parsed stop =
     \<lparr>entry_array_bytes = 384,
      gpt_entries = [\<lparr>en_number = 1, first_lba = 40, last_lba = 1023\<rparr>,
                     \<lparr>en_number = 3, first_lba = 1024, last_lba = word_of_nat stop\<rparr>]\<rparr>"

lemma chunks_exact_append [simp]:
  "0 < n \<Longrightarrow> length xs = n \<Longrightarrow> chunks_exact n (xs @ ys) = xs # chunks_exact n ys"
  by (subst chunks_exact.simps) simp

lemma length_demo [simp]: "length (demo_le n k) = n" "length (demo_entry a b) = 128"
  by (simp_all add: demo_le_def demo_entry_def)

lemma demo_header:
  "backup_header (demo_backup_with stop)
   = Some (SIGNATURE @ replicate 72 nul @ demo_le 4 3 @ demo_le 4 128 @ replicate 4 nul)"
  by (simp add: backup_header_def demo_backup_with_def get_range_def gpt_layout SIGNATURE_def starts_with_def)

lemma demo_array:
  "entry_array (demo_backup_with stop) 3 128
   = Some (demo_entry 40 1023 @ replicate 128 nul @ demo_entry 1024 stop)"
  by (simp add: entry_array_def demo_backup_with_def get_range_def gpt_layout SIGNATURE_def)

lemma chunks_exact_one [simp]: "0 < n \<Longrightarrow> length xs = n \<Longrightarrow> chunks_exact n xs = [xs]"
  by (subst chunks_exact.simps) (simp add: chunks_exact.simps)

lemma t_not_nul: "CHR ''t'' \<noteq> nul"
  by code_simp

lemma demo_entry_used: "take ENTRY_TYPE_BYTES (demo_entry a b) \<noteq> UNUSED_TYPE"
  by (simp add: gpt_layout demo_entry_def t_not_nul)

lemma demo_used:
  "used_entries 128 (demo_entry 40 1023 @ replicate 128 nul @ demo_entry 1024 stop)
   = [(demo_entry 40 1023, 1), (demo_entry 1024 stop, 3)]"
  by (simp add: used_entries_def demo_entry_used) (simp add: gpt_layout)

lemma demo_fields:
  "le_u64 (demo_entry 40 1023) ENTRY_FIRST_LBA = 40" "le_u64 (demo_entry 40 1023) ENTRY_LAST_LBA = 1023"
  "le_u64 (demo_entry 1024 2045) ENTRY_FIRST_LBA = 1024" "le_u64 (demo_entry 1024 2045) ENTRY_LAST_LBA = 2045"
  by code_simp+

lemma demo_count:
  "le_u32 (SIGNATURE @ replicate 72 nul @ demo_le 4 3 @ demo_le 4 128 @ replicate 4 nul) HEADER_ENTRY_COUNT = 3"
  "le_u32 (SIGNATURE @ replicate 72 nul @ demo_le 4 3 @ demo_le 4 128 @ replicate 4 nul) HEADER_ENTRY_BYTES = 128"
  by code_simp+

lemma demo_backup_parsed: "backup_parse (demo_backup_with 2045) = Inr (demo_parsed 2045)"
  by (simp add: backup_parse_def demo_header demo_count demo_array demo_used parse_entry_def demo_fields
      demo_parsed_def MIN_ENTRY_BYTES_def)

lemma demo_required: "required_sectors 512 (demo_parsed 2045) = Some 2048" "sat_mul 2048 512 = 1048576"
  by (simp_all add: sat_mul_def required_sectors_def demo_parsed_def div_ceil_def sat_add_def HEADER_SECTORS_def Let_def)

lemma demo_disk:
  "disk_open (demo_outside 2045) demo_open path t =
   (Inr \<lparr>file_at = (\<lambda>at n. Inr (replicate n nul)), block_device = False, sector_size = 512, size_bytes = 1048576\<rparr>, t)"
  by (simp add: disk_open_def demo_open_def demo_outside_def t_bind_def t_context_def t_return_def with_context_def
      FILE_SECTOR_SIZE_def)

lemma demo_restored:
  "restore_partition_table (demo_outside 2045) demo_open disk backup 512 [] =
   (Inr (), [Command ''sgdisk'' [''--zap-all'', disk], Command ''sgdisk'' [''--load-backup='' @ backup, disk]])"
proof -
  have "read_backup (demo_outside 2045) backup [] = (Inr (demo_parsed 2045), [])"
    by (simp add: read_backup_Inr demo_outside_def demo_backup_parsed)
  moreover have "run_tool (demo_outside 2045) p as t = (Inr (), t @ [Command p as])" for p as t
    by (simp add: run_tool_def t_bind_def command_output_def demo_outside_def success_def t_return_def)
  ultimately show ?thesis
    by (simp add: restore_partition_table_def t_bind_def demo_disk demo_required t_of_def t_return_def)
qed

lemma gpt_partitions_correct_witness:
  "\<exists>ps. backup_partitions 512 (demo_parsed 2045) = Inr ps \<and> sorted_wrt (<) (map pt_number ps) \<and>
     map (unat \<circ> pt_offset) ps = [40 * 512, 1024 * 512] \<and> map pt_number ps = [1, 3]"
proof -
  note correct = gpt_partitions_correct [OF demo_backup_parsed, of 512]
  then have "is_ok (backup_partitions 512 (demo_parsed 2045))"
    unfolding demo_parsed_def by simp
  then obtain ps where ps: "backup_partitions 512 (demo_parsed 2045) = Inr ps"
    by (auto simp: is_ok_iff)
  with correct show ?thesis
    by (auto simp: demo_parsed_def list_all2_Cons1)
qed

lemma restored_table_fits_witness:
  "\<exists>target bytes b. disk_open (demo_outside 2045) demo_open ''/dev/sda'' [] = (Inr target, []) \<and>
    sector_size target = 512 \<and>
    read_file (demo_outside 2045) [] ''table'' = Inr bytes \<and> backup_parse bytes = Inr b \<and>
    list_all (\<lambda>e. (unat (last_lba e) + 1) * unat (512 :: u32) + unat (entry_array_bytes b) + unat (512 :: u32)
        \<le> unat (size_bytes target)) (gpt_entries b) \<and>
    prefix ([] @ [Command ''sgdisk'' [''--zap-all'', ''/dev/sda'']])
      [Command ''sgdisk'' [''--zap-all'', ''/dev/sda''], Command ''sgdisk'' [''--load-backup=table'', ''/dev/sda'']]"
  using restored_table_fits [OF demo_restored [of "''/dev/sda''" "''table''"]] by (simp add: demo_disk list_all_iff)

end
