(* ===== verification/Fstab.thy ===== *)
theory Fstab
  imports Block_Device
begin

text \<open>
  The mounts of a restored system: \<open>crates/agent/src/sys/fstab.rs\<close>, which plans them from the image's
  \<open>/etc/fstab\<close>, and \<open>crates/agent/src/sys/mount.rs\<close>, which makes and undoes them. A path below the root of the system is
  the list of its components. Processes left in the system are stopped by one call that is not
  modelled further.
\<close>

subsection \<open>Fields and paths\<close>

definition is_octal :: "char \<Rightarrow> nat \<Rightarrow> bool" where
  "is_octal c m \<longleftrightarrow> 48 \<le> byte c \<and> byte c \<le> 48 + m"

definition octal_value :: "char \<Rightarrow> char \<Rightarrow> char \<Rightarrow> char" where
  "octal_value a b c = char_of ((byte a - 48) * 64 + (byte b - 48) * 8 + (byte c - 48))"

definition escaped :: "char \<Rightarrow> string \<Rightarrow> char option" where
  "escaped first tail =
     (case tail of
        a # b # c # _ \<Rightarrow>
          if first = CHR 0x5C \<and> is_octal a 3 \<and> is_octal b 7 \<and> is_octal c 7 then Some (octal_value a b c) else None
      | _ \<Rightarrow> None)"

function unescape :: "string \<Rightarrow> string" where
  "unescape [] = []"
| "unescape (first # tail) =
     (case escaped first tail of
        Some code \<Rightarrow> code # unescape (drop 3 tail)
      | None \<Rightarrow> first # unescape tail)"
  by pat_completeness auto
termination
  by (relation "measure length") auto

text \<open>The components after the root, without empty ones and dots.\<close>

definition path_parts :: "string \<Rightarrow> string list" where
  "path_parts p = filter (\<lambda>c. c \<noteq> [] \<and> c \<noteq> ''.'') (split_on (CHR ''/'') p)"

definition relative_target :: "string \<Rightarrow> string list option" where
  "relative_target mountpoint =
     (if \<not> starts_with ''/'' mountpoint \<or> ''..'' \<in> set (path_parts mountpoint) \<or> path_parts mountpoint = []
      then None
      else Some (path_parts mountpoint))"

subsection \<open>Planning\<close>

datatype matching = First | Unique

record planned_mount =
  pm_device :: string
  pm_target :: "string list"
  pm_fstype :: string

definition device_key :: "string \<Rightarrow> (string \<times> string) option" where
  "device_key spec =
     (case split_once ''='' spec of
        Some (key, text) \<Rightarrow> Some (map lower key, trim_char (CHR 0x22) text)
      | None \<Rightarrow>
          Option.bind (strip_prefix ''/dev/'' spec) (\<lambda>path.
            case strip_prefix ''disk/by-'' path of
              Some link \<Rightarrow> split_once ''/'' link
            | None \<Rightarrow> Some (''name'', path)))"

definition key_matches :: "string \<Rightarrow> string \<Rightarrow> block_device \<Rightarrow> bool" where
  "key_matches key text d \<longleftrightarrow>
     (if key = ''uuid'' then same_id (bd_uuid d) text
      else if key = ''partuuid'' then same_id (bd_partuuid d) text
      else if key = ''label'' then bd_label d = Some text
      else if key = ''partlabel'' then bd_partlabel d = Some text
      else if key = ''name'' then bd_name d = text
      else False)"

definition find_partition :: "block_device \<Rightarrow> string \<Rightarrow> matching \<Rightarrow> anyhow + block_device option" where
  "find_partition disk spec how =
     (case device_key spec of
        None \<Rightarrow> Inr None
      | Some (key, text) \<Rightarrow>
          (case filter (key_matches key text) (bd_children disk) of
             [] \<Rightarrow> Inr None
           | [d] \<Rightarrow> Inr (Some d)
           | d # _ \<Rightarrow>
               if how = Unique
               then Inl [''the image's /etc/fstab names '' @ spec @ '', which matches more than one partition on ''
                      @ bd_name disk]
               else Inr (Some d)))"

definition fstab_fields :: "string \<Rightarrow> string list" where
  "fstab_fields line =
     map (\<lambda>f. from_utf8_lossy (unescape f)) (split_whitespace (hd (split_on (CHR ''#'') line)))"

definition plan_entry :: "block_device \<Rightarrow> matching \<Rightarrow> string \<Rightarrow> string \<Rightarrow> string \<Rightarrow> anyhow + planned_mount option" where
  "plan_entry disk how spec mountpoint fstype =
     (if fstype = ''swap'' then Inr None
      else case relative_target mountpoint of
        None \<Rightarrow>
          if mountpoint = ''/'' then and_then (find_partition disk spec how) (\<lambda>_. Inr None) else Inr None
      | Some target \<Rightarrow>
          and_then (find_partition disk spec how) (\<lambda>found.
            case found of
              None \<Rightarrow> Inr None
            | Some d \<Rightarrow>
                (case bd_fstype d of
                   Some detected \<Rightarrow> Inr (Some \<lparr>pm_device = get_device d, pm_target = target, pm_fstype = detected\<rparr>)
                 | None \<Rightarrow>
                     if fstype = ''auto'' then Inr None
                     else Inr (Some \<lparr>pm_device = get_device d, pm_target = target, pm_fstype = fstype\<rparr>))))"

definition plan_mount :: "block_device \<Rightarrow> matching \<Rightarrow> string \<Rightarrow> anyhow + planned_mount option" where
  "plan_mount disk how line =
     (case fstab_fields line of
        spec # mountpoint # fstype # _ \<Rightarrow> plan_entry disk how spec mountpoint fstype
      | _ \<Rightarrow> Inr None)"

definition plan_mounts :: "string \<Rightarrow> block_device \<Rightarrow> matching \<Rightarrow> anyhow + planned_mount list" where
  "plan_mounts fstab disk how =
     and_then (collect_map (plan_mount disk how) (lines fstab)) (\<lambda>found.
       Inr (sort_key (\<lambda>m. length (pm_target m)) (List.map_filter (\<lambda>m. m) found)))"

subsection \<open>Mounting and unmounting\<close>

definition ROOT_DIR :: string where "ROOT_DIR = ''/tmp/imaged-root''"

definition mount_point :: "string list \<Rightarrow> string" where
  "mount_point parts = (if parts = [] then ROOT_DIR @ ''/'' else ROOT_DIR @ ''/'' @ join ''/'' parts)"

text \<open>The mounted paths are the state of \<open>MountedSystem\<close>; an operation that fails keeps what it mounted.\<close>

type_synonym mounting = "string list \<Rightarrow> call list \<Rightarrow> (anyhow + unit) \<times> string list \<times> call list"

definition attach :: "outside \<Rightarrow> string list \<Rightarrow> string \<Rightarrow> call \<Rightarrow> mounting" where
  "attach w relative source mount mounted t =
     (case t_bind (t_context (''creating '' @ mount_point relative) (act w (Make_Dir (mount_point relative)))) (\<lambda>_.
             t_context (''mounting '' @ source @ '' at '' @ mount_point relative) (act w mount)) t of
        (Inl e, t') \<Rightarrow> (Inl e, mounted, t')
      | (Inr _, t') \<Rightarrow> (Inr (), mounted @ [mount_point relative], t'))"

definition then_mount :: "mounting \<Rightarrow> mounting \<Rightarrow> mounting" where
  "then_mount m n mounted t =
     (case m mounted t of
        (Inl e, mounted', t') \<Rightarrow> (Inl e, mounted', t')
      | (Inr _, mounted', t') \<Rightarrow> n mounted' t')"

definition mount_fs :: "string \<Rightarrow> string list \<Rightarrow> string \<Rightarrow> call" where
  "mount_fs device target fstype = Other_Call ''mount'' [device, mount_point target, fstype]"

fun attach_planned :: "outside \<Rightarrow> string \<Rightarrow> planned_mount list \<Rightarrow> mounting" where
  "attach_planned w root_device [] = (\<lambda>mounted t. (Inr (), mounted, t))"
| "attach_planned w root_device (m # ms) =
     (if pm_device m = root_device then attach_planned w root_device ms
      else then_mount (attach w (pm_target m) (pm_device m) (mount_fs (pm_device m) (pm_target m) (pm_fstype m)))
             (attach_planned w root_device ms))"

text \<open>What reading the file of the image gives: its text, or an error that says whether the file is missing.\<close>

datatype read_failure = Missing_File | Other_Failure string

definition fstab_text :: "read_failure + string \<Rightarrow> anyhow + string" where
  "fstab_text r =
     (case r of
        Inr text \<Rightarrow> Inr text
      | Inl Missing_File \<Rightarrow> Inr []
      | Inl (Other_Failure e) \<Rightarrow> Inl [''reading the image's /etc/fstab'', e])"

definition attach_all ::
  "outside \<Rightarrow> (call list \<Rightarrow> read_failure + string) \<Rightarrow> partition_target \<Rightarrow> block_device \<Rightarrow> matching \<Rightarrow> mounting" where
  "attach_all w fstab root disk how =
     then_mount (attach w [] (tg_device root) (mount_fs (tg_device root) [] (fs_as_str (tg_filesystem root))))
       (\<lambda>mounted t.
          case and_then (fstab_text (fstab t)) (\<lambda>text. plan_mounts text disk how) of
            Inl e \<Rightarrow> (Inl e, mounted, t)
          | Inr planned \<Rightarrow>
              then_mount (attach_planned w (tg_device root) planned)
                (then_mount (attach w [''proc''] ''proc'' (mount_fs ''proc'' [''proc''] ''proc''))
                   (then_mount (attach w [''sys''] ''sys'' (Other_Call ''bind'' [''/sys'', mount_point [''sys'']]))
                      (attach w [''dev''] ''dev'' (Other_Call ''bind'' [''/dev'', mount_point [''dev'']]))))
                mounted t)"

definition mounts_under :: "string \<Rightarrow> string \<Rightarrow> string list" where
  "mounts_under mountinfo root =
     filter (\<lambda>target. starts_with ''/'' target \<and> prefix (path_parts root) (path_parts target))
       (map unescape
         (List.map_filter (\<lambda>line. let fields = split_on (CHR '' '') line in if 4 < length fields then Some (fields ! 4) else None)
           (rev (split_on (CHR 0x0A) mountinfo))))"

definition unmount_one :: "outside \<Rightarrow> string \<Rightarrow> call list \<Rightarrow> string option \<times> call list" where
  "unmount_one w target t =
     (case act w (Other_Call ''unmount'' [target]) t of
        (Inr _, t') \<Rightarrow> (None, t')
      | (Inl e, t') \<Rightarrow>
          (Some (''could not unmount '' @ target @ '': '' @ chain_str e),
           snd (act w (Other_Call ''detach'' [target]) t')))"

text \<open>\<open>failure.get_or_insert\<close> keeps the first failure.\<close>

fun unmount_all :: "outside \<Rightarrow> string list \<Rightarrow> string option \<Rightarrow> call list \<Rightarrow> string option \<times> call list" where
  "unmount_all w [] failure t = (failure, t)"
| "unmount_all w (target # targets) failure t =
     (case unmount_one w target t of
        (e, t') \<Rightarrow> unmount_all w targets (if failure = None then e else failure) t')"

definition release :: "outside \<Rightarrow> string list \<Rightarrow> unit run" where
  "release w mounted t =
     (if mounted = [] then (Inr (), t)
      else let t1 = t @ [Other_Call ''stop processes'' [ROOT_DIR]];
               targets = (case read_file w t1 ''/proc/self/mountinfo'' of
                            Inr mountinfo \<Rightarrow> mounts_under mountinfo ROOT_DIR
                          | Inl e \<Rightarrow> rev mounted)
           in case unmount_all w targets None t1 of
                (failure, t2) \<Rightarrow>
                  ((case failure of None \<Rightarrow> Inr () | Some e \<Rightarrow> Inl [e]), t2 @ [Other_Call ''sync'' []]))"

text \<open>\<open>MountedSystem::mount\<close>: when it fails, the value is dropped and everything mounted so far is released.\<close>

definition mount_system ::
  "outside \<Rightarrow> (call list \<Rightarrow> read_failure + string) \<Rightarrow> partition_target \<Rightarrow> block_device \<Rightarrow> matching \<Rightarrow> string list run" where
  "mount_system w fstab root disk how t =
     (case attach_all w fstab root disk how [] t of
        (Inr _, mounted, t') \<Rightarrow> (Inr mounted, t')
      | (Inl e, mounted, t') \<Rightarrow> (Inl e, snd (release w mounted t')))"

subsection \<open>Escapes\<close>

text \<open>The encoding of \<open>fstab(5)\<close> and of \<open>/proc/self/mountinfo\<close>: some characters, the backslash among them, as a
  backslash with three octal digits.\<close>

definition octal_digits :: "char \<Rightarrow> string" where
  "octal_digits c = map (\<lambda>n. char_of (48 + n)) [byte c div 64, byte c div 8 mod 8, byte c mod 8]"

definition escape :: "(char \<Rightarrow> bool) \<Rightarrow> string \<Rightarrow> string" where
  "escape special s = concat (map (\<lambda>c. if special c then CHR 0x5C # octal_digits c else [c]) s)"

lemma escaped_octal: "escaped (CHR 0x5C) (octal_digits c @ s) = Some c"
proof -
  have c: "byte c < 256"
    by (simp add: byte_def)
  then have "byte c div 64 < 4" "byte c div 8 mod 8 < 8" "byte c mod 8 < 8"
    by auto
  then have parts: "byte c div 64 \<le> 3" "byte c div 8 mod 8 \<le> 7" "byte c mod 8 \<le> 7"
    by linarith+
  have "byte c div 64 = byte c div 8 div 8"
    by (simp add: div_mult2_eq [symmetric])
  then have "byte c div 64 * 64 + byte c div 8 mod 8 * 8 + byte c mod 8 = byte c"
    using div_mult_mod_eq [of "byte c" 8] div_mult_mod_eq [of "byte c div 8" 8] by linarith
  then show ?thesis
    using parts
    by (simp add: escaped_def octal_digits_def octal_value_def is_octal_def byte_char_of char_of_byte)
qed

lemma unescape_escape:
  assumes "special (CHR 0x5C)"
  shows "unescape (escape special s) = s"
proof (induction s)
  case Nil
  then show ?case by (simp add: escape_def)
next
  case (Cons c s)
  let ?rest = "escape special s"
  have cons: "escape special (c # s) = (if special c then CHR 0x5C # octal_digits c @ ?rest else c # ?rest)"
    by (simp add: escape_def)
  show ?case
  proof (cases "special c")
    case True
    have "drop 3 (octal_digits c @ ?rest) = ?rest"
      by (simp add: octal_digits_def)
    with Cons True show ?thesis by (simp add: cons escaped_octal)
  next
    case False
    then have "escaped c ?rest = None"
      using assms by (auto simp: escaped_def split: list.splits)
    with Cons False show ?thesis by (simp add: cons)
  qed
qed

subsection \<open>What a plan holds\<close>

lemma find_partition_Some:
  assumes "find_partition disk spec how = Inr (Some d)"
  shows "d \<in> set (bd_children disk) \<and> (\<exists>key v. device_key spec = Some (key, v) \<and> key_matches key v d \<and>
    (how = Unique \<longrightarrow> (\<forall>e \<in> set (bd_children disk). key_matches key v e \<longrightarrow> e = d)))"
proof -
  obtain key v where k: "device_key spec = Some (key, v)"
    using assms by (auto simp: find_partition_def split: option.splits)
  let ?found = "filter (key_matches key v) (bd_children disk)"
  obtain ds where ds: "?found = d # ds" "how = Unique \<longrightarrow> ds = []"
    using assms k by (auto simp: find_partition_def split: list.splits if_splits)
  have "set ?found = {e \<in> set (bd_children disk). key_matches key v e}"
    by simp
  with ds have "d \<in> set (bd_children disk)" "key_matches key v d"
    "how = Unique \<longrightarrow> (\<forall>e \<in> set (bd_children disk). key_matches key v e \<longrightarrow> e = d)"
    by auto
  with k show ?thesis by blast
qed

lemma relative_target_Some:
  "relative_target p = Some target \<Longrightarrow> target \<noteq> [] \<and> [] \<notin> set target \<and> ''.'' \<notin> set target \<and> ''..'' \<notin> set target"
  by (auto simp: relative_target_def path_parts_def split: if_splits)

lemma plan_entry_Some:
  assumes "plan_entry disk how spec mountpoint fstype = Inr (Some m)"
  shows "\<exists>target d. relative_target mountpoint = Some target \<and> find_partition disk spec how = Inr (Some d) \<and> fstype \<noteq> ''swap'' \<and>
    pm_device m = get_device d \<and> pm_target m = target \<and>
    (case bd_fstype d of Some fs \<Rightarrow> pm_fstype m = fs | None \<Rightarrow> fstype \<noteq> ''auto'' \<and> pm_fstype m = fstype)"
proof (cases "relative_target mountpoint")
  case None
  with assms show ?thesis by (auto simp: plan_entry_def and_then_Inr split: if_splits)
next
  case (Some target)
  with assms obtain found where "find_partition disk spec how = Inr found" "fstype \<noteq> ''swap''"
    by (auto simp: plan_entry_def and_then_Inr split: if_splits)
  with Some assms show ?thesis
    by (cases found; cases "bd_fstype (the found)") (auto simp: plan_entry_def split: if_splits)
qed

lemma plan_mount_Some:
  assumes "plan_mount disk how line = Inr (Some m)"
  shows "\<exists>d \<in> set (bd_children disk). pm_device m = get_device d \<and>
    (\<forall>fs. bd_fstype d = Some fs \<longrightarrow> pm_fstype m = fs) \<and>
    (bd_fstype d = None \<longrightarrow> pm_fstype m \<noteq> ''swap'' \<and> pm_fstype m \<noteq> ''auto'')"
    and "pm_target m \<noteq> [] \<and> [] \<notin> set (pm_target m) \<and> ''.'' \<notin> set (pm_target m) \<and> ''..'' \<notin> set (pm_target m)"
proof -
  obtain spec mountpoint fstype where "plan_entry disk how spec mountpoint fstype = Inr (Some m)"
    using assms by (auto simp: plan_mount_def split: list.splits)
  from plan_entry_Some [OF this] obtain target d where m: "relative_target mountpoint = Some target"
    "find_partition disk spec how = Inr (Some d)" "fstype \<noteq> ''swap''" "pm_device m = get_device d" "pm_target m = target"
    "case bd_fstype d of Some fs \<Rightarrow> pm_fstype m = fs | None \<Rightarrow> fstype \<noteq> ''auto'' \<and> pm_fstype m = fstype"
    by blast
  show "\<exists>d \<in> set (bd_children disk). pm_device m = get_device d \<and>
    (\<forall>fs. bd_fstype d = Some fs \<longrightarrow> pm_fstype m = fs) \<and>
    (bd_fstype d = None \<longrightarrow> pm_fstype m \<noteq> ''swap'' \<and> pm_fstype m \<noteq> ''auto'')"
    using m(3,4,6) find_partition_Some [OF m(2)] by (intro bexI [of _ d]) (auto split: option.splits)
  show "pm_target m \<noteq> [] \<and> [] \<notin> set (pm_target m) \<and> ''.'' \<notin> set (pm_target m) \<and> ''..'' \<notin> set (pm_target m)"
    using relative_target_Some [OF m(1)] m(5) by simp
qed

lemma plan_mounts_Inr:
  assumes "plan_mounts fstab disk how = Inr ms"
  shows "sorted (map (\<lambda>m. length (pm_target m)) ms)"
    and "m \<in> set ms \<Longrightarrow> \<exists>line \<in> set (lines fstab). plan_mount disk how line = Inr (Some m)"
proof -
  obtain found where found: "list_all2 (\<lambda>l y. plan_mount disk how l = Inr y) (lines fstab) found"
    and ms: "ms = sort_key (\<lambda>m. length (pm_target m)) (List.map_filter (\<lambda>m. m) found)"
    using assms by (auto simp: plan_mounts_def result_simps)
  then show "sorted (map (\<lambda>m. length (pm_target m)) ms)"
    by simp
  assume "m \<in> set ms"
  then have "Some m \<in> set found"
    by (auto simp: ms map_filter_def)
  from list_all2_set_right [OF found this] show "\<exists>line \<in> set (lines fstab). plan_mount disk how line = Inr (Some m)" .
qed

subsection \<open>Theorems\<close>

text \<open>Escaped text is read back. Decoding a field that \<open>fstab\<close> or the kernel encoded, whichever characters it
  chooses to escape besides the backslash, yields the bytes that were encoded.\<close>

theorem unescape_round_trip:
  assumes "special (CHR 0x5C)"
  shows "unescape (escape special s) = s"
  by (rule unescape_escape [of special, OF assms])

lemma unescape_round_trip_witness:
  "unescape (escape (\<lambda>c. c = CHR 0x5C \<or> c = CHR '' '') (''/mnt/my data'' @ [CHR 0x5C] @ ''040'')) = ''/mnt/my data'' @ [CHR 0x5C] @ ''040''"
  using unescape_round_trip [of "\<lambda>c. c = CHR 0x5C \<or> c = CHR '' ''"] by simp

text \<open>C40: A planned mount stays on the disk and below the root. Each mount the image's \<open>/etc/fstab\<close> leads to is of a
  partition of the disk, with the file system found on it if any; its target is a path of named
  components, never \<open>..\<close>, so no table of an image leads outside the mounted system; and a mount point comes
  after every mount point above it.\<close>

theorem planned_mounts_are_confined:
  assumes "plan_mounts fstab disk how = Inr ms"
  shows "(\<forall>m \<in> set ms. (\<exists>d \<in> set (bd_children disk). pm_device m = get_device d \<and>
        (\<forall>fs. bd_fstype d = Some fs \<longrightarrow> pm_fstype m = fs)) \<and>
      pm_target m \<noteq> [] \<and> [] \<notin> set (pm_target m) \<and> ''.'' \<notin> set (pm_target m) \<and> ''..'' \<notin> set (pm_target m)) \<and>
    (\<forall>i j. i < j \<longrightarrow> j < length ms \<longrightarrow> \<not> strict_prefix (pm_target (ms ! j)) (pm_target (ms ! i)))"
proof (intro conjI ballI allI impI)
  fix m
  assume "m \<in> set ms"
  then obtain line where "plan_mount disk how line = Inr (Some m)"
    using plan_mounts_Inr(2) [OF assms] by blast
  from plan_mount_Some [OF this]
  show "\<exists>d \<in> set (bd_children disk). pm_device m = get_device d \<and> (\<forall>fs. bd_fstype d = Some fs \<longrightarrow> pm_fstype m = fs)"
    and "pm_target m \<noteq> []" "[] \<notin> set (pm_target m)" "''.'' \<notin> set (pm_target m)" "''..'' \<notin> set (pm_target m)"
    by blast+
next
  fix i j
  assume "i < j" "j < length ms"
  then have "length (pm_target (ms ! i)) \<le> length (pm_target (ms ! j))"
    using sorted_nth_mono [OF plan_mounts_Inr(1) [OF assms], of i j] by simp
  then show "\<not> strict_prefix (pm_target (ms ! j)) (pm_target (ms ! i))"
    using prefix_length_less by fastforce
qed

definition demo_fstab :: string where
  "demo_fstab = ''UUID=abcd-1234 /boot/efi a'' @ [CHR 0x0A] @ ''UUID=old-root /srv a''"

lemma planned_mounts_are_confined_witness:
  "\<exists>ms. plan_mounts demo_fstab demo_disk_tree Unique = Inr ms \<and>
     map pm_target ms = [[''srv''], [''boot'', ''efi'']] \<and> list_all (\<lambda>m. ''..'' \<notin> set (pm_target m)) ms"
proof -
  have plan: "plan_mounts demo_fstab demo_disk_tree Unique = Inr
      [\<lparr>pm_device = ''/dev/nvme0n1p2'', pm_target = [''srv''], pm_fstype = ''ext4''\<rparr>,
       \<lparr>pm_device = ''/dev/nvme0n1p1'', pm_target = [''boot'', ''efi''], pm_fstype = ''vfat''\<rparr>]"
    by code_simp
  from planned_mounts_are_confined [OF this] plan show ?thesis
    by simp
qed

subsection \<open>Undoing the mounts\<close>

definition unmount_calls :: "call list \<Rightarrow> string list" where
  "unmount_calls d = List.map_filter
     (\<lambda>c. case c of Other_Call what arguments \<Rightarrow> if what = ''unmount'' then Some (hd arguments) else None | _ \<Rightarrow> None) d"

definition detached :: "call list \<Rightarrow> bool" where
  "detached d \<longleftrightarrow> (\<exists>target. Other_Call ''detach'' [target] \<in> set d)"

lemma unmount_calls_append [simp]: "unmount_calls (d @ e) = unmount_calls d @ unmount_calls e"
  by (simp add: unmount_calls_def map_filter_def)

lemma unmount_one_calls:
  "unmount_one w target t = (e, t') \<Longrightarrow>
   \<exists>d. t' = t @ d \<and> unmount_calls d = [target] \<and> (e = None \<longleftrightarrow> \<not> detached d)"
  by (cases "attempt w (t @ [Other_Call ''unmount'' [target]])")
    (auto simp: unmount_one_def act_def Let_def unmount_calls_def map_filter_def detached_def)

lemma unmount_all_calls:
  "unmount_all w targets failure t = (e, t') \<Longrightarrow>
   \<exists>d. t' = t @ d \<and> unmount_calls d = targets \<and> (e = None \<longleftrightarrow> failure = None \<and> \<not> detached d)"
proof (induction w targets failure t arbitrary: e t' rule: unmount_all.induct)
  case (1 w failure t)
  then show ?case by (simp add: unmount_calls_def map_filter_def detached_def)
next
  case (2 w target targets failure t)
  obtain e1 t1 where one: "unmount_one w target t = (e1, t1)"
    by fastforce
  with "2.prems" have rest: "unmount_all w targets (if failure = None then e1 else failure) t1 = (e, t')"
    by simp
  obtain d1 where d1: "t1 = t @ d1" "unmount_calls d1 = [target]" "e1 = None \<longleftrightarrow> \<not> detached d1"
    using unmount_one_calls [OF one] by blast
  obtain d2 where d2: "t' = t1 @ d2" "unmount_calls d2 = targets"
    "e = None \<longleftrightarrow> (if failure = None then e1 else failure) = None \<and> \<not> detached d2"
    using "2.IH" [OF one [symmetric] rest] by blast
  have "detached (d1 @ d2) \<longleftrightarrow> detached d1 \<or> detached d2"
    by (auto simp: detached_def)
  with d1 d2 show ?case
    by (intro exI [of _ "d1 @ d2"]) auto
qed

lemma split_on_both: "split_on sep (s @ sep # t) = split_on sep s @ split_on sep t"
  by (induction s) (auto split: list.splits)

text \<open>What the kernel mounted later is listed first.\<close>

lemma mounts_under_append:
  "mounts_under (older @ CHR 0x0A # newer) root = mounts_under newer root @ mounts_under older root"
  by (simp add: mounts_under_def split_on_both map_filter_def)

lemma release_result:
  assumes "release w mounted t = (r, t')" "mounted \<noteq> []"
    "read_file w (t @ [Other_Call ''stop processes'' [ROOT_DIR]]) ''/proc/self/mountinfo'' = Inr mountinfo"
  shows "\<exists>d. t' = t @ Other_Call ''stop processes'' [ROOT_DIR] # d @ [Other_Call ''sync'' []] \<and>
    unmount_calls d = mounts_under mountinfo ROOT_DIR \<and> (r = Inr () \<longleftrightarrow> \<not> detached d)"
proof -
  let ?t1 = "t @ [Other_Call ''stop processes'' [ROOT_DIR]]"
  obtain e u where all: "unmount_all w (mounts_under mountinfo ROOT_DIR) None ?t1 = (e, u)"
    by fastforce
  with assms have "r = (case e of None \<Rightarrow> Inr () | Some m \<Rightarrow> Inl [m])" "t' = u @ [Other_Call ''sync'' []]"
    by (auto simp: release_def Let_def)
  with unmount_all_calls [OF all] show ?thesis
    by (auto split: option.splits)
qed

text \<open>Releasing a system unmounts everything. Once anything was mounted, \<open>release\<close> tries to unmount every mount the
  kernel lists below the root, whoever mounted it, each once and the latest first, after the processes in it were
  stopped; and it reports success exactly when none of them had to be detached instead.\<close>

theorem release_unmounts_everything:
  assumes "release w mounted t = (r, t')" "mounted \<noteq> []"
    "read_file w (t @ [Other_Call ''stop processes'' [ROOT_DIR]]) ''/proc/self/mountinfo'' = Inr mountinfo"
  shows "\<exists>d. t' = t @ Other_Call ''stop processes'' [ROOT_DIR] # d @ [Other_Call ''sync'' []] \<and>
    unmount_calls d = mounts_under mountinfo ROOT_DIR \<and> (r = Inr () \<longleftrightarrow> \<not> detached d)"
  by (rule release_result [OF assms])

definition demo_mountinfo :: string where
  "demo_mountinfo = ''1 1 0 / /tmp/imaged-root rw'' @ [CHR 0x0A] @ ''2 1 0 / /tmp/imaged-root/sys rw'' @ [CHR 0x0A]
     @ ''3 1 0 / /tmp/imaged-rootless rw''"

definition demo_mounts :: outside where
  "demo_mounts = demo_tools\<lparr>read_file := \<lambda>t p. Inr demo_mountinfo,
     attempt := \<lambda>t. if last t = Other_Call ''unmount'' [''/tmp/imaged-root''] then Inl ''busy'' else Inr ()\<rparr>"

lemma release_unmounts_everything_witness:
  "\<exists>d e. release demo_mounts [''/tmp/imaged-root/''] []
      = (Inl e, Other_Call ''stop processes'' [ROOT_DIR] # d @ [Other_Call ''sync'' []]) \<and>
    unmount_calls d = [''/tmp/imaged-root/sys'', ''/tmp/imaged-root''] \<and> detached d"
proof -
  obtain r t' where released: "release demo_mounts [''/tmp/imaged-root/''] [] = (r, t')"
    by fastforce
  have listed: "mounts_under demo_mountinfo ROOT_DIR = [''/tmp/imaged-root/sys'', ''/tmp/imaged-root'']"
    by code_simp
  have "\<not> is_ok (fst (release demo_mounts [''/tmp/imaged-root/''] []))"
    by code_simp
  then obtain e where "r = Inl e"
    using released by (cases r) auto
  with release_unmounts_everything [OF released, of demo_mountinfo] released listed show ?thesis
    by (auto simp: demo_mounts_def)
qed

end
