(* ===== verification/Agent_Run.thy ===== *)
theory Agent_Run
  imports Agent_Status Gpt Fstab Agent_Api
begin

text \<open>
  How an agent runs its tasks: \<open>crates/agent/src/task.rs\<close>, \<open>crates/agent/src/task/types.rs\<close>,
  \<open>crates/agent/src/task/implementations.rs\<close> and \<open>crates/agent/src/reboot.rs\<close>. The first part is the form all agent operations have: they
  change the status of \<open>Agent_Status\<close> and make calls of \<open>Tools\<close>, requests to the server among them. Then the
  loop that reports a result until the server takes it or refuses it for good, what becomes of a task that ended, and
  the state machine that starts and cancels tasks as the server announces them.
\<close>

subsection \<open>Operations of an agent\<close>

text \<open>
  What an agent uses of the outside besides running programs: how \<open>lsblk\<close>'s output reads, opened disks, the
  answers of the server, the data of an image, what its decompression delivers and the error it stops with, the
  compression of captured data, an error when data is piped into a program, the fstab of a mounted image, whether
  a directory exists, clocks, names for temporary directories, and the fraction shown for a task.
\<close>

record 'f agent_env =
  ae_outside :: outside
  ae_lsblk :: "string \<Rightarrow> string + block_device list"
  ae_open :: "call list \<Rightarrow> string \<Rightarrow> anyhow + opened_file"
  ae_layout :: "call list \<Rightarrow> anyhow + image_layout"
  ae_plan :: "call list \<Rightarrow> anyhow + post_install"
  ae_receive :: "call list \<Rightarrow> anyhow + string"
  ae_copy_error :: "call list \<Rightarrow> string option"
  ae_decode :: "string \<Rightarrow> string \<times> string option"
  ae_encode :: "string \<Rightarrow> string"
  ae_fresh :: "call list \<Rightarrow> string"
  ae_fstab :: "call list \<Rightarrow> read_failure + string"
  ae_dir_exists :: "call list \<Rightarrow> string \<Rightarrow> bool"
  ae_now :: "call list \<Rightarrow> nat"
  ae_fraction :: "'f task_view \<Rightarrow> 'f"

type_synonym 'f machine = "'f status \<times> call list"

type_synonym ('f, 'a) agent_run = "'f machine \<Rightarrow> (anyhow + 'a) \<times> 'f machine"

definition a_return :: "'a \<Rightarrow> ('f, 'a) agent_run" where
  "a_return x m = (Inr x, m)"

definition a_bind :: "('f, 'a) agent_run \<Rightarrow> ('a \<Rightarrow> ('f, 'b) agent_run) \<Rightarrow> ('f, 'b) agent_run" where
  "a_bind r f m = (case r m of (Inl e, m') \<Rightarrow> (Inl e, m') | (Inr x, m') \<Rightarrow> f x m')"

definition a_lift :: "'a run \<Rightarrow> ('f, 'a) agent_run" where
  "a_lift r m = (case r (snd m) of (x, t) \<Rightarrow> (x, (fst m, t)))"

definition a_status :: "('f status \<Rightarrow> 'f status) \<Rightarrow> ('f, unit) agent_run" where
  "a_status g m = (Inr (), (g (fst m), snd m))"

definition a_try :: "('f, 'a) agent_run \<Rightarrow> ('f, anyhow + 'a) agent_run" where
  "a_try r m = apfst Inr (r m)"

text \<open>A request whose answer depends on all calls up to it.\<close>

definition a_ask :: "call \<Rightarrow> (call list \<Rightarrow> anyhow + 'a) \<Rightarrow> ('f, 'a) agent_run" where
  "a_ask c answer m = (let t = snd m @ [c] in (answer t, (fst m, t)))"

fun a_each :: "('a \<Rightarrow> ('f, unit) agent_run) \<Rightarrow> 'a list \<Rightarrow> ('f, unit) agent_run" where
  "a_each f [] = a_return ()"
| "a_each f (x # xs) = a_bind (f x) (\<lambda>_. a_each f xs)"

lemmas a_defs = a_return_def a_bind_def a_lift_def a_status_def a_try_def a_ask_def Let_def

text \<open>All calls an operation makes satisfy \<open>P\<close>.\<close>

definition only_calls :: "(call \<Rightarrow> bool) \<Rightarrow> 'a run \<Rightarrow> bool" where
  "only_calls P r \<longleftrightarrow> (\<forall>t. \<exists>d. snd (r t) = t @ d \<and> (\<forall>c \<in> set d. P c))"

definition only_agent_calls :: "(call \<Rightarrow> bool) \<Rightarrow> ('f, 'a) agent_run \<Rightarrow> bool" where
  "only_agent_calls P r \<longleftrightarrow> (\<forall>m. \<exists>d. snd (snd (r m)) = snd m @ d \<and> (\<forall>c \<in> set d. P c))"

named_theorems only_intros \<open>operations all of whose calls are of a kind\<close>

lemma only_callsD: "only_calls P r \<Longrightarrow> r t = (x, t') \<Longrightarrow> \<exists>d. t' = t @ d \<and> (\<forall>c \<in> set d. P c)"
  unfolding only_calls_def by (metis snd_conv)

lemma only_agent_callsD:
  "only_agent_calls P r \<Longrightarrow> r m = (x, m') \<Longrightarrow> \<exists>d. snd m' = snd m @ d \<and> (\<forall>c \<in> set d. P c)"
  unfolding only_agent_calls_def by (metis snd_conv)

lemma only_of [only_intros]: "only_calls P (t_of r)" "only_calls P (t_return x)" "only_calls P (t_bail e)"
  by (auto simp: only_calls_def t_defs)

lemma only_file [only_intros]: "only_calls P (file_bytes w p)"
  by (auto simp: only_calls_def t_defs)

lemma only_command [only_intros]: "P (Command p as) \<Longrightarrow> only_calls P (command_output w p as)"
  by (auto simp: only_calls_def t_defs)

lemma only_command_env [only_intros]: "P (Command_Env p as env) \<Longrightarrow> only_calls P (command_env_output w p as env)"
  by (auto simp: only_calls_def t_defs)

lemma only_act [only_intros]: "P c \<Longrightarrow> only_calls P (act w c)"
  by (auto simp: only_calls_def t_defs)

lemma only_bind [only_intros]:
  assumes r: "only_calls P r" and f: "\<And>x. only_calls P (f x)"
  shows "only_calls P (t_bind r f)"
  unfolding only_calls_def
proof
  fix t
  obtain x u where x: "r t = (x, u)" by fastforce
  obtain d where d: "u = t @ d" "\<forall>c \<in> set d. P c"
    using only_callsD [OF r x] by blast
  show "\<exists>d. snd (t_bind r f t) = t @ d \<and> (\<forall>c \<in> set d. P c)"
  proof (cases x)
    case (Inl e)
    with x d show ?thesis by (auto simp: t_bind_def)
  next
    case (Inr y)
    obtain d' where "snd (f y u) = u @ d'" "\<forall>c \<in> set d'. P c"
      using f [of y] unfolding only_calls_def by blast
    with x d Inr show ?thesis
      by (intro exI [of _ "d @ d'"]) (auto simp: t_bind_def)
  qed
qed

lemma only_context [only_intros]: "only_calls P r \<Longrightarrow> only_calls P (t_context m r)"
  by (simp add: only_calls_def t_context_def)

lemma only_try [only_intros]: "only_calls P r \<Longrightarrow> only_calls P (t_try r)"
  by (simp add: only_calls_def t_try_def)

lemma only_if [only_intros]: "(b \<Longrightarrow> only_calls P r) \<Longrightarrow> (\<not> b \<Longrightarrow> only_calls P s) \<Longrightarrow> only_calls P (if b then r else s)"
  by simp

lemma only_a_return [only_intros]: "only_agent_calls P (a_return x)" "only_agent_calls P (a_status g)"
  by (auto simp: only_agent_calls_def a_defs)

lemma only_a_lift [only_intros]: "only_calls P r \<Longrightarrow> only_agent_calls P (a_lift r)"
  by (auto simp: only_agent_calls_def only_calls_def a_defs split: prod.splits) (metis snd_conv)

lemma only_a_ask [only_intros]: "P c \<Longrightarrow> only_agent_calls P (a_ask c f)"
  by (auto simp: only_agent_calls_def a_defs)

lemma only_a_try [only_intros]: "only_agent_calls P r \<Longrightarrow> only_agent_calls P (a_try r)"
  by (simp add: only_agent_calls_def a_try_def)

lemma only_a_bind [only_intros]:
  assumes r: "only_agent_calls P r" and f: "\<And>x. only_agent_calls P (f x)"
  shows "only_agent_calls P (a_bind r f)"
  unfolding only_agent_calls_def
proof
  fix m
  obtain x u where x: "r m = (x, u)" by (cases "r m") blast
  obtain d where d: "snd u = snd m @ d" "\<forall>c \<in> set d. P c"
    using only_agent_callsD [OF r x] by blast
  show "\<exists>d. snd (snd (a_bind r f m)) = snd m @ d \<and> (\<forall>c \<in> set d. P c)"
  proof (cases x)
    case (Inl e)
    with x d show ?thesis by (auto simp: a_bind_def)
  next
    case (Inr y)
    obtain d' where "snd (snd (f y u)) = snd u @ d'" "\<forall>c \<in> set d'. P c"
      using f [of y] unfolding only_agent_calls_def by blast
    with x d Inr show ?thesis
      by (intro exI [of _ "d @ d'"]) (auto simp: a_bind_def)
  qed
qed

lemma only_a_each [only_intros]:
  "(\<And>x. x \<in> set xs \<Longrightarrow> only_agent_calls P (f x)) \<Longrightarrow> only_agent_calls P (a_each f xs)"
  by (induction xs) (auto intro!: only_intros)

lemma only_a_if [only_intros]:
  "(b \<Longrightarrow> only_agent_calls P r) \<Longrightarrow> (\<not> b \<Longrightarrow> only_agent_calls P s) \<Longrightarrow> only_agent_calls P (if b then r else s)"
  by simp

text \<open>
  What an operation does in order: of the calls it makes, those that \<open>f\<close> marks are the first of \<open>xs\<close>, and
  all of them when it succeeds.
\<close>

definition marks :: "(call \<Rightarrow> 'b option) \<Rightarrow> call list \<Rightarrow> 'b list" where
  "marks f d = List.map_filter f d"

definition in_order :: "(call \<Rightarrow> 'b option) \<Rightarrow> 'b list \<Rightarrow> ('f, 'a) agent_run \<Rightarrow> bool" where
  "in_order f xs r \<longleftrightarrow> (\<forall>m x m'. r m = (x, m') \<longrightarrow>
     (\<exists>d. snd m' = snd m @ d \<and> prefix (marks f d) xs \<and> (is_ok x \<longrightarrow> marks f d = xs)))"

lemma marks_append [simp]: "marks f (d @ e) = marks f d @ marks f e"
  by (simp add: marks_def map_filter_def)

lemma marks_Cons [simp]: "marks f (c # d) = (case f c of None \<Rightarrow> marks f d | Some b \<Rightarrow> b # marks f d)"
  by (auto simp: marks_def map_filter_def split: option.splits)

lemma marks_Nil [simp]: "marks f [] = []"
  by (simp add: marks_def map_filter_def)

lemma marks_none: "\<forall>c \<in> set d. f c = None \<Longrightarrow> marks f d = []"
  by (simp add: marks_def map_filter_def)

lemma in_orderD: "in_order f xs r \<Longrightarrow> r m = (x, m') \<Longrightarrow>
    \<exists>d. snd m' = snd m @ d \<and> prefix (marks f d) xs \<and> (is_ok x \<longrightarrow> marks f d = xs)"
  unfolding in_order_def by blast

lemma in_order_nothing: "only_agent_calls (\<lambda>c. f c = None) r \<Longrightarrow> in_order f [] r"
  unfolding in_order_def
proof (intro allI impI)
  fix m x m'
  assume "only_agent_calls (\<lambda>c. f c = None) r" "r m = (x, m')"
  from only_agent_callsD [OF this] obtain d where "snd m' = snd m @ d" "\<forall>c \<in> set d. f c = None"
    by blast
  moreover from this(2) have "marks f d = []"
    by (rule marks_none)
  ultimately show "\<exists>d. snd m' = snd m @ d \<and> prefix (marks f d) [] \<and> (is_ok x \<longrightarrow> marks f d = [])"
    by auto
qed

lemma in_order_bind:
  assumes "in_order f xs r" "\<And>x. in_order f ys (h x)"
  shows "in_order f (xs @ ys) (a_bind r h)"
  unfolding in_order_def
proof (intro allI impI)
  fix m x m'
  assume run: "a_bind r h m = (x, m')"
  obtain y u where y: "r m = (y, u)" by (cases "r m") blast
  obtain d where d: "snd u = snd m @ d" "prefix (marks f d) xs" "is_ok y \<longrightarrow> marks f d = xs"
    using in_orderD [OF assms(1) y] by blast
  show "\<exists>d. snd m' = snd m @ d \<and> prefix (marks f d) (xs @ ys) \<and> (is_ok x \<longrightarrow> marks f d = xs @ ys)"
  proof (cases y)
    case (Inl e)
    with run y have "x = Inl e" "m' = u" by (auto simp: a_bind_def)
    with d show ?thesis by (intro exI [of _ d]) (auto intro: prefix_prefix)
  next
    case (Inr z)
    with run y have "h z u = (x, m')" by (simp add: a_bind_def)
    from in_orderD [OF assms(2) this] obtain d' where
      "snd m' = snd u @ d'" "prefix (marks f d') ys" "is_ok x \<longrightarrow> marks f d' = ys" by blast
    with d Inr show ?thesis
      by (intro exI [of _ "d @ d'"]) auto
  qed
qed

lemma in_order_before: "only_agent_calls (\<lambda>c. f c = None) r \<Longrightarrow> (\<And>x. in_order f ys (h x)) \<Longrightarrow> in_order f ys (a_bind r h)"
  using in_order_bind [OF in_order_nothing, of f r ys h] by simp

lemma in_order_after: "in_order f xs r \<Longrightarrow> (\<And>x. only_agent_calls (\<lambda>c. f c = None) (h x)) \<Longrightarrow> in_order f xs (a_bind r h)"
  using in_order_bind [of f xs r "[]" h] in_order_nothing by fastforce

lemma in_order_each: "(\<And>x. x \<in> set xs \<Longrightarrow> in_order f (g x) (h x)) \<Longrightarrow> in_order f (concat (map g xs)) (a_each h xs)"
proof (induction xs)
  case Nil
  show ?case by (auto intro!: in_order_nothing only_intros)
next
  case (Cons x xs)
  then show ?case by (auto intro!: in_order_bind)
qed

subsection \<open>Reporting a result\<close>

definition REPORT_RETRY_START :: nat where "REPORT_RETRY_START = 1000"
definition REPORT_RETRY_CAP :: nat where "REPORT_RETRY_CAP = 30000"

text \<open>What a request comes to: an answer, a refusal with its HTTP status, or no answer at all.\<close>

datatype send_result = Sent | Rejected nat string | Unreachable string

fun is_final :: "send_result \<Rightarrow> bool" where
  "is_final (Rejected code e) \<longleftrightarrow> 400 \<le> code \<and> code < 500"
| "is_final _ \<longleftrightarrow> False"

fun send_error :: "send_result \<Rightarrow> string" where
  "send_error Sent = []"
| "send_error (Rejected code e) = e"
| "send_error (Unreachable e) = e"

text \<open>The loop, given the results of its sends: its result, if there is one by then, and how long it slept each time.\<close>

fun report_loop :: "nat \<Rightarrow> send_result list \<Rightarrow> (string + unit) option \<times> nat list" where
  "report_loop delay [] = (None, [])"
| "report_loop delay (r # rs) =
     (if r = Sent then (Some (Inr ()), [])
      else if is_final r then (Some (Inl (send_error r)), [])
      else apsnd ((#) delay) (report_loop (min (delay * 2) REPORT_RETRY_CAP) rs))"

definition report_result :: "send_result list \<Rightarrow> (string + unit) option \<times> nat list" where
  "report_result rs = report_loop REPORT_RETRY_START rs"

definition settles :: "send_result \<Rightarrow> bool" where
  "settles r \<longleftrightarrow> r = Sent \<or> is_final r"

fun settled_result :: "send_result \<Rightarrow> string + unit" where
  "settled_result r = (if r = Sent then Inr () else Inl (send_error r))"

lemma report_loop_first:
  "\<forall>r \<in> set lost. \<not> settles r \<Longrightarrow> delay \<le> REPORT_RETRY_CAP \<Longrightarrow>
   report_loop delay (lost @ r # rs) =
     apsnd ((@) (map (\<lambda>k. min (delay * 2 ^ k) REPORT_RETRY_CAP) [0..<length lost]))
       (report_loop (min (delay * 2 ^ length lost) REPORT_RETRY_CAP) (r # rs))"
proof (induction lost arbitrary: delay)
  case Nil
  then show ?case by (simp add: apsnd_def map_prod_def)
next
  case (Cons x lost)
  let ?next = "min (delay * 2) REPORT_RETRY_CAP"
  have later: "min (?next * 2 ^ k) REPORT_RETRY_CAP = min (delay * 2 ^ Suc k) REPORT_RETRY_CAP" for k
  proof (cases "delay * 2 \<le> REPORT_RETRY_CAP")
    case True
    then show ?thesis by (simp add: mult.assoc)
  next
    case False
    then have "?next = REPORT_RETRY_CAP" by simp
    moreover have "REPORT_RETRY_CAP * 1 \<le> REPORT_RETRY_CAP * 2 ^ k" "delay * 2 * 1 \<le> delay * 2 * 2 ^ k"
      by (intro mult_le_mono2; simp)+
    moreover have "delay * 2 ^ Suc k = delay * 2 * 2 ^ k" by simp
    ultimately have "min (?next * 2 ^ k) REPORT_RETRY_CAP = REPORT_RETRY_CAP"
      "min (delay * 2 ^ Suc k) REPORT_RETRY_CAP = REPORT_RETRY_CAP"
      using False by linarith+
    then show ?thesis by simp
  qed
  have "report_loop delay ((x # lost) @ r # rs) = apsnd ((#) delay) (report_loop ?next (lost @ r # rs))"
    using Cons.prems(1) by (simp add: settles_def)
  also have "\<dots> = apsnd ((#) delay) (apsnd ((@) (map (\<lambda>k. min (?next * 2 ^ k) REPORT_RETRY_CAP) [0..<length lost]))
      (report_loop (min (?next * 2 ^ length lost) REPORT_RETRY_CAP) (r # rs)))"
    using Cons by (subst Cons.IH) auto
  also have "\<dots> = apsnd ((@) (map (\<lambda>k. min (delay * 2 ^ k) REPORT_RETRY_CAP) [0..<length (x # lost)]))
      (report_loop (min (delay * 2 ^ length (x # lost)) REPORT_RETRY_CAP) (r # rs))"
  proof -
    have "map (\<lambda>k. min (delay * 2 ^ k) REPORT_RETRY_CAP) [0..<length (x # lost)]
        = delay # map (\<lambda>k. min (delay * 2 ^ Suc k) REPORT_RETRY_CAP) [0..<length lost]"
      using Cons.prems(2) by (simp add: upt_conv_Cons map_Suc_upt [symmetric] comp_def del: upt_Suc power_Suc)
    then show ?thesis
      by (cases "report_loop (min (delay * 2 ^ Suc (length lost)) REPORT_RETRY_CAP) (r # rs)")
        (simp only: later list.size add_Suc_right add_0_right apsnd_conv append_Cons)
  qed
  finally show ?case .
qed

lemma report_loop_lost: "\<forall>r \<in> set rs. \<not> settles r \<Longrightarrow> fst (report_loop delay rs) = None"
  by (induction rs arbitrary: delay) (auto simp: settles_def)

text \<open>C31: The result of a task is reported until the server has decided. However many requests go unanswered or fail on the
  server's side first, \<open>report\<close> ends with the first request that is accepted or refused for good (a status of 400 to
  499), with that result, having slept one second, then twice as long each time but never more than thirty
  seconds; and without such a request it has not given up.\<close>

theorem report_settles:
  "(\<forall>lost r rs. (\<forall>x \<in> set lost. \<not> settles x) \<longrightarrow> settles r \<longrightarrow>
     report_result (lost @ r # rs) =
       (Some (settled_result r), map (\<lambda>k. min (1000 * 2 ^ k) 30000) [0..<length lost])) \<and>
   (\<forall>rs. (\<forall>x \<in> set rs. \<not> settles x) \<longrightarrow> fst (report_result rs) = None)"
proof (intro conjI allI impI)
  fix lost r rs
  assume "\<forall>x \<in> set lost. \<not> settles x" "settles r"
  moreover from this(2) have "report_loop delay (r # rs) = (Some (settled_result r), [])" for delay
    by (auto simp: settles_def)
  ultimately show "report_result (lost @ r # rs) =
       (Some (settled_result r), map (\<lambda>k. min (1000 * 2 ^ k) 30000) [0..<length lost])"
    by (simp add: report_result_def report_loop_first REPORT_RETRY_START_def REPORT_RETRY_CAP_def
        del: report_loop.simps settled_result.simps)
qed (simp add: report_result_def report_loop_lost)

lemma report_settles_witness:
  "report_result [Unreachable ''timeout'', Rejected 502 ''bad gateway'', Rejected 404 ''gone'', Sent]
   = (Some (Inl ''gone''), [1000, 2000])"
proof -
  let ?lost = "[Unreachable ''timeout'', Rejected 502 ''bad gateway'']"
  have "report_result (?lost @ Rejected 404 ''gone'' # [Sent])
      = (Some (settled_result (Rejected 404 ''gone'')), map (\<lambda>k. min (1000 * 2 ^ k) 30000) [0..<length ?lost])"
    by (rule report_settles [THEN conjunct1, THEN spec, THEN spec, THEN spec, THEN mp, THEN mp])
      (simp_all add: settles_def)
  then show ?thesis
    by (simp add: upt_rec)
qed

subsection \<open>What becomes of a task that ended\<close>

datatype task_result = Task_Ok | Task_Error anyhow | Task_Cancelled

text \<open>Reboots and restores end with a countdown, which may be cancelled; a reboot that fails is an error.\<close>

definition reboots_after :: "task_type \<Rightarrow> bool" where
  "reboots_after k \<longleftrightarrow> k \<noteq> Capture \<and> k \<noteq> CapturePartition"

definition end_status :: "task_type \<Rightarrow> task_result \<Rightarrow> (string + unit) \<Rightarrow> outcome list" where
  "end_status k result sent =
     (case result of
        Task_Cancelled \<Rightarrow> [Outcome_Cancelled]
      | Task_Ok \<Rightarrow>
          (case sent of
             Inr _ \<Rightarrow> [Outcome_Done]
           | Inl e \<Rightarrow> [Outcome_Failed (''could not report the result: '' @ e)])
      | Task_Error e \<Rightarrow>
          (case sent of
             Inr _ \<Rightarrow> [Outcome_Failed (chain_str e)]
           | Inl e' \<Rightarrow> [Outcome_Failed (''could not report the result: '' @ e')]))"

text \<open>When the countdown ends in a reboot that fails, the failure is shown as an outcome too.\<close>

definition reboot_status :: "task_type \<Rightarrow> task_result \<Rightarrow> (string + unit) \<Rightarrow> (string + unit) \<Rightarrow> outcome list" where
  "reboot_status k result sent rebooted =
     (if reboots_after k \<and> result = Task_Ok \<and> sent = Inr ()
      then (case rebooted of Inr _ \<Rightarrow> [] | Inl e \<Rightarrow> [Outcome_Failed (''could not report the result: '' @ e)])
      else [])"

definition run_task_end :: "('f task_view \<Rightarrow> 'f) \<Rightarrow> nat \<Rightarrow> task_type \<Rightarrow> task_result \<Rightarrow> (string + unit) \<Rightarrow> (string + unit) \<Rightarrow>
    'f status \<Rightarrow> 'f status" where
  "run_task_end fr now k result sent rebooted st =
     fold (task_ended fr now) (end_status k result sent @ reboot_status k result sent rebooted) st"

subsection \<open>Starting and cancelling tasks\<close>

text \<open>
  \<open>ClientState\<close>: the task that runs with whether it was cancelled, and how often the connection was told that the
  agent became idle. \<open>cl_log\<close> records what happened to tasks. A task that was cancelled may still end by itself, as
  its future and the cancellation are raced.
\<close>

datatype task_event = Began int | Was_Cancelled int | Ended int

record client =
  cl_running :: "(int \<times> bool) option"
  cl_idle :: nat
  cl_log :: "task_event list"

definition new_client :: client where
  "new_client = \<lparr>cl_running = None, cl_idle = 0, cl_log = []\<rparr>"

definition handle_message :: "agent_task option \<Rightarrow> client \<Rightarrow> client" where
  "handle_message current c =
     (case (cl_running c, current) of
        (Some (tid, cancelled), Some t) \<Rightarrow>
          if tid = at_id t then c
          else c\<lparr>cl_running := Some (tid, True), cl_log := cl_log c @ [Was_Cancelled tid]\<rparr>
      | (Some (tid, cancelled), None) \<Rightarrow>
          c\<lparr>cl_running := Some (tid, True), cl_log := cl_log c @ [Was_Cancelled tid]\<rparr>
      | (None, Some t) \<Rightarrow> c\<lparr>cl_running := Some (at_id t, False), cl_log := cl_log c @ [Began (at_id t)]\<rparr>
      | (None, None) \<Rightarrow> c)"

definition client_cancel :: "int \<Rightarrow> client \<Rightarrow> client" where
  "client_cancel tid c =
     (case cl_running c of
        Some (running, cancelled) \<Rightarrow>
          if running = tid then c\<lparr>cl_running := Some (running, True), cl_log := cl_log c @ [Was_Cancelled running]\<rparr> else c
      | None \<Rightarrow> c)"

text \<open>The end of the spawned future: the task is cleared before the connection is told.\<close>

definition task_over :: "client \<Rightarrow> client" where
  "task_over c =
     (case cl_running c of
        Some (tid, cancelled) \<Rightarrow> c\<lparr>cl_running := None, cl_idle := cl_idle c + 1, cl_log := cl_log c @ [Ended tid]\<rparr>
      | None \<Rightarrow> c)"

inductive client_step :: "client \<Rightarrow> client \<Rightarrow> bool" where
  message: "client_step c (handle_message current c)"
| cancel: "client_step c (client_cancel tid c)"
| over: "cl_running c \<noteq> None \<Longrightarrow> client_step c (task_over c)"

inductive client_reach :: "client \<Rightarrow> bool" where
  start: "client_reach new_client"
| step: "client_reach c \<Longrightarrow> client_step c c' \<Longrightarrow> client_reach c'"

text \<open>Which task runs after a log of events, if each began after the last one ended and only the running one is
  cancelled or ends.\<close>

fun alternates :: "int option \<Rightarrow> task_event list \<Rightarrow> int option option" where
  "alternates running [] = Some running"
| "alternates None (Began i # es) = alternates (Some i) es"
| "alternates (Some i) (Was_Cancelled j # es) = (if i = j then alternates (Some i) es else None)"
| "alternates (Some i) (Ended j # es) = (if i = j then alternates None es else None)"
| "alternates _ _ = None"

definition ends :: "task_event list \<Rightarrow> nat" where
  "ends es = length (filter (\<lambda>e. \<exists>i. e = Ended i) es)"

lemma alternates_append:
  "alternates running es = Some now \<Longrightarrow> alternates running (es @ [e]) = alternates now [e]"
  by (induction running es rule: alternates.induct) (auto split: if_splits)

lemma client_step_log:
  assumes "client_step c c'" "alternates None (cl_log c) = Some (map_option fst (cl_running c))" "cl_idle c = ends (cl_log c)"
  shows "alternates None (cl_log c') = Some (map_option fst (cl_running c')) \<and> cl_idle c' = ends (cl_log c')"
  using assms(1)
proof (cases rule: client_step.cases)
  case (message current)
  with assms(2,3) show ?thesis
    by (auto simp: handle_message_def ends_def alternates_append split: option.splits)
next
  case (cancel tid)
  with assms(2,3) show ?thesis
    by (auto simp: client_cancel_def ends_def alternates_append split: option.splits)
next
  case over
  with assms(2,3) show ?thesis
    by (auto simp: task_over_def ends_def alternates_append split: option.splits)
qed

lemma client_reach_log:
  "client_reach c \<Longrightarrow> alternates None (cl_log c) = Some (map_option fst (cl_running c)) \<and> cl_idle c = ends (cl_log c)"
proof (induction rule: client_reach.induct)
  case start
  then show ?case by (simp add: new_client_def ends_def)
next
  case (step c c')
  then show ?case using client_step_log by blast
qed

text \<open>C32: An agent runs one task at a time. Whatever the server announces and the console does, a task only begins
  after the one before it ended, and only the running task is cancelled or ends; the connection is told of every end,
  once; a running task that the server no longer names as current is cancelled and stays the running task until it has
  ended; and an agent without a task begins the one the server names.\<close>

theorem agent_runs_one_task:
  assumes "client_reach c"
  shows "alternates None (cl_log c) = Some (map_option fst (cl_running c)) \<and> cl_idle c = ends (cl_log c) \<and>
    (\<forall>tid b current. cl_running c = Some (tid, b) \<longrightarrow> map_option at_id current \<noteq> Some tid \<longrightarrow>
       cl_running (handle_message current c) = Some (tid, True)) \<and>
    (\<forall>t. cl_running c = None \<longrightarrow> cl_running (handle_message (Some t) c) = Some (at_id t, False))"
  using client_reach_log [OF assms] by (auto simp: handle_message_def split: option.splits)

definition demo_client :: client where
  "demo_client = task_over (handle_message None (handle_message (Some \<lparr>at_id = 7, at_work = RebootWork\<rparr>) new_client))"

lemma agent_runs_one_task_witness:
  "alternates None (cl_log demo_client) = Some None \<and> cl_log demo_client = [Began 7, Was_Cancelled 7, Ended 7] \<and>
   cl_running (handle_message (Some \<lparr>at_id = 8, at_work = RebootWork\<rparr>) demo_client) = Some (8, False)"
proof -
  have begun: "client_reach (handle_message (Some \<lparr>at_id = 7, at_work = RebootWork\<rparr>) new_client)"
    by (rule client_reach.step [OF client_reach.start client_step.message])
  have "client_reach (handle_message None (handle_message (Some \<lparr>at_id = 7, at_work = RebootWork\<rparr>) new_client))"
    by (rule client_reach.step [OF begun client_step.message])
  then have "client_reach demo_client"
    unfolding demo_client_def
    by (rule client_reach.step) (rule client_step.over, simp add: handle_message_def new_client_def)
  from agent_runs_one_task [OF this] show ?thesis
    by (simp add: demo_client_def task_over_def handle_message_def new_client_def)
qed

end
