(* ===== verification/Post_Install.thy ===== *)
theory Post_Install
  imports Agent_Run "HOL-Library.Code_Target_Nat"
begin

text \<open>
  The scripts an agent runs in a restored system: \<open>crates/agent/src/task/post_install.rs\<close>. The scripts are grouped
  into runs with the same root partition; each run mounts the system, runs its scripts in a \<open>chroot\<close> one after
  the other and unmounts it again. The output of a script is cut to a head that is sent as it comes and a tail that
  is sent at the end. The output of the \<open>chroot\<close> is what was read of the pipe until the grace period after
  its exit was over.
\<close>

definition SCRIPT_PATH :: string where "SCRIPT_PATH = ''/tmp/imaged-script''"
definition AGENT_PATH :: string where
  "AGENT_PATH = ''/usr/local/sbin:/usr/local/bin:/usr/sbin:/usr/bin:/sbin:/bin''"
definition LIVE_OUTPUT_BYTES :: nat where "LIVE_OUTPUT_BYTES = 1024 * 1024"
definition KEPT_TAIL_BYTES :: nat where "KEPT_TAIL_BYTES = 256 * 1024"

subsection \<open>Runs\<close>

record script_group =
  sg_root :: partition_target
  sg_first :: nat
  sg_scripts :: "post_install_script list"

text \<open>\<open>chunk_by\<close> of equal values.\<close>

fun chunk_by :: "('a \<Rightarrow> 'b) \<Rightarrow> 'a list \<Rightarrow> 'a list list" where
  "chunk_by f [] = []"
| "chunk_by f (x # xs) =
     (case chunk_by f xs of
        (y # ys) # gs \<Rightarrow> if f x = f y then (x # y # ys) # gs else [x] # (y # ys) # gs
      | gs \<Rightarrow> [x] # gs)"

fun runs_from :: "nat \<Rightarrow> post_install_script list list \<Rightarrow> partition_target list \<Rightarrow> anyhow + script_group list" where
  "runs_from first [] restored = Inr []"
| "runs_from first (g # gs) restored =
     (let number = pi_root_partition (hd g)
      in and_then (ok_or [''root partition '' @ int_str number @ '' was not restored'']
             (List.find (\<lambda>p. tg_number p = number) restored)) (\<lambda>root.
           and_then (runs_from (first + length g) gs restored) (\<lambda>rest.
             Inr (\<lparr>sg_root = root, sg_first = first, sg_scripts = g\<rparr> # rest))))"

definition script_runs_of :: "post_install_script list \<Rightarrow> partition_target list \<Rightarrow> anyhow + script_group list" where
  "script_runs_of ss restored = runs_from 0 (chunk_by pi_root_partition ss) restored"

subsection \<open>The environment of a script\<close>

record identity =
  id_mac :: string
  id_ip :: "string option"
  id_server :: string

definition upper :: "char \<Rightarrow> char" where
  "upper c = (if is_lower c then char_of (byte c - 32) else c)"

definition script_env ::
  "post_install_script \<Rightarrow> identity \<Rightarrow> string option \<Rightarrow> (string, string) btree_map \<Rightarrow> (string \<times> string) list" where
  "script_env script identity proxy variables =
     zip AGENT_VARIABLES
       [AGENT_PATH, ''/root'', id_mac identity, (case id_ip identity of Some ip \<Rightarrow> ip | None \<Rightarrow> []), id_server identity]
     @ variables
     @ map (\<lambda>(name, v). (INPUT_PREFIX @ map upper name, v)) (pi_inputs script)
     @ (case proxy of Some p \<Rightarrow> map (\<lambda>name. (name, p)) PROXY_VARIABLES | None \<Rightarrow> [])"

definition script_command :: "string \<Rightarrow> string list" where
  "script_command body = (if starts_with ''#!'' body then [SCRIPT_PATH] else [''/bin/sh'', SCRIPT_PATH])"

subsection \<open>Bounded output\<close>

record bounded_output =
  bo_live :: bool
  bo_sent :: nat
  bo_tail :: "string list"
  bo_tail_bytes :: nat
  bo_omitted :: nat

text \<open>The loop that drops the oldest chunks; \<open>None\<close> stands for its panic on an empty tail.\<close>

fun drop_oldest :: "string list \<Rightarrow> nat \<Rightarrow> nat \<Rightarrow> (string list \<times> nat \<times> nat) option" where
  "drop_oldest [] n omitted = (if KEPT_TAIL_BYTES < n then None else Some ([], n, omitted))"
| "drop_oldest (c # cs) n omitted =
     (if KEPT_TAIL_BYTES < n then drop_oldest cs (n - length c) (omitted + length c) else Some (c # cs, n, omitted))"

definition omitted_by_agent :: "nat \<Rightarrow> string" where
  "omitted_by_agent n =
     ''['' @ [CHR 0xE2, CHR 0x80, CHR 0xA6] @ '' '' @ nat_str n @ '' bytes of output omitted by the agent ''
     @ [CHR 0xE2, CHR 0x80, CHR 0xA6] @ '']'' @ [CHR 0x0A]"

definition bounded_rest :: "bounded_output \<Rightarrow> string list" where
  "bounded_rest s =
     (if bo_tail s = [] \<and> bo_omitted s = 0 then []
      else [(if 0 < bo_omitted s then omitted_by_agent (bo_omitted s) else []) @ concat (bo_tail s)])"

text \<open>The chunks sent for the chunks that come in from a state on.\<close>

fun bounded_from :: "bounded_output \<Rightarrow> string list \<Rightarrow> string list option" where
  "bounded_from s [] = Some (bounded_rest s)"
| "bounded_from s (c # cs) =
     (let live = bo_live s \<and> bo_sent s + length c \<le> LIVE_OUTPUT_BYTES
      in if live then map_option ((#) c) (bounded_from (s\<lparr>bo_sent := bo_sent s + length c\<rparr>) cs)
         else case drop_oldest (bo_tail s @ [c]) (bo_tail_bytes s + length c) (bo_omitted s) of
                None \<Rightarrow> None
              | Some (kept, n, omitted) \<Rightarrow>
                  bounded_from (s\<lparr>bo_live := False, bo_tail := kept, bo_tail_bytes := n, bo_omitted := omitted\<rparr>) cs)"

definition bounded :: "string list \<Rightarrow> string list option" where
  "bounded chunks =
     bounded_from \<lparr>bo_live = True, bo_sent = 0, bo_tail = [], bo_tail_bytes = 0, bo_omitted = 0\<rparr> chunks"

text \<open>\<open>output_lines\<close>: the lines of the output with their line feeds.\<close>

fun output_lines :: "string \<Rightarrow> string list" where
  "output_lines [] = []"
| "output_lines (c # cs) =
     (if c = CHR 0x0A then [c] # output_lines cs
      else case output_lines cs of [] \<Rightarrow> [[c]] | l # ls \<Rightarrow> (c # l) # ls)"

subsection \<open>Running the scripts\<close>

text \<open>
  The pipe for the output is made and shared before the program starts. The upload of the output and the wait for the
  program go on together and both end before either's error is looked at, that of the wait first; \<open>wait\<close> stands
  for what the system answers to it.
\<close>

definition execute ::
  "'f agent_env \<Rightarrow> int \<Rightarrow> string \<Rightarrow> post_install_script \<Rightarrow> (string \<times> string) list \<Rightarrow> exit_status run" where
  "execute env tid root script variables =
     (let w = ae_outside env in
      t_bind (act w (Other_Call ''pipe'' [])) (\<lambda>_.
       t_bind (act w (Other_Call ''into_blocking_fd'' [])) (\<lambda>_.
        t_bind (act w (Other_Call ''try_clone'' [])) (\<lambda>_.
         t_bind (t_context ''starting chroot'' (command_env_output w ''chroot''
             (root # script_command (pi_body script)) variables)) (\<lambda>output.
           t_bind (t_of (ok_or [''a non-empty tail''] (bounded (output_lines (out_stdout output))))) (\<lambda>chunks.
             t_bind (t_try (act w
                 (Other_Call ''upload_script_output'' ([int_str tid, int_str (pi_position script), pi_name script] @ chunks)))) (\<lambda>uploaded.
               t_bind (t_context ''waiting for the script'' (act w (Other_Call ''wait'' [''chroot'']))) (\<lambda>_.
                 t_bind (t_of (with_context ''sending the script output'' uploaded)) (\<lambda>_.
                   t_bind (act w (Other_Call ''finish_script''
                       ([int_str tid, int_str (pi_position script)] @
                         (case exit_code (out_status output) of None \<Rightarrow> [] | Some c \<Rightarrow> [int_str c])))) (\<lambda>_.
                     t_return (out_status output)))))))))))"

definition script_place :: "string \<Rightarrow> string" where
  "script_place root = root @ SCRIPT_PATH"

definition prepare_tmp :: "'f agent_env \<Rightarrow> string \<Rightarrow> unit run" where
  "prepare_tmp env root t =
     (if ae_dir_exists env t (root @ ''/tmp'') then t_return ()
      else t_bind (act (ae_outside env) (Make_Dir (root @ ''/tmp''))) (\<lambda>_.
             act (ae_outside env) (Other_Call ''chmod'' [root @ ''/tmp'', ''1777'']))) t"

definition run_script ::
  "'f agent_env \<Rightarrow> int \<Rightarrow> string \<Rightarrow> post_install_script \<Rightarrow> (string \<times> string) list \<Rightarrow> exit_status run" where
  "run_script env tid root script variables =
     t_bind (prepare_tmp env root) (\<lambda>_.
       t_bind (t_context (''writing '' @ script_place root)
           (act (ae_outside env) (Write_File (script_place root) (pi_body script)))) (\<lambda>_.
         t_bind (act (ae_outside env) (Other_Call ''chmod'' [script_place root, ''700''])) (\<lambda>_.
           t_bind (t_try (execute env tid root script variables)) (\<lambda>result.
             t_bind (t_try (act (ae_outside env) (Remove_File (script_place root)))) (\<lambda>_. t_of result)))))"

definition set_script :: "nat \<Rightarrow> script_phase \<Rightarrow> 'f task_view \<Rightarrow> 'f task_view" where
  "set_script i p t = t\<lparr>tv_scripts := (tv_scripts t)[i := (fst (tv_scripts t ! i), p)]\<rparr>"

definition update_view :: "'f agent_env \<Rightarrow> ('f task_view \<Rightarrow> 'f task_view) \<Rightarrow> ('f, unit) agent_run" where
  "update_view env change = a_status (update_task (ae_fraction env) change)"

definition run_one ::
  "'f agent_env \<Rightarrow> identity \<Rightarrow> int \<Rightarrow> post_install \<Rightarrow> nat \<times> post_install_script \<Rightarrow> ('f, unit) agent_run" where
  "run_one env who tid plan numbered =
     a_bind (update_view env (set_script (fst numbered) Script_Running)) (\<lambda>_.
       a_bind (a_lift (run_script env tid ROOT_DIR (snd numbered)
           (script_env (snd numbered) who (pn_proxy plan) (pn_variables plan)))) (\<lambda>status.
         a_bind (update_view env (set_script (fst numbered) (Script_Exited (exit_code status)))) (\<lambda>_.
           if success status then a_return ()
           else a_lift (t_bail (''post-install script `'' @ pi_name (snd numbered) @ ''` failed: '' @ status_str status)))))"

definition run_scripts ::
  "'f agent_env \<Rightarrow> identity \<Rightarrow> int \<Rightarrow> post_install \<Rightarrow> script_group \<Rightarrow> ('f, unit) agent_run" where
  "run_scripts env who tid plan g =
     a_each (run_one env who tid plan) (zip [sg_first g..<sg_first g + length (sg_scripts g)] (sg_scripts g))"

definition run_group ::
  "'f agent_env \<Rightarrow> identity \<Rightarrow> int \<Rightarrow> post_install \<Rightarrow> block_device \<Rightarrow> matching \<Rightarrow> script_group \<Rightarrow> ('f, unit) agent_run" where
  "run_group env who tid plan disk how g =
     a_bind (a_lift (mount_system (ae_outside env) (ae_fstab env) (sg_root g) disk how)) (\<lambda>mounted.
       a_bind (a_try (run_scripts env who tid plan g)) (\<lambda>ran.
         a_bind (a_try (a_lift (release (ae_outside env) mounted))) (\<lambda>unmounted.
           a_lift (t_of (and_then ran (\<lambda>_. unmounted))))))"

definition post_install_run ::
  "'f agent_env \<Rightarrow> identity \<Rightarrow> int \<Rightarrow> partition_target list \<Rightarrow> matching \<Rightarrow> ('f, unit) agent_run" where
  "post_install_run env who tid restored how =
     a_bind (a_ask (Other_Call ''post_install'' [int_str tid]) (ae_plan env)) (\<lambda>plan.
       if pn_scripts plan = [] then a_return ()
       else a_bind (a_lift (t_of (script_runs_of (pn_scripts plan) restored))) (\<lambda>groups.
              a_bind (a_lift (find_target_disk (ae_outside env) (ae_lsblk env))) (\<lambda>disk.
                a_bind (update_view env (\<lambda>t. t\<lparr>tv_scripts := map (\<lambda>s. (pi_name s, Script_Waiting)) (pn_scripts plan)\<rparr>)) (\<lambda>_.
                  a_each (run_group env who tid plan disk how) groups))))"

subsection \<open>What is sent of the output\<close>

lemma drop_oldest_split:
  assumes "n = length (concat cs)"
  shows "\<exists>gone kept. cs = gone @ kept \<and> length (concat kept) \<le> KEPT_TAIL_BYTES \<and> (gone \<noteq> [] \<longrightarrow> concat gone \<noteq> []) \<and>
    drop_oldest cs n omitted = Some (kept, length (concat kept), omitted + length (concat gone))"
  using assms
proof (induction cs arbitrary: n omitted)
  case Nil
  then show ?case by auto
next
  case (Cons c cs)
  show ?case
  proof (cases "KEPT_TAIL_BYTES < n")
    case False
    with Cons.prems show ?thesis by (intro exI [of _ "[]"] exI [of _ "c # cs"]) auto
  next
    case True
    have "n - length c = length (concat cs)"
      using Cons.prems by simp
    then obtain gone kept where IH: "cs = gone @ kept" "length (concat kept) \<le> KEPT_TAIL_BYTES"
      "drop_oldest cs (n - length c) (omitted + length c)
         = Some (kept, length (concat kept), omitted + length c + length (concat gone))"
      using Cons.IH by blast
    moreover from IH True Cons.prems have "concat (c # gone) \<noteq> []"
      by (metis append.assoc append_Nil concat.simps(2) concat_append not_less)
    ultimately show ?thesis
      using True by (intro exI [of _ "c # gone"] exI [of _ kept]) auto
  qed
qed

text \<open>Once the head is full: what is kept of the tail with all that still comes.\<close>

lemma bounded_from_tail:
  assumes "\<not> bo_live s" "bo_tail_bytes s = length (concat (bo_tail s))" "length (concat (bo_tail s)) \<le> KEPT_TAIL_BYTES"
  shows "\<exists>gone kept. bo_tail s @ cs = gone @ kept \<and> length (concat kept) \<le> KEPT_TAIL_BYTES \<and>
    (gone \<noteq> [] \<longrightarrow> concat gone \<noteq> []) \<and>
    bounded_from s cs = Some (bounded_rest (s\<lparr>bo_tail := kept, bo_tail_bytes := length (concat kept),
      bo_omitted := bo_omitted s + length (concat gone)\<rparr>))"
  using assms
proof (induction cs arbitrary: s)
  case Nil
  then show ?case by (intro exI [of _ "[]"] exI [of _ "bo_tail s"]) (simp add: bounded_rest_def)
next
  case (Cons c cs)
  have tail: "bo_tail_bytes s + length c = length (concat (bo_tail s @ [c]))"
    using Cons.prems(2) by simp
  obtain gone kept where dropped: "bo_tail s @ [c] = gone @ kept" "length (concat kept) \<le> KEPT_TAIL_BYTES"
    "gone \<noteq> [] \<longrightarrow> concat gone \<noteq> []"
    "drop_oldest (bo_tail s @ [c]) (bo_tail_bytes s + length c) (bo_omitted s)
       = Some (kept, length (concat kept), bo_omitted s + length (concat gone))"
    using drop_oldest_split [OF tail, of "bo_omitted s"] by blast
  let ?s = "s\<lparr>bo_live := False, bo_tail := kept, bo_tail_bytes := length (concat kept),
      bo_omitted := bo_omitted s + length (concat gone)\<rparr>"
  have "\<not> bo_live ?s" "bo_tail_bytes ?s = length (concat (bo_tail ?s))" "length (concat (bo_tail ?s)) \<le> KEPT_TAIL_BYTES"
    using dropped(2) by simp_all
  from Cons.IH [OF this] obtain gone' kept' where rest: "kept @ cs = gone' @ kept'"
    "length (concat kept') \<le> KEPT_TAIL_BYTES" "gone' \<noteq> [] \<longrightarrow> concat gone' \<noteq> []"
    "bounded_from ?s cs = Some (bounded_rest (?s\<lparr>bo_tail := kept', bo_tail_bytes := length (concat kept'),
      bo_omitted := bo_omitted s + length (concat gone) + length (concat gone')\<rparr>))"
    by auto
  show ?case
  proof (intro exI conjI)
    show "bo_tail s @ c # cs = (gone @ gone') @ kept'"
      using dropped(1) rest(1) by (metis append.assoc append_Cons append_Nil)
    show "bounded_from s (c # cs) = Some (bounded_rest (s\<lparr>bo_tail := kept', bo_tail_bytes := length (concat kept'),
        bo_omitted := bo_omitted s + length (concat (gone @ gone'))\<rparr>))"
      using dropped(4) rest(4) Cons.prems(1) by (simp add: bounded_rest_def add.assoc)
  qed (use dropped rest in auto)
qed

lemma bounded_from_live:
  assumes "bo_live s" "bo_tail s = []" "bo_tail_bytes s = 0" "bo_omitted s = 0" "bo_sent s \<le> LIVE_OUTPUT_BYTES"
  shows "\<exists>live gone kept. cs = live @ gone @ kept \<and> bo_sent s + length (concat live) \<le> LIVE_OUTPUT_BYTES \<and>
    length (concat kept) \<le> KEPT_TAIL_BYTES \<and> (gone \<noteq> [] \<longrightarrow> concat gone \<noteq> []) \<and>
    (gone @ kept \<noteq> [] \<longrightarrow> LIVE_OUTPUT_BYTES < bo_sent s + length (concat live) + length (hd (gone @ kept))) \<and>
    bounded_from s cs = Some (live @ (if gone = [] \<and> kept = [] then []
      else [(if gone = [] then [] else omitted_by_agent (length (concat gone))) @ concat kept]))"
  using assms
proof (induction cs arbitrary: s)
  case Nil
  then show ?case by (intro exI [of _ "[]"]) (simp add: bounded_rest_def)
next
  case (Cons c cs)
  show ?case
  proof (cases "bo_sent s + length c \<le> LIVE_OUTPUT_BYTES")
    case True
    let ?s = "s\<lparr>bo_sent := bo_sent s + length c\<rparr>"
    have "bo_live ?s" "bo_tail ?s = []" "bo_tail_bytes ?s = 0" "bo_omitted ?s = 0" "bo_sent ?s \<le> LIVE_OUTPUT_BYTES"
      using Cons.prems True by simp_all
    from Cons.IH [OF this] obtain live gone kept where IH: "cs = live @ gone @ kept"
      "bo_sent s + length c + length (concat live) \<le> LIVE_OUTPUT_BYTES"
      "length (concat kept) \<le> KEPT_TAIL_BYTES" "gone \<noteq> [] \<longrightarrow> concat gone \<noteq> []"
      "gone @ kept \<noteq> [] \<longrightarrow> LIVE_OUTPUT_BYTES < bo_sent s + length c + length (concat live) + length (hd (gone @ kept))"
      "bounded_from ?s cs = Some (live @ (if gone = [] \<and> kept = [] then []
        else [(if gone = [] then [] else omitted_by_agent (length (concat gone))) @ concat kept]))"
      by auto
    then show ?thesis
      using True Cons.prems(1) by (intro exI [of _ "c # live"] exI [of _ gone] exI [of _ kept]) (simp add: add.assoc)
  next
    case False
    let ?s = "s\<lparr>bo_live := False\<rparr>"
    have "\<not> bo_live ?s" "bo_tail_bytes ?s = length (concat (bo_tail ?s))"
      "length (concat (bo_tail ?s)) \<le> KEPT_TAIL_BYTES"
      using Cons.prems by simp_all
    note dead = this
    have "bo_tail ?s = []" "bo_omitted ?s = 0"
      using Cons.prems by simp_all
    from bounded_from_tail [OF dead, of "c # cs", unfolded this append_Nil add_0] obtain gone kept where rest: "c # cs = gone @ kept"
      "length (concat kept) \<le> KEPT_TAIL_BYTES" "gone \<noteq> [] \<longrightarrow> concat gone \<noteq> []"
      "bounded_from ?s (c # cs) = Some (bounded_rest (?s\<lparr>bo_tail := kept, bo_tail_bytes := length (concat kept),
        bo_omitted := length (concat gone)\<rparr>))"
      by blast
    moreover have "bounded_from s (c # cs) = bounded_from ?s (c # cs)"
      using False by (cases s) (simp split: option.splits prod.splits)
    moreover have "hd (gone @ kept) = c"
      using rest(1) by (metis list.sel(1))
    ultimately show ?thesis
      using False Cons.prems(5)
      by (intro exI [of _ "[]"] exI [of _ gone] exI [of _ kept]) (auto simp: bounded_rest_def)
  qed
qed

text \<open>C34: A script cannot flood the server. Whatever lines a script prints, the agent never panics over them; it sends as they
  come the longest run of first lines within one mebibyte, and of the lines after those a last part within 256
  kibibytes in one piece, after a marker with the exact number of bytes left out between the two; if none were left out,
  everything printed is sent.\<close>

theorem bounded_output_correct:
  "\<exists>live gone kept. chunks = live @ gone @ kept \<and> length (concat live) \<le> 1048576 \<and> length (concat kept) \<le> 262144 \<and>
    (gone @ kept \<noteq> [] \<longrightarrow> 1048576 < length (concat live) + length (hd (gone @ kept))) \<and>
    bounded chunks = Some (live @ (if gone = [] \<and> kept = [] then []
      else [(if gone = [] then [] else omitted_by_agent (length (concat gone))) @ concat kept]))"
proof -
  have limits: "LIVE_OUTPUT_BYTES = 1048576" "KEPT_TAIL_BYTES = 262144"
    by (simp_all add: LIVE_OUTPUT_BYTES_def KEPT_TAIL_BYTES_def)
  let ?s = "\<lparr>bo_live = True, bo_sent = 0, bo_tail = [], bo_tail_bytes = 0, bo_omitted = 0\<rparr>"
  have "bo_live ?s" "bo_tail ?s = []" "bo_tail_bytes ?s = 0" "bo_omitted ?s = 0" "bo_sent ?s \<le> LIVE_OUTPUT_BYTES"
    by simp_all
  from bounded_from_live [OF this, of chunks] show ?thesis
    unfolding bounded_def limits bounded_output.select_convs add_0 by blast
qed

lemma bounded_output_correct_witness:
  "\<exists>live gone kept. [''one'', ''two''] = live @ gone @ kept \<and>
    bounded [''one'', ''two''] = Some (live @ (if gone = [] \<and> kept = [] then []
      else [(if gone = [] then [] else omitted_by_agent (length (concat gone))) @ concat kept]))"
  using bounded_output_correct [of "[''one'', ''two'']"] by blast

subsection \<open>The environment cannot be overridden\<close>

definition name_char :: "char \<Rightarrow> bool" where
  "name_char c \<longleftrightarrow> is_lower c \<or> is_digit c \<or> c = CHR ''_''"

lemma upper_inj: "name_char c \<Longrightarrow> name_char d \<Longrightarrow> upper c = upper d \<Longrightarrow> c = d"
proof -
  assume c: "name_char c" and d: "name_char d" and eq: "upper c = upper d"
  have low: "97 \<le> byte x \<and> byte x \<le> 122 \<longleftrightarrow> is_lower x" for x
    by (auto simp: is_lower_def)
  have up: "byte (upper x) = (if is_lower x then byte x - 32 else byte x)" for x
    by (auto simp: upper_def byte_char_of byte_def [of "char_of _"] is_lower_def)
  have other: "\<not> is_lower x \<Longrightarrow> name_char x \<Longrightarrow> byte x < 65 \<or> byte x = 95" for x
    by (auto simp: name_char_def is_digit_def byte_def)
  have "byte (upper c) = byte (upper d)"
    using eq by simp
  then have eqs: "(if is_lower c then byte c - 32 else byte c) = (if is_lower d then byte d - 32 else byte d)"
    unfolding up .
  have "byte c = byte d"
  proof (cases "is_lower c \<and> is_lower d")
    case True
    with eqs have "byte c - 32 = byte d - 32" by simp
    with True low [of c] low [of d] show ?thesis by linarith
  next
    case False
    with eqs low [of c] low [of d] other [OF _ c] other [OF _ d] show ?thesis
      by (auto split: if_splits)
  qed
  then show "c = d"
    by (metis char_of_byte)
qed

lemma map_upper_inj:
  "list_all name_char a \<Longrightarrow> list_all name_char b \<Longrightarrow> map upper a = map upper b \<Longrightarrow> a = b"
  by (rule map_inj_on) (auto simp: inj_on_def list_all_iff intro: upper_inj)

lemma input_keys_distinct:
  assumes "bt_inv inputs" "\<And>n v. (n, v) \<in> set inputs \<Longrightarrow> is_input_name n"
  shows "distinct (map fst (map (\<lambda>(name, v). (INPUT_PREFIX @ map upper name, v)) inputs))"
proof -
  have keys: "distinct (map fst inputs)"
    using assms(1) by (simp add: bt_inv_def strict_sorted_iff)
  have "inj_on (\<lambda>n. INPUT_PREFIX @ map upper n) (fst ` set inputs)"
  proof (rule inj_onI)
    fix a b
    assume "a \<in> fst ` set inputs" "b \<in> fst ` set inputs" "INPUT_PREFIX @ map upper a = INPUT_PREFIX @ map upper b"
    moreover from this have "is_input_name a" "is_input_name b"
      using assms(2) by auto
    then have "list_all name_char a" "list_all name_char b"
      by (auto simp: is_input_name_def name_char_def list_all_iff)
    ultimately show "a = b"
      using map_upper_inj by simp
  qed
  moreover have "map fst (map (\<lambda>(name, v). (INPUT_PREFIX @ map upper name, v)) inputs)
      = map (\<lambda>n. INPUT_PREFIX @ map upper n) (map fst inputs)"
    by (simp add: case_prod_beta)
  ultimately show ?thesis
    using keys by (simp only: distinct_map list.set_map)
qed

lemma own_names:
  "distinct (AGENT_VARIABLES @ PROXY_VARIABLES)"
  "\<forall>n \<in> set (AGENT_VARIABLES @ PROXY_VARIABLES). \<not> starts_with INPUT_PREFIX n"
  by code_simp+

lemma distinct_append4:
  "distinct a \<Longrightarrow> distinct b \<Longrightarrow> distinct c \<Longrightarrow> distinct d \<Longrightarrow> set a \<inter> set b = {} \<Longrightarrow> set a \<inter> set c = {} \<Longrightarrow>
   set a \<inter> set d = {} \<Longrightarrow> set b \<inter> set c = {} \<Longrightarrow> set b \<inter> set d = {} \<Longrightarrow> set c \<inter> set d = {} \<Longrightarrow>
   distinct (a @ b @ c @ d)"
  by auto

text \<open>A script sees the environment it is meant to. When the server's configuration took its variables and the names of
  the inputs are valid, no name is set twice: the agent's own variables, the proxy's and the inputs are never
  overridden by one another or by configured variables, so every pair of the list is what the script
  finds under its name.\<close>

theorem script_env_correct:
  assumes "bt_inv variables" "\<And>n v. (n, v) \<in> set variables \<Longrightarrow> check_variable n v = Inr ()"
    "bt_inv (pi_inputs script)" "\<And>n v. (n, v) \<in> set (pi_inputs script) \<Longrightarrow> is_input_name n"
  shows "distinct (map fst (script_env script who proxy variables)) \<and>
    (\<forall>(n, v) \<in> set (script_env script who proxy variables). map_of (script_env script who proxy variables) n = Some v)"
proof -
  let ?inputs = "map fst (map (\<lambda>(name, v). (INPUT_PREFIX @ map upper name, v)) (pi_inputs script))"
  let ?proxies = "(case proxy of Some p \<Rightarrow> PROXY_VARIABLES | None \<Rightarrow> [])"
  have env: "map fst (script_env script who proxy variables) = AGENT_VARIABLES @ map fst variables @ ?inputs @ ?proxies"
    by (simp add: script_env_def AGENT_VARIABLES_def comp_def split: option.splits)
  have vars: "n \<notin> set AGENT_VARIABLES \<and> n \<notin> set PROXY_VARIABLES \<and> \<not> starts_with INPUT_PREFIX n"
    if n: "n \<in> set (map fst variables)" for n
  proof -
    obtain v where "(n, v) \<in> set variables"
      using n by auto
    from assms(2) [OF this] show ?thesis
      by (simp add: check_variable_def Let_def split: if_splits)
  qed
  have inputs: "starts_with INPUT_PREFIX n" if "n \<in> set ?inputs" for n
    using that by (auto simp: starts_with_def)
  have proxies: "set ?proxies \<subseteq> set PROXY_VARIABLES" "distinct ?proxies"
    using own_names(1) by (cases proxy; simp)+
  have "distinct (map fst variables)"
    using assms(1) by (simp add: bt_inv_def strict_sorted_iff)
  moreover have "set AGENT_VARIABLES \<inter> set (map fst variables) = {}" "set (map fst variables) \<inter> set ?proxies = {}"
    "set (map fst variables) \<inter> set ?inputs = {}"
    using vars inputs proxies(1) by blast+
  moreover have "set AGENT_VARIABLES \<inter> set ?inputs = {}" "set ?inputs \<inter> set ?proxies = {}"
    using inputs own_names(2) proxies(1) unfolding set_append by blast+
  moreover have "set AGENT_VARIABLES \<inter> set ?proxies = {}" "distinct AGENT_VARIABLES"
    using own_names(1) proxies(1) unfolding distinct_append by blast+
  ultimately have "distinct (map fst (script_env script who proxy variables))"
    unfolding env by (intro distinct_append4 proxies(2) input_keys_distinct [OF assms(3,4)])
  then show ?thesis
    by (auto intro: map_of_is_SomeI)
qed

definition demo_script :: post_install_script where
  "demo_script = \<lparr>pi_position = 0, pi_name = ''a'', pi_body = ''#!/bin/sh'', pi_inputs = [(''host_name'', ''lab'')],
     pi_root_partition = 2\<rparr>"

lemma script_env_correct_witness:
  "map_of (script_env demo_script \<lparr>id_mac = ''m'', id_ip = None, id_server = ''s''\<rparr> (Some ''p'') [(''TOKEN'', ''t'')]) ''PATH''
     = Some AGENT_PATH \<and>
   distinct (map fst (script_env demo_script \<lparr>id_mac = ''m'', id_ip = None, id_server = ''s''\<rparr> (Some ''p'') [(''TOKEN'', ''t'')]))"
proof -
  have "bt_inv [(''TOKEN'', ''t'')]" "bt_inv (pi_inputs demo_script)" "check_variable ''TOKEN'' ''t'' = Inr ()"
    "is_input_name ''host_name''"
    by code_simp+
  then have "distinct (map fst (script_env demo_script \<lparr>id_mac = ''m'', id_ip = None, id_server = ''s''\<rparr> (Some ''p'') [(''TOKEN'', ''t'')]))
    \<and> (\<forall>(n, v) \<in> set (script_env demo_script \<lparr>id_mac = ''m'', id_ip = None, id_server = ''s''\<rparr> (Some ''p'') [(''TOKEN'', ''t'')]).
       map_of (script_env demo_script \<lparr>id_mac = ''m'', id_ip = None, id_server = ''s''\<rparr> (Some ''p'') [(''TOKEN'', ''t'')]) n = Some v)"
    by (intro script_env_correct) (auto simp: demo_script_def)
  then show ?thesis
    by (simp add: script_env_def AGENT_VARIABLES_def)
qed

subsection \<open>The scripts that ran\<close>

definition script_written :: "call \<Rightarrow> string option" where
  "script_written c =
     (case c of Write_File p b \<Rightarrow> if p = script_place ROOT_DIR then Some b else None | _ \<Rightarrow> None)"

text \<open>The bodies that were put in place to be run, in order.\<close>

abbreviation bodies :: "call list \<Rightarrow> string list" where
  "bodies \<equiv> marks script_written"

abbreviation writes_no_script :: "call \<Rightarrow> bool" where
  "writes_no_script c \<equiv> script_written c = None"

lemma script_written_simps [simp]:
  "writes_no_script (Command p as)" "writes_no_script (Command_Env p as env)" "writes_no_script (Remove_File p)"
  "writes_no_script (Make_Dir p)" "writes_no_script (Other_Call p as)" "writes_no_script (Remove_Dir p)"
  "script_written (Write_File (script_place ROOT_DIR) b) = Some b"
  by (simp_all add: script_written_def)

abbreviation puts :: "string list \<Rightarrow> ('f, 'a) agent_run \<Rightarrow> bool" where
  "puts \<equiv> in_order script_written"

lemma mounting_only:
  assumes "P (Make_Dir (mount_point relative))" "P mount"
  shows "\<exists>d. snd (snd (attach w relative source mount mounted t)) = t @ d \<and> (\<forall>c \<in> set d. P c)"
proof -
  let ?r = "t_bind (t_context (''creating '' @ mount_point relative) (act w (Make_Dir (mount_point relative)))) (\<lambda>_.
             t_context (''mounting '' @ source @ '' at '' @ mount_point relative) (act w mount))"
  have "only_calls P ?r"
    by (intro only_intros assms)
  then obtain d where "snd (?r t) = t @ d" "\<forall>c \<in> set d. P c"
    unfolding only_calls_def by blast
  then show ?thesis
    unfolding attach_def by (auto split: prod.splits sum.splits)
qed

definition mounting_calls :: "(call \<Rightarrow> bool) \<Rightarrow> mounting \<Rightarrow> bool" where
  "mounting_calls P m \<longleftrightarrow> (\<forall>mounted t. \<exists>d. snd (snd (m mounted t)) = t @ d \<and> (\<forall>c \<in> set d. P c))"

lemma mounting_attach: "P (Make_Dir (mount_point relative)) \<Longrightarrow> P mount \<Longrightarrow> mounting_calls P (attach w relative source mount)"
  unfolding mounting_calls_def using mounting_only by blast

lemma mounting_then:
  assumes m: "mounting_calls P m" and n: "mounting_calls P n"
  shows "mounting_calls P (then_mount m n)"
  unfolding mounting_calls_def
proof (intro allI)
  fix mounted t
  obtain d where d: "snd (snd (m mounted t)) = t @ d" "\<forall>c \<in> set d. P c"
    using m unfolding mounting_calls_def by blast
  obtain x mounted' u where x: "m mounted t = (x, mounted', u)" by (cases "m mounted t") auto
  obtain d' where d': "snd (snd (n mounted' u)) = u @ d'" "\<forall>c \<in> set d'. P c"
    using n unfolding mounting_calls_def by blast
  show "\<exists>d. snd (snd (then_mount m n mounted t)) = t @ d \<and> (\<forall>c \<in> set d. P c)"
    using d d' x by (cases x) (auto simp: then_mount_def intro: exI [of _ "d @ d'"])
qed

lemma mounting_planned:
  assumes "\<And>p. P (Make_Dir p)" "\<And>n as. P (Other_Call n as)"
  shows "mounting_calls P (attach_planned w dev ms)"
proof (induction ms)
  case Nil
  then show ?case by (simp add: mounting_calls_def)
next
  case (Cons m ms)
  then show ?case
    by (auto simp: mount_fs_def intro!: mounting_then mounting_attach assms)
qed

lemma mounting_all:
  assumes "\<And>p. P (Make_Dir p)" "\<And>n as. P (Other_Call n as)"
  shows "mounting_calls P (attach_all w fstab root disk how)"
  unfolding attach_all_def
proof (rule mounting_then)
  show "mounting_calls P (attach w [] (tg_device root) (mount_fs (tg_device root) [] (fs_as_str (tg_filesystem root))))"
    by (auto simp: mount_fs_def intro!: mounting_attach assms)
  have rest: "mounting_calls P (then_mount (attach_planned w (tg_device root) planned)
      (then_mount (attach w [''proc''] ''proc'' (mount_fs ''proc'' [''proc''] ''proc''))
        (then_mount (attach w [''sys''] ''sys'' (Other_Call ''bind'' [''/sys'', mount_point [''sys'']]))
          (attach w [''dev''] ''dev'' (Other_Call ''bind'' [''/dev'', mount_point [''dev''  ]])))))" for planned
    unfolding mount_fs_def by (intro mounting_then mounting_attach mounting_planned assms)
  show "mounting_calls P (\<lambda>mounted t.
      case and_then (fstab_text (fstab t)) (\<lambda>text. plan_mounts text disk how) of
        Inl e \<Rightarrow> (Inl e, mounted, t)
      | Inr planned \<Rightarrow> then_mount (attach_planned w (tg_device root) planned)
          (then_mount (attach w [''proc''] ''proc'' (mount_fs ''proc'' [''proc''] ''proc''))
            (then_mount (attach w [''sys''] ''sys'' (Other_Call ''bind'' [''/sys'', mount_point [''sys'']]))
              (attach w [''dev''] ''dev'' (Other_Call ''bind'' [''/dev'', mount_point [''dev'']])))) mounted t)"
    using rest unfolding mounting_calls_def by (auto split: sum.splits)
qed

lemma unmount_all_only:
  assumes "\<And>n as. P (Other_Call n as)"
  shows "\<exists>d. snd (unmount_all w targets failure t) = t @ d \<and> (\<forall>c \<in> set d. P c)"
proof (induction w targets failure t rule: unmount_all.induct)
  case (1 w failure t)
  then show ?case by simp
next
  case (2 w target targets failure t)
  obtain e u where one: "unmount_one w target t = (e, u)" by fastforce
  then have "\<exists>d. u = t @ d \<and> (\<forall>c \<in> set d. P c)"
    using assms by (auto simp: unmount_one_def act_def Let_def split: prod.splits sum.splits)
  with "2.IH" [OF one [symmetric]] one show ?case
    by (auto intro: exI [of _ "_ @ _"])
qed

lemma only_release [only_intros]: "(\<And>n as. P (Other_Call n as)) \<Longrightarrow> only_calls P (release w mounted)"
  unfolding only_calls_def
proof
  fix t
  assume P: "\<And>n as. P (Other_Call n as)"
  show "\<exists>d. snd (release w mounted t) = t @ d \<and> (\<forall>c \<in> set d. P c)"
  proof (cases "mounted = []")
    case True
    then show ?thesis by (simp add: release_def)
  next
    case False
    let ?t1 = "t @ [Other_Call ''stop processes'' [ROOT_DIR]]"
    let ?targets = "case outside.read_file w ?t1 ''/proc/self/mountinfo'' of
        Inr mountinfo \<Rightarrow> mounts_under mountinfo ROOT_DIR | Inl e \<Rightarrow> rev mounted"
    obtain e u where all: "unmount_all w ?targets None ?t1 = (e, u)" by fastforce
    with unmount_all_only [where P = P, OF P, of w ?targets None ?t1] obtain d where "u = ?t1 @ d" "\<forall>c \<in> set d. P c"
      by auto
    then have "snd (release w mounted t) = t @ Other_Call ''stop processes'' [ROOT_DIR] # d @ [Other_Call ''sync'' []]"
      using False all by (simp add: release_def Let_def)
    with P \<open>\<forall>c \<in> set d. P c\<close> show ?thesis by auto
  qed
qed

lemma only_mount_system [only_intros]:
  assumes "\<And>p. P (Make_Dir p)" "\<And>n as. P (Other_Call n as)"
  shows "only_calls P (mount_system w fstab root disk how)"
  unfolding only_calls_def
proof
  fix t
  obtain x mounted u where x: "attach_all w fstab root disk how [] t = (x, mounted, u)"
    by (cases "attach_all w fstab root disk how [] t") auto
  obtain d where d: "u = t @ d" "\<forall>c \<in> set d. P c"
    using mounting_all [where P = P, OF assms, of w fstab root disk how] x unfolding mounting_calls_def by (metis snd_conv)
  obtain d' where d': "snd (release w mounted u) = u @ d'" "\<forall>c \<in> set d'. P c"
    using only_release [where P = P and w = w and mounted = mounted, OF assms(2)] unfolding only_calls_def by blast
  show "\<exists>d. snd (mount_system w fstab root disk how t) = t @ d \<and> (\<forall>c \<in> set d. P c)"
    using x d d' by (cases x) (auto simp: mount_system_def intro: exI [of _ "d @ d'"])
qed

lemma only_find_target_disk [only_intros]:
  "(\<And>as. P (Command ''lsblk'' as)) \<Longrightarrow> only_calls P (find_target_disk w parse)"
  unfolding find_target_disk_def lsblk_def by (intro only_intros) simp_all

lemma only_execute [only_intros]:
  "(\<And>n as. P (Other_Call n as)) \<Longrightarrow> (\<And>as e. P (Command_Env ''chroot'' (root # as) e)) \<Longrightarrow> only_calls P (execute env tid root script vars)"
  unfolding execute_def Let_def by (intro only_intros) simp_all

lemma only_prepare_tmp [only_intros]:
  "(\<And>n as. P (Other_Call n as)) \<Longrightarrow> (\<And>p. P (Make_Dir p)) \<Longrightarrow> only_calls P (prepare_tmp env root)"
  by (auto simp: only_calls_def prepare_tmp_def t_defs split: sum.splits)

lemma run_script_puts: "puts [pi_body script] (a_lift (run_script env tid ROOT_DIR script vars))"
  unfolding in_order_def
proof (intro allI impI)
  fix m x m'
  let ?w = "ae_outside env"
  let ?rest = "t_bind (act ?w (Other_Call ''chmod'' [script_place ROOT_DIR, ''700''])) (\<lambda>_.
      t_bind (t_try (execute env tid ROOT_DIR script vars)) (\<lambda>result.
        t_bind (t_try (act ?w (Remove_File (script_place ROOT_DIR)))) (\<lambda>_. t_of result)))"
  assume "a_lift (run_script env tid ROOT_DIR script vars) m = (x, m')"
  then have run: "run_script env tid ROOT_DIR script vars (snd m) = (x, snd m')"
    by (auto simp: a_lift_def split: prod.splits)
  obtain p u where p: "prepare_tmp env ROOT_DIR (snd m) = (p, u)" by fastforce
  have "only_calls writes_no_script (prepare_tmp env ROOT_DIR)"
    by (intro only_intros) simp_all
  from only_callsD [OF this p] obtain d where d: "u = snd m @ d" "bodies d = []"
    using marks_none by blast
  let ?u = "u @ [Write_File (script_place ROOT_DIR) (pi_body script)]"
  have rest: "only_calls writes_no_script ?rest"
    by (intro only_intros) simp_all
  obtain r v where r: "?rest ?u = (r, v)" by fastforce
  from only_callsD [OF rest r] obtain d' where d': "v = ?u @ d'" "bodies d' = []"
    using marks_none by blast
  have one: "bodies [Write_File (script_place ROOT_DIR) (pi_body script)] = [pi_body script]"
    by simp
  consider "p \<noteq> Inr ()" "snd m' = u" "\<not> is_ok x" | "snd m' = ?u" "\<not> is_ok x" | "snd m' = v"
    using run p r by (cases p; cases "attempt ?w ?u")
      (auto simp: run_script_def t_bind_def [of "prepare_tmp env ROOT_DIR"] t_bind_def [of "t_context c (act ?w a)" for c a]
        t_context_def act_def with_context_def Let_def)
  then show "\<exists>d. snd m' = snd m @ d \<and> prefix (bodies d) [pi_body script] \<and> (is_ok x \<longrightarrow> bodies d = [pi_body script])"
  proof cases
    case 1
    with d show ?thesis by auto
  next
    case 2
    with d one show ?thesis by (intro exI [of _ "d @ [Write_File (script_place ROOT_DIR) (pi_body script)]"]) auto
  next
    case 3
    with d d' one show ?thesis
      by (intro exI [of _ "d @ [Write_File (script_place ROOT_DIR) (pi_body script)] @ d'"]) auto
  qed
qed

lemma run_one_puts: "puts [pi_body (snd numbered)] (run_one env who tid plan numbered)"
  unfolding run_one_def update_view_def
  by (intro in_order_before [OF only_a_return(2)] in_order_after [OF run_script_puts])
    (auto intro!: only_intros)

lemma run_scripts_puts: "puts (map pi_body (sg_scripts g)) (run_scripts env who tid plan g)"
proof -
  let ?z = "zip [sg_first g..<sg_first g + length (sg_scripts g)] (sg_scripts g)"
  have "map snd ?z = sg_scripts g"
    by simp
  then have "map (pi_body \<circ> snd) ?z = map pi_body (sg_scripts g)"
    by (metis map_map)
  then have "concat (map (\<lambda>n. [pi_body (snd n)]) ?z) = map pi_body (sg_scripts g)"
    by (simp add: concat_map_singleton comp_def)
  moreover have "puts (concat (map (\<lambda>n. [pi_body (snd n)]) ?z)) (a_each (run_one env who tid plan) ?z)"
    by (rule in_order_each) (rule run_one_puts)
  ultimately show ?thesis
    unfolding run_scripts_def by simp
qed

lemma run_group_puts: "puts (map pi_body (sg_scripts g)) (run_group env who tid plan disk how g)"
  unfolding run_group_def
proof (rule in_order_before)
  show "only_agent_calls writes_no_script (a_lift (mount_system (ae_outside env) (ae_fstab env) (sg_root g) disk how))"
    by (intro only_intros) simp_all
  fix mounted
  let ?rel = "a_try (a_lift (release (ae_outside env) mounted))"
  let ?rest = "\<lambda>ran. a_bind ?rel (\<lambda>unmounted. a_lift (t_of (and_then ran (\<lambda>_. unmounted))))"
  show "puts (map pi_body (sg_scripts g)) (a_bind (a_try (run_scripts env who tid plan g)) ?rest)"
    unfolding in_order_def
  proof (intro allI impI)
    fix m x m'
    assume run: "a_bind (a_try (run_scripts env who tid plan g)) ?rest m = (x, m')"
    obtain y u where y: "run_scripts env who tid plan g m = (y, u)"
      by (cases "run_scripts env who tid plan g m") blast
    then have rest: "?rest y u = (x, m')"
      using run by (simp add: a_bind_def [of "a_try (run_scripts env who tid plan g)"] a_try_def)
    have "only_agent_calls writes_no_script (?rest y)"
      by (intro only_intros) simp_all
    from only_agent_callsD [OF this rest] obtain d' where d': "snd m' = snd u @ d'" "bodies d' = []"
      using marks_none by blast
    have "is_ok x \<longrightarrow> is_ok y"
      using rest by (cases y) (auto simp: a_defs t_of_def split: prod.splits sum.splits)
    with d' in_orderD [OF run_scripts_puts y]
    show "\<exists>d. snd m' = snd m @ d \<and> prefix (bodies d) (map pi_body (sg_scripts g)) \<and>
        (is_ok x \<longrightarrow> bodies d = map pi_body (sg_scripts g))"
      by (auto intro: exI [of _ "_ @ d'"])
  qed
qed

lemma concat_chunk_by: "concat (chunk_by f xs) = xs"
  by (induction xs) (auto split: list.splits)

lemma runs_from_scripts: "runs_from first gs restored = Inr rs \<Longrightarrow> map sg_scripts rs = gs"
  by (induction gs arbitrary: first rs) (auto simp: result_simps Let_def)

lemma script_runs_scripts: "script_runs_of ss restored = Inr rs \<Longrightarrow> concat (map sg_scripts rs) = ss"
  by (simp add: script_runs_of_def runs_from_scripts concat_chunk_by)

lemma post_install_puts:
  assumes "post_install_run env who tid restored how m = (x, m')"
    "ae_plan env (snd m @ [Other_Call ''post_install'' [int_str tid]]) = Inr plan"
  shows "\<exists>d. snd m' = snd m @ d \<and> prefix (bodies d) (map pi_body (pn_scripts plan)) \<and>
    (is_ok x \<longrightarrow> bodies d = map pi_body (pn_scripts plan))"
proof -
  let ?m = "(fst m, snd m @ [Other_Call ''post_install'' [int_str tid]])"
  let ?rest = "if pn_scripts plan = [] then a_return ()
       else a_bind (a_lift (t_of (script_runs_of (pn_scripts plan) restored))) (\<lambda>groups.
              a_bind (a_lift (find_target_disk (ae_outside env) (ae_lsblk env))) (\<lambda>disk.
                a_bind (update_view env (\<lambda>t. t\<lparr>tv_scripts := map (\<lambda>s. (pi_name s, Script_Waiting)) (pn_scripts plan)\<rparr>)) (\<lambda>_.
                  a_each (run_group env who tid plan disk how) groups)))"
  have run: "?rest ?m = (x, m')"
    using assms by (simp add: post_install_run_def a_bind_def [of "a_ask c f" for c f] a_ask_def Let_def)
  have "puts (map pi_body (pn_scripts plan)) ?rest"
  proof (cases "script_runs_of (pn_scripts plan) restored")
    case (Inl e)
    then show ?thesis
      by (auto simp: in_order_def a_defs t_of_def intro: exI [of _ "[]"])
  next
    case (Inr groups)
    have scripts: "concat (map (\<lambda>g. map pi_body (sg_scripts g)) groups) = map pi_body (pn_scripts plan)"
      unfolding script_runs_scripts [OF Inr, symmetric] by (simp add: map_concat comp_def)
    have "puts (map pi_body (pn_scripts plan)) (a_each (run_group env who tid plan disk how) groups)" for disk
      using in_order_each [where xs = groups and g = "\<lambda>g. map pi_body (sg_scripts g)", OF run_group_puts] unfolding scripts .
    then have "puts (map pi_body (pn_scripts plan)) (a_bind (a_lift (find_target_disk (ae_outside env) (ae_lsblk env))) (\<lambda>disk.
        a_bind (update_view env (\<lambda>t. t\<lparr>tv_scripts := map (\<lambda>s. (pi_name s, Script_Waiting)) (pn_scripts plan)\<rparr>)) (\<lambda>_.
          a_each (run_group env who tid plan disk how) groups)))"
      unfolding update_view_def by (intro in_order_before only_a_return only_a_lift only_find_target_disk) simp_all
    then show ?thesis
      using Inr by (auto simp: in_order_def a_bind_def [of "a_lift r" for r] a_lift_def t_of_def a_return_def intro: exI [of _ "[]"])
  qed
  from in_orderD [OF this run] obtain d where
    "snd m' = snd ?m @ d" "prefix (bodies d) (map pi_body (pn_scripts plan))" "is_ok x \<longrightarrow> bodies d = map pi_body (pn_scripts plan)"
    by blast
  then show ?thesis
    by (intro exI [of _ "Other_Call ''post_install'' [int_str tid] # d"]) simp
qed

text \<open>C33: Post-install scripts are put in place in order, and only then is a restore done. Whatever the mounts, the scripts and the
  server do, the scripts an agent writes into the restored system to run them are the first ones of the server's plan, in its
  order and each once; and it reports success only when all of them were put in place, whichever partitions they were
  grouped by. What the scripts do once started is theirs.\<close>

theorem scripts_run_in_order:
  assumes "post_install_run env who tid restored how m = (x, m')"
    "ae_plan env (snd m @ [Other_Call ''post_install'' [int_str tid]]) = Inr plan"
  shows "\<exists>d. snd m' = snd m @ d \<and> prefix (bodies d) (map pi_body (pn_scripts plan)) \<and>
    (is_ok x \<longrightarrow> bodies d = map pi_body (pn_scripts plan))"
  by (rule post_install_puts [OF assms])

definition demo_agent :: "int agent_env" where
  "demo_agent =
     \<lparr>ae_outside = demo_tools\<lparr>run_command := \<lambda>t. Inr \<lparr>out_status = Exited 0, out_stdout = [], out_stderr = []\<rparr>\<rparr>,
      ae_lsblk = (\<lambda>_. Inr [demo_disk_tree]),
      ae_open = demo_open,
      ae_layout = (\<lambda>_. Inr demo_layout),
      ae_plan = (\<lambda>_. Inr \<lparr>pn_proxy = None, pn_variables = [], pn_scripts = [demo_script]\<rparr>),
      ae_receive = (\<lambda>_. Inr []),
      ae_copy_error = (\<lambda>_. None),
      ae_decode = (\<lambda>s. (s, None)), ae_encode = id,
      ae_fresh = (\<lambda>_. ''/tmp/m''),
      ae_fstab = (\<lambda>_. Inl Missing_File),
      ae_dir_exists = (\<lambda>_ _. True),
      ae_now = (\<lambda>_. 0),
      ae_fraction = (\<lambda>_. 0)\<rparr>"

definition demo_restored :: "partition_target list" where
  "demo_restored = [\<lparr>tg_device = ''/dev/nvme0n1p2'', tg_number = 2, tg_filesystem = Ext4, tg_size = 5000,
     tg_fs_uuid = None, tg_fs_label = None\<rparr>]"


definition demo_identity :: identity where
  "demo_identity = \<lparr>id_mac = ''m'', id_ip = None, id_server = ''s''\<rparr>"
definition demo_plan :: post_install where
  "demo_plan = \<lparr>pn_proxy = None, pn_variables = [], pn_scripts = [demo_script]\<rparr>"

lemma demo_scripts: "pn_scripts demo_plan = [demo_script]"
  by (simp add: demo_plan_def)

lemma demo_groups:
  "script_runs_of [demo_script] demo_restored
     = Inr [\<lparr>sg_root = demo_restored ! 0, sg_first = 0, sg_scripts = [demo_script]\<rparr>]"
  by code_simp


definition demo_found :: "call list" where
  "demo_found = snd (find_target_disk (ae_outside demo_agent) (ae_lsblk demo_agent) [Other_Call ''post_install'' [int_str 7]])"

lemma demo_find:
  "find_target_disk (ae_outside demo_agent) (ae_lsblk demo_agent) [Other_Call ''post_install'' [int_str 7]] = (Inr demo_disk_tree, demo_found)"
  unfolding demo_found_def by code_simp

lemma demo_group: "is_ok (fst (run_group demo_agent demo_identity 7 demo_plan demo_disk_tree First
    \<lparr>sg_root = demo_restored ! 0, sg_first = 0, sg_scripts = [demo_script]\<rparr> (new_status, demo_found)))" by code_simp

lemma demo_status: "update_view demo_agent f (new_status, t) = (Inr (), new_status, t)"
  by (simp add: update_view_def a_status_def update_task_def update_def modify_state_def read_progress_def send_uplink_def change_task_def new_status_def
      running_task_def Let_def)

lemma scripts_run_in_order_witness:
  "\<exists>x m'. post_install_run demo_agent demo_identity 7 demo_restored First (new_status, []) = (x, m') \<and> is_ok x \<and>
     bodies (snd m') = [''#!/bin/sh'']"
proof -
  let ?r = "post_install_run demo_agent demo_identity 7 demo_restored First (new_status, [])"
  obtain x m' where run: "?r = (x, m')"
    by (cases ?r) blast
  have plan: "ae_plan demo_agent t = Inr demo_plan" for t
    by (simp add: demo_agent_def demo_plan_def)
  have "is_ok (fst ?r)"
    using demo_group
    by (auto simp: post_install_run_def a_ask_def a_bind_def a_lift_def t_of_def a_return_def plan demo_groups demo_find demo_status Let_def
        demo_scripts split: prod.splits sum.splits)
  with run scripts_run_in_order [OF run plan] show ?thesis
    by (auto simp: demo_scripts demo_script_def)
qed
end
