(* ===== verification/Agent_Tasks.thy ===== *)
theory Agent_Tasks
  imports Post_Install Multicast_Ports
begin

text \<open>
  The tasks of an agent from the first request to the last: \<open>crates/agent/src/task/implementations\<close>
  (\<open>capture.rs\<close>, \<open>restore.rs\<close>, \<open>source.rs\<close>, \<open>shape.rs\<close>, the dispatch of \<open>implementations.rs\<close>), with the running of
  \<open>partclone\<close> (\<open>crates/disk/src/partclone.rs\<close>) and the choice of the imager (\<open>imaging.rs\<close>). The typestates of the code
  are the values the steps pass on. A stream is the bytes it delivers and the error it then ends with. The progress
  \<open>partclone\<close> prints while it runs changes the status only (\<open>report_partition\<close> of \<open>Agent_Status\<close>) and is not repeated here.
\<close>

subsection \<open>Requests and streams\<close>

definition PARTCLONE_LOG :: string where "PARTCLONE_LOG = ''/tmp/partclone-log''"
definition PARTTABLE_TMP :: string where "PARTTABLE_TMP = ''/parttable.bin''"
definition PARTITION_TABLE_SLOT :: int where "PARTITION_TABLE_SLOT = 0"
definition FLAGS :: "string list" where "FLAGS = [''--no_block_detail'', ''--prog-second'']"
definition LOG_TAIL_LINES :: nat where "LOG_TAIL_LINES = 20"

type_synonym stream = "string \<times> string option"

datatype source = Http | Multicast_Source

fun source_name :: "source \<Rightarrow> string" where
  "source_name Http = ''deploy''"
| "source_name Multicast_Source = ''multicast''"

text \<open>A receiver joins the group of the task at the port of the slot.\<close>

definition multicast_stream :: "int \<Rightarrow> int \<Rightarrow> call" where
  "multicast_stream tid slot =
     Download ''multicast_stream'' [nat_str (unat (multicast_group tid)), nat_str (unat (get_multicast_port slot))]"

fun partition_table_call :: "source \<Rightarrow> int \<Rightarrow> call" where
  "partition_table_call Http tid = Download ''partition_table'' [int_str tid]"
| "partition_table_call Multicast_Source tid = multicast_stream tid PARTITION_TABLE_SLOT"

fun partition_table_from :: "'f agent_env \<Rightarrow> source \<Rightarrow> int \<Rightarrow> ('f, string) agent_run" where
  "partition_table_from env Http tid = a_ask (partition_table_call Http tid) (ae_receive env)"
| "partition_table_from env Multicast_Source tid =
     a_ask (partition_table_call Multicast_Source tid)
       (\<lambda>t. with_context ''receiving the partition table'' (ae_receive env t))"

fun partition_from :: "source \<Rightarrow> int \<Rightarrow> int \<Rightarrow> call" where
  "partition_from Http tid n = Download ''partition_data'' [int_str tid, int_str n]"
| "partition_from Multicast_Source tid n = multicast_stream tid n"

subsection \<open>Imaging a partition\<close>

definition log_tail :: "outside \<Rightarrow> call list \<Rightarrow> string" where
  "log_tail w t =
     (case outside.read_file w t PARTCLONE_LOG of
        Inl _ \<Rightarrow> []
      | Inr bytes \<Rightarrow>
          let ls = filter (\<lambda>l. trim l \<noteq> []) (lines (from_utf8_lossy bytes));
              tail = drop (length ls - LOG_TAIL_LINES) ls
          in if tail = [] then [] else CHR 0x0A # join [CHR 0x0A] tail)"

definition partclone :: "string \<Rightarrow> string list" where
  "partclone mode = mode # FLAGS @ [''--logfile'', PARTCLONE_LOG]"

definition exited :: "outside \<Rightarrow> exit_status \<Rightarrow> call list \<Rightarrow> string option" where
  "exited w status t =
     (if success status then None else Some (''partclone exited with '' @ status_str status @ log_tail w t))"

definition partclone_capture :: "outside \<Rightarrow> string \<Rightarrow> string \<Rightarrow> stream run" where
  "partclone_capture w binary device =
     t_bind (command_env_output w binary (partclone ''--clone'' @ [''--source'', device, ''--output'', ''-'']) [(''LC_ALL'', ''C'')])
       (\<lambda>output t. (Inr (out_stdout output, exited w (out_status output) t), t))"

text \<open>What becomes of a restore whose data was piped into the program, \<open>copied\<close> being the error of the copy.\<close>

definition restored_result :: "outside \<Rightarrow> string option \<Rightarrow> exit_status \<Rightarrow> call list \<Rightarrow> anyhow + unit" where
  "restored_result w copied status t =
     (let exited = ''partclone exited with error: '' @ status_str status @ log_tail w t in
      case copied of
        Some e \<Rightarrow>
          let piping = ''failed piping partition data into partclone: '' @ e
          in if success status then Inl [piping] else with_context exited (Inl [piping])
      | None \<Rightarrow> if success status then Inr () else Inl [exited])"

definition partclone_restore :: "'f agent_env \<Rightarrow> string \<Rightarrow> stream \<Rightarrow> string \<Rightarrow> unit run" where
  "partclone_restore env binary s device =
     t_bind (command_env_output (ae_outside env) binary
         (partclone ''--restore'' @ [''--source'', ''-'', ''--output'', device]) [(''LC_ALL'', ''C'')])
       (\<lambda>output t.
          let t' = t @ [Other_Call ''stdin'' [fst s]];
              copied = (case ae_copy_error env t' of Some e \<Rightarrow> Some e | None \<Rightarrow> snd s)
          in (restored_result (ae_outside env) copied (out_status output) t', t'))"

text \<open>\<open>swap::restore\<close> of a stream that may break off before the header is complete.\<close>

definition swap_restore_stream :: "outside \<Rightarrow> stream \<Rightarrow> string \<Rightarrow> unit run" where
  "swap_restore_stream w s device =
     (case s of
        (received, Some e) \<Rightarrow>
          if length received \<le> LARGEST_PAGE then t_context ''reading the swap header'' (t_bail e)
          else swap_restore w received device
      | (received, None) \<Rightarrow> swap_restore w received device)"

definition clone_compressed :: "'f agent_env \<Rightarrow> filesystem \<Rightarrow> string \<Rightarrow> stream run" where
  "clone_compressed env fs device =
     t_bind (case imager_of fs of
         Partclone binary \<Rightarrow> partclone_capture (ae_outside env) binary device
       | SwapHeader \<Rightarrow> t_bind (swap_capture (ae_outside env) device) (\<lambda>header. t_return (header, None)))
       (\<lambda>s. t_return (ae_encode env (fst s), snd s))"

definition restore_compressed :: "'f agent_env \<Rightarrow> filesystem \<Rightarrow> string \<Rightarrow> string \<Rightarrow> unit run" where
  "restore_compressed env fs compressed device =
     (case imager_of fs of
        Partclone binary \<Rightarrow> partclone_restore env binary (ae_decode env compressed) device
      | SwapHeader \<Rightarrow> swap_restore_stream (ae_outside env) (ae_decode env compressed) device)"

subsection \<open>Shapes\<close>

fun shape_fstab :: "shape \<Rightarrow> matching" where
  "shape_fstab WholeDisk = First"
| "shape_fstab (SinglePartition _) = Unique"

fun capture_table :: "'f agent_env \<Rightarrow> shape \<Rightarrow> int \<Rightarrow> block_device \<Rightarrow> unit run" where
  "capture_table env WholeDisk tid disk =
     t_bind (backup_partition_table (ae_outside env) (ae_open env) (get_device disk) PARTTABLE_TMP) (\<lambda>_.
       t_bind (file_bytes (ae_outside env) PARTTABLE_TMP) (\<lambda>table.
         t_bind (act (ae_outside env) (Other_Call ''upload_partition_table'' [int_str tid, table])) (\<lambda>_.
           t_bind (t_try (act (ae_outside env) (Remove_File PARTTABLE_TMP))) (\<lambda>_. t_return ()))))"
| "capture_table env (SinglePartition _) tid disk = t_return ()"

fun restore_table :: "'f agent_env \<Rightarrow> source \<Rightarrow> shape \<Rightarrow> int \<Rightarrow> block_device \<Rightarrow> image_layout \<Rightarrow> ('f, block_device) agent_run" where
  "restore_table env src WholeDisk tid disk layout =
     a_bind (partition_table_from env src tid) (\<lambda>table. a_lift (
       t_bind (act (ae_outside env) (Write_File PARTTABLE_TMP table)) (\<lambda>_.
         t_bind (restore_partition_table (ae_outside env) (ae_open env) (get_device disk) PARTTABLE_TMP
             (il_sector_size layout)) (\<lambda>_.
           t_bind (t_try (act (ae_outside env) (Remove_File PARTTABLE_TMP))) (\<lambda>_.
             find_target_disk (ae_outside env) (ae_lsblk env))))))"
| "restore_table env src (SinglePartition _) tid disk layout = a_return disk"

subsection \<open>Restoring\<close>

definition restore_prepare :: "'f agent_env \<Rightarrow> int \<Rightarrow> ('f, block_device \<times> image_layout) agent_run" where
  "restore_prepare env tid =
     a_bind (a_lift (act (ae_outside env) (Other_Call ''mark_started'' [int_str tid]))) (\<lambda>_.
       a_bind (a_ask (Other_Call ''image_layout'' [int_str tid]) (ae_layout env)) (\<lambda>layout.
         if il_partitions layout = []
         then a_lift (t_bail (''image for task '' @ int_str tid @ '' has no partitions to restore''))
         else a_bind (a_lift (find_target_disk (ae_outside env) (ae_lsblk env))) (\<lambda>disk. a_return (disk, layout))))"

definition restore_targets ::
  "'f agent_env \<Rightarrow> source \<Rightarrow> shape \<Rightarrow> int \<Rightarrow> block_device \<times> image_layout \<Rightarrow> ('f, partition_target list) agent_run" where
  "restore_targets env src shape tid prepared =
     a_bind (update_view env (\<lambda>t. t\<lparr>tv_step := Table_Step\<rparr>)) (\<lambda>_.
       a_bind (restore_table env src shape tid (fst prepared) (snd prepared)) (\<lambda>disk.
         a_lift (t_of (restore_plan shape disk (snd prepared)))))"

definition restore_partition ::
  "('f :: zero) agent_env \<Rightarrow> source \<Rightarrow> int \<Rightarrow> nat \<times> partition_target \<Rightarrow> ('f, unit) agent_run" where
  "restore_partition env src tid numbered =
     (let target = snd numbered in
      a_bind (a_status (report_partition (ae_fraction env) tid (fst numbered) default_progress)) (\<lambda>_.
        a_bind (a_ask (partition_from src tid (tg_number target)) (ae_receive env)) (\<lambda>data.
          a_bind (a_lift (restore_compressed env (tg_filesystem target) data (tg_device target))) (\<lambda>_.
            a_bind (\<lambda>m. a_lift (grow (ae_outside env) (ae_fresh env (snd m)) (tg_filesystem target) (tg_device target)) m) (\<lambda>_.
              update_view env (set_phase (fst numbered) Done_Phase))))))"

definition restore_write ::
  "('f :: zero) agent_env \<Rightarrow> source \<Rightarrow> int \<Rightarrow> partition_target list \<Rightarrow> ('f, unit) agent_run" where
  "restore_write env src tid targets =
     a_bind (a_status (show_partitions (ae_fraction env) targets)) (\<lambda>_.
       a_bind (a_each (restore_partition env src tid) (zip [0..<length targets] targets)) (\<lambda>_.
         update_view env (\<lambda>t. t\<lparr>tv_step := Finishing_Step\<rparr>)))"

definition restore_task ::
  "('f :: zero) agent_env \<Rightarrow> identity \<Rightarrow> source \<Rightarrow> shape \<Rightarrow> int \<Rightarrow> ('f, unit) agent_run" where
  "restore_task env who src shape tid =
     a_bind (restore_prepare env tid) (\<lambda>prepared.
       a_bind (restore_targets env src shape tid prepared) (\<lambda>targets.
         a_bind (restore_write env src tid targets) (\<lambda>_.
           post_install_run env who tid targets (shape_fstab shape))))"

subsection \<open>Capturing\<close>

definition capture_prepare :: "'f agent_env \<Rightarrow> int \<Rightarrow> block_device run" where
  "capture_prepare env tid =
     t_bind (find_target_disk (ae_outside env) (ae_lsblk env)) (\<lambda>disk.
       t_bind (t_of (logical_sector disk)) (\<lambda>sectors.
         t_bind (act (ae_outside env) (Other_Call ''mark_started'' [int_str tid, nat_str (unat sectors)])) (\<lambda>_.
           t_return disk)))"

definition capture_targets :: "'f agent_env \<Rightarrow> shape \<Rightarrow> int \<Rightarrow> block_device \<Rightarrow> ('f, partition_target list) agent_run" where
  "capture_targets env shape tid disk =
     a_bind (update_view env (\<lambda>t. t\<lparr>tv_step := Table_Step\<rparr>)) (\<lambda>_.
       a_bind (a_lift (capture_table env shape tid disk)) (\<lambda>_. a_lift (t_of (capture_plan shape disk))))"

text \<open>A request fails when the stream of its body does; the size is sent as a signed number.\<close>

definition send_partition :: "'f agent_env \<Rightarrow> int \<Rightarrow> partition_target \<Rightarrow> stream \<Rightarrow> unit run" where
  "send_partition env tid target s =
     (let c = Other_Call ''upload_partition_data''
           ([int_str tid, int_str (tg_number target), fs_as_str (tg_filesystem target), int_str (sint (tg_size target))] @
            (case tg_fs_uuid target of None \<Rightarrow> [] | Some u \<Rightarrow> [''fs_uuid='' @ u]) @
            (case tg_fs_label target of None \<Rightarrow> [] | Some l \<Rightarrow> [''fs_label='' @ l]) @ [fst s])
      in case snd s of
           None \<Rightarrow> act (ae_outside env) c
         | Some e \<Rightarrow> t_bind (t_try (act (ae_outside env) c)) (\<lambda>_. t_bail e))"

definition capture_partition_data ::
  "('f :: zero) agent_env \<Rightarrow> int \<Rightarrow> nat \<times> partition_target \<Rightarrow> ('f, unit) agent_run" where
  "capture_partition_data env tid numbered =
     (let target = snd numbered in
      a_bind (a_status (report_partition (ae_fraction env) tid (fst numbered) default_progress)) (\<lambda>_.
        a_bind (a_lift (repair_filesystem (ae_outside env) target)) (\<lambda>_.
          a_bind (a_lift (clone_compressed env (tg_filesystem target) (tg_device target))) (\<lambda>compressed.
            a_bind (a_lift (send_partition env tid target compressed)) (\<lambda>_.
              update_view env (set_phase (fst numbered) Done_Phase))))))"

definition capture_upload ::
  "('f :: zero) agent_env \<Rightarrow> int \<Rightarrow> partition_target list \<Rightarrow> ('f, unit) agent_run" where
  "capture_upload env tid targets =
     a_bind (a_status (show_partitions (ae_fraction env) targets)) (\<lambda>_.
       a_bind (a_each (capture_partition_data env tid) (zip [0..<length targets] targets)) (\<lambda>_.
         update_view env (\<lambda>t. t\<lparr>tv_step := Finishing_Step\<rparr>)))"

fun systems_of :: "outside \<Rightarrow> partition_target list \<Rightarrow> int list run" where
  "systems_of w [] = t_return []"
| "systems_of w (target # targets) =
     t_bind (holds_system w (tg_filesystem target) (tg_device target)) (\<lambda>found.
       t_bind (systems_of w targets) (\<lambda>systems.
         t_return (if found then tg_number target # systems else systems)))"

definition capture_report_root :: "'f agent_env \<Rightarrow> int \<Rightarrow> partition_target list \<Rightarrow> unit run" where
  "capture_report_root env tid targets =
     t_bind (systems_of (ae_outside env) targets) (\<lambda>systems.
       case only_root systems of
         None \<Rightarrow> t_return ()
       | Some root \<Rightarrow>
           t_bind (t_try (act (ae_outside env) (Other_Call ''report_root_partition'' [int_str tid, int_str root]))) (\<lambda>_.
             t_return ()))"

definition capture_run :: "('f :: zero) agent_env \<Rightarrow> shape \<Rightarrow> int \<Rightarrow> ('f, unit) agent_run" where
  "capture_run env shape tid =
     a_bind (a_lift (capture_prepare env tid)) (\<lambda>disk.
       a_bind (capture_targets env shape tid disk) (\<lambda>targets.
         a_bind (capture_upload env tid targets) (\<lambda>_.
           a_lift (capture_report_root env tid targets))))"

subsection \<open>Tasks\<close>

fun work_run :: "('f :: zero) agent_env \<Rightarrow> identity \<Rightarrow> work \<Rightarrow> int \<Rightarrow> ('f, unit) agent_run" where
  "work_run env who (CaptureWork _) tid = capture_run env WholeDisk tid"
| "work_run env who (CapturePartitionWork _ p) tid = capture_run env (SinglePartition p) tid"
| "work_run env who (DeployWork _) tid = restore_task env who Http WholeDisk tid"
| "work_run env who (MulticastWork _) tid = restore_task env who Multicast_Source WholeDisk tid"
| "work_run env who (DeployPartitionWork _ p) tid = restore_task env who Http (SinglePartition p) tid"
| "work_run env who (MulticastPartitionWork _ p) tid = restore_task env who Multicast_Source (SinglePartition p) tid"
| "work_run env who RebootWork tid = a_return ()"

subsection \<open>What a task does to a disk\<close>

text \<open>
  The events of a task: data fetched, programs run, files and devices written, file systems mounted into the restored
  system. Every program counts, but for those that only read a disk or detach from it; so does every write. Directories made
  and files removed are the agent's own: mount points, the copy of a table, the script.
\<close>

datatype disk_event = Fetched string "string list" | Ran string "string list" | Wrote string | Mounted "string list"

definition only_reads :: "string \<Rightarrow> string list \<Rightarrow> bool" where
  "only_reads p as \<longleftrightarrow>
     p \<in> {''lsblk'', ''partprobe'', ''umount''} \<or>
     p = ''debugfs'' \<and> take 1 as = [''-R''] \<or>
     p = ''sgdisk'' \<and> as \<noteq> [] \<and> starts_with ''--backup='' (hd as) \<or>
     p = ''btrfs'' \<and> (take 1 as = [''inspect-internal''] \<or> take 2 as = [''check'', ''--readonly''])"

fun disk_event_of :: "call \<Rightarrow> disk_event option" where
  "disk_event_of (Command p as) = (if only_reads p as then None else Some (Ran p as))"
| "disk_event_of (Command_Env p as vars) = (if only_reads p as then None else Some (Ran p as))"
| "disk_event_of (Write_File p b) = Some (Wrote p)"
| "disk_event_of (Download n as) = Some (Fetched n as)"
| "disk_event_of (Other_Call n as) = (if n = ''mount'' then Some (Mounted as) else None)"
| "disk_event_of (Remove_File p) = None"
| "disk_event_of (Make_Dir p) = None"
| "disk_event_of (Remove_Dir p) = None"

fun downloaded :: "call \<Rightarrow> disk_event list" where
  "downloaded (Download n as) = [Fetched n as]"
| "downloaded _ = []"

text \<open>The table is fetched and kept; then the old one is erased and it is loaded.\<close>

fun table_events :: "source \<Rightarrow> shape \<Rightarrow> int \<Rightarrow> block_device \<Rightarrow> disk_event list" where
  "table_events src WholeDisk tid disk =
     downloaded (partition_table_call src tid) @
     [Wrote ''/parttable.bin'',
      Ran ''sgdisk'' [''--zap-all'', ''/dev/'' @ bd_name disk],
      Ran ''sgdisk'' [''--load-backup=/parttable.bin'', ''/dev/'' @ bd_name disk]]"
| "table_events src (SinglePartition _) tid disk = []"

fun imaging_program :: "filesystem \<Rightarrow> string option" where
  "imaging_program Ext2 = Some ''partclone.extfs''"
| "imaging_program Ext3 = Some ''partclone.extfs''"
| "imaging_program Ext4 = Some ''partclone.extfs''"
| "imaging_program Vfat = Some ''partclone.vfat''"
| "imaging_program Btrfs = Some ''partclone.btrfs''"
| "imaging_program Swap = None"

definition write_event :: "partition_target \<Rightarrow> disk_event" where
  "write_event target =
     (case imaging_program (tg_filesystem target) of
        Some p \<Rightarrow> Ran p [''--restore'', ''--no_block_detail'', ''--prog-second'', ''--logfile'', ''/tmp/partclone-log'',
                    ''--source'', ''-'', ''--output'', tg_device target]
      | None \<Rightarrow> Wrote (tg_device target))"

text \<open>What may follow the write: nothing where the file system has no room to grow, or the growing of that device.\<close>

definition growth :: "partition_target \<Rightarrow> disk_event list set" where
  "growth target =
     (let device = tg_device target in
      if tg_filesystem target \<in> {Ext2, Ext3, Ext4}
      then {[], [Ran ''e2fsck'' [''-f'', ''-p'', device], Ran ''resize2fs'' [''-f'', device]]}
      else if tg_filesystem target = Btrfs
      then {[]} \<union> (\<Union>dir. {[Ran ''mount'' [''-t'', ''btrfs'', device, dir], Ran ''btrfs'' [''filesystem'', ''resize'', ''max'', dir]]})
      else {[]})"

definition target_events :: "source \<Rightarrow> int \<Rightarrow> partition_target \<Rightarrow> disk_event list set" where
  "target_events src tid target =
     {downloaded (partition_from src tid (tg_number target)) @ [write_event target] @ grown | grown. grown \<in> growth target}"

text \<open>One of the event lists of each in turn.\<close>

fun each_of :: "('a \<Rightarrow> 'b list set) \<Rightarrow> 'a list \<Rightarrow> 'b list set" where
  "each_of L [] = {[]}"
| "each_of L (x # xs) = {e @ es | e es. e \<in> L x \<and> es \<in> each_of L xs}"

text \<open>What may still happen once all is written: mounting the restored system and running the scripts in it.\<close>

definition after_restore :: "disk_event \<Rightarrow> bool" where
  "after_restore e \<longleftrightarrow> (\<exists>as. e = Mounted as) \<or> (\<exists>as. e = Ran ''chroot'' (''/tmp/imaged-root'' # as)) \<or>
     e = Wrote ''/tmp/imaged-root/tmp/imaged-script''"

abbreviation no_disk_event :: "call \<Rightarrow> bool" where
  "no_disk_event c \<equiv> disk_event_of c = None"

lemma only_reads_simps [simp]:
  "only_reads ''lsblk'' as" "only_reads ''partprobe'' as" "only_reads ''umount'' as"
  "only_reads ''debugfs'' (''-R'' # as)" "only_reads ''btrfs'' (''inspect-internal'' # as)"
  "only_reads ''btrfs'' (''check'' # ''--readonly'' # as)"
  "only_reads ''sgdisk'' (a # as) \<longleftrightarrow> starts_with ''--backup='' a"
  "\<not> only_reads ''e2fsck'' as" "\<not> only_reads ''fsck.fat'' as" "\<not> only_reads ''resize2fs'' as" "\<not> only_reads ''mount'' as"
  "\<not> only_reads ''btrfs'' (''filesystem'' # as)" "\<not> only_reads ''chroot'' as"
  "\<not> only_reads ''partclone.extfs'' as" "\<not> only_reads ''partclone.vfat'' as" "\<not> only_reads ''partclone.btrfs'' as"
  by (auto simp: only_reads_def)

lemma imager_imaging_program:
  "imager_of fs = (case imaging_program fs of Some p \<Rightarrow> Partclone p | None \<Rightarrow> SwapHeader)"
  "imaging_program fs = Some p \<Longrightarrow> \<not> only_reads p as"
  by (cases fs; auto)+

lemma partclone_arguments: "partclone mode = [mode, ''--no_block_detail'', ''--prog-second'', ''--logfile'', ''/tmp/partclone-log'']"
  by (simp add: partclone_def FLAGS_def PARTCLONE_LOG_def)

subsection \<open>The events of the steps\<close>

lemma a_lift_bind: "a_lift (t_bind r f) = a_bind (a_lift r) (\<lambda>x. a_lift (f x))"
  by (auto simp: fun_eq_iff a_lift_def a_bind_def t_bind_def split: prod.splits sum.splits)

lemma in_order_one: "f c = Some e \<Longrightarrow> (\<And>m. snd (snd (r m)) = snd m @ [c]) \<Longrightarrow> in_order f [e] r"
  unfolding in_order_def by (metis marks_Cons marks_Nil option.simps(5) prefix_order.refl snd_conv)

lemma in_order_call:
  assumes "f c = Some e"
  shows "in_order f [e] (a_ask c g)" "in_order f [e] (a_lift (act w c))"
  by (rule in_order_one [where c = c]; simp add: assms a_ask_def a_lift_def act_def Let_def)+

lemma in_order_command: "f (Command p as) = Some e \<Longrightarrow> in_order f [e] (a_lift (command_output w p as))"
  by (rule in_order_one [where c = "Command p as"]) (simp_all add: a_lift_def command_output_def Let_def)

lemma in_order_command_env: "f (Command_Env p as vars) = Some e \<Longrightarrow> in_order f [e] (a_lift (command_env_output w p as vars))"
  by (rule in_order_one [where c = "Command_Env p as vars"]) (simp_all add: a_lift_def command_env_output_def Let_def)

lemma in_order_stop: "in_order f xs (a_lift (t_of (Inl e)))" "in_order f xs (a_lift (t_bail e'))"
  by (auto simp: in_order_def a_lift_def t_of_def t_bail_def)

lemma in_order_context:
  assumes "in_order f xs (a_lift r :: ('f, 'a) agent_run)"
  shows "in_order f xs (a_lift (t_context c r) :: ('f, 'a) agent_run)"
  unfolding in_order_def
proof (intro allI impI)
  fix m m' :: "'f machine" and x
  assume run: "a_lift (t_context c r) m = (x, m')"
  obtain y t where y: "r (snd m) = (y, t)" by fastforce
  with run have "m' = (fst m, t)" "x = with_context c y"
    by (auto simp: a_lift_def t_context_def)
  moreover have lifted: "a_lift r m = (y, (fst m, t))"
    using y by (simp add: a_lift_def)
  moreover have "is_ok (with_context c y) = is_ok y"
    by (cases y) (simp_all add: with_context_def)
  ultimately show "\<exists>d. snd m' = snd m @ d \<and> prefix (marks f d) xs \<and> (is_ok x \<longrightarrow> marks f d = xs)"
    using in_orderD [OF assms lifted] by simp
qed

lemma in_order_if: "(b \<Longrightarrow> in_order f xs r) \<Longrightarrow> (\<not> b \<Longrightarrow> in_order f xs s) \<Longrightarrow> in_order f xs (if b then r else s)"
  by simp

lemma only_quiet: "(\<And>t. snd (r t) = t) \<Longrightarrow> only_calls P r"
  by (simp add: only_calls_def)

lemma only_outcome: "only_calls P (\<lambda>t. (g t, t))"
  by (simp add: only_quiet)

lemma only_sum [only_intros]:
  "(\<And>e. x = Inl e \<Longrightarrow> only_calls P (r e)) \<Longrightarrow> (\<And>y. x = Inr y \<Longrightarrow> only_calls P (s y)) \<Longrightarrow>
   only_calls P (case x of Inl e \<Rightarrow> r e | Inr y \<Rightarrow> s y)"
  by (cases x) simp_all

lemma only_pair [only_intros]: "(\<And>a b. only_calls P (f a b)) \<Longrightarrow> only_calls P (case x of (a, b) \<Rightarrow> f a b)"
  by (cases x) simp

lemma only_option [only_intros]:
  "only_calls P r \<Longrightarrow> (\<And>y. only_calls P (s y)) \<Longrightarrow> only_calls P (case x of None \<Rightarrow> r | Some y \<Rightarrow> s y)"
  by (cases x) simp_all

lemma only_disk_open [only_intros]: "only_calls P (disk_open w open_file path)"
  unfolding disk_open_def logical_sector_size_def by (intro only_intros only_outcome)

lemma only_read_backup [only_intros]: "only_calls P (read_backup w backup)"
  unfolding read_backup_def by (intro only_intros)

lemma a_lift_if: "a_lift (if b then r else s) = (if b then a_lift r else a_lift s)"
  by simp

lemma only_tool [only_intros]: "P (Command p as) \<Longrightarrow> only_calls P (run_tool w p as)"
  unfolding run_tool_def by (intro only_intros)

lemma run_tool_events:
  "disk_event_of (Command p as) = Some e \<Longrightarrow> in_order disk_event_of [e] (a_lift (run_tool w p as))"
  unfolding run_tool_def a_lift_bind
  by (rule in_order_after [OF in_order_command]) (auto intro!: only_intros)

lemma load_table_events:
  "in_order disk_event_of [Ran ''sgdisk'' [''--zap-all'', disk], Ran ''sgdisk'' [''--load-backup='' @ backup, disk]]
    (a_bind (a_lift (run_tool w ''sgdisk'' [''--zap-all'', disk])) (\<lambda>_.
      a_bind (a_lift (run_tool w ''sgdisk'' [''--load-backup='' @ backup, disk])) (\<lambda>_.
        if b then a_lift (run_tool w ''partprobe'' [disk]) else a_lift (t_return ()))))"
proof -
  have zap: "disk_event_of (Command ''sgdisk'' [''--zap-all'', disk]) = Some (Ran ''sgdisk'' [''--zap-all'', disk])"
    and load: "disk_event_of (Command ''sgdisk'' [''--load-backup='' @ backup, disk])
      = Some (Ran ''sgdisk'' [''--load-backup='' @ backup, disk])"
    by (simp_all add: starts_with_iff)
  have "in_order disk_event_of ([Ran ''sgdisk'' [''--zap-all'', disk]] @ [Ran ''sgdisk'' [''--load-backup='' @ backup, disk]])
    (a_bind (a_lift (run_tool w ''sgdisk'' [''--zap-all'', disk])) (\<lambda>_.
      a_bind (a_lift (run_tool w ''sgdisk'' [''--load-backup='' @ backup, disk])) (\<lambda>_.
        if b then a_lift (run_tool w ''partprobe'' [disk]) else a_lift (t_return ()))))"
    by (intro in_order_bind [OF run_tool_events [OF zap]] in_order_after [OF run_tool_events [OF load]] only_intros) simp_all
  then show ?thesis by simp
qed

lemma restore_partition_table_events:
  "in_order disk_event_of [Ran ''sgdisk'' [''--zap-all'', disk], Ran ''sgdisk'' [''--load-backup='' @ backup, disk]]
    (a_lift (restore_partition_table w open_file disk backup sectors))"
  unfolding restore_partition_table_def a_lift_bind a_lift_if Let_def
  by (rule in_order_before [OF only_a_lift [OF only_disk_open]], rule in_order_if, rule in_order_stop,
      rule in_order_before [OF only_a_lift [OF only_read_backup]], rule in_order_before [OF only_a_lift [OF only_of(1)]],
      rule in_order_if, rule in_order_stop, rule load_table_events)

lemma restore_table_events:
  "in_order disk_event_of (table_events src shape tid disk) (restore_table env src shape tid disk layout)"
proof (cases shape)
  case WholeDisk
  have table: "in_order disk_event_of (downloaded (partition_table_call src tid)) (partition_table_from env src tid)"
    by (cases src) (auto simp: multicast_stream_def intro!: in_order_call)
  have kept: "in_order disk_event_of [Wrote ''/parttable.bin''] (a_lift (act w (Write_File PARTTABLE_TMP b)))" for w b
    by (rule in_order_call) (simp add: PARTTABLE_TMP_def)
  have load: "in_order disk_event_of
      [Ran ''sgdisk'' [''--zap-all'', ''/dev/'' @ bd_name disk],
       Ran ''sgdisk'' [''--load-backup=/parttable.bin'', ''/dev/'' @ bd_name disk]]
      (a_lift (restore_partition_table w open_file (get_device disk) PARTTABLE_TMP sectors))" for w open_file sectors
    using restore_partition_table_events [of "get_device disk" PARTTABLE_TMP] by (simp add: get_device_def PARTTABLE_TMP_def)
  have all: "[Wrote ''/parttable.bin'', Ran ''sgdisk'' [''--zap-all'', ''/dev/'' @ bd_name disk],
       Ran ''sgdisk'' [''--load-backup=/parttable.bin'', ''/dev/'' @ bd_name disk]]
    = [Wrote ''/parttable.bin''] @ [Ran ''sgdisk'' [''--zap-all'', ''/dev/'' @ bd_name disk],
       Ran ''sgdisk'' [''--load-backup=/parttable.bin'', ''/dev/'' @ bd_name disk]]"
    by simp
  show ?thesis
    unfolding WholeDisk restore_table.simps table_events.simps a_lift_bind all
    by (rule in_order_bind [OF table], rule in_order_bind [OF kept], rule in_order_after [OF load])
      (intro only_intros, simp_all)
next
  case (SinglePartition p)
  then show ?thesis
    by (auto intro!: in_order_nothing only_intros)
qed

lemma swap_restore_events:
  "in_order disk_event_of [Wrote device] (a_lift (swap_restore w received device))"
proof -
  have "in_order disk_event_of [Wrote device] (a_lift (swap_write w device header))" for header
    unfolding swap_write_def a_lift_bind
    by (rule in_order_before, intro only_intros, simp, rule in_order_after, intro in_order_context in_order_call, simp)
      (intro only_intros, simp)
  then show ?thesis
    unfolding swap_restore_def Let_def a_lift_if by (intro in_order_if in_order_stop)
qed

lemma restore_compressed_events:
  "in_order disk_event_of [write_event target] (a_lift (restore_compressed env (tg_filesystem target) data (tg_device target)))"
proof (cases "imaging_program (tg_filesystem target)")
  case (Some binary)
  have "in_order disk_event_of [write_event target] (a_lift (command_env_output w binary
      (partclone ''--restore'' @ [''--source'', ''-'', ''--output'', tg_device target]) vars))" for w vars
    by (rule in_order_command_env) (simp add: write_event_def Some imager_imaging_program(2) [OF Some] partclone_arguments)
  then show ?thesis
    unfolding restore_compressed_def imager_imaging_program(1) Some option.case imager.case partclone_restore_def a_lift_bind
    by (rule in_order_after) (auto simp: only_calls_def Let_def intro!: only_a_lift)
next
  case None
  then show ?thesis
    by (auto simp: restore_compressed_def imager_imaging_program(1) swap_restore_stream_def write_event_def
        intro!: in_order_stop in_order_context swap_restore_events split: prod.splits option.splits)
qed

subsection \<open>Steps with a choice\<close>

text \<open>
  The events of an operation are the first ones of some list of \<open>L\<close>, and all of it when the operation succeeds.
\<close>

definition follows :: "(call \<Rightarrow> 'b option) \<Rightarrow> 'b list set \<Rightarrow> ('f, 'a) agent_run \<Rightarrow> bool" where
  "follows f L r \<longleftrightarrow> (\<forall>m x m'. r m = (x, m') \<longrightarrow>
     (\<exists>d. snd m' = snd m @ d \<and> (\<exists>es \<in> L. prefix (marks f d) es \<and> (is_ok x \<longrightarrow> marks f d = es))))"

lemma followsD: "follows f L r \<Longrightarrow> r m = (x, m') \<Longrightarrow>
    \<exists>d. snd m' = snd m @ d \<and> (\<exists>es \<in> L. prefix (marks f d) es \<and> (is_ok x \<longrightarrow> marks f d = es))"
  unfolding follows_def by blast

lemma follows_in_order: "follows f {es} r \<longleftrightarrow> in_order f es r"
  by (simp add: follows_def in_order_def)

lemma follows_bind:
  assumes "follows f L r" "\<And>x. follows f K (h x)" "K \<noteq> {}"
  shows "follows f {e @ es | e es. e \<in> L \<and> es \<in> K} (a_bind r h)"
  unfolding follows_def
proof (intro allI impI)
  fix m x m'
  assume run: "a_bind r h m = (x, m')"
  obtain y u where y: "r m = (y, u)" by (cases "r m") blast
  obtain d e where d: "snd u = snd m @ d" "e \<in> L" "prefix (marks f d) e" "is_ok y \<longrightarrow> marks f d = e"
    using followsD [OF assms(1) y] by blast
  show "\<exists>d. snd m' = snd m @ d \<and> (\<exists>es \<in> {e @ es | e es. e \<in> L \<and> es \<in> K}. prefix (marks f d) es \<and> (is_ok x \<longrightarrow> marks f d = es))"
  proof (cases y)
    case (Inl a)
    obtain es where "es \<in> K" using assms(3) by blast
    moreover from Inl run y have "x = Inl a" "m' = u"
      by (simp_all add: a_bind_def)
    moreover from d(3) have "prefix (marks f d) (e @ es)"
      by (rule prefix_prefix)
    ultimately show ?thesis
      using d(1,2) by (intro exI [of _ d] conjI bexI [of _ "e @ es"]) auto
  next
    case (Inr z)
    with run y have "h z u = (x, m')" by (simp add: a_bind_def)
    from followsD [OF assms(2) this] obtain d' es where
      "snd m' = snd u @ d'" "es \<in> K" "prefix (marks f d') es" "is_ok x \<longrightarrow> marks f d' = es" by blast
    with d Inr show ?thesis
      by (intro exI [of _ "d @ d'"] conjI bexI [of _ "e @ es"]) auto
  qed
qed

lemma follows_steps:
  "in_order f xs r \<Longrightarrow> (\<And>x. follows f K (h x)) \<Longrightarrow> K \<noteq> {} \<Longrightarrow> follows f {xs @ es | es. es \<in> K} (a_bind r h)"
  using follows_bind [of f "{xs}" r K h] by (simp add: follows_in_order)

lemma follows_before: "only_agent_calls (\<lambda>c. f c = None) r \<Longrightarrow> (\<And>x. follows f L (h x)) \<Longrightarrow> L \<noteq> {} \<Longrightarrow> follows f L (a_bind r h)"
  using follows_steps [OF in_order_nothing, of f r L h] by simp

lemma follows_after: "follows f L r \<Longrightarrow> (\<And>x. only_agent_calls (\<lambda>c. f c = None) (h x)) \<Longrightarrow> follows f L (a_bind r h)"
  using follows_bind [of f L r "{[]}" h] by (simp add: follows_in_order in_order_nothing)

lemma each_of_nonempty: "(\<And>x. x \<in> set xs \<Longrightarrow> L x \<noteq> {}) \<Longrightarrow> each_of L xs \<noteq> {}"
  by (induction xs) auto

lemma follows_each:
  "(\<And>x. x \<in> set xs \<Longrightarrow> L x \<noteq> {}) \<Longrightarrow> (\<And>x. x \<in> set xs \<Longrightarrow> follows f (L x) (h x)) \<Longrightarrow> follows f (each_of L xs) (a_each h xs)"
proof (induction xs)
  case Nil
  show ?case by (auto simp: follows_in_order intro!: in_order_nothing only_intros)
next
  case (Cons x xs)
  then show ?case
    using each_of_nonempty [of xs L] by (auto intro!: follows_bind)
qed

lemma each_of_map: "each_of (\<lambda>x. L (g x)) xs = each_of L (map g xs)"
  by (induction xs) auto

lemma growth_empty: "growth target \<noteq> {}" "target_events src tid target \<noteq> {}"
  by (auto simp: Let_def growth_def target_events_def Let_def)

lemma grow_events:
  "follows disk_event_of (growth target)
     (\<lambda>m. a_lift (grow (ae_outside env) (ae_fresh env (snd m)) (tg_filesystem target) (tg_device target)) m)"
  unfolding follows_def
proof (intro allI impI)
  fix m m' :: "'a machine" and x
  let ?fs = "tg_filesystem target" and ?dev = "tg_device target" and ?w = "ae_outside env" and ?dir = "ae_fresh env (snd m)"
  assume "a_lift (grow ?w ?dir ?fs ?dev) m = (x, m')"
  then have run: "grow ?w ?dir ?fs ?dev (snd m) = (x, snd m')"
    by (auto simp: a_lift_def split: prod.splits)
  have is_unit: "is_ok x \<longleftrightarrow> x = Inr ()"
    by (cases x) auto
  show "\<exists>d. snd m' = snd m @ d \<and> (\<exists>es \<in> growth target. prefix (marks disk_event_of d) es \<and> (is_ok x \<longrightarrow> marks disk_event_of d = es))"
  proof (cases "?fs \<in> {Ext2, Ext3, Ext4}")
    case True
    with run have "grow_ext ?w ?dev (snd m) = (x, snd m')"
      by (auto simp: grow_def)
    from grow_ext_calls [OF this] obtain k where k: "k \<le> 3" "snd m' = snd m @ take k (ext_calls ?dev)"
      "x = Inr () \<longrightarrow> k = 1 \<or> k = 3" by blast
    let ?es = "[Ran ''e2fsck'' [''-f'', ''-p'', ?dev], Ran ''resize2fs'' [''-f'', ?dev]]"
    have L: "growth target = {[], ?es}"
      using True by (simp add: growth_def Let_def)
    from k(1) have "k = 0 \<or> k = 1 \<or> k = 2 \<or> k = 3" by linarith
    then have "marks disk_event_of (take k (ext_calls ?dev)) = (if k \<le> 1 then [] else take (k - 1) ?es)"
      by (elim disjE) (simp_all add: ext_calls_def)
    with k show ?thesis
      unfolding L is_unit
      by (intro exI [of _ "take k (ext_calls ?dev)"] conjI) (cases "k \<le> 1", auto simp: take_is_prefix)
  next
    case False
    show ?thesis
    proof (cases "?fs = Btrfs")
      case True
      let ?calls = "btrfs_calls ?dev ?dir"
      let ?es = "[Ran ''mount'' [''-t'', ''btrfs'', ?dev, ?dir], Ran ''btrfs'' [''filesystem'', ''resize'', ''max'', ?dir]]"
      from True run have "grow_btrfs ?w ?dir ?dev (snd m) = (x, snd m')"
        by (simp add: grow_def)
      from grow_btrfs_calls [OF this] consider
          k where "k \<le> 2" "snd m' = snd m @ take k ?calls"
        | "snd m' = snd m @ take 3 ?calls @ [Remove_Dir ?dir]" "x \<noteq> Inr ()"
        | v where "snd m' = snd m @ ?calls @ v" "set v \<subseteq> {Command ''umount'' [?dir], Command ''umount'' [''-l'', ?dir], Remove_Dir ?dir}"
        by blast
      then show ?thesis
      proof cases
        case 1
        then have "k \<in> {0, 1, 2}" by auto
        then have "marks disk_event_of (take k ?calls) = []"
          by (auto simp: btrfs_calls_def)
        with 1 True show ?thesis
          by (intro exI [of _ "take k ?calls"]) (auto simp: Let_def growth_def)
      next
        case 2
        with True show ?thesis
          by (intro exI [of _ "take 3 ?calls @ [Remove_Dir ?dir]"] conjI bexI [of _ ?es])
            (auto simp: Let_def growth_def btrfs_calls_def is_unit)
      next
        case 3
        then have "\<forall>c \<in> set v. no_disk_event c" by auto
        then have "marks disk_event_of v = []" by (rule marks_none)
        with 3 True show ?thesis
          by (intro exI [of _ "?calls @ v"] conjI bexI [of _ ?es]) (auto simp: Let_def growth_def btrfs_calls_def)
      qed
    next
      case other: False
      with False run have "snd m' = snd m"
        by (cases ?fs) (auto simp: grow_def t_return_def)
      with False other show ?thesis
        by (intro exI [of _ "[]"]) (auto simp: Let_def growth_def)
    qed
  qed
qed

lemma restore_partition_events:
  "follows disk_event_of (target_events src tid target) (restore_partition env src tid (i, target))"
proof -
  have data: "in_order disk_event_of (downloaded (partition_from src tid n)) (a_ask (partition_from src tid n) g)" for n g
    by (cases src) (auto simp: multicast_stream_def intro!: in_order_call)
  have events: "target_events src tid target = {downloaded (partition_from src tid (tg_number target)) @ es | es.
      es \<in> {[write_event target] @ grown | grown. grown \<in> growth target}}"
    by (auto simp: target_events_def)
  have some: "{[write_event target] @ grown | grown. grown \<in> growth target} \<noteq> {}"
    using growth_empty(1) by blast
  show ?thesis
    unfolding restore_partition_def Let_def snd_conv fst_conv update_view_def events
    by (rule follows_before [OF only_a_return(2)], rule follows_steps [OF data _ some],
        rule follows_steps [OF restore_compressed_events _ growth_empty(1)],
        rule follows_after [OF grow_events only_a_return(2)])
      (use some in blast)
qed

lemma restore_write_events:
  "follows disk_event_of (each_of (target_events src tid) targets) (restore_write env src tid targets)"
proof -
  let ?z = "zip [0..<length targets] targets"
  have "follows disk_event_of (each_of (\<lambda>z. target_events src tid (snd z)) ?z) (a_each (restore_partition env src tid) ?z)"
    by (rule follows_each) (auto simp: growth_empty(2) intro!: restore_partition_events)
  then have each: "follows disk_event_of (each_of (target_events src tid) targets) (a_each (restore_partition env src tid) ?z)"
    by (simp add: each_of_map)
  show ?thesis
    unfolding restore_write_def update_view_def
    by (rule follows_before [OF only_a_return(2)], rule follows_after [OF each only_a_return(2)],
        rule each_of_nonempty, rule growth_empty(2))
qed

definition after_call :: "call \<Rightarrow> bool" where
  "after_call c \<longleftrightarrow> (\<forall>e. disk_event_of c = Some e \<longrightarrow> after_restore e)"

lemma after_call_simps [simp]:
  "after_call (Other_Call n as)" "after_call (Make_Dir p)" "after_call (Remove_File p)" "after_call (Command ''lsblk'' as)"
  "after_call (Command_Env ''chroot'' (ROOT_DIR # as) vars)" "after_call (Write_File (script_place ROOT_DIR) b)"
  by (simp_all add: after_call_def after_restore_def ROOT_DIR_def script_place_def SCRIPT_PATH_def)

lemma post_install_calls: "only_agent_calls after_call (post_install_run env who tid restored how)"
  unfolding post_install_run_def run_group_def run_scripts_def run_one_def run_script_def update_view_def Let_def
  by (intro only_intros) simp_all

lemma after_marks: "\<forall>c \<in> set d. after_call c \<Longrightarrow> \<forall>e \<in> set (marks disk_event_of d). after_restore e"
  by (induction d) (auto simp: after_call_def split: option.splits)

lemma a_bind_cases:
  "a_bind r f m = (x, m') \<Longrightarrow>
   (\<exists>e. r m = (Inl e, m') \<and> x = Inl e) \<or> (\<exists>y u. r m = (Inr y, u) \<and> f y u = (x, m'))"
  by (auto simp: a_bind_def split: prod.splits sum.splits)

lemma a_bind_Inr: "a_bind r f m = (Inr y, m') \<longleftrightarrow> (\<exists>x u. r m = (Inr x, u) \<and> f x u = (Inr y, m'))"
  by (auto simp: a_bind_def split: prod.splits sum.splits)

lemma a_lift_Inr: "a_lift r m = (Inr y, m') \<longleftrightarrow> (\<exists>t. r (snd m) = (Inr y, t) \<and> m' = (fst m, t))"
  by (auto simp: a_lift_def split: prod.splits)

lemma prepare_quiet: "only_agent_calls no_disk_event (restore_prepare env tid)"
  unfolding restore_prepare_def by (intro only_intros) simp_all

lemma prepare_result:
  assumes "restore_prepare env tid m = (Inr (disk, layout), u)"
  shows "ae_layout env (snd m @ [Other_Call ''mark_started'' [int_str tid], Other_Call ''image_layout'' [int_str tid]]) = Inr layout"
    "il_partitions layout \<noteq> []"
    "\<exists>t. find_target_disk (ae_outside env) (ae_lsblk env)
       (snd m @ [Other_Call ''mark_started'' [int_str tid], Other_Call ''image_layout'' [int_str tid]]) = (Inr disk, t)"
  using assms
  by (auto simp: restore_prepare_def a_bind_Inr a_lift_Inr a_ask_def act_def Let_def a_return_def t_bail_def result_simps split: if_splits)

lemma restore_table_found:
  assumes "restore_table env src WholeDisk tid disk layout m = (Inr found, u)"
  shows "\<exists>d. snd u = snd m @ d @ [Command ''lsblk'' [''-J'', ''-b'', ''-o'', LSBLK_COLUMNS]] \<and>
    marks disk_event_of d = table_events src WholeDisk tid disk \<and>
    fst (find_target_disk (ae_outside env) (ae_lsblk env) (snd m @ d)) = Inr found"
proof -
  obtain d where d: "snd u = snd m @ d" "marks disk_event_of d = table_events src WholeDisk tid disk"
    using in_orderD [OF restore_table_events assms] by auto
  obtain t where find: "find_target_disk (ae_outside env) (ae_lsblk env) t = (Inr found, snd u)"
    using assms by (auto simp: a_bind_Inr a_lift_Inr t_simps)
  then have t: "snd u = t @ [Command ''lsblk'' [''-J'', ''-b'', ''-o'', LSBLK_COLUMNS]]"
    by (simp add: find_target_disk_Inr)
  have "d \<noteq> []"
    using d(2) by auto
  then have "d = butlast d @ [last d]" by simp
  moreover from this d(1) t have "last d = Command ''lsblk'' [''-J'', ''-b'', ''-o'', LSBLK_COLUMNS]" "t = snd m @ butlast d"
    by (metis append1_eq_conv append.assoc)+
  ultimately have "d = butlast d @ [Command ''lsblk'' [''-J'', ''-b'', ''-o'', LSBLK_COLUMNS]]" "t = snd m @ butlast d"
    by simp_all
  then obtain d' where d': "d = d' @ [Command ''lsblk'' [''-J'', ''-b'', ''-o'', LSBLK_COLUMNS]]" "t = snd m @ d'"
    by blast
  with d find show ?thesis
    by (intro exI [of _ d']) auto
qed

text \<open>The disk a plan is made on: of a whole disk the one found once its new table is loaded.\<close>

definition planned_on :: "'f agent_env \<Rightarrow> source \<Rightarrow> shape \<Rightarrow> int \<Rightarrow> block_device \<Rightarrow> call list \<Rightarrow> call list \<Rightarrow> block_device \<Rightarrow> bool" where
  "planned_on env src shape tid disk t d found \<longleftrightarrow>
     (case shape of
        WholeDisk \<Rightarrow> \<exists>d0. prefix d0 d \<and> marks disk_event_of d0 = table_events src shape tid disk \<and>
          fst (find_target_disk (ae_outside env) (ae_lsblk env) (t @ d0)) = Inr found
      | SinglePartition _ \<Rightarrow> found = disk)"

lemma planned_on_more:
  "planned_on env src shape tid disk t d found \<Longrightarrow> planned_on env src shape tid disk t (d @ d') found"
  by (auto simp: planned_on_def intro: prefix_prefix split: shape.splits)

lemma planned_on_before:
  assumes "planned_on env src shape tid disk (t @ d1) d found" "marks disk_event_of d1 = []"
  shows "planned_on env src shape tid disk t (d1 @ d) found"
proof (cases shape)
  case WholeDisk
  with assms obtain d0 where "prefix d0 d" "marks disk_event_of d0 = table_events src shape tid disk"
    "fst (find_target_disk (ae_outside env) (ae_lsblk env) ((t @ d1) @ d0)) = Inr found"
    by (auto simp: planned_on_def)
  with WholeDisk assms(2) show ?thesis
    by (auto simp: planned_on_def intro!: exI [of _ "d1 @ d0"])
qed (use assms in \<open>simp add: planned_on_def\<close>)

lemma targets_result:
  assumes "restore_targets env src shape tid (disk, layout) m = (x, u)"
  shows "\<exists>d. snd u = snd m @ d \<and> prefix (marks disk_event_of d) (table_events src shape tid disk) \<and>
    (\<forall>targets. x = Inr targets \<longrightarrow> marks disk_event_of d = table_events src shape tid disk \<and>
      (\<exists>found. restore_plan shape found layout = Inr targets \<and> planned_on env src shape tid disk (snd m) d found))"
proof -
  obtain s where "a_bind (restore_table env src shape tid disk layout) (\<lambda>disk. a_lift (t_of (restore_plan shape disk layout))) (s, snd m)
      = (x, u)"
    using assms by (auto simp: restore_targets_def update_view_def a_bind_def [of "a_status g" for g] a_status_def)
  moreover obtain y v where table: "restore_table env src shape tid disk layout (s, snd m) = (y, v)"
    by (cases "restore_table env src shape tid disk layout (s, snd m)") blast
  ultimately have rest: "(\<exists>e. y = Inl e \<and> x = Inl e \<and> u = v) \<or> (\<exists>found. y = Inr found \<and> x = restore_plan shape found layout \<and> u = v)"
    by (cases y) (auto simp: a_bind_def a_lift_def t_of_def)
  obtain d where d: "snd v = snd m @ d" "prefix (marks disk_event_of d) (table_events src shape tid disk)"
    "is_ok y \<longrightarrow> marks disk_event_of d = table_events src shape tid disk"
    using in_orderD [OF restore_table_events table] by auto
  have "planned_on env src shape tid disk (snd m) d found" if y: "y = Inr found" for found
  proof (cases shape)
    case WholeDisk
    from restore_table_found [OF table [unfolded WholeDisk y]] d(1) WholeDisk show ?thesis
      by (auto simp: planned_on_def)
  next
    case (SinglePartition p)
    with table y show ?thesis by (simp add: planned_on_def a_return_def)
  qed
  with d rest show ?thesis
    by (intro exI [of _ d]) auto
qed

lemma restore_events:
  assumes "restore_task env who src shape tid m = (x, m')"
  defines "asked \<equiv> snd m @ [Other_Call ''mark_started'' [int_str tid], Other_Call ''image_layout'' [int_str tid]]"
  shows "\<exists>d. snd m' = snd m @ d \<and>
    (marks disk_event_of d = [] \<and> \<not> is_ok x \<or>
     (\<exists>layout disk t. ae_layout env asked = Inr layout \<and>
        find_target_disk (ae_outside env) (ae_lsblk env) asked = (Inr disk, t) \<and>
        (prefix (marks disk_event_of d) (table_events src shape tid disk) \<and> \<not> is_ok x \<or>
         (\<exists>found targets es post.
            planned_on env src shape tid disk (snd m) d found \<and> restore_plan shape found layout = Inr targets \<and>
            es \<in> each_of (target_events src tid) targets \<and>
            (prefix (marks disk_event_of d) (table_events src shape tid disk @ es) \<and> \<not> is_ok x \<or>
             marks disk_event_of d = table_events src shape tid disk @ es @ post \<and> (\<forall>e \<in> set post. after_restore e))))))"
proof -
  let ?asked = "\<lambda>layout disk t. ae_layout env asked = Inr layout \<and>
        find_target_disk (ae_outside env) (ae_lsblk env) asked = (Inr disk, t)"
  let ?table = "\<lambda>d disk. prefix (marks disk_event_of d) (table_events src shape tid disk) \<and> \<not> is_ok x"
  let ?planned = "\<lambda>d layout disk. \<exists>found targets es post.
            planned_on env src shape tid disk (snd m) d found \<and> restore_plan shape found layout = Inr targets \<and>
            es \<in> each_of (target_events src tid) targets \<and>
            (prefix (marks disk_event_of d) (table_events src shape tid disk @ es) \<and> \<not> is_ok x \<or>
             marks disk_event_of d = table_events src shape tid disk @ es @ post \<and> (\<forall>e \<in> set post. after_restore e))"
  let ?wr = "restore_write env src tid"
  let ?post = "\<lambda>targets. post_install_run env who tid targets (shape_fstab shape)"
  obtain y u where y: "restore_prepare env tid m = (y, u)" by (cases "restore_prepare env tid m") blast
  from only_agent_callsD [OF prepare_quiet y] obtain d1 where d1: "snd u = snd m @ d1" "marks disk_event_of d1 = []"
    using marks_none by blast
  show ?thesis
  proof (cases y)
    case (Inl e)
    with assms(1) y d1 show ?thesis by (auto simp: restore_task_def a_bind_def)
  next
    case (Inr prepared)
    obtain disk layout where p: "prepared = (disk, layout)" by fastforce
    from prepare_result [OF y [unfolded Inr p]] obtain t where asked: "?asked layout disk t"
      unfolding asked_def by blast
    obtain z v where z: "restore_targets env src shape tid (disk, layout) u = (z, v)"
      by (cases "restore_targets env src shape tid (disk, layout) u") blast
    from targets_result [OF z] obtain d2 where d2: "snd v = snd u @ d2" "prefix (marks disk_event_of d2) (table_events src shape tid disk)"
      "\<And>targets. z = Inr targets \<Longrightarrow> marks disk_event_of d2 = table_events src shape tid disk \<and>
        (\<exists>found. restore_plan shape found layout = Inr targets \<and> planned_on env src shape tid disk (snd u) d2 found)"
      by blast
    show ?thesis
    proof (cases z)
      case (Inl e)
      then have "x = Inl e" "m' = v"
        using assms(1) y z Inr \<open>y = Inr prepared\<close> p by (auto simp: restore_task_def a_bind_def)
      then have "?table (d1 @ d2) disk" "snd m' = snd m @ d1 @ d2"
        using d1 d2(1,2) by simp_all
      with asked show ?thesis by blast
    next
      case (Inr targets)
      from d2(3) [OF Inr] obtain found where d2m: "marks disk_event_of d2 = table_events src shape tid disk"
        and plan: "restore_plan shape found layout = Inr targets" and on: "planned_on env src shape tid disk (snd u) d2 found"
        by blast
      from planned_on_before [of env src shape tid disk "snd m" d1 d2 found] on d1
      have on: "planned_on env src shape tid disk (snd m) (d1 @ d2 @ d3) found" for d3
        using planned_on_more [of env src shape tid disk "snd m" "d1 @ d2" found d3] by simp
      obtain w n where w: "?wr targets v = (w, n)" by (cases "?wr targets v") blast
      from followsD [OF restore_write_events w] obtain d3 es where d3: "snd n = snd v @ d3" "es \<in> each_of (target_events src tid) targets"
        "prefix (marks disk_event_of d3) es" "is_ok w \<longrightarrow> marks disk_event_of d3 = es" by blast
      have after: "a_bind (?wr targets) (\<lambda>_. ?post targets) v = (x, m')"
        using assms(1) y z \<open>y = Inr prepared\<close> p Inr by (simp add: restore_task_def a_bind_def [of "restore_prepare env tid"]
            a_bind_def [of "restore_targets env src shape tid p" for p])
      show ?thesis
      proof (cases w)
        case (Inl e)
        then have "x = Inl e" "m' = n"
          using after w by (simp_all add: a_bind_def)
        moreover have "prefix (marks disk_event_of (d1 @ d2 @ d3)) (table_events src shape tid disk @ es)"
          using d1 d2m d3 by simp
        ultimately have "?planned (d1 @ d2 @ d3) layout disk" "snd m' = snd m @ d1 @ d2 @ d3"
          using on plan d1 d2(1) d3 by auto
        with asked show ?thesis by blast
      next
        case (Inr a)
        then have "?post targets n = (x, m')"
          using after w by (simp add: a_bind_def)
        from only_agent_callsD [OF post_install_calls this] obtain d4 where d4: "snd m' = snd n @ d4"
          "\<forall>e \<in> set (marks disk_event_of d4). after_restore e" using after_marks by blast
        have "marks disk_event_of (d1 @ d2 @ d3 @ d4) = table_events src shape tid disk @ es @ marks disk_event_of d4"
          using d1 d2m d3 Inr by simp
        then have "?planned (d1 @ d2 @ d3 @ d4) layout disk" "snd m' = snd m @ d1 @ d2 @ d3 @ d4"
          using on plan d3(2) d4(2) by blast (simp add: d1(1) d2(1) d3(1) d4(1))
        with asked show ?thesis by blast
      qed
    qed
  qed
qed

subsection \<open>Theorems\<close>

text \<open>C28: A restore writes what was planned, where it was planned. Whatever the server, the disk tools and the scripts answer,
  the transfers, the programs run (those that only read apart) and the writes of a restore are the first ones of this
  sequence. For an image of a whole disk: the download of its partition table, its copy, and \<open>sgdisk --zap-all\<close> and
  \<open>sgdisk --load-backup\<close> on the disk that was found; for an image of one partition none of these. Then for every target of the
  plan, in order: the download of the partition with its number, \<open>partclone --restore\<close> of the file system's kind to the target's
  device (for a swap area the writing of that device), and possibly the growing of that device, \<open>e2fsck\<close> and \<open>resize2fs\<close>
  or a mount and \<open>btrfs filesystem resize\<close> of it. Only when all of that is complete, file systems are mounted and scripts
  placed and started in the \<open>chroot\<close>, and nothing else. A restore that succeeds has done all of it. The plan is the one
  \<open>restore_plan\<close> makes of the server's layout, for an image of one partition on the disk found at the beginning, for one of a
  whole disk on the disk that is found after the new table was loaded.\<close>

theorem restore_follows_plan:
  assumes "restore_task env who src shape tid m = (x, m')"
  defines "asked \<equiv> snd m @ [Other_Call ''mark_started'' [int_str tid], Other_Call ''image_layout'' [int_str tid]]"
  shows "\<exists>d. snd m' = snd m @ d \<and>
    (marks disk_event_of d = [] \<and> \<not> is_ok x \<or>
     (\<exists>layout disk t. ae_layout env asked = Inr layout \<and>
        find_target_disk (ae_outside env) (ae_lsblk env) asked = (Inr disk, t) \<and>
        (prefix (marks disk_event_of d) (table_events src shape tid disk) \<and> \<not> is_ok x \<or>
         (\<exists>found targets es post.
            planned_on env src shape tid disk (snd m) d found \<and> restore_plan shape found layout = Inr targets \<and>
            es \<in> each_of (target_events src tid) targets \<and>
            (prefix (marks disk_event_of d) (table_events src shape tid disk @ es) \<and> \<not> is_ok x \<or>
             marks disk_event_of d = table_events src shape tid disk @ es @ post \<and> (\<forall>e \<in> set post. after_restore e))))))"
  unfolding asked_def by (rule restore_events [OF assms(1)])

definition demo_partition :: image_layout where
  "demo_partition = \<lparr>il_sector_size = 512, il_partitions =
     [\<lparr>ip_id = 9, partition_number = 1, ip_fstype = ''vfat'', ip_size_bytes = 4000,
       ip_fs_uuid = Some ''new'', ip_fs_label = None\<rparr>]\<rparr>"

definition demo_restorer :: "int agent_env" where
  "demo_restorer = demo_agent
     \<lparr>ae_layout := (\<lambda>_. Inr demo_partition), ae_plan := (\<lambda>_. Inr \<lparr>pn_proxy = None, pn_variables = [], pn_scripts = []\<rparr>)\<rparr>"

definition demo_asked :: "call list" where
  "demo_asked = [Other_Call ''mark_started'' [int_str 7], Other_Call ''image_layout'' [int_str 7]]"

definition demo_found_at :: "call list" where
  "demo_found_at = snd (find_target_disk (ae_outside demo_restorer) (ae_lsblk demo_restorer) demo_asked)"

definition demo_targets :: "partition_target list" where
  "demo_targets = [\<lparr>tg_device = ''/dev/nvme0n1p4'', tg_number = 1, tg_filesystem = Vfat, tg_size = 4000,
     tg_fs_uuid = Some ''new'', tg_fs_label = None\<rparr>]"

lemma demo_restorer_finds:
  "find_target_disk (ae_outside demo_restorer) (ae_lsblk demo_restorer) demo_asked = (Inr demo_disk_tree, demo_found_at)"
  unfolding demo_found_at_def by code_simp

lemma demo_restorer_plan: "restore_plan (SinglePartition ''aaaa-04'') demo_disk_tree demo_partition = Inr demo_targets"
  by code_simp

lemma demo_restorer_simps:
  "ae_layout demo_restorer t = Inr demo_partition" "attempt (ae_outside demo_restorer) t = Inr ()"
  "ae_plan demo_restorer t = Inr \<lparr>pn_proxy = None, pn_variables = [], pn_scripts = []\<rparr>"
  "update_view demo_restorer f (new_status, t) = (Inr (), new_status, t)" "il_partitions demo_partition \<noteq> []"
  by (simp_all add: demo_restorer_def demo_agent_def demo_tools_def demo_partition_def update_view_def a_status_def update_task_def
      update_def modify_state_def read_progress_def send_uplink_def change_task_def new_status_def running_task_def Let_def)

lemma demo_restorer_status:
  "a_status (report_partition (ae_fraction demo_restorer) tid i p) (new_status, t) = (Inr (), new_status, t)"
  "a_status (show_partitions (ae_fraction demo_restorer) targets) (new_status, t) = (Inr (), new_status, t)"
  by (simp_all add: a_status_def report_partition_def show_partitions_def update_task_def update_def modify_state_def read_progress_def
      send_uplink_def change_task_def new_status_def running_task_def Let_def)

lemma demo_restorer_runs:
  "run_command (ae_outside demo_restorer) t = Inr \<lparr>out_status = Exited 0, out_stdout = [], out_stderr = []\<rparr>"
  "ae_receive demo_restorer t = Inr []" "ae_copy_error demo_restorer t = None" "ae_decode demo_restorer s = (s, None)"
  by (simp_all add: demo_restorer_def demo_agent_def)

lemma demo_restorer_writes: "is_ok (fst (restore_write demo_restorer Http 7 demo_targets (new_status, demo_found_at)))"
  by (simp add: restore_write_def restore_partition_def demo_targets_def a_bind_def a_ask_def a_lift_def a_return_def t_defs
      demo_restorer_status demo_restorer_simps demo_restorer_runs restore_compressed_def partclone_restore_def restored_result_def
      success_def grow_def)

lemma restore_follows_plan_witness:
  "\<exists>x m' post. restore_task demo_restorer demo_identity Http (SinglePartition ''aaaa-04'') 7 (new_status, []) = (x, m') \<and> is_ok x \<and>
     list_all after_restore post \<and>
     marks disk_event_of (snd m') =
       [Fetched ''partition_data'' [''7'', ''1''],
        Ran ''partclone.vfat'' [''--restore'', ''--no_block_detail'', ''--prog-second'', ''--logfile'', ''/tmp/partclone-log'',
          ''--source'', ''-'', ''--output'', ''/dev/nvme0n1p4'']] @ post"
proof -
  let ?r = "restore_task demo_restorer demo_identity Http (SinglePartition ''aaaa-04'') 7 (new_status, [])"
  obtain x m' where run: "?r = (x, m')"
    by (cases ?r) blast
  have asked: "[Other_Call ''mark_started'' [int_str 7], Other_Call ''image_layout'' [int_str 7]] = demo_asked"
    by (simp add: demo_asked_def)
  have "restore_prepare demo_restorer 7 (new_status, []) = (Inr (demo_disk_tree, demo_partition), new_status, demo_found_at)"
    by (simp add: restore_prepare_def a_bind_def a_lift_def act_def a_ask_def a_return_def Let_def demo_restorer_simps asked
        demo_restorer_finds)
  moreover have "restore_targets demo_restorer Http (SinglePartition ''aaaa-04'') 7 (demo_disk_tree, demo_partition)
      (new_status, demo_found_at) = (Inr demo_targets, new_status, demo_found_at)"
    by (simp add: restore_targets_def a_bind_def a_return_def a_lift_def t_of_def demo_restorer_simps demo_restorer_plan del: restore_plan.simps)
  moreover have "is_ok (fst (post_install_run demo_restorer demo_identity 7 demo_targets Unique v))" for v
    by (simp add: post_install_run_def a_bind_def a_ask_def a_return_def Let_def demo_restorer_simps)
  ultimately have "is_ok (fst ?r)"
    using demo_restorer_writes by (auto simp: restore_task_def a_bind_def split: prod.splits sum.splits)
  with run have ok: "is_ok x" by simp
  have number: "int_str 7 = ''7''" "int_str 1 = ''1''"
    by code_simp+
  have "[Other_Call ''mark_started'' [''7''], Other_Call ''image_layout'' [''7'']] = demo_asked"
    using asked number by simp
  with restore_follows_plan [OF run] ok obtain es post where es: "es \<in> each_of (target_events Http 7) demo_targets"
    "marks disk_event_of (snd m') = es @ post" "\<forall>e \<in> set post. after_restore e"
    by (auto simp: demo_restorer_finds demo_restorer_plan demo_restorer_simps planned_on_def number simp del: restore_plan.simps)
  with run ok show ?thesis
    by (auto simp: list_all_iff demo_targets_def target_events_def growth_def write_event_def number)
qed

subsection \<open>What a capture does\<close>

text \<open>The uploads of tables and partitions, with all their arguments but the data, along with the events of a disk.\<close>

datatype capture_event = Disk disk_event | Sent string "string list"

definition capture_event_of :: "call \<Rightarrow> capture_event option" where
  "capture_event_of c =
     (case c of
        Other_Call n as \<Rightarrow>
          if n \<in> {''upload_partition_table'', ''upload_partition_data''} then Some (Sent n (butlast as))
          else map_option Disk (disk_event_of c)
      | _ \<Rightarrow> map_option Disk (disk_event_of c))"

text \<open>\<open>e2fsck -p\<close> and \<open>fsck.fat -a\<close> repair what they check; \<open>btrfs check\<close> is read-only.\<close>

definition repair_events :: "partition_target \<Rightarrow> capture_event list" where
  "repair_events target =
     (if tg_filesystem target \<in> {Ext2, Ext3, Ext4} then [Disk (Ran ''e2fsck'' [''-p'', tg_device target])]
      else if tg_filesystem target = Vfat then [Disk (Ran ''fsck.fat'' [''-a'', tg_device target])]
      else [])"

definition clone_events :: "partition_target \<Rightarrow> capture_event list" where
  "clone_events target =
     (case imaging_program (tg_filesystem target) of
        Some p \<Rightarrow> [Disk (Ran p [''--clone'', ''--no_block_detail'', ''--prog-second'', ''--logfile'', ''/tmp/partclone-log'',
                    ''--source'', tg_device target, ''--output'', ''-''])]
      | None \<Rightarrow> [])"

definition upload_event :: "int \<Rightarrow> partition_target \<Rightarrow> capture_event" where
  "upload_event tid target =
     Sent ''upload_partition_data''
       ([int_str tid, int_str (tg_number target), fs_as_str (tg_filesystem target), int_str (sint (tg_size target))] @
        (case tg_fs_uuid target of None \<Rightarrow> [] | Some u \<Rightarrow> [''fs_uuid='' @ u]) @
        (case tg_fs_label target of None \<Rightarrow> [] | Some l \<Rightarrow> [''fs_label='' @ l]))"

definition source_events :: "int \<Rightarrow> partition_target \<Rightarrow> capture_event list" where
  "source_events tid target = repair_events target @ clone_events target @ [upload_event tid target]"

fun table_upload :: "shape \<Rightarrow> int \<Rightarrow> capture_event list" where
  "table_upload WholeDisk tid = [Sent ''upload_partition_table'' [int_str tid]]"
| "table_upload (SinglePartition _) tid = []"

abbreviation no_capture_event :: "call \<Rightarrow> bool" where
  "no_capture_event c \<equiv> capture_event_of c = None"

lemma capture_event_simps [simp]:
  "capture_event_of (Command p as) = (if only_reads p as then None else Some (Disk (Ran p as)))"
  "capture_event_of (Command_Env p as vars) = (if only_reads p as then None else Some (Disk (Ran p as)))"
  "capture_event_of (Remove_File p) = None"
  "n \<notin> {''upload_partition_table'', ''upload_partition_data'', ''mount''} \<Longrightarrow> capture_event_of (Other_Call n as) = None"
  "capture_event_of (Other_Call ''upload_partition_table'' as) = Some (Sent ''upload_partition_table'' (butlast as))"
  "capture_event_of (Other_Call ''upload_partition_data'' as) = Some (Sent ''upload_partition_data'' (butlast as))"
  by (simp_all add: capture_event_of_def)

lemma check_in_order:
  "in_order f es (a_lift r :: ('f, 'a) agent_run) \<Longrightarrow>
   in_order f es (a_lift (t_bind (t_context c r) (\<lambda>output. if ok output then t_return () else t_bail (msg output))) :: ('f, unit) agent_run)"
  unfolding a_lift_bind by (rule in_order_after [OF in_order_context]) (auto intro!: only_intros)

lemma repair_in_order: "in_order capture_event_of (repair_events target) (a_lift (repair_filesystem w target))"
  by (cases "tg_filesystem target")
    (auto simp: repair_filesystem_def repair_events_def
      intro!: check_in_order in_order_command in_order_command_env in_order_nothing only_intros)

lemma clone_in_order:
  "in_order capture_event_of (clone_events target) (a_lift (clone_compressed env (tg_filesystem target) (tg_device target)))"
proof (cases "imaging_program (tg_filesystem target)")
  case (Some p)
  have "in_order capture_event_of (clone_events target) (a_lift (command_env_output w p
      (partclone ''--clone'' @ [''--source'', tg_device target, ''--output'', ''-'']) vars))" for w vars
    unfolding clone_events_def Some option.case
    by (rule in_order_command_env) (simp add: imager_imaging_program(2) [OF Some] partclone_arguments)
  then show ?thesis
    unfolding clone_compressed_def imager_imaging_program(1) Some option.case imager.case partclone_capture_def a_lift_bind
    by (rule in_order_after [OF in_order_after]) (intro only_intros only_outcome)+
next
  case None
  have "only_calls no_capture_event (swap_capture w device)" for w device
    unfolding swap_capture_def Let_def by (intro only_intros) simp_all
  with None show ?thesis
    unfolding clone_compressed_def imager_imaging_program(1) clone_events_def
    by (auto intro!: in_order_nothing only_intros)
qed

lemma send_in_order:
  "in_order capture_event_of [upload_event tid target] (a_lift (send_partition env tid target s))"
proof (rule in_order_one)
  let ?as = "[int_str tid, int_str (tg_number target), fs_as_str (tg_filesystem target), int_str (sint (tg_size target))] @
    (case tg_fs_uuid target of None \<Rightarrow> [] | Some u \<Rightarrow> [''fs_uuid='' @ u]) @
    (case tg_fs_label target of None \<Rightarrow> [] | Some l \<Rightarrow> [''fs_label='' @ l]) @ [fst s]"
  let ?c = "Other_Call ''upload_partition_data'' ?as"
  show "capture_event_of ?c = Some (upload_event tid target)"
    by (simp add: upload_event_def butlast_append)
  show "snd (snd (a_lift (send_partition env tid target s) m)) = snd m @ [?c]" for m
    by (cases "snd s") (simp_all add: send_partition_def a_lift_def t_defs split: prod.splits sum.splits)
qed

lemma capture_data_in_order:
  "in_order capture_event_of (source_events tid target) (capture_partition_data env tid (i, target))"
  unfolding capture_partition_data_def Let_def snd_conv fst_conv update_view_def source_events_def
  by (rule in_order_before [OF only_a_return(2)], rule in_order_bind [OF repair_in_order], rule in_order_bind [OF clone_in_order],
      rule in_order_after [OF send_in_order only_a_return(2)])

lemma capture_upload_in_order:
  "in_order capture_event_of (concat (map (source_events tid) targets)) (capture_upload env tid targets)"
proof -
  let ?z = "zip [0..<length targets] targets"
  have "in_order capture_event_of (concat (map (\<lambda>z. source_events tid (snd z)) ?z)) (a_each (capture_partition_data env tid) ?z)"
    by (rule in_order_each) (auto intro: capture_data_in_order)
  moreover have "map (\<lambda>z. source_events tid (snd z)) ?z = map (source_events tid) (map snd ?z)"
    by (simp only: map_map comp_def)
  ultimately have each: "in_order capture_event_of (concat (map (source_events tid) targets)) (a_each (capture_partition_data env tid) ?z)"
    by simp
  show ?thesis
    unfolding capture_upload_def update_view_def
    by (intro in_order_before [OF only_a_return(2)] in_order_after [OF each]) (intro only_intros)
qed

lemma capture_table_in_order:
  "in_order capture_event_of (table_upload shape tid) (a_lift (capture_table env shape tid disk))"
proof (cases shape)
  case WholeDisk
  have backup: "only_calls no_capture_event (backup_partition_table w open_file source backup)" for w open_file source backup
    unfolding backup_partition_table_def by (intro only_intros) (simp_all add: starts_with_iff)
  have upload: "in_order capture_event_of [Sent ''upload_partition_table'' [int_str tid]]
      (a_lift (act w (Other_Call ''upload_partition_table'' [int_str tid, table])))" for w table
    by (rule in_order_call) simp
  show ?thesis
    unfolding WholeDisk capture_table.simps table_upload.simps a_lift_bind
    by (rule in_order_before [OF only_a_lift [OF backup]], rule in_order_before, intro only_intros,
        rule in_order_after [OF upload]) (intro only_intros, simp)
next
  case (SinglePartition p)
  then show ?thesis by (auto intro!: in_order_nothing only_intros)
qed

lemma capture_quiet:
  "only_calls no_capture_event (capture_prepare env tid)" "only_calls no_capture_event (capture_report_root env tid targets)"
proof -
  show "only_calls no_capture_event (capture_prepare env tid)"
    unfolding capture_prepare_def by (intro only_intros) simp_all
  have "only_calls no_capture_event (systems_of w targets)" for w
    by (induction targets) (auto simp: holds_system_def has_os_release_def intro!: only_intros)
  then show "only_calls no_capture_event (capture_report_root env tid targets)"
    unfolding capture_report_root_def by (intro only_intros) simp_all
qed

lemma capture_events:
  assumes "capture_run env shape tid m = (x, m')"
  shows "\<exists>d. snd m' = snd m @ d \<and>
    (marks capture_event_of d = [] \<and> \<not> is_ok x \<or>
     (\<exists>disk t. find_target_disk (ae_outside env) (ae_lsblk env) (snd m) = (Inr disk, t) \<and>
        (prefix (marks capture_event_of d) (table_upload shape tid) \<and> \<not> is_ok x \<or>
         (\<exists>targets. capture_plan shape disk = Inr targets \<and>
            prefix (marks capture_event_of d) (table_upload shape tid @ concat (map (source_events tid) targets)) \<and>
            (is_ok x \<longrightarrow> marks capture_event_of d = table_upload shape tid @ concat (map (source_events tid) targets))))))"
proof -
  let ?tail = "\<lambda>targets. a_bind (capture_upload env tid targets) (\<lambda>_. a_lift (capture_report_root env tid targets))"
  obtain y u where y: "a_lift (capture_prepare env tid) m = (y, u)" by (cases "a_lift (capture_prepare env tid) m") blast
  from only_agent_callsD [OF only_a_lift [OF capture_quiet(1)] y] obtain d1 where
    d1: "snd u = snd m @ d1" "marks capture_event_of d1 = []" using marks_none by blast
  show ?thesis
  proof (cases y)
    case (Inl e)
    with assms y d1 show ?thesis by (auto simp: capture_run_def a_bind_def)
  next
    case (Inr disk)
    then obtain t where found: "find_target_disk (ae_outside env) (ae_lsblk env) (snd m) = (Inr disk, t)"
      using y by (auto simp: a_lift_Inr capture_prepare_def t_simps)
    let ?targets = "capture_targets env shape tid disk"
    obtain z v where z: "?targets u = (z, v)" by (cases "?targets u") blast
    have "in_order capture_event_of (table_upload shape tid) ?targets"
      unfolding capture_targets_def update_view_def
      by (rule in_order_before [OF only_a_return(2)], rule in_order_after [OF capture_table_in_order]) (intro only_intros)
    from in_orderD [OF this z] obtain d2 where d2: "snd v = snd u @ d2" "prefix (marks capture_event_of d2) (table_upload shape tid)"
      "is_ok z \<longrightarrow> marks capture_event_of d2 = table_upload shape tid" by blast
    show ?thesis
    proof (cases z)
      case (Inl e)
      then have "x = Inl e" "m' = v"
        using assms y z \<open>y = Inr disk\<close> by (auto simp: capture_run_def a_bind_def)
      then have "snd m' = snd m @ d1 @ d2" "prefix (marks capture_event_of (d1 @ d2)) (table_upload shape tid) \<and> \<not> is_ok x"
        using d1 d2(1,2) by simp_all
      with found show ?thesis by blast
    next
      case (Inr targets)
      then have plan: "capture_plan shape disk = Inr targets"
        using z by (auto simp: capture_targets_def a_bind_Inr a_lift_Inr t_of_def)
      have after: "?tail targets v = (x, m')"
        using assms y z \<open>y = Inr disk\<close> Inr by (simp add: capture_run_def a_bind_def [of "a_lift (capture_prepare env tid)"]
            a_bind_def [of "capture_targets env shape tid disk"])
      have "in_order capture_event_of (concat (map (source_events tid) targets)) (?tail targets)"
        by (rule in_order_after [OF capture_upload_in_order only_a_lift [OF capture_quiet(2)]])
      from in_orderD [OF this after] obtain d3 where d3: "snd m' = snd v @ d3"
        "prefix (marks capture_event_of d3) (concat (map (source_events tid) targets))"
        "is_ok x \<longrightarrow> marks capture_event_of d3 = concat (map (source_events tid) targets)" by blast
      let ?d = "d1 @ d2 @ d3" and ?es = "table_upload shape tid @ concat (map (source_events tid) targets)"
      have "snd m' = snd m @ ?d" "prefix (marks capture_event_of ?d) ?es" "is_ok x \<longrightarrow> marks capture_event_of ?d = ?es"
        using d1 d2 d3 Inr by simp_all
      with found plan show ?thesis by blast
    qed
  qed
qed

text \<open>C29: A capture uploads what was planned and changes a disk by repairing only. Whatever the server and the disk tools answer,
  the uploads, the programs run (those that only read apart) and the writes of a capture are the first ones of this sequence, and
  all of it when the capture succeeds: for a whole disk the upload of its partition table; then for every partition of the plan
  \<open>capture_plan\<close> makes of the disk that was found, in its order, the repair of that partition before it is read (\<open>e2fsck -p\<close>
  for an ext, \<open>fsck.fat -a\<close> for a vfat file system, none for btrfs and swap), \<open>partclone --clone\<close> of it to the
  output (none for swap, of which the header is read), and its upload with its number, file system, size, UUID and
  label. So the only writes to a disk are those repairs, of partitions that are being captured. A capture without a plan uploads
  no partition.\<close>

theorem capture_uploads_plan:
  assumes "capture_run env shape tid m = (x, m')"
  shows "\<exists>d. snd m' = snd m @ d \<and>
    (marks capture_event_of d = [] \<and> \<not> is_ok x \<or>
     (\<exists>disk t. find_target_disk (ae_outside env) (ae_lsblk env) (snd m) = (Inr disk, t) \<and>
        (prefix (marks capture_event_of d) (table_upload shape tid) \<and> \<not> is_ok x \<or>
         (\<exists>targets. capture_plan shape disk = Inr targets \<and>
            prefix (marks capture_event_of d) (table_upload shape tid @ concat (map (source_events tid) targets)) \<and>
            (is_ok x \<longrightarrow> marks capture_event_of d = table_upload shape tid @ concat (map (source_events tid) targets))))))"
  by (rule capture_events [OF assms])

definition demo_sources :: "partition_target list" where
  "demo_sources = [\<lparr>tg_device = ''/dev/nvme0n1p1'', tg_number = 1, tg_filesystem = Vfat, tg_size = 1000,
     tg_fs_uuid = Some ''ABCD-1234'', tg_fs_label = None\<rparr>]"

definition demo_disk_at :: "call list" where
  "demo_disk_at = snd (find_target_disk (ae_outside demo_restorer) (ae_lsblk demo_restorer) [])"

lemma demo_capture_finds:
  "find_target_disk (ae_outside demo_restorer) (ae_lsblk demo_restorer) [] = (Inr demo_disk_tree, demo_disk_at)"
  unfolding demo_disk_at_def by code_simp

lemma demo_capture_plan: "capture_plan (SinglePartition ''aaaa-01'') demo_disk_tree = Inr demo_sources"
  by code_simp

lemma demo_capture_uploads: "is_ok (fst (capture_upload demo_restorer 7 demo_sources
    (new_status, demo_disk_at @ [Other_Call ''mark_started'' [''7'', ''512'']])))"
  by (simp add: capture_upload_def capture_partition_data_def demo_sources_def a_bind_def a_lift_def a_return_def t_defs
      demo_restorer_status demo_restorer_simps demo_restorer_runs repair_filesystem_def clone_compressed_def partclone_capture_def
      exited_def send_partition_def success_def FSCK_FAT_REPAIRED_def)

lemma demo_capture_root: "is_ok (fst (capture_report_root demo_restorer 7 demo_sources t))"
  by (simp add: capture_report_root_def demo_sources_def holds_system_def is_ext_def t_defs)

lemma capture_uploads_plan_witness:
  "\<exists>x m'. capture_run demo_restorer (SinglePartition ''aaaa-01'') 7 (new_status, []) = (x, m') \<and> is_ok x \<and>
     marks capture_event_of (snd m') =
       [Disk (Ran ''fsck.fat'' [''-a'', ''/dev/nvme0n1p1'']),
        Disk (Ran ''partclone.vfat'' [''--clone'', ''--no_block_detail'', ''--prog-second'', ''--logfile'', ''/tmp/partclone-log'',
          ''--source'', ''/dev/nvme0n1p1'', ''--output'', ''-'']),
        Sent ''upload_partition_data'' [''7'', ''1'', ''vfat'', ''1000'', ''fs_uuid=ABCD-1234'']]"
proof -
  let ?r = "capture_run demo_restorer (SinglePartition ''aaaa-01'') 7 (new_status, [])"
  let ?t = "demo_disk_at @ [Other_Call ''mark_started'' [''7'', ''512'']]"
  obtain x m' where run: "?r = (x, m')"
    by (cases ?r) blast
  have number: "int_str 7 = ''7''" "int_str 1 = ''1''" "int_str 1000 = ''1000''" "nat_str 512 = ''512''"
    by code_simp+
  have "capture_prepare demo_restorer 7 [] = (Inr demo_disk_tree, ?t)"
    by (simp add: capture_prepare_def t_bind_def demo_capture_finds t_of_def logical_sector_def demo_disk_tree_def act_def
        t_return_def Let_def demo_restorer_simps number)
  moreover have "capture_targets demo_restorer (SinglePartition ''aaaa-01'') 7 demo_disk_tree (new_status, ?t)
      = (Inr demo_sources, new_status, ?t)"
    by (simp add: capture_targets_def a_bind_def a_lift_def t_of_def t_return_def demo_restorer_simps demo_capture_plan
        del: capture_plan.simps)
  ultimately have "is_ok (fst ?r)"
    using demo_capture_uploads demo_capture_root
    by (auto simp: capture_run_def a_bind_def a_lift_def split: prod.splits sum.splits) (metis fst_conv is_ok.simps)
  with run have ok: "is_ok x" by simp
  from capture_uploads_plan [OF run] ok show ?thesis
    unfolding run by (auto simp: demo_capture_finds demo_capture_plan source_events_def repair_events_def clone_events_def upload_event_def
        demo_sources_def number
        simp del: capture_plan.simps)
qed

end
