(* ===== verification/Spec2Isabelle.thy ===== *)
theory Spec2Isabelle
  imports Task_Machine Task_Queue Script_Runs Registry Script_Import
    Multicast_Worker Archive_Service Agent_Sessions Agent_Tasks
begin

text \<open>
  Verification of imaged, a server that captures disk images of machines, keeps them and deploys them again.

  \<^bold>\<open>The program.\<close> A machine boots over the network into an agent (\<open>crates/agent\<close>), which connects to the server and
  waits for tasks. A user creates tasks in the web interface: the capture of a disk or partition into an image, its
  deployment to hosts one by one or by multicast, a reboot. The server keeps tasks, hosts, images and scripts in a
  SQLite database (\<open>crates/core/src/repository\<close>) and the image files in a directory; it tells a connected host its
  current task through a registry of connections; the agent runs the task with the tools of \<open>crates/disk\<close>, reports progress
  to a board and the result to the database, and runs post-install scripts whose output is stored. Images leave
  and enter the server as archives. Hosts of a multicast task are served together by a worker.

  \<^bold>\<open>Foundations.\<close> \<open>Prelude\<close> (results \<open>'e + 'a\<close> with \<open>Inl\<close> for an error, the combinators of \<open>Option\<close> and
  \<open>Result\<close>), \<open>Rust_Str\<close> and \<open>Utf8\<close> (strings are lists of bytes, text is their UTF-8 reading), \<open>BTree_Map\<close> (the
  interface \<open>ordered_map\<close> and its instance), \<open>Model_Types\<close> (the shared types of \<open>crates/model\<close>), \<open>App_Error\<close>
  (\<open>crates/model/src/error.rs\<close>), \<open>Mac_Address\<close>.

  \<^bold>\<open>The server's data.\<close> \<open>Tables\<close> is the schema of \<open>crates/core/migrations\<close> as lists of rows, with the constraints as
  a predicate, the triggers and the cascades. The repositories are functions on it, a transaction being one step that
  changes everything or nothing: \<open>Task_Domain\<close> and \<open>Task_Repo\<close> (\<open>domain/task.rs\<close>, \<open>repository/task.rs\<close>) with
  \<open>Task_Listing\<close> (filters and pages), \<open>Host_Repo\<close> (\<open>repository/host.rs\<close>, \<open>repository/group.rs\<close>), \<open>Image_Repo\<close>
  (\<open>repository/image.rs\<close>), \<open>Script_Domain\<close>, \<open>Script_Inputs\<close>, \<open>Script_Repo\<close> (\<open>domain/script.rs\<close>,
  \<open>crates/model/src/script.rs\<close>, \<open>repository/script.rs\<close>), \<open>Script_Output\<close> (\<open>service/script_output.rs\<close>). \<open>Database\<close>
  is one step relation of all of them.

  \<^bold>\<open>The server's services.\<close> \<open>Registry\<close> (\<open>registry.rs\<close>: connections by host and generation, the one-slot
  mailbox, the feed of changes), \<open>Progress\<close> (\<open>progress.rs\<close>), \<open>Multicast_Ports\<close> (\<open>crates/model/src/multicast.rs\<close>) and
  \<open>Multicast_Worker\<close> (\<open>multicast.rs\<close>, \<open>multicast/session.rs\<close>), \<open>Disk_Io\<close> and \<open>Image_Store\<close>
  (\<open>service/image.rs\<close>, on a file system where every call may fail or be the last one), \<open>Archive_Format\<close>, \<open>Archive_Io\<close>
  (\<open>crates/archive\<close>) and \<open>Archive_Service\<close> (\<open>service/archive.rs\<close>). \<open>Server\<close> is the state they share, and
  \<open>Agent_Api\<close> the requests of the agents on it (\<open>crates/api/agent\<close>).

  \<^bold>\<open>The agent.\<close> \<open>Tools\<close> is the outside world of an agent: an operation is a function of the list of all calls made so far
  (programs run, files written, requests sent) that answers and extends the list; what a call answers is an arbitrary
  function of this list. On it stand \<open>Gpt\<close>, \<open>Filesystems\<close> (\<open>crates/disk\<close>), \<open>Block_Device\<close>, \<open>Fstab\<close>
  (\<open>sys/disk.rs\<close>, \<open>sys/fstab.rs\<close>, \<open>sys/mount.rs\<close>, the plans of \<open>shape.rs\<close>), \<open>Agent_Status\<close>
  (\<open>status.rs\<close>), \<open>Agent_Run\<close> (\<open>task.rs\<close>, the reports of \<open>implementations.rs\<close>), \<open>Post_Install\<close> (\<open>post_install.rs\<close>) and
  \<open>Agent_Tasks\<close> (\<open>capture.rs\<close>, \<open>restore.rs\<close>, \<open>source.rs\<close>, \<open>partclone.rs\<close>), whole tasks from the first request to the last.

  \<^bold>\<open>What the lemmas show.\<close>
  The life of a task: \<open>Task_Machine\<close> has an abstract machine (\<open>life_step\<close>) of the types of the tasks and the states of their
  host rows, and shows that any sequence of repository calls moves the rows exactly as the machine does on the same calls, and
  that a result that is reported settles a row once; \<open>Task_Queue\<close> that tasks are
  created whole or not at all, that the next task of a host is the one no other precedes, and that a walk over pages
  lists every task once; \<open>Task_Domain\<close> that the state rolled up in the code is the one the view computes.
  The data: \<open>Database\<close> that no sequence of operations breaks a key, a reference or a counter; \<open>Image_Repo\<close> what a capture that
  starts over and the end of an import leave; \<open>Script_Domain\<close>, \<open>Script_Import\<close> and \<open>Script_Runs\<close> which inputs fit, what an
  import of scripts may touch and that the output shown is the head and the tail of what was recorded.
  The services: connections outlive older ones of the same host and the feed follows the registry; a multicast
  session settles every host of its task; uploads appear whole or not at all under every interruption; an
  archive written is read back, and one that is accepted holds what its checksums say; an import ends ready,
  refused or faulted and cleaned up. \<open>Agent_Sessions\<close> follows whole requests: what they keep of the database, that a
  capture ends complete or failed, that a report may be repeated, that a host learns the task it is to run and that only tasks
  without work for it are passed over, and that, whatever else happens in between (\<open>meanwhile\<close>: requests of any agents and
  anything that does not write the file), the bytes of an upload are the bytes deployed.
  The agent: a disk is erased only when the table is of its sector size and fits; only the one disk that is not the running
  system's is chosen; a restore of one partition is confined to it; mounts stay below the mount point and on the
  restored disk; growing a file system makes a fixed list of calls on its device; the data fetched, the programs run and the writes
  of a restore and a capture are those of the plan in its order, where a capture writes to a disk by repairing its
  source partitions only (\<open>disk_event_of\<close> counts every program but a list of those that only read); scripts are put in place in
  order and their output is bounded; one task runs at a time, its result is reported until it is settled, and what is shown
  is what runs.
  \<open>named_theorems\<close> collect the rules of results (\<open>result_simps\<close>), of runs of calls (\<open>t_simps\<close>) and of the kinds of calls
  an operation makes (\<open>only_intros\<close>); \<open>in_order\<close> of \<open>Agent_Run\<close>, and \<open>follows\<close> of \<open>Agent_Tasks\<close> where the order leaves a choice, are the contracts by which the
  agent's operations compose.
  The locale \<open>ordered_map\<close> is what the clients of \<open>BTreeMap\<close> rely on, interpreted for the map of the model; the locale
  \<open>kept\<close> of \<open>Agent_Sessions\<close> lifts a relation that repository calls keep to the request handlers, interpreted for reads and for
  the database invariant, and for the contents of a partition's file.

  \<^bold>\<open>Bounds and termination.\<close> There is no fuel. Loops are structural recursion or have a measure, and loops that may not end are
  functions of the list of answers they get (\<open>report_loop\<close>, the multicast file loop). Widths are kept where the
  code's arithmetic may wrap or saturate (\<open>u16\<close> ports, \<open>u32\<close> groups and sector sizes, \<open>u64\<close> sizes of disks); ids and the
  \<open>i64\<close> of the database are \<open>int\<close> with the checks of the code.

  \<^bold>\<open>Simplifications.\<close> Database statements and handlers of one request run one after the other; a handler that
  awaits is cut at the points where its code commits. Clocks are arguments. Rates and fractions are values of an
  arbitrary ordered field in place of floating point. SHA-256, JSON, the zstd codec, \<open>lsblk\<close>'s output and derived
  \<open>FromStr\<close> instances are parameters; a tar archive is its list of entries; a stream is the bytes it delivers and the error it
  then ends with; a watch channel is its current value, and the updates of an agent's status follow one another. Log lines are not
  modelled.

  \<^bold>\<open>Not modelled.\<close> The HTTP and WebSocket glue of both sides, the handlers of the web interface's API
  (\<open>crates/api/ui\<close>), which hand their arguments to the repositories, and the web interface itself (\<open>crates/web\<close>): their code
  is third-party frameworks' calls and rendering. The console of the agent and its logging. Network boot
  (\<open>crates/boot\<close>), whose packets are built by protocol crates. The HTTP proxy for scripts (\<open>crates/proxy\<close>), the packing tool
  (\<open>crates/pack\<close>), configuration and start-up (\<open>crates/server\<close>) and the end-to-end tests. The transfer of a multicast
  file itself is the third-party \<open>scuttlecast\<close>; of \<open>partclone\<close> the progress it prints is left out, and of the export of an
  archive the pipe it is streamed through.
\<close>

end
